(* ===== verification/Cpp_Prelude.thy ===== *)
theory Cpp_Prelude
  imports Main "HOL-Library.Word" "HOL-Library.Char_ord" "HOL-Library.List_Lexorder"
    "HOL-Library.Multiset" "HOL-Library.AList"
begin

unbundle bit_operations_syntax

text \<open>
  Shared vocabulary of the development: the C++ types the sources use (bytes, machine
  integers, \<^verbatim>\<open>size_t\<close>), the character classification of \<^verbatim>\<open><cctype>\<close> in the "C" locale,
  the searching and slicing members of \<^verbatim>\<open>std::string\<close>, exceptions as values of a sum type,
  and the generic lemmas on lists, words and characters that the component theories use.
  A \<^verbatim>\<open>std::string\<close> or \<^verbatim>\<open>std::string_view\<close> is a \<open>string\<close> (a list of 8-bit characters).
\<close>

named_theorems cpp_defs \<open>definitions of the C++ standard-library vocabulary\<close>
named_theorems char_facts \<open>facts about character codes and classification\<close>

section \<open>Types\<close>

type_synonym byte = "8 word"
type_synonym u16 = "16 word"
type_synonym u32 = "32 word"
type_synonym u64 = "64 word"

abbreviation INT_MIN :: int where "INT_MIN \<equiv> - 2147483648"
abbreviation INT_MAX :: int where "INT_MAX \<equiv> 2147483647"
abbreviation INT64_MIN :: int where "INT64_MIN \<equiv> - 9223372036854775808"
abbreviation INT64_MAX :: int where "INT64_MAX \<equiv> 9223372036854775807"
abbreviation UINT64_MAX :: int where "UINT64_MAX \<equiv> 18446744073709551615"

text \<open>
  The standard exceptions that the sources throw or catch. A function that can throw has
  the result type \<open>std_exn + 'a\<close>: \<open>Inl\<close> is the exception, \<open>Inr\<close> the returned value.
\<close>

datatype std_exn =
    InvalidArgument string
  | OutOfRange string
  | LengthError string
  | LogicError string
  | RuntimeError string
  | BadAnyCast

text \<open>The outcome of code that can run into undefined behaviour (signed overflow, an access out
  of bounds): either it returns, or nothing is known.\<close>

datatype 'a cpp_result = Ret 'a | UB

fun bind_sum :: "'e + 'a \<Rightarrow> ('a \<Rightarrow> 'e + 'b) \<Rightarrow> 'e + 'b" where
  "bind_sum (Inl e) f = Inl e"
| "bind_sum (Inr x) f = f x"

lemma bind_sum_Inr_iff: "bind_sum m f = Inr y \<longleftrightarrow> (\<exists>x. m = Inr x \<and> f x = Inr y)"
  by (cases m) auto

text \<open>\<^verbatim>\<open>size_t\<close> subtraction: 64-bit unsigned, so it wraps below zero.\<close>

definition size_sub :: "nat \<Rightarrow> nat \<Rightarrow> nat" where
  "size_sub a b = (if b \<le> a then a - b else 2 ^ 64 + a - b)"

lemma size_sub_exact [simp]: "b \<le> a \<Longrightarrow> size_sub a b = a - b"
  by (simp add: size_sub_def)

lemma size_sub_wraps: "a < b \<Longrightarrow> b < 2 ^ 64 \<Longrightarrow> a < size_sub a b"
  by (simp add: size_sub_def)

definition size_add :: "nat \<Rightarrow> nat \<Rightarrow> nat" where
  "size_add a b = (a + b) mod 2 ^ 64"

lemma size_add_exact [simp]: "a + b < 2 ^ 64 \<Longrightarrow> size_add a b = a + b"
  by (simp add: size_add_def)

text \<open>\<^verbatim>\<open>PTRDIFF_MAX\<close>, the largest size of a \<^verbatim>\<open>std::vector<char>\<close> or \<^verbatim>\<open>std::string\<close>: a request for
  more throws \<^verbatim>\<open>std::length_error\<close>.\<close>

abbreviation max_size :: nat where "max_size \<equiv> 9223372036854775807"

fun bind_ub :: "'a cpp_result \<Rightarrow> ('a \<Rightarrow> 'b cpp_result) \<Rightarrow> 'b cpp_result" where
  "bind_ub (Ret x) f = f x"
| "bind_ub UB f = UB"

text \<open>Reading and overwriting a range of an array: undefined when a non-empty range leaves it.\<close>

definition read_range :: "'a list \<Rightarrow> nat \<Rightarrow> nat \<Rightarrow> 'a list cpp_result" where
  "read_range xs p n = (if n = 0 then Ret [] else if p + n \<le> length xs then Ret (take n (drop p xs)) else UB)"

definition write_range :: "'a list \<Rightarrow> nat \<Rightarrow> 'a list \<Rightarrow> 'a list cpp_result" where
  "write_range xs p d =
     (if d = [] then Ret xs
      else if p + length d \<le> length xs then Ret (take p xs @ d @ drop (p + length d) xs) else UB)"

lemma read_range_in [simp]: "p + n \<le> length xs \<Longrightarrow> read_range xs p n = Ret (take n (drop p xs))"
  by (simp add: read_range_def)

lemma write_range_in [simp]:
  "p + length d \<le> length xs \<Longrightarrow> write_range xs p d = Ret (take p xs @ d @ drop (p + length d) xs)"
  by (simp add: write_range_def)

section \<open>Characters and bytes\<close>

abbreviation code :: "char \<Rightarrow> nat" where "code c \<equiv> of_char c"

definition byte_of_char :: "char \<Rightarrow> byte" where
  "byte_of_char c = word_of_nat (code c)"

definition char_of_byte :: "byte \<Rightarrow> char" where
  "char_of_byte b = char_of (unat b)"

lemma code_less_256: "code c < 256"
  by simp

lemma code_inject [simp]: "code c = code d \<longleftrightarrow> c = d"
  by (rule of_char_eq_iff)

lemma code_char_of [simp]: "n < 256 \<Longrightarrow> code (char_of n) = n"
  by simp

lemma unat_byte_of_char [simp]: "unat (byte_of_char c) = code c"
  by (simp add: byte_of_char_def unat_of_nat)

lemma unat_byte_less [simp]: "unat (b :: byte) < 256"
  using unsigned_less [of b, where 'a = nat] by simp

lemma code_char_of_byte [simp]: "code (char_of_byte b) = unat b"
  by (simp add: char_of_byte_def)

lemma char_of_byte_inverse [simp]: "byte_of_char (char_of_byte b) = b"
  by (simp add: byte_of_char_def)

lemma byte_of_char_inverse [simp]: "char_of_byte (byte_of_char c) = c"
  by (simp add: char_of_byte_def)

lemma map_char_byte_inverse [simp]: "map (byte_of_char \<circ> char_of_byte) bs = bs"
  by (simp add: o_def)

lemma map_byte_char_inverse [simp]: "map (char_of_byte \<circ> byte_of_char) cs = cs"
  by (simp add: o_def)

subsection \<open>Classification (\<^verbatim>\<open><cctype>\<close>, "C" locale)\<close>

definition isdigit :: "char \<Rightarrow> bool" where
  "isdigit c \<longleftrightarrow> 48 \<le> code c \<and> code c \<le> 57"

definition isspace :: "char \<Rightarrow> bool" where
  "isspace c \<longleftrightarrow> code c = 32 \<or> (9 \<le> code c \<and> code c \<le> 13)"

definition isxdigit :: "char \<Rightarrow> bool" where
  "isxdigit c \<longleftrightarrow> isdigit c \<or> (65 \<le> code c \<and> code c \<le> 70) \<or> (97 \<le> code c \<and> code c \<le> 102)"

definition tolower :: "char \<Rightarrow> char" where
  "tolower c = (if 65 \<le> code c \<and> code c \<le> 90 then char_of (code c + 32) else c)"

definition toupper :: "char \<Rightarrow> char" where
  "toupper c = (if 97 \<le> code c \<and> code c \<le> 122 then char_of (code c - 32) else c)"

lemmas cctype_defs [cpp_defs] = isdigit_def isspace_def isxdigit_def tolower_def toupper_def

lemma isdigit_not_isspace [char_facts]: "isdigit c \<Longrightarrow> \<not> isspace c"
  by (auto simp: isdigit_def isspace_def)

section \<open>Slicing and searching strings\<close>

text \<open>
  \<^verbatim>\<open>s.substr(pos, n)\<close> for \<open>pos \<le> s.size()\<close>; the callers below never pass a larger \<open>pos\<close>
  except where the model says so.
\<close>

definition substr :: "'a list \<Rightarrow> nat \<Rightarrow> nat \<Rightarrow> 'a list" where
  "substr s pos n = take n (drop pos s)"

text \<open>\<^verbatim>\<open>s.find(c)\<close>: the index of the first occurrence, \<open>None\<close> for \<^verbatim>\<open>npos\<close>.\<close>

fun find_index :: "('a \<Rightarrow> bool) \<Rightarrow> 'a list \<Rightarrow> nat option" where
  "find_index P [] = None"
| "find_index P (x # xs) = (if P x then Some 0 else map_option Suc (find_index P xs))"

lemma find_index_None_iff [simp]: "find_index P xs = None \<longleftrightarrow> (\<forall>x\<in>set xs. \<not> P x)"
  by (induction xs) auto

lemma find_index_Some_iff:
  "find_index P xs = Some i \<longleftrightarrow> i < length xs \<and> P (xs ! i) \<and> (\<forall>j<i. \<not> P (xs ! j))"
proof (induction xs arbitrary: i)
  case Nil
  then show ?case by simp
next
  case (Cons x xs)
  show ?case
  proof (cases i)
    case 0
    then show ?thesis by auto
  next
    case (Suc k)
    then show ?thesis using Cons.IH [of k] by (auto simp: less_Suc_eq_0_disj)
  qed
qed

lemma find_index_append_first:
  "\<forall>x\<in>set xs. \<not> P x \<Longrightarrow> P y \<Longrightarrow> find_index P (xs @ y # ys) = Some (length xs)"
  by (induction xs) auto

lemma find_index_Some_split:
  "find_index P xs = Some i \<Longrightarrow>
     \<exists>ys y zs. xs = ys @ y # zs \<and> length ys = i \<and> P y \<and> (\<forall>x\<in>set ys. \<not> P x)"
proof (induction xs arbitrary: i)
  case Nil
  then show ?case by simp
next
  case (Cons x xs)
  show ?case
  proof (cases "P x")
    case True
    with Cons.prems show ?thesis by auto
  next
    case False
    with Cons.prems obtain k where "find_index P xs = Some k" and i: "i = Suc k" by auto
    from Cons.IH [OF this(1)] obtain ys y zs
      where "xs = ys @ y # zs" "length ys = k" "P y" "\<forall>x\<in>set ys. \<not> P x" by blast
    with False i have "x # xs = (x # ys) @ y # zs \<and> length (x # ys) = i \<and> P y
      \<and> (\<forall>x\<in>set (x # ys). \<not> P x)" by simp
    then show ?thesis by blast
  qed
qed

text \<open>\<^verbatim>\<open>s.find(sub, pos)\<close>: the first \<open>i \<ge> pos\<close> at which \<open>sub\<close> occurs in \<open>s\<close>. An empty \<open>sub\<close>
  occurs at every \<open>i \<le> s.size()\<close>.\<close>

definition starts_with :: "'a list \<Rightarrow> 'a list \<Rightarrow> bool" where
  "starts_with sub s \<longleftrightarrow> take (length sub) s = sub"

fun find_sub :: "'a list \<Rightarrow> 'a list \<Rightarrow> nat option" where
  "find_sub sub [] = (if sub = [] then Some 0 else None)"
| "find_sub sub (x # xs) =
     (if starts_with sub (x # xs) then Some 0 else map_option Suc (find_sub sub xs))"

definition find_sub_from :: "'a list \<Rightarrow> 'a list \<Rightarrow> nat \<Rightarrow> nat option" where
  "find_sub_from s sub pos =
     (if pos \<le> length s then map_option (\<lambda>i. pos + i) (find_sub sub (drop pos s)) else None)"

definition find_char_from :: "'a list \<Rightarrow> 'a \<Rightarrow> nat \<Rightarrow> nat option" where
  "find_char_from s c pos = map_option (\<lambda>i. pos + i) (find_index (\<lambda>x. x = c) (drop pos s))"

lemma starts_with_iff: "starts_with sub s \<longleftrightarrow> (\<exists>t. s = sub @ t)"
  unfolding starts_with_def by (metis append_eq_conv_conj append_take_drop_id)

lemma find_sub_Nil [simp]: "find_sub [] s = Some 0"
  by (cases s) (auto simp: starts_with_def)

lemma find_sub_Some:
  "find_sub sub s = Some i \<Longrightarrow> i + length sub \<le> length s \<and> take (length sub) (drop i s) = sub"
proof (induction s arbitrary: i)
  case Nil
  then show ?case by (auto split: if_splits)
next
  case (Cons x xs)
  show ?case
  proof (cases "starts_with sub (x # xs)")
    case True
    then have "length sub \<le> length (x # xs)"
      unfolding starts_with_def by (metis length_take min.cobounded1)
    with Cons.prems True show ?thesis by (auto simp: starts_with_def)
  next
    case False
    with Cons.prems obtain k where "find_sub sub xs = Some k" "i = Suc k" by auto
    with Cons.IH show ?thesis by auto
  qed
qed

lemma find_sub_first:
  "find_sub sub s = Some i \<Longrightarrow> j < i \<Longrightarrow> take (length sub) (drop j s) \<noteq> sub"
proof (induction s arbitrary: i j)
  case Nil
  then show ?case by (auto split: if_splits)
next
  case (Cons x xs)
  then show ?case
    by (cases j) (auto simp: starts_with_def split: if_splits)
qed

lemma find_sub_None:
  "find_sub sub s = None \<Longrightarrow> take (length sub) (drop j s) \<noteq> sub"
proof (induction s arbitrary: j)
  case Nil
  then show ?case by (auto split: if_splits)
next
  case (Cons x xs)
  then show ?case
    by (cases j) (auto simp: starts_with_def split: if_splits)
qed

text \<open>
  \<^verbatim>\<open>s.find_first_not_of(set)\<close> and \<^verbatim>\<open>s.find_last_not_of(set)\<close> with the \<^verbatim>\<open>substr\<close> that follows
  them in the trimming functions amount to dropping a prefix and a suffix.
\<close>

definition find_first_not_of :: "'a list \<Rightarrow> 'a list \<Rightarrow> nat option" where
  "find_first_not_of s cs = find_index (\<lambda>x. x \<notin> set cs) s"

definition find_last_not_of :: "'a list \<Rightarrow> 'a list \<Rightarrow> nat option" where
  "find_last_not_of s cs =
     map_option (\<lambda>i. length s - 1 - i) (find_index (\<lambda>x. x \<notin> set cs) (rev s))"

lemma find_index_eq_takeWhile:
  "find_index P xs = (if \<forall>x\<in>set xs. \<not> P x then None else Some (length (takeWhile (\<lambda>x. \<not> P x) xs)))"
  by (induction xs) auto

lemma drop_find_index:
  "find_index P xs = Some i \<Longrightarrow> drop i xs = dropWhile (\<lambda>x. \<not> P x) xs"
  by (auto simp: find_index_eq_takeWhile dropWhile_eq_drop split: if_splits)

definition strip_right :: "('a \<Rightarrow> bool) \<Rightarrow> 'a list \<Rightarrow> 'a list" where
  "strip_right P xs = rev (dropWhile P (rev xs))"

definition strip :: "('a \<Rightarrow> bool) \<Rightarrow> 'a list \<Rightarrow> 'a list" where
  "strip P xs = strip_right P (dropWhile P xs)"

lemma take_find_last_not_of:
  assumes "find_last_not_of s cs = Some i"
  shows "i < length s" and "take (Suc i) s = strip_right (\<lambda>x. x \<in> set cs) s"
proof -
  from assms obtain k where k: "find_index (\<lambda>x. x \<notin> set cs) (rev s) = Some k"
    and i: "i = length s - 1 - k" by (auto simp: find_last_not_of_def)
  then have kl: "k < length s" by (simp add: find_index_Some_iff)
  with i show "i < length s" by simp
  from i kl have "length s - k = Suc i" by arith
  then have "take (Suc i) s = rev (drop k (rev s))"
    by (simp add: drop_rev)
  with drop_find_index [OF k] show "take (Suc i) s = strip_right (\<lambda>x. x \<in> set cs) s"
    by (simp add: strip_right_def)
qed

lemma strip_right_append_nonblank:
  "\<not> P x \<Longrightarrow> strip_right P (xs @ x # ys) = xs @ x # strip_right P ys"
proof -
  assume x: "\<not> P x"
  show ?thesis
  proof (cases "\<forall>y\<in>set ys. P y")
    case True
    then have "dropWhile P (rev ys @ x # rev xs) = x # rev xs"
      using x by (subst dropWhile_append2) auto
    moreover from True have "dropWhile P (rev ys) = []" by simp
    ultimately show ?thesis by (simp add: strip_right_def)
  next
    case False
    then show ?thesis by (auto simp: strip_right_def dropWhile_append1)
  qed
qed

lemma strip_right_idem: "strip_right P (strip_right P xs) = strip_right P xs"
  by (simp add: strip_right_def dropWhile_idem)

lemma strip_all_blank: "\<forall>x\<in>set xs. P x \<Longrightarrow> strip P xs = []"
  unfolding strip_def strip_right_def by (subst dropWhile_eq_Nil_conv [THEN iffD2]) auto

lemma strip_cases:
  "(\<forall>x\<in>set xs. P x) \<and> strip P xs = []
   \<or> (\<exists>ys y zs. xs = ys @ y # zs \<and> (\<forall>x\<in>set ys. P x) \<and> \<not> P y \<and> strip P xs = y # strip_right P zs)"
proof (cases "find_index (\<lambda>x. \<not> P x) xs")
  case None
  then have "\<forall>x\<in>set xs. P x" by simp
  moreover from this have "strip P xs = []" by (rule strip_all_blank)
  ultimately show ?thesis by blast
next
  case (Some i)
  then obtain ys y zs where s: "xs = ys @ y # zs" "\<not> P y" "\<forall>x\<in>set ys. P x"
    by (auto dest: find_index_Some_split)
  then have "strip P xs = y # strip_right P zs"
    using strip_right_append_nonblank [of P y "[]" zs] by (simp add: strip_def dropWhile_append2)
  with s show ?thesis by blast
qed

lemma strip_idem [simp]: "strip P (strip P xs) = strip P xs"
  using strip_cases [of xs P]
proof (elim disjE exE conjE)
  assume nil: "strip P xs = []"
  show ?thesis unfolding nil by (simp add: strip_def strip_right_def)
next
  fix ys y zs
  assume y: "\<not> P y" and eq: "strip P xs = y # strip_right P zs"
  then show ?thesis
    unfolding eq using strip_right_append_nonblank [of P y "[]" "strip_right P zs"]
    by (simp add: strip_def strip_right_idem)
qed

lemma strip_id:
  assumes "s \<noteq> []" "\<not> P (hd s)" "\<not> P (last s)"
  shows "strip P s = s"
proof -
  have "dropWhile P s = s" using assms(1,2) by (cases s) simp_all
  moreover have "dropWhile P (rev s) = rev s" using assms(1,3) by (cases s rule: rev_cases) simp_all
  ultimately show ?thesis by (simp add: strip_def strip_right_def)
qed

lemma strip_ends:
  assumes "strip P s = s" "s \<noteq> []"
  shows "\<not> P (hd s)" "\<not> P (last s)"
proof -
  have r: "strip P s = rev (dropWhile P (rev (dropWhile P s)))" by (simp add: strip_def strip_right_def)
  have "dropWhile P (rev (dropWhile P s)) \<noteq> []" using assms r by (metis rev_is_Nil_conv)
  then have "\<not> P (hd (dropWhile P (rev (dropWhile P s))))" by (rule hd_dropWhile)
  then show "\<not> P (last s)" using assms r by (metis hd_rev rev_rev_ident)
  have "dropWhile P s = s"
  proof (rule ccontr)
    assume "dropWhile P s \<noteq> s"
    then have "length (dropWhile P s) < length s"
      by (metis dropWhile_eq_drop drop_0 length_drop length_greater_0_conv assms(2) diff_less gr0I)
    moreover have "length (strip P s) \<le> length (dropWhile P s)"
      using length_dropWhile_le [of P "rev (dropWhile P s)"] by (simp add: r)
    ultimately show False using assms(1) by simp
  qed
  then show "\<not> P (hd s)" using assms(2) hd_dropWhile [of P s] by simp
qed

text \<open>The idiom \<^verbatim>\<open>s.substr(first, last - first + 1)\<close> of the trimming functions.\<close>

lemma trim_substr_strip:
  "(case find_first_not_of s cs of
      None \<Rightarrow> []
    | Some first \<Rightarrow> (case find_last_not_of s cs of None \<Rightarrow> [] | Some l \<Rightarrow> substr s first (l - first + 1)))
   = strip (\<lambda>c. c \<in> set cs) s"
proof (cases "find_first_not_of s cs")
  case None
  then have "\<forall>x\<in>set s. x \<in> set cs" by (auto simp: find_first_not_of_def)
  then have "strip (\<lambda>c. c \<in> set cs) s = []" by (rule strip_all_blank)
  with None show ?thesis by simp
next
  case (Some first)
  then obtain ys y zs where s: "s = ys @ y # zs" and y: "y \<notin> set cs"
    and ys: "length ys = first" "\<forall>x\<in>set ys. x \<in> set cs"
    unfolding find_first_not_of_def by (auto dest: find_index_Some_split)
  then have "find_last_not_of s cs \<noteq> None"
    by (auto simp: find_last_not_of_def)
  then obtain l where l: "find_last_not_of s cs = Some l" by auto
  note tk = take_find_last_not_of [OF l]
  from tk(2) s y have "take (Suc l) s = ys @ y # strip_right (\<lambda>c. c \<in> set cs) zs"
    by (simp add: strip_right_append_nonblank)
  then have "drop first (take (Suc l) s) = y # strip_right (\<lambda>c. c \<in> set cs) zs"
    using ys(1) by simp
  moreover from this have "first < Suc l"
    by (metis drop_all length_take list.distinct(1) min.cobounded2 not_less order_trans)
  then have "substr s first (l - first + 1) = drop first (take (Suc l) s)"
    by (simp add: substr_def drop_take Suc_diff_le)
  moreover have "strip (\<lambda>c. c \<in> set cs) s = y # strip_right (\<lambda>c. c \<in> set cs) zs"
    using s y ys(2) strip_right_append_nonblank [of "\<lambda>c. c \<in> set cs" y "[]" zs]
    by (simp add: strip_def dropWhile_append2)
  ultimately show ?thesis using Some l by simp
qed

section \<open>Interface: encoders and decoders\<close>

text \<open>
  Several components promise the same contract: a decoder recovers every admissible encoded
  value (\<open>codec\<close>), and some accept nothing but encodings (\<open>strict_codec\<close>). Their clients
  need only these laws.
\<close>

locale codec =
  fixes enc :: "'a \<Rightarrow> 'b" and dec :: "'b \<Rightarrow> 'a option" and admissible :: "'a \<Rightarrow> bool"
  assumes dec_enc: "admissible x \<Longrightarrow> dec (enc x) = Some x"
begin

lemma enc_inject: "admissible x \<Longrightarrow> admissible y \<Longrightarrow> enc x = enc y \<longleftrightarrow> x = y"
  using dec_enc by (metis option.inject)

lemma map_dec_enc: "list_all admissible xs \<Longrightarrow> map dec (map enc xs) = map Some xs"
  by (induction xs) (auto simp: dec_enc)

end

locale strict_codec = codec +
  assumes enc_dec: "dec y = Some x \<Longrightarrow> admissible x \<and> enc x = y"
begin

lemma dec_iff: "dec y = Some x \<longleftrightarrow> admissible x \<and> y = enc x"
  using dec_enc enc_dec by blast

lemma accepts_iff: "dec y \<noteq> None \<longleftrightarrow> (\<exists>x. admissible x \<and> y = enc x)"
  using dec_iff by auto

lemma dec_inject: "dec y = Some x \<Longrightarrow> dec z = Some x \<Longrightarrow> y = z"
  using enc_dec by metis

end

section \<open>First-in first-out interfaces\<close>

text \<open>
  A component that buffers items in order: \<open>put\<close> accepts a prefix of a batch and says how long it
  is, \<open>get\<close> delivers at most so many items. A run keeps what was accepted and what was delivered.
\<close>

datatype 'a fifo_op = Put "'a list" | Get nat

fun fifo_run ::
  "('s \<Rightarrow> 'a list \<Rightarrow> nat \<times> 's) \<Rightarrow> ('s \<Rightarrow> nat \<Rightarrow> 'a list \<times> 's) \<Rightarrow> 'a fifo_op list \<Rightarrow> 's \<Rightarrow> 'a list \<times> 'a list \<times> 's" where
  "fifo_run put get [] s = ([], [], s)"
| "fifo_run put get (Put xs # ops) s =
     (let (n, s') = put s xs; (a, d, t) = fifo_run put get ops s' in (take n xs @ a, d, t))"
| "fifo_run put get (Get n # ops) s =
     (let (ys, s') = get s n; (a, d, t) = fifo_run put get ops s' in (a, ys @ d, t))"

locale fifo =
  fixes inv :: "'s \<Rightarrow> bool" and contents :: "'s \<Rightarrow> 'a list"
    and put :: "'s \<Rightarrow> 'a list \<Rightarrow> nat \<times> 's" and get :: "'s \<Rightarrow> nat \<Rightarrow> 'a list \<times> 's"
  assumes put_ok: "inv s \<Longrightarrow> put s xs = (n, s') \<Longrightarrow> inv s' \<and> contents s' = contents s @ take n xs"
    and get_ok: "inv s \<Longrightarrow> get s n = (ys, s') \<Longrightarrow> inv s' \<and> ys = take n (contents s) \<and> contents s' = drop n (contents s)"
begin

lemma run_conserves:
  "inv s \<Longrightarrow> fifo_run put get ops s = (a, d, t) \<Longrightarrow> inv t \<and> contents s @ a = d @ contents t"
proof (induction ops arbitrary: s a d)
  case Nil
  then show ?case by simp
next
  case (Cons op ops)
  show ?case
  proof (cases op)
    case (Put xs)
    obtain n s' where p: "put s xs = (n, s')" by fastforce
    then obtain a' where r: "fifo_run put get ops s' = (a', d, t)" "a = take n xs @ a'"
      using Cons.prems Put by (auto split: prod.splits)
    show ?thesis using put_ok [OF Cons.prems(1) p] Cons.IH [OF _ r(1)] r(2) by auto
  next
    case (Get n)
    obtain ys s' where g: "get s n = (ys, s')" by fastforce
    then obtain d' where r: "fifo_run put get ops s' = (a, d', t)" "d = ys @ d'"
      using Cons.prems Get by (auto split: prod.splits)
    have c: "inv s'" "ys @ contents s' = contents s" using get_ok [OF Cons.prems(1) g] by simp_all
    then show ?thesis using Cons.IH [OF c(1) r(1)] r(2) c(2) [symmetric] by simp
  qed
qed

lemma run_delivers_prefix:
  assumes "inv s" "contents s = []" "fifo_run put get ops s = (a, d, t)"
  shows "\<exists>rest. a = d @ rest \<and> rest = contents t"
  using run_conserves [OF assms(1,3)] assms(2) by simp

end

end
