(* ===== verification/Cpp_Charconv.thy ===== *)
theory Cpp_Charconv
  imports Cpp_Prelude
begin

text \<open>
  The number/text conversions of the C++ standard library that the sources call:
  \<^verbatim>\<open>std::to_chars\<close> and \<^verbatim>\<open>std::to_string\<close> on integers, \<^verbatim>\<open>std::from_chars\<close>, the \<^verbatim>\<open>std::stoi\<close>
  family (\<^verbatim>\<open>strtol\<close> with its white space, sign and \<^verbatim>\<open>0x\<close> rules), extraction of an \<^verbatim>\<open>int\<close> and a
  \<^verbatim>\<open>char\<close> from an \<^verbatim>\<open>istringstream\<close>, and \<^verbatim>\<open>sscanf("%2x")\<close>. The lemmas are the round trip of
  printing and parsing in every base, which the components' round trips rest on.
\<close>

section \<open>Digits\<close>

definition digit_value :: "char \<Rightarrow> nat option" where
  "digit_value c =
     (if isdigit c then Some (code c - 48)
      else if 97 \<le> code c \<and> code c \<le> 122 then Some (code c - 87)
      else if 65 \<le> code c \<and> code c \<le> 90 then Some (code c - 55)
      else None)"

definition dval :: "char \<Rightarrow> nat" where
  "dval c = (case digit_value c of None \<Rightarrow> 0 | Some d \<Rightarrow> d)"

definition is_base_digit :: "nat \<Rightarrow> char \<Rightarrow> bool" where
  "is_base_digit base c \<longleftrightarrow> (case digit_value c of None \<Rightarrow> False | Some d \<Rightarrow> d < base)"

definition digit_char :: "nat \<Rightarrow> char" where
  "digit_char d = (if d < 10 then char_of (48 + d) else char_of (87 + d))"

definition digits_value :: "nat \<Rightarrow> string \<Rightarrow> nat" where
  "digits_value base cs = foldl (\<lambda>acc c. acc * base + dval c) 0 cs"

function to_digits :: "nat \<Rightarrow> nat \<Rightarrow> string" where
  "to_digits base n =
     (if base < 2 \<or> n < base then [digit_char n]
      else to_digits base (n div base) @ [digit_char (n mod base)])"
  by pat_completeness auto
termination
  by (relation "measure snd") auto

declare to_digits.simps [simp del]

lemma digit_value_digit_char [simp]: "d < 36 \<Longrightarrow> digit_value (digit_char d) = Some d"
  by (auto simp: digit_value_def digit_char_def isdigit_def)

lemma dval_digit_char [simp]: "d < 36 \<Longrightarrow> dval (digit_char d) = d"
  by (simp add: dval_def)

lemma is_base_digit_10 [simp]: "is_base_digit 10 = isdigit"
  by (auto simp: fun_eq_iff is_base_digit_def digit_value_def isdigit_def)

lemma is_base_digit_16 [simp]: "is_base_digit 16 = isxdigit"
  by (auto simp: fun_eq_iff is_base_digit_def digit_value_def isdigit_def isxdigit_def)

lemma is_base_digit_not [char_facts]:
  assumes "is_base_digit base c"
  shows "c \<noteq> CHR ''-''" "c \<noteq> CHR ''+''" "c \<noteq> CHR ''.''" "c \<noteq> CHR '':''" "\<not> isspace c"
  using assms by (auto simp: is_base_digit_def digit_value_def isdigit_def isspace_def
      split: if_splits option.splits)

lemma digits_value_Nil [simp]: "digits_value base [] = 0"
  by (simp add: digits_value_def)

lemma digits_value_snoc [simp]:
  "digits_value base (cs @ [c]) = digits_value base cs * base + dval c"
  by (simp add: digits_value_def)

lemma to_digits_nonempty [simp]: "to_digits base n \<noteq> []"
  by (subst to_digits.simps) simp

lemma digits_value_to_digits [simp]:
  "2 \<le> base \<Longrightarrow> base \<le> 36 \<Longrightarrow> digits_value base (to_digits base n) = n"
proof (induction base n rule: to_digits.induct)
  case (1 base n)
  show ?case
  proof (cases "n < base")
    case True
    with 1 show ?thesis by (simp add: to_digits.simps [of base n] digits_value_def)
  next
    case False
    from 1 have m: "n mod base < 36"
      using mod_less_divisor [of base n] by linarith
    have "digits_value base (to_digits base n) = n div base * base + n mod base"
      using False 1 m by (simp add: to_digits.simps [of base n])
    then show ?thesis by simp
  qed
qed

lemma to_digits_base_digits [simp]:
  "2 \<le> base \<Longrightarrow> base \<le> 36 \<Longrightarrow> c \<in> set (to_digits base n) \<Longrightarrow> is_base_digit base c"
proof (induction base n rule: to_digits.induct)
  case (1 base n)
  then have "n mod base < base" "n mod base < 36"
    using mod_less_divisor [of base n] by linarith+
  with 1 show ?case
    by (cases "n < base") (auto simp: to_digits.simps [of base n] is_base_digit_def)
qed

lemma list_all_to_digits:
  "2 \<le> base \<Longrightarrow> base \<le> 36 \<Longrightarrow> list_all (is_base_digit base) (to_digits base n)"
  by (simp add: list_all_iff)

lemma length_to_digits:
  "2 \<le> base \<Longrightarrow> n < base ^ k \<Longrightarrow> 0 < k \<Longrightarrow> length (to_digits base n) \<le> k"
proof (induction k arbitrary: n)
  case 0
  then show ?case by simp
next
  case (Suc k)
  show ?case
  proof (cases "n < base")
    case True
    then show ?thesis by (simp add: to_digits.simps [of base n])
  next
    case False
    then have "k \<noteq> 0" using Suc.prems by (cases k) auto
    moreover have "n div base < base ^ k"
      using Suc.prems by (simp add: div_less_iff_less_mult mult.commute)
    ultimately have "length (to_digits base (n div base)) \<le> k" using Suc by simp
    with False Suc.prems show ?thesis by (simp add: to_digits.simps [of base n])
  qed
qed

lemma digits_value_bound:
  "list_all (is_base_digit base) cs \<Longrightarrow> digits_value base cs < base ^ length cs"
proof (induction cs rule: rev_induct)
  case Nil
  then show ?case by simp
next
  case (snoc c cs)
  then have "digits_value base cs < base ^ length cs" and d: "dval c < base"
    by (auto simp: is_base_digit_def dval_def split: option.splits)
  then have "Suc (digits_value base cs) * base \<le> base ^ length cs * base"
    by (intro mult_le_mono1) simp
  with d show ?case by (simp add: mult.commute)
qed

section \<open>\<^verbatim>\<open>to_chars\<close> and \<^verbatim>\<open>from_chars\<close>\<close>

definition to_chars_int :: "nat \<Rightarrow> int \<Rightarrow> string" where
  "to_chars_int base v =
     (if v < 0 then CHR ''-'' # to_digits base (nat (- v)) else to_digits base (nat v))"

abbreviation to_string_int :: "int \<Rightarrow> string" where "to_string_int \<equiv> to_chars_int 10"

text \<open>
  \<^verbatim>\<open>from_chars\<close> matches the longest prefix \<^verbatim>\<open>-?digits\<close>; the error code and the end pointer
  (here: the unread rest) are the two outcomes the callers look at.
\<close>

datatype 'a from_chars_result = FC_Ok 'a string | FC_OutOfRange string | FC_Invalid

definition from_chars_int :: "int \<Rightarrow> int \<Rightarrow> nat \<Rightarrow> string \<Rightarrow> int from_chars_result" where
  "from_chars_int lo hi base s =
     (let neg = (s \<noteq> [] \<and> hd s = CHR ''-'' \<and> lo < 0);
          t = (if neg then tl s else s);
          ds = takeWhile (is_base_digit base) t;
          rest = dropWhile (is_base_digit base) t;
          v = (if neg then - int (digits_value base ds) else int (digits_value base ds))
      in if ds = [] then FC_Invalid
         else if lo \<le> v \<and> v \<le> hi then FC_Ok v rest else FC_OutOfRange rest)"

definition no_digit_next :: "nat \<Rightarrow> string \<Rightarrow> bool" where
  "no_digit_next base rest \<longleftrightarrow> (case rest of [] \<Rightarrow> True | c # _ \<Rightarrow> \<not> is_base_digit base c)"

lemma takeWhile_digits_append:
  assumes "list_all P ds" and "case rest of [] \<Rightarrow> True | c # _ \<Rightarrow> \<not> P c"
  shows "takeWhile P (ds @ rest) = ds" and "dropWhile P (ds @ rest) = rest"
  using assms by (auto simp: list_all_iff split: list.splits)

theorem from_chars_to_chars:
  assumes "2 \<le> base" "base \<le> 36" "lo \<le> v" "v \<le> hi" "no_digit_next base rest"
  shows "from_chars_int lo hi base (to_chars_int base v @ rest) = FC_Ok v rest"
proof -
  let ?P = "is_base_digit base"
  let ?n = "if v < 0 then nat (- v) else nat v"
  have all: "list_all ?P (to_digits base ?n)" using assms(1,2) by (rule list_all_to_digits)
  note tw = takeWhile_digits_append [OF all assms(5) [unfolded no_digit_next_def]]
  have hd: "hd (to_digits base n @ rest) \<noteq> CHR ''-''" for n
  proof -
    have "hd (to_digits base n) \<in> set (to_digits base n)" by simp
    then have "?P (hd (to_digits base n))" using assms(1,2) to_digits_base_digits by blast
    then show ?thesis by (auto dest: is_base_digit_not)
  qed
  show ?thesis
  proof (cases "v < 0")
    case True
    with tw assms show ?thesis by (simp add: from_chars_int_def to_chars_int_def)
  next
    case False
    with tw assms hd show ?thesis by (simp add: from_chars_int_def to_chars_int_def)
  qed
qed

section \<open>\<^verbatim>\<open>stoi\<close>, \<^verbatim>\<open>stoll\<close>\<close>

text \<open>\<^verbatim>\<open>strtol\<close>: leading white space, an optional sign, an optional \<^verbatim>\<open>0x\<close> in base 16 when a
  hexadecimal digit follows it, then the longest run of digits.\<close>

definition strip_sign :: "string \<Rightarrow> bool \<times> string" where
  "strip_sign s =
     (case s of c # t \<Rightarrow> (if c = CHR ''-'' then (True, t)
                          else if c = CHR ''+'' then (False, t) else (False, s))
      | [] \<Rightarrow> (False, s))"

definition strip_0x :: "nat \<Rightarrow> string \<Rightarrow> string" where
  "strip_0x base s =
     (case s of a # b # c # t \<Rightarrow>
        (if base = 16 \<and> a = CHR ''0'' \<and> (b = CHR ''x'' \<or> b = CHR ''X'') \<and> isxdigit c
         then c # t else s)
      | _ \<Rightarrow> s)"

definition strto :: "nat \<Rightarrow> string \<Rightarrow> int option" where
  "strto base s =
     (let (neg, t) = strip_sign (dropWhile isspace s);
          ds = takeWhile (is_base_digit base) (strip_0x base t)
      in if ds = [] then None
         else Some (if neg then - int (digits_value base ds) else int (digits_value base ds)))"

definition sto_range :: "string \<Rightarrow> int \<Rightarrow> int \<Rightarrow> nat \<Rightarrow> string \<Rightarrow> std_exn + int" where
  "sto_range name lo hi base s =
     (case strto base s of
        None \<Rightarrow> Inl (InvalidArgument name)
      | Some v \<Rightarrow> if lo \<le> v \<and> v \<le> hi then Inr v else Inl (OutOfRange name))"

abbreviation stoi :: "nat \<Rightarrow> string \<Rightarrow> std_exn + int" where
  "stoi \<equiv> sto_range ''stoi'' INT_MIN INT_MAX"

abbreviation stoll :: "nat \<Rightarrow> string \<Rightarrow> std_exn + int" where
  "stoll \<equiv> sto_range ''stoll'' INT64_MIN INT64_MAX"

lemma strip_sign_digit: "is_base_digit base c \<Longrightarrow> strip_sign (c # t) = (False, c # t)"
  by (auto simp: strip_sign_def dest: is_base_digit_not)

lemma strto_to_chars [simp]: "strto 10 (to_chars_int 10 v) = Some v"
proof -
  let ?n = "if v < 0 then nat (- v) else nat v"
  have all: "list_all (is_base_digit 10) (to_digits 10 ?n)" by (rule list_all_to_digits) auto
  obtain c t where ct: "to_digits 10 ?n = c # t" by (cases "to_digits 10 ?n") auto
  with all have c: "is_base_digit 10 c" by simp
  have tw: "isdigit c" "takeWhile isdigit t = t"
    using all ct by (auto simp: list_all_iff takeWhile_eq_all_conv)
  have dv: "digits_value 10 (c # t) = ?n" using digits_value_to_digits [of 10 ?n] ct by simp
  have sp: "\<not> isspace c" "\<not> isspace (CHR ''-'')"
    using is_base_digit_not(5) [OF c] by (simp_all add: isspace_def)
  have x: "strip_0x 10 s = s" for s by (auto simp: strip_0x_def split: list.splits)
  show ?thesis
  proof (cases "v < 0")
    case True
    with ct dv sp show ?thesis
      by (simp add: tw strto_def to_chars_int_def x strip_sign_def)
  next
    case False
    with ct dv sp strip_sign_digit [OF c, of t] show ?thesis
      by (simp add: tw strto_def to_chars_int_def x)
  qed
qed

corollary stoi_to_string: "INT_MIN \<le> v \<Longrightarrow> v \<le> INT_MAX \<Longrightarrow> stoi 10 (to_string_int v) = Inr v"
  by (simp add: sto_range_def)

section \<open>Stream extraction and \<^verbatim>\<open>sscanf\<close>\<close>

text \<open>\<^verbatim>\<open>iss >> num\<close> for an \<^verbatim>\<open>int\<close>, and \<^verbatim>\<open>iss >> ch\<close> for a \<^verbatim>\<open>char\<close>: \<open>None\<close> is a stream in the
  failed state.\<close>

definition extract_int :: "string \<Rightarrow> (int \<times> string) option" where
  "extract_int s =
     (let (neg, t) = strip_sign (dropWhile isspace s);
          ds = takeWhile isdigit t;
          v = (if neg then - int (digits_value 10 ds) else int (digits_value 10 ds))
      in if ds = [] then None
         else if INT_MIN \<le> v \<and> v \<le> INT_MAX then Some (v, dropWhile isdigit t) else None)"

definition extract_char :: "string \<Rightarrow> (char \<times> string) option" where
  "extract_char s = (case dropWhile isspace s of [] \<Rightarrow> None | c # t \<Rightarrow> Some (c, t))"

lemma extract_int_to_chars:
  assumes "INT_MIN \<le> v" "v \<le> INT_MAX" "no_digit_next 10 rest"
  shows "extract_int (to_chars_int 10 v @ rest) = Some (v, rest)"
proof -
  let ?n = "if v < 0 then nat (- v) else nat v"
  have all: "list_all (is_base_digit 10) (to_digits 10 ?n)" by (rule list_all_to_digits) auto
  obtain c t where ct: "to_digits 10 ?n = c # t" by (cases "to_digits 10 ?n") auto
  with all have c: "is_base_digit 10 c" by simp
  have dg: "isdigit c" "list_all isdigit t" using all ct by simp_all
  have "case rest of [] \<Rightarrow> True | c # _ \<Rightarrow> \<not> isdigit c"
    using assms(3) unfolding no_digit_next_def is_base_digit_10 .
  note tw = takeWhile_digits_append [OF dg(2) this]
  have dv: "digits_value 10 (c # t) = ?n" using digits_value_to_digits [of 10 ?n] ct by simp
  have sp: "\<not> isspace c" "\<not> isspace (CHR ''-'')"
    using is_base_digit_not(5) [OF c] by (simp_all add: isspace_def)
  show ?thesis
  proof (cases "v < 0")
    case True
    with ct dg(1) dv sp assms show ?thesis
      by (simp add: tw extract_int_def to_chars_int_def strip_sign_def)
  next
    case False
    with ct dg(1) dv sp assms strip_sign_digit [OF c, of "t @ rest"] show ?thesis
      by (simp add: tw extract_int_def to_chars_int_def)
  qed
qed

text \<open>
  \<^verbatim>\<open>sscanf(p, "%2x", &d)\<close>: white space is skipped, then at most two characters form the
  subject (sign, hexadecimal digits); a lone sign or a bare \<^verbatim>\<open>0x\<close> is a matching failure.
  A negative subject converts to \<^verbatim>\<open>unsigned\<close> modulo \<open>2 ^ 32\<close>. The C string ends at the first
  NUL character.
\<close>

definition sscanf_2x :: "string \<Rightarrow> u32 option" where
  "sscanf_2x s =
     (let t = take 2 (dropWhile isspace (takeWhile (\<lambda>c. c \<noteq> CHR 0x00) s));
          (neg, u) = strip_sign t;
          ds = takeWhile isxdigit u
      in if ds = [] then None
         else if length u = 2 \<and> hd u = CHR ''0'' \<and> (u ! 1 = CHR ''x'' \<or> u ! 1 = CHR ''X'') then None
         else Some (if neg then - word_of_nat (digits_value 16 ds) else word_of_nat (digits_value 16 ds)))"

end
