(* ===== verification/String_Util.thy ===== *)
theory String_Util
  imports Cpp_Charconv
begin

text \<open>
  \<^verbatim>\<open>src/breutil/string_util.hpp\<close> (namespace \<^verbatim>\<open>bre::str\<close>): splitting and joining, searching and
  replacing, case conversion, trimming, padding and integer conversion. The loops whose
  cursor does not advance on an empty pattern are partial functions into \<open>option\<close>, so that
  "the loop does not end" is the value \<open>None\<close>.
\<close>

section \<open>Splitting and joining\<close>

function Split_loop :: "string \<Rightarrow> char \<Rightarrow> nat \<Rightarrow> string list \<Rightarrow> string list" where
  "Split_loop s d start result =
     (case find_char_from s d start of
        Some e \<Rightarrow> Split_loop s d (e + 1) (result @ [substr s start (e - start)])
      | None \<Rightarrow> result @ [drop start s])"
  by pat_completeness auto
termination
  by (relation "measure (\<lambda>(s, d, start, result). length s - start)")
     (auto simp: find_char_from_def find_index_Some_iff)

declare Split_loop.simps [simp del]

definition Split :: "string \<Rightarrow> char \<Rightarrow> string list" where
  "Split s delimiter = Split_loop s delimiter 0 []"

partial_function (option) Split_str_loop ::
  "string \<Rightarrow> string \<Rightarrow> nat \<Rightarrow> string list \<Rightarrow> string list option" where
  "Split_str_loop s d start result =
     (case find_sub_from s d start of
        Some e \<Rightarrow> Split_str_loop s d (e + length d) (result @ [substr s start (e - start)])
      | None \<Rightarrow> Some (result @ [drop start s]))"

definition Split_str :: "string \<Rightarrow> string \<Rightarrow> string list option" where
  "Split_str s delimiter = Split_str_loop s delimiter 0 []"

fun Join_loop :: "string \<Rightarrow> string list \<Rightarrow> string \<Rightarrow> string" where
  "Join_loop result [] sep = result"
| "Join_loop result (x # xs) sep = Join_loop (result @ sep @ x) xs sep"

definition Join :: "string list \<Rightarrow> string \<Rightarrow> string" where
  "Join strings separator =
     (case strings of [] \<Rightarrow> [] | x # xs \<Rightarrow> Join_loop x xs separator)"

section \<open>Searching and replacing\<close>

partial_function (option) FindAll_loop ::
  "string \<Rightarrow> string \<Rightarrow> nat option \<Rightarrow> nat list \<Rightarrow> nat list option" where
  "FindAll_loop s sub pos positions =
     (case pos of
        None \<Rightarrow> Some positions
      | Some p \<Rightarrow> FindAll_loop s sub (find_sub_from s sub (p + length sub)) (positions @ [p]))"

definition FindAll :: "string \<Rightarrow> string \<Rightarrow> nat list option" where
  "FindAll s sub = FindAll_loop s sub (find_sub_from s sub 0) []"

definition replace_at :: "string \<Rightarrow> nat \<Rightarrow> nat \<Rightarrow> string \<Rightarrow> string" where
  "replace_at s pos n new = take pos s @ new @ drop (pos + n) s"

partial_function (option) ReplaceAll_loop ::
  "string \<Rightarrow> nat \<Rightarrow> string \<Rightarrow> string \<Rightarrow> string option" where
  "ReplaceAll_loop s pos old_sub new_sub =
     (case find_sub_from s old_sub pos of
        Some p \<Rightarrow> ReplaceAll_loop (replace_at s p (length old_sub) new_sub)
                    (p + length new_sub) old_sub new_sub
      | None \<Rightarrow> Some s)"

definition ReplaceAll :: "string \<Rightarrow> string \<Rightarrow> string \<Rightarrow> string option" where
  "ReplaceAll s old_sub new_sub = ReplaceAll_loop s 0 old_sub new_sub"

definition ReplaceFirst :: "string \<Rightarrow> string \<Rightarrow> string \<Rightarrow> string" where
  "ReplaceFirst s old_sub new_sub =
     (case find_sub_from s old_sub 0 of
        Some pos \<Rightarrow> replace_at s pos (length old_sub) new_sub
      | None \<Rightarrow> s)"

section \<open>Case conversion and tests\<close>

definition ToUpperCopy :: "string \<Rightarrow> string" where
  "ToUpperCopy s = map toupper s"

definition ToLowerCopy :: "string \<Rightarrow> string" where
  "ToLowerCopy s = map tolower s"

definition ToUpper :: "string \<Rightarrow> string" where
  "ToUpper s = map toupper s"

definition ToLower :: "string \<Rightarrow> string" where
  "ToLower s = map tolower s"

text \<open>\<^verbatim>\<open>str.rfind(prefix, 0) == 0\<close> looks for the last occurrence that starts at or before 0.\<close>

definition StartsWith :: "string \<Rightarrow> string \<Rightarrow> bool" where
  "StartsWith s prefix \<longleftrightarrow> starts_with prefix s"

definition EndsWith :: "string \<Rightarrow> string \<Rightarrow> bool" where
  "EndsWith s suffix \<longleftrightarrow>
     (if length s < length suffix then False
      else substr s (length s - length suffix) (length suffix) = suffix)"

definition Contains :: "string \<Rightarrow> string \<Rightarrow> bool" where
  "Contains s sub \<longleftrightarrow> find_sub_from s sub 0 \<noteq> None"

section \<open>Trimming\<close>

definition trim_chars :: string where
  "trim_chars = [CHR '' '', CHR 0x09, CHR 0x0A, CHR 0x0D, CHR 0x0C, CHR 0x0B]"

definition TrimCopy :: "string \<Rightarrow> string" where
  "TrimCopy s =
     (case find_first_not_of s trim_chars of
        None \<Rightarrow> []
      | Some first \<Rightarrow>
          (case find_last_not_of s trim_chars of
             None \<Rightarrow> []
           | Some l \<Rightarrow> substr s first (l - first + 1)))"

definition LTrimCopy :: "string \<Rightarrow> string" where
  "LTrimCopy s = (case find_first_not_of s trim_chars of None \<Rightarrow> [] | Some first \<Rightarrow> drop first s)"

definition RTrimCopy :: "string \<Rightarrow> string" where
  "RTrimCopy s = (case find_last_not_of s trim_chars of None \<Rightarrow> [] | Some l \<Rightarrow> take (l + 1) s)"

definition LTrim :: "string \<Rightarrow> string" where
  "LTrim s = (case find_first_not_of s trim_chars of Some first \<Rightarrow> drop first s | None \<Rightarrow> [])"

definition RTrim :: "string \<Rightarrow> string" where
  "RTrim s = (case find_last_not_of s trim_chars of Some l \<Rightarrow> take (l + 1) s | None \<Rightarrow> [])"

definition Trim :: "string \<Rightarrow> string" where
  "Trim s = RTrim (LTrim s)"

section \<open>Conversion and padding\<close>

definition ToInt :: "string \<Rightarrow> nat \<Rightarrow> std_exn + int" where
  "ToInt s base =
     (case from_chars_int INT_MIN INT_MAX base s of
        FC_Ok v rest \<Rightarrow> Inr v
      | _ \<Rightarrow> Inl (InvalidArgument (''Invalid integer string: '' @ s)))"

definition LPad :: "string \<Rightarrow> nat \<Rightarrow> char \<Rightarrow> string" where
  "LPad s width pad_char =
     (if length s < width then replicate (width - length s) pad_char @ s else s)"

definition RPad :: "string \<Rightarrow> nat \<Rightarrow> char \<Rightarrow> string" where
  "RPad s width pad_char =
     (if length s < width then s @ replicate (width - length s) pad_char else s)"

definition Reverse :: "string \<Rightarrow> string" where
  "Reverse s = rev s"

section \<open>Lemmas\<close>

subsection \<open>A reference splitter\<close>

text \<open>\<open>pieces d s\<close> cuts \<open>s\<close> at the leftmost non-overlapping occurrences of \<open>d\<close>.\<close>

function pieces :: "'a list \<Rightarrow> 'a list \<Rightarrow> 'a list list" where
  "pieces d s =
     (if d = [] then [s]
      else case find_sub d s of
        None \<Rightarrow> [s]
      | Some i \<Rightarrow> take i s # pieces d (drop (i + length d) s))"
  by pat_completeness auto
termination
proof (relation "measure (\<lambda>(d, s). length s)", goal_cases)
  case 1
  then show ?case by simp
next
  case (2 d s i)
  then show ?case using find_sub_Some [of d s i] by (cases d) auto
qed

declare pieces.simps [simp del]

lemma pieces_nonempty [simp]: "pieces d s \<noteq> []"
  by (subst pieces.simps) (auto split: option.splits)

lemma Join_loop_acc: "Join_loop r xs sep = r @ concat (map (\<lambda>x. sep @ x) xs)"
  by (induction r xs sep rule: Join_loop.induct) auto

lemma Join_Cons: "xs \<noteq> [] \<Longrightarrow> Join (x # xs) sep = x @ sep @ Join xs sep"
  by (cases xs) (auto simp: Join_def Join_loop_acc)

lemma Join_single [simp]: "Join [x] sep = x"
  by (simp add: Join_def)

lemma Join_pieces: "Join (pieces d s) d = s"
proof (induction d s rule: pieces.induct)
  case (1 d s)
  show ?case
  proof (cases "d = [] \<or> find_sub d s = None")
    case True
    then show ?thesis by (auto simp: pieces.simps [of d s])
  next
    case False
    then obtain i where i: "find_sub d s = Some i" and d: "d \<noteq> []" by auto
    with 1 have IH: "Join (pieces d (drop (i + length d) s)) d = drop (i + length d) s" by blast
    from find_sub_Some [OF i] have "d = take (length d) (drop i s)" by simp
    then have "take i s @ d @ drop (i + length d) s = s"
      by (metis add.commute append_take_drop_id drop_drop)
    with IH i d show ?thesis by (simp add: pieces.simps [of d s] Join_Cons)
  qed
qed

lemma find_sub_from_drop:
  "start \<le> length s \<Longrightarrow> find_sub_from s d start = map_option (\<lambda>i. start + i) (find_sub d (drop start s))"
  by (simp add: find_sub_from_def)

lemma Split_str_loop_pieces:
  "d \<noteq> [] \<Longrightarrow> start \<le> length s \<Longrightarrow>
     Split_str_loop s d start result = Some (result @ pieces d (drop start s))"
proof (induction "length s - start" arbitrary: start result rule: less_induct)
  case less
  show ?case
  proof (cases "find_sub d (drop start s)")
    case None
    with less.prems show ?thesis
      by (simp add: Split_str_loop.simps find_sub_from_drop pieces.simps [of d "drop start s"])
  next
    case (Some i)
    from find_sub_Some [OF Some] less.prems
    have i: "start + i + length d \<le> length s" "0 < length d" by auto
    then have "length s - (start + i + length d) < length s - start" by linarith
    then have "Split_str_loop s d (start + i + length d) (result @ [substr s start i]) =
        Some ((result @ [substr s start i]) @ pieces d (drop (start + i + length d) s))"
      using less.prems i by (intro less.hyps)
    with Some less.prems show ?thesis
      by (simp add: Split_str_loop.simps [of s d start] find_sub_from_drop substr_def
          pieces.simps [of d "drop start s"] ac_simps)
  qed
qed

lemma Split_str_pieces: "d \<noteq> [] \<Longrightarrow> Split_str s d = Some (pieces d s)"
  by (simp add: Split_str_def Split_str_loop_pieces)

lemma find_sub_single: "find_sub [c] s = find_index (\<lambda>x. x = c) s"
  by (induction s) (auto simp: starts_with_def)

lemma Split_loop_pieces:
  "start \<le> length s \<Longrightarrow> Split_loop s d start result = result @ pieces [d] (drop start s)"
proof (induction s d start result rule: Split_loop.induct)
  case (1 s d start result)
  show ?case
  proof (cases "find_index (\<lambda>x. x = d) (drop start s)")
    case None
    then show ?thesis
      by (simp add: Split_loop.simps [of s d start] find_char_from_def find_sub_single
          pieces.simps [of "[d]" "drop start s"] del: find_index_None_iff)
  next
    case (Some i)
    then have "find_char_from s d start = Some (start + i)" by (simp add: find_char_from_def)
    moreover from Some have "start + i < length s" by (auto simp: find_index_Some_iff)
    ultimately show ?thesis using 1 Some
      by (simp add: Split_loop.simps [of s d start] substr_def find_sub_single
          pieces.simps [of "[d]" "drop start s"] ac_simps)
  qed
qed

lemma Split_pieces: "Split s d = pieces [d] s"
  by (simp add: Split_def Split_loop_pieces)

lemma pieces_char_free: "x \<in> set (pieces [c] s) \<Longrightarrow> c \<notin> set x"
proof (induction "[c]" s rule: pieces.induct)
  case (1 s)
  show ?case
  proof (cases "find_index (\<lambda>x. x = c) s")
    case None
    with "1.prems" show ?thesis
      by (auto simp: pieces.simps [of "[c]" s] find_sub_single)
  next
    case (Some i)
    then have i: "find_sub [c] s = Some i" by (simp add: find_sub_single)
    have "c \<notin> set (take i s)"
      using Some by (auto simp: find_index_Some_iff in_set_conv_nth)
    with "1.prems" "1.hyps" i show ?thesis
      by (auto simp: pieces.simps [of "[c]" s])
  qed
qed

lemma pieces_append_char: "c \<notin> set x \<Longrightarrow> pieces [c] (x @ c # ys) = x # pieces [c] ys"
proof -
  assume "c \<notin> set x"
  then have "find_index (\<lambda>y. y = c) (x @ c # ys) = Some (length x)"
    by (intro find_index_append_first) auto
  then show ?thesis by (simp add: pieces.simps [of "[c]" "x @ c # ys"] find_sub_single)
qed

lemma pieces_no_char: "c \<notin> set x \<Longrightarrow> pieces [c] x = [x]"
proof -
  assume "c \<notin> set x"
  then have "find_index (\<lambda>y. y = c) x = None" by auto
  then show ?thesis
    by (simp add: pieces.simps [of "[c]" x] find_sub_single del: find_index_None_iff)
qed

lemma pieces_Join: "xs \<noteq> [] \<Longrightarrow> \<forall>x\<in>set xs. c \<notin> set x \<Longrightarrow> pieces [c] (Join xs [c]) = xs"
proof (induction xs)
  case Nil
  then show ?case by simp
next
  case (Cons x xs)
  then show ?case
    by (cases "xs = []") (simp_all add: pieces_no_char Join_Cons pieces_append_char)
qed

subsection \<open>Replacing\<close>

lemma ReplaceAll_loop_pieces:
  "old \<noteq> [] \<Longrightarrow>
     ReplaceAll_loop (don @ rest) (length don) old new = Some (don @ Join (pieces old rest) new)"
proof (induction "length rest" arbitrary: don rest rule: less_induct)
  case less
  show ?case
  proof (cases "find_sub old rest")
    case None
    with less.prems show ?thesis
      by (simp add: ReplaceAll_loop.simps find_sub_from_drop pieces.simps [of old rest])
  next
    case (Some i)
    from find_sub_Some [OF Some] less.prems
    have i: "i + length old \<le> length rest" "0 < length old" by auto
    have rep: "replace_at (don @ rest) (length don + i) (length old) new =
        (don @ take i rest @ new) @ drop (i + length old) rest"
      by (simp add: replace_at_def ac_simps)
    have len: "length don + i + length new = length (don @ take i rest @ new)" using i by simp
    from i have "length (drop (i + length old) rest) < length rest" by (simp only: length_drop)
    then have "ReplaceAll_loop ((don @ take i rest @ new) @ drop (i + length old) rest)
        (length (don @ take i rest @ new)) old new =
        Some ((don @ take i rest @ new) @ Join (pieces old (drop (i + length old) rest)) new)"
      using less.prems by (intro less.hyps)
    with Some less.prems show ?thesis
      by (simp add: ReplaceAll_loop.simps [of "don @ rest"] find_sub_from_drop rep len
          pieces.simps [of old rest] Join_Cons)
  qed
qed

subsection \<open>Trimming\<close>

lemma Trim_eq_strip: "Trim s = strip (\<lambda>c. c \<in> set trim_chars) s"
proof -
  let ?P = "\<lambda>c. c \<in> set trim_chars"
  have L: "LTrim s = dropWhile ?P s" for s
    by (auto simp: LTrim_def find_first_not_of_def drop_find_index split: option.splits
        intro: dropWhile_eq_Nil_conv [THEN iffD2, symmetric])
  have R: "RTrim s = strip_right ?P s" for s
  proof (cases "find_last_not_of s trim_chars")
    case None
    then have "\<forall>x\<in>set s. ?P x" by (auto simp: find_last_not_of_def)
    then show ?thesis using None by (simp add: RTrim_def strip_right_def)
  next
    case (Some l)
    with take_find_last_not_of(2) [OF Some] show ?thesis by (simp add: RTrim_def)
  qed
  show ?thesis by (simp add: Trim_def L R strip_def)
qed

lemma TrimCopy_eq_Trim: "TrimCopy s = Trim s"
  by (simp add: TrimCopy_def Trim_eq_strip trim_substr_strip)

subsection \<open>Divergence on an empty pattern\<close>

lemma Split_str_loop_empty:
  assumes "Split_str_loop s d start result = Some r" and "start \<le> length s"
  shows "d \<noteq> []"
proof -
  have "start \<le> length s \<longrightarrow> d \<noteq> []"
  proof (rule Split_str_loop.raw_induct
      [where P = "\<lambda>s d start result r. start \<le> length s \<longrightarrow> d \<noteq> []", OF _ assms(1)])
    fix f s d start result r
    assume IH: "\<And>s d start result r. f s d start result = Some r \<Longrightarrow> start \<le> length s \<longrightarrow> d \<noteq> []"
      and eq: "(case find_sub_from s d start of
          None \<Rightarrow> Some (result @ [drop start s])
        | Some e \<Rightarrow> f s d (e + length d) (result @ [substr s start (e - start)])) = Some r"
    show "start \<le> length s \<longrightarrow> d \<noteq> []"
      using IH [of s "[]" start "result @ [substr s start 0]" r] eq
      by (cases "d = []"; cases "start \<le> length s") (simp_all add: find_sub_from_def)
  qed
  with assms(2) show ?thesis by simp
qed

lemma FindAll_loop_empty:
  assumes "FindAll_loop s sub pos ps = Some r" and "\<exists>p \<le> length s. pos = Some p"
  shows "sub \<noteq> []"
proof -
  have "(\<exists>p \<le> length s. pos = Some p) \<longrightarrow> sub \<noteq> []"
  proof (rule FindAll_loop.raw_induct
      [where P = "\<lambda>s sub pos ps r. (\<exists>p \<le> length s. pos = Some p) \<longrightarrow> sub \<noteq> []", OF _ assms(1)])
    fix f s sub pos ps r
    assume IH: "\<And>s sub pos ps r. f s sub pos ps = Some r \<Longrightarrow>
        (\<exists>p \<le> length s. pos = Some p) \<longrightarrow> sub \<noteq> []"
      and eq: "(case pos of None \<Rightarrow> Some ps
        | Some p \<Rightarrow> f s sub (find_sub_from s sub (p + length sub)) (ps @ [p])) = Some r"
    show "(\<exists>p \<le> length s. pos = Some p) \<longrightarrow> sub \<noteq> []"
      using IH eq by (fastforce simp: find_sub_from_def)
  qed
  with assms(2) show ?thesis by blast
qed

lemma ReplaceAll_loop_empty:
  assumes "ReplaceAll_loop s pos old new = Some r" and "pos \<le> length s"
  shows "old \<noteq> []"
proof -
  have "pos \<le> length s \<longrightarrow> old \<noteq> []"
  proof (rule ReplaceAll_loop.raw_induct
      [where P = "\<lambda>s pos old new r. pos \<le> length s \<longrightarrow> old \<noteq> []", OF _ assms(1)])
    fix f s pos old new r
    assume IH: "\<And>s pos old new r. f s pos old new = Some r \<Longrightarrow> pos \<le> length s \<longrightarrow> old \<noteq> []"
      and eq: "(case find_sub_from s old pos of None \<Rightarrow> Some s
        | Some p \<Rightarrow> f (replace_at s p (length old) new) (p + length new) old new) = Some r"
    show "pos \<le> length s \<longrightarrow> old \<noteq> []"
    proof
      assume pos: "pos \<le> length s"
      show "old \<noteq> []"
      proof
        assume "old = []"
        with pos eq have "f (replace_at s pos 0 new) (pos + length new) [] new = Some r"
          by (simp add: find_sub_from_def)
        from IH [OF this] pos show False by (simp add: replace_at_def)
      qed
    qed
  qed
  with assms(2) show ?thesis by simp
qed

section \<open>Properties\<close>

text \<open>\<^verbatim>\<open>Split\<close> by a character loses nothing and cuts everywhere: joining the parts with the
  delimiter gives the input back, and no part contains the delimiter. Splitting by the
  one-character string gives the same parts.\<close>

theorem Split_Join:
  "Join (Split s d) [d] = s \<and> list_all (\<lambda>x. d \<notin> set x) (Split s d) \<and> Split_str s [d] = Some (Split s d)"
  by (simp add: Split_pieces Join_pieces list_all_iff pieces_char_free Split_str_pieces)

text \<open>Conversely, splitting a joined list of delimiter-free strings recovers the list.\<close>

theorem Join_Split:
  assumes "xs \<noteq> []" and "list_all (\<lambda>x. d \<notin> set x) xs"
  shows "Split (Join xs [d]) d = xs"
  using assms by (simp add: Split_pieces pieces_Join list_all_iff)

theorem Join_Split_witness:
  "Split (Join [''a'', [], ''bc''] ''.'') (CHR ''.'') = [''a'', [], ''bc'']"
  by (rule Join_Split) simp_all

text \<open>C39. For a non-empty pattern the in-place \<^verbatim>\<open>ReplaceAll\<close> returns, and its result is the input
  split at the pattern and joined with the replacement: every leftmost non-overlapping
  occurrence is replaced once, and text produced by a replacement is never searched again.\<close>

theorem ReplaceAll_Split_Join:
  assumes "old \<noteq> []"
  shows "\<exists>ps. Split_str s old = Some ps \<and> Join ps old = s \<and> ReplaceAll s old new = Some (Join ps new)"
  using ReplaceAll_loop_pieces [OF assms, of "[]" s new] assms
  by (simp add: ReplaceAll_def Split_str_pieces Join_pieces)

theorem ReplaceAll_Split_Join_witness:
  "\<exists>ps. Split_str ''aXbX'' ''X'' = Some ps \<and> Join ps ''X'' = ''aXbX''
     \<and> ReplaceAll ''aXbX'' ''X'' ''XX'' = Some (Join ps ''XX'')"
  by (rule ReplaceAll_Split_Join) simp

text \<open>With an empty pattern the cursor of \<^verbatim>\<open>Split\<close> (by string), \<^verbatim>\<open>FindAll\<close> and \<^verbatim>\<open>ReplaceAll\<close>
  never moves past the string, so the three loops do not terminate on any input.\<close>

theorem empty_pattern_diverges:
  "Split_str s [] = None \<and> FindAll s [] = None \<and> ReplaceAll s [] new = None"
proof -
  have "Split_str s [] = None"
    using Split_str_loop_empty [of s "[]" 0 "[]"] by (cases "Split_str s []") (auto simp: Split_str_def)
  moreover have "FindAll s [] = None"
    using FindAll_loop_empty [of s "[]" "find_sub_from s [] 0" "[]"]
    by (cases "FindAll s []") (auto simp: FindAll_def find_sub_from_def)
  moreover have "ReplaceAll s [] new = None"
    using ReplaceAll_loop_empty [of s 0 "[]" new]
    by (cases "ReplaceAll s [] new") (auto simp: ReplaceAll_def)
  ultimately show ?thesis by simp
qed

text \<open>The in-place \<^verbatim>\<open>Trim\<close> and the copying \<^verbatim>\<open>TrimCopy\<close> agree, and both strip exactly the
  white space at the two ends.\<close>

theorem Trim_spec:
  "TrimCopy s = Trim s \<and> Trim s = strip (\<lambda>c. c \<in> set trim_chars) s \<and> Trim (Trim s) = Trim s"
  by (simp add: TrimCopy_eq_Trim Trim_eq_strip strip_idem)

section \<open>\<^verbatim>\<open>ToDouble\<close>\<close>

text \<open>\<open>stod\<close> is \<^verbatim>\<open>std::stod\<close>; the test after it is of an error code that was just constructed, and never fails.\<close>

definition ToDouble :: "(string \<Rightarrow> std_exn + 'd) \<Rightarrow> string \<Rightarrow> std_exn + 'd" where
  "ToDouble stod s = stod s"

end
