(* ===== verification/Base64.thy ===== *)
theory Base64
  imports Cpp_Prelude
begin

text \<open>
  \<^verbatim>\<open>src/breutil/encoding/base64.hpp\<close>: the RFC 4648 encoder, the validator (scalar and with the
  16-lane SIMD prefix loop of \<^verbatim>\<open>BRE_BASE64_USE_SIMD\<close>) and the strict decoder. Input bytes are
  \<open>8 word\<close>, the 24-bit groups are the source's \<^verbatim>\<open>uint32_t\<close>. The main result: decoding succeeds
  exactly on the image of the encoder, and inverts it.
\<close>

section \<open>Tables\<close>

definition invalid_base64 :: byte where "invalid_base64 = 0xff"

definition base64_decode_table :: "byte list" where
  "base64_decode_table = (let il = invalid_base64; sp = invalid_base64; pd = invalid_base64 in [
    il, il, il, il, il, il, il, il, il, sp,
    sp, sp, sp, sp, il, il, il, il, il, il,
    il, il, il, il, il, il, il, il, il, il,
    il, il, sp, il, il, il, il, il, il, il,
    il, il, il, 62, il, il, il, 63, 52, 53,
    54, 55, 56, 57, 58, 59, 60, 61, il, il,
    il, pd, il, il, il, 0,  1,  2,  3,  4,
    5,  6,  7,  8,  9,  10, 11, 12, 13, 14,
    15, 16, 17, 18, 19, 20, 21, 22, 23, 24,
    25, il, il, il, il, il, il, 26, 27, 28,
    29, 30, 31, 32, 33, 34, 35, 36, 37, 38,
    39, 40, 41, 42, 43, 44, 45, 46, 47, 48,
    49, 50, 51, il, il, il, il, il, il, il,
    il, il, il, il, il, il, il, il, il, il,
    il, il, il, il, il, il, il, il, il, il,
    il, il, il, il, il, il, il, il, il, il,
    il, il, il, il, il, il, il, il, il, il,
    il, il, il, il, il, il, il, il, il, il,
    il, il, il, il, il, il, il, il, il, il,
    il, il, il, il, il, il, il, il, il, il,
    il, il, il, il, il, il, il, il, il, il,
    il, il, il, il, il, il, il, il, il, il,
    il, il, il, il, il, il, il, il, il, il,
    il, il, il, il, il, il, il, il, il, il,
    il, il, il, il, il, il, il, il, il, il,
    il, il, il, il, il, il])"

definition alphabet :: string where
  "alphabet = ''ABCDEFGHIJKLMNOPQRSTUVWXYZabcdefghijklmnopqrstuvwxyz0123456789+/''"

definition decode_value :: "char \<Rightarrow> byte" where
  "decode_value c = base64_decode_table ! code c"

definition IsBase64Char :: "char \<Rightarrow> bool" where
  "IsBase64Char ch \<longleftrightarrow> base64_decode_table ! code ch \<noteq> invalid_base64"

section \<open>Validation\<close>

definition simd_valid :: "char \<Rightarrow> bool" where
  "simd_valid c \<longleftrightarrow>
     (CHR ''A'' \<le> c \<and> c \<le> CHR ''Z'') \<or> (CHR ''a'' \<le> c \<and> c \<le> CHR ''z'') \<or>
     (CHR ''0'' \<le> c \<and> c \<le> CHR ''9'') \<or> c = CHR ''+'' \<or> c = CHR ''/''"

text \<open>The SIMD loop: \<open>None\<close> is its early \<^verbatim>\<open>return false\<close>, \<open>Some i\<close> the index it stops at.\<close>

function validate_simd_loop :: "string \<Rightarrow> nat \<Rightarrow> nat \<Rightarrow> nat option" where
  "validate_simd_loop data alphabet_size i =
     (if i + 16 \<le> alphabet_size
      then if list_all simd_valid (substr data i 16)
           then validate_simd_loop data alphabet_size (i + 16) else None
      else Some i)"
  by pat_completeness auto
termination
  by (relation "measure (\<lambda>(data, n, i). n - i)") auto

function validate_scalar_loop :: "string \<Rightarrow> nat \<Rightarrow> nat \<Rightarrow> bool" where
  "validate_scalar_loop data alphabet_size i =
     (if i < alphabet_size
      then if \<not> IsBase64Char (data ! i) then False
           else validate_scalar_loop data alphabet_size (i + 1)
      else True)"
  by pat_completeness auto
termination
  by (relation "measure (\<lambda>(data, n, i). n - i)") auto

declare validate_simd_loop.simps [simp del] validate_scalar_loop.simps [simp del]

definition validate :: "bool \<Rightarrow> string \<Rightarrow> bool" where
  "validate use_simd data =
     (if data = [] then True
      else if length data mod 4 \<noteq> 0 then False
      else
        let padding = (if last data = CHR ''='' then
                         if data ! (length data - 2) = CHR ''='' then 2 else 1 else 0);
            alphabet_size = length data - padding
        in if alphabet_size = 0 then False
           else case (if use_simd then validate_simd_loop data alphabet_size 0 else Some 0) of
             None \<Rightarrow> False
           | Some i \<Rightarrow>
               if \<not> validate_scalar_loop data alphabet_size i then False
               else if padding = 1 \<and> decode_value (data ! (length data - 2)) AND 0x03 \<noteq> 0 then False
               else if padding = 2 \<and> decode_value (data ! (length data - 3)) AND 0x0f \<noteq> 0 then False
               else True)"

definition IsBase64Encoded :: "bool \<Rightarrow> string \<Rightarrow> bool" where
  "IsBase64Encoded use_simd data = validate use_simd data"

section \<open>Encoding\<close>

definition group24 :: "byte \<Rightarrow> byte \<Rightarrow> byte \<Rightarrow> u32" where
  "group24 a b c = push_bit 16 (ucast a) OR push_bit 8 (ucast b) OR ucast c"

definition sextet :: "u32 \<Rightarrow> nat \<Rightarrow> char" where
  "sextet v shift = alphabet ! unat (drop_bit shift v AND 0x3f)"

fun encode_loop :: "byte list \<Rightarrow> string" where
  "encode_loop (a # b # c # rest) =
     (let v = group24 a b c in [sextet v 18, sextet v 12, sextet v 6, sextet v 0] @ encode_loop rest)"
| "encode_loop [a, b] =
     (let v = group24 a b 0 in [sextet v 18, sextet v 12, sextet v 6, CHR ''=''])"
| "encode_loop [a] =
     (let v = group24 a 0 0 in [sextet v 18, sextet v 12, CHR ''='', CHR ''=''])"
| "encode_loop [] = []"

text \<open>\<^verbatim>\<open>EncodeFromArray(data, size, result)\<close>: \<open>None\<close> is a null \<^verbatim>\<open>data\<close> pointer.\<close>

definition EncodeFromArray :: "byte list option \<Rightarrow> string" where
  "EncodeFromArray data = (case data of None \<Rightarrow> [] | Some bs \<Rightarrow> if bs = [] then [] else encode_loop bs)"

definition Encode :: "string \<Rightarrow> string" where
  "Encode data = EncodeFromArray (Some (map byte_of_char data))"

section \<open>Decoding\<close>

definition quantum :: "byte \<Rightarrow> byte \<Rightarrow> byte \<Rightarrow> byte \<Rightarrow> u32" where
  "quantum w x y z =
     push_bit 18 (ucast w) OR push_bit 12 (ucast x) OR push_bit 6 (ucast y) OR ucast z"

text \<open>The loop over the full quanta; it stops four characters before the end, where the last
  quantum is decoded with its padding.\<close>

fun decode_loop :: "nat \<Rightarrow> string \<Rightarrow> byte list" where
  "decode_loop padding (p # q # r # s # t # rest) =
     (let v = quantum (decode_value p) (decode_value q) (decode_value r) (decode_value s)
      in [ucast (drop_bit 16 v), ucast (drop_bit 8 v), ucast v] @ decode_loop padding (t # rest))"
| "decode_loop padding [p, q, r, s] =
     (let v = quantum (decode_value p) (decode_value q)
                (if padding < 2 then decode_value r else 0)
                (if padding = 0 then decode_value s else 0)
      in [ucast (drop_bit 16 v)] @ (if padding < 2 then [ucast (drop_bit 8 v)] else [])
           @ (if padding = 0 then [ucast v] else []))"
| "decode_loop padding _ = []"

definition decode_to :: "bool \<Rightarrow> string \<Rightarrow> bool \<times> byte list" where
  "decode_to use_simd data =
     (if \<not> validate use_simd data then (False, [])
      else if data = [] then (True, [])
      else let padding = (if last data = CHR ''='' then 1 else 0)
                       + (if data ! (length data - 2) = CHR ''='' then 1 else 0)
           in (True, decode_loop padding data))"

definition Decode :: "bool \<Rightarrow> string \<Rightarrow> string" where
  "Decode use_simd data = map char_of_byte (snd (decode_to use_simd data))"

definition Decode_result :: "bool \<Rightarrow> string \<Rightarrow> bool \<times> string" where
  "Decode_result use_simd data = (case decode_to use_simd data of (ok, bs) \<Rightarrow> (ok, map char_of_byte bs))"

text \<open>\<^verbatim>\<open>DecodeFromArray(data, size, result)\<close> with a possibly null \<^verbatim>\<open>data\<close>.\<close>

definition DecodeFromArray :: "bool \<Rightarrow> string option \<Rightarrow> nat \<Rightarrow> bool \<times> byte list" where
  "DecodeFromArray use_simd data sz =
     (case data of
        None \<Rightarrow> if sz \<noteq> 0 then (False, []) else decode_to use_simd []
      | Some s \<Rightarrow> decode_to use_simd (take sz s))"

section \<open>Lemmas\<close>

subsection \<open>The tables\<close>

text \<open>Both tables are a few runs of consecutive values; \<open>run f a b\<close> is such a run.\<close>

definition run :: "(nat \<Rightarrow> 'a) \<Rightarrow> nat \<Rightarrow> nat \<Rightarrow> 'a list" where
  "run f a b = map f [a..<b]"

lemma length_run [simp]: "length (run f a b) = b - a"
  by (simp add: run_def)

lemma nth_run [simp]: "i < b - a \<Longrightarrow> run f a b ! i = f (a + i)"
  by (simp add: run_def)

lemma table_runs:
  "base64_decode_table =
     run (\<lambda>_. 255) 0 43 @ [62] @ run (\<lambda>_. 255) 44 47 @ [63] @ run word_of_nat 52 62
     @ run (\<lambda>_. 255) 58 65 @ run word_of_nat 0 26 @ run (\<lambda>_. 255) 91 97
     @ run word_of_nat 26 52 @ run (\<lambda>_. 255) 123 256"
  by (simp add: base64_decode_table_def invalid_base64_def run_def numeral_eq_Suc)

lemma alphabet_runs:
  "alphabet = run char_of 65 91 @ run char_of 97 123 @ run char_of 48 58 @ ''+/''"
  by code_simp

lemma table_nth:
  assumes "n < 256"
  shows "base64_decode_table ! n =
    (if 65 \<le> n \<and> n \<le> 90 then word_of_nat (n - 65)
     else if 97 \<le> n \<and> n \<le> 122 then word_of_nat (n - 71)
     else if 48 \<le> n \<and> n \<le> 57 then word_of_nat (n + 4)
     else if n = 43 then 62 else if n = 47 then 63 else 255)"
proof -
  consider "n < 43" | "n = 43" | "43 < n" "n < 47" | "n = 47" | "48 \<le> n" "n \<le> 57"
    | "57 < n" "n < 65" | "65 \<le> n" "n \<le> 90" | "90 < n" "n < 97" | "97 \<le> n" "n \<le> 122" | "122 < n"
    by linarith
  then show ?thesis
    using assms unfolding table_runs by cases (simp_all add: nth_append nth_Cons' less_diff_conv2)
qed

lemma alphabet_nth:
  assumes "n < 64"
  shows "alphabet ! n =
    (if n < 26 then char_of (65 + n) else if n < 52 then char_of (71 + n)
     else if n < 62 then char_of (n - 4) else if n = 62 then CHR ''+'' else CHR ''/'')"
proof -
  consider "n < 26" | "26 \<le> n" "n < 52" | "52 \<le> n" "n < 62" | "n = 62" | "n = 63"
    using assms by linarith
  then show ?thesis
    unfolding alphabet_runs by cases (simp_all add: nth_append nth_Cons' less_diff_conv2)
qed

lemma decode_value_alphabet: "n < 64 \<Longrightarrow> decode_value (alphabet ! n) = word_of_nat n"
proof -
  assume "n < 64"
  then consider "n < 62" | "n = 62" | "n = 63" by linarith
  then show ?thesis by cases (auto simp: decode_value_def alphabet_nth table_nth)
qed

lemma simd_valid_code:
  "simd_valid c \<longleftrightarrow> (65 \<le> code c \<and> code c \<le> 90) \<or> (97 \<le> code c \<and> code c \<le> 122)
     \<or> (48 \<le> code c \<and> code c \<le> 57) \<or> code c = 43 \<or> code c = 47"
proof -
  have eq: "c = CHR ''+'' \<longleftrightarrow> code c = 43" "c = CHR ''/'' \<longleftrightarrow> code c = 47"
    using code_inject [of c "CHR ''+''"] code_inject [of c "CHR ''/''"] by simp_all
  show ?thesis unfolding simd_valid_def less_eq_char_def eq by simp
qed

lemma word_of_nat_neq_255: "n < 64 \<Longrightarrow> (word_of_nat n :: byte) \<noteq> 255"
proof
  assume "n < 64" and "(word_of_nat n :: byte) = 255"
  then have "unat (word_of_nat n :: byte) = unat (255 :: byte)" by simp
  with \<open>n < 64\<close> show False by (simp add: unat_of_nat)
qed

lemma simd_valid_value:
  assumes "simd_valid c"
  shows "\<exists>n<64. decode_value c = word_of_nat n \<and> alphabet ! n = c"
proof -
  consider "65 \<le> code c" "code c \<le> 90" | "97 \<le> code c" "code c \<le> 122"
    | "48 \<le> code c" "code c \<le> 57" | "code c = 43" | "code c = 47"
    using assms unfolding simd_valid_code by blast
  then show ?thesis
  proof cases
    case 1
    then have "code c - 65 < 26" by linarith+
    with 1 show ?thesis by (intro exI [of _ "code c - 65"]) (simp add: decode_value_def table_nth alphabet_nth)
  next
    case 2
    then have "code c - 71 < 52" "\<not> code c - 71 < 26" by linarith+
    with 2 show ?thesis by (intro exI [of _ "code c - 71"]) (simp add: decode_value_def table_nth alphabet_nth)
  next
    case 3
    then have "code c + 4 < 62" "\<not> code c + 4 < 52" by linarith+
    with 3 show ?thesis by (intro exI [of _ "code c + 4"]) (simp add: decode_value_def table_nth alphabet_nth)
  next
    case 4
    then have "c = CHR ''+''" using code_inject [of c "CHR ''+''"] by simp
    then show ?thesis by (intro exI [of _ 62]) (simp add: decode_value_def table_nth alphabet_nth)
  next
    case 5
    then have "c = CHR ''/''" using code_inject [of c "CHR ''/''"] by simp
    then show ?thesis by (intro exI [of _ 63]) (simp add: decode_value_def table_nth alphabet_nth)
  qed
qed

lemma IsBase64Char_simd: "IsBase64Char c = simd_valid c"
proof (cases "simd_valid c")
  case True
  then show ?thesis using simd_valid_value [of c] word_of_nat_neq_255
    by (auto simp: IsBase64Char_def invalid_base64_def decode_value_def)
next
  case False
  then show ?thesis by (auto simp: IsBase64Char_def invalid_base64_def table_nth simd_valid_code)
qed

lemma IsBase64Char_value:
  assumes "IsBase64Char c"
  shows "decode_value c < 64" and "alphabet ! unat (decode_value c) = c"
proof -
  from assms obtain n where n: "n < 64" "decode_value c = word_of_nat n" "alphabet ! n = c"
    using simd_valid_value [of c] by (auto simp: IsBase64Char_simd)
  then have "unat (decode_value c) = n" by (simp add: unat_of_nat)
  with n show "decode_value c < 64" "alphabet ! unat (decode_value c) = c"
    by (simp_all add: word_less_nat_alt)
qed

lemma not_IsBase64Char_pad [simp]: "\<not> IsBase64Char (CHR ''='')"
  by (simp add: IsBase64Char_simd simd_valid_code)

subsection \<open>Bits of a group\<close>

lemma bit_byte_lt: "bit (a :: byte) n \<Longrightarrow> n < 8"
  using bit_imp_le_length [of a n] by simp

lemma bit_sextet_lt: "(a :: byte) < 64 \<Longrightarrow> bit a n \<Longrightarrow> n < 6"
proof -
  assume "a < 64" "bit a n"
  then have "take_bit 6 a = a"
    by (simp add: word_unat_eq_iff unsigned_take_bit_eq take_bit_nat_eq_self_iff word_less_nat_alt)
  then show ?thesis using \<open>bit a n\<close> by (metis bit_take_bit_iff)
qed

lemma mask_6: "(63 :: 'a::len word) = mask 6"
  by (simp add: mask_eq_exp_minus_1)

lemma mask_4: "(15 :: 'a::len word) = mask 4"
  by (simp add: mask_eq_exp_minus_1)

lemma mask_2: "(3 :: 'a::len word) = mask 2"
  by (simp add: mask_eq_exp_minus_1)

lemma bit_group24:
  "bit (group24 a b c) n \<longleftrightarrow>
     (if n < 8 then bit c n else if n < 16 then bit b (n - 8) else if n < 24 then bit a (n - 16) else False)"
proof -
  have nb: "8 \<le> n \<Longrightarrow> \<not> bit (x :: byte) n" for n x using bit_byte_lt [of x n] by (meson not_less)
  show ?thesis by (simp add: group24_def bit_simps nb less_diff_conv2)
qed

lemmas bit_extracts = bit_and_iff bit_mask_iff bit_drop_bit_eq bit_take_bit_iff bit_unsigned_iff

lemma group24_bytes:
  "ucast (drop_bit 16 (group24 a b c)) = a"
  "ucast (drop_bit 8 (group24 a b c)) = b"
  "ucast (group24 a b c) = c"
  "take_bit 24 (group24 a b c) = group24 a b c"
  by (rule bit_word_eqI; simp add: bit_extracts bit_group24)+

lemma group24_pad:
  "drop_bit 0 (group24 a b 0) AND 63 = 0"
  "drop_bit 6 (group24 a 0 0) AND 63 = 0"
  "(ucast (drop_bit 6 (group24 a b 0) AND 63) :: byte) AND 3 = 0"
  "(ucast (drop_bit 12 (group24 a 0 0) AND 63) :: byte) AND 15 = 0"
  by (rule bit_word_eqI; simp add: mask_6 mask_4 mask_2 bit_extracts bit_group24)+

lemma quantum_sextets:
  "quantum (ucast (drop_bit 18 v AND 63)) (ucast (drop_bit 12 v AND 63))
     (ucast (drop_bit 6 v AND 63)) (ucast (drop_bit 0 v AND 63)) = take_bit 24 v" (is "?l = _")
proof (rule bit_word_eqI)
  fix n assume n: "n < LENGTH(32)"
  consider "n < 6" | "6 \<le> n \<and> n < 12" | "12 \<le> n \<and> n < 18" | "18 \<le> n \<and> n < 24" | "24 \<le> n"
    by linarith
  then show "bit ?l n = bit (take_bit 24 v) n"
    using n by cases (auto simp: quantum_def mask_6 bit_simps)
qed

lemma group24_quantum:
  "group24 (ucast (drop_bit 16 v)) (ucast (drop_bit 8 v)) (ucast v) = take_bit 24 v" (is "?l = _")
proof (rule bit_word_eqI)
  fix n assume n: "n < LENGTH(32)"
  consider "n < 8" | "8 \<le> n \<and> n < 16" | "16 \<le> n \<and> n < 24" | "24 \<le> n" by linarith
  then show "bit ?l n = bit (take_bit 24 v) n"
    using n by cases (auto simp: group24_def bit_simps)
qed

lemma quantum_parts:
  assumes "w < 64" "x < 64" "y < 64" "z < 64"
  shows "take_bit 24 (quantum w x y z) = quantum w x y z"
    "drop_bit 18 (quantum w x y z) AND 63 = ucast w"
    "drop_bit 12 (quantum w x y z) AND 63 = ucast x"
    "drop_bit 6 (quantum w x y z) AND 63 = ucast y"
    "drop_bit 0 (quantum w x y z) AND 63 = ucast z"
proof -
  have nb: "6 \<le> n \<Longrightarrow> \<not> bit w n" "6 \<le> n \<Longrightarrow> \<not> bit x n" "6 \<le> n \<Longrightarrow> \<not> bit y n" "6 \<le> n \<Longrightarrow> \<not> bit z n" for n
    using assms [THEN bit_sextet_lt, of n] by (meson not_less)+
  have b: "bit (quantum w x y z) n \<longleftrightarrow>
      (if n < 6 then bit z n else if n < 12 then bit y (n - 6) else if n < 18 then bit x (n - 12)
       else if n < 24 then bit w (n - 18) else False)" for n
    by (simp add: quantum_def bit_simps nb less_diff_conv2)
  show "take_bit 24 (quantum w x y z) = quantum w x y z"
    "drop_bit 18 (quantum w x y z) AND 63 = ucast w"
    "drop_bit 12 (quantum w x y z) AND 63 = ucast x"
    "drop_bit 6 (quantum w x y z) AND 63 = ucast y"
    "drop_bit 0 (quantum w x y z) AND 63 = ucast z"
    by (rule bit_word_eqI; simp add: mask_6 bit_and_iff bit_mask_iff bit_drop_bit_eq bit_take_bit_iff bit_unsigned_iff b nb)+
qed

lemma ucast_sextet: "word_of_nat (unat (drop_bit s v AND 63)) = (ucast (drop_bit s (v :: u32) AND 63) :: byte)"
  by (simp add: of_nat_unat)

lemma unat_sextet_less: "unat (drop_bit s (v :: u32) AND 63) < 64"
proof -
  have "drop_bit s v AND 63 = take_bit 6 (drop_bit s v)" unfolding mask_6 take_bit_eq_mask ..
  then have "unat (drop_bit s v AND 63) = take_bit 6 (unat (drop_bit s v))"
    by (simp only: unsigned_take_bit_eq)
  then show ?thesis by (simp add: take_bit_eq_mod)
qed

lemma decode_value_sextet [simp]: "decode_value (sextet v s) = ucast (drop_bit s v AND 63)"
  unfolding sextet_def decode_value_alphabet [OF unat_sextet_less] by (rule ucast_sextet)

lemma IsBase64Char_alphabet: "n < 64 \<Longrightarrow> IsBase64Char (alphabet ! n)"
  using decode_value_alphabet [of n] word_of_nat_neq_255 [of n]
  by (simp add: IsBase64Char_def decode_value_def invalid_base64_def)

lemma IsBase64Char_sextet [simp]: "IsBase64Char (sextet v s)"
  unfolding sextet_def by (rule IsBase64Char_alphabet) (rule unat_sextet_less)

lemma sextet_not_pad [simp]: "sextet v s \<noteq> CHR ''=''"
  using IsBase64Char_sextet [of v s] not_IsBase64Char_pad by metis

lemma sextet_quantum:
  assumes "IsBase64Char p" "IsBase64Char q" "y < 64" "z < 64"
  defines "v \<equiv> quantum (decode_value p) (decode_value q) y z"
  shows "sextet v 18 = p" "sextet v 12 = q" "sextet v 6 = alphabet ! unat y" "sextet v 0 = alphabet ! unat z"
proof -
  note V = IsBase64Char_value [OF assms(1)] IsBase64Char_value [OF assms(2)]
  note P = quantum_parts [OF V(1) V(3) assms(3,4)]
  have u: "unat (ucast (a :: byte) :: u32) = unat a" for a
    using order_less_le_trans [OF unat_byte_less [of a], of 4294967296]
    by (simp add: unsigned_ucast_eq take_bit_nat_eq_self_iff)
  show "sextet v 18 = p" "sextet v 12 = q" "sextet v 6 = alphabet ! unat y" "sextet v 0 = alphabet ! unat z"
    unfolding v_def sextet_def P u by (simp_all add: V)
qed

subsection \<open>Validation loops\<close>

lemma drop_take_Cons: "i < n \<Longrightarrow> n \<le> length data \<Longrightarrow> drop i (take n data) = data ! i # drop (i + 1) (take n data)"
  by (metis Cons_nth_drop_Suc Suc_eq_plus1 length_take min.absorb2 nth_take)

lemma validate_scalar_loop_iff:
  "n \<le> length data \<Longrightarrow> validate_scalar_loop data n i = list_all IsBase64Char (drop i (take n data))"
proof (induction data n i rule: validate_scalar_loop.induct)
  case (1 data n i)
  then show ?case
    by (cases "i < n") (simp_all add: validate_scalar_loop.simps [of data n i] drop_take_Cons)
qed

lemma validate_simd_loop_iff:
  "n \<le> length data \<Longrightarrow>
     (case validate_simd_loop data n i of None \<Rightarrow> False | Some j \<Rightarrow> validate_scalar_loop data n j) =
     list_all IsBase64Char (drop i (take n data))"
proof (induction data n i rule: validate_simd_loop.induct)
  case (1 data n i)
  show ?case
  proof (cases "i + 16 \<le> n")
    case True
    have "drop i (take n data) = take 16 (drop i (take n data)) @ drop 16 (drop i (take n data))"
      by (rule append_take_drop_id [symmetric])
    also have "take 16 (drop i (take n data)) = substr data i 16"
      using True by (simp add: substr_def drop_take)
    finally have "drop i (take n data) = substr data i 16 @ drop (i + 16) (take n data)"
      by (simp add: add.commute)
    moreover have "list_all simd_valid xs = list_all IsBase64Char xs" for xs
      by (simp add: list_all_iff IsBase64Char_simd)
    ultimately show ?thesis using 1 True
      by (simp add: validate_simd_loop.simps [of data n i])
  next
    case False
    with 1 show ?thesis
      by (simp add: validate_simd_loop.simps [of data n i] validate_scalar_loop_iff)
  qed
qed

lemma validate_scan:
  assumes "n \<le> length data"
  shows "(case (if use_simd then validate_simd_loop data n 0 else Some 0) of
            None \<Rightarrow> False | Some i \<Rightarrow> validate_scalar_loop data n i) = list_all IsBase64Char (take n data)"
  using validate_simd_loop_iff [OF assms, of 0] validate_scalar_loop_iff [OF assms, of 0]
  by (cases use_simd) simp_all

text \<open>What \<^verbatim>\<open>validate\<close> asks of the last quantum.\<close>

definition last_ok :: "char \<Rightarrow> char \<Rightarrow> char \<Rightarrow> char \<Rightarrow> bool" where
  "last_ok p q r s \<longleftrightarrow>
     IsBase64Char p \<and> IsBase64Char q \<and>
     (if s = CHR ''='' then
        if r = CHR ''='' then decode_value q AND 0x0f = 0
        else IsBase64Char r \<and> decode_value r AND 0x03 = 0
      else IsBase64Char r \<and> IsBase64Char s)"

lemma length4: "length xs = 4 \<Longrightarrow> \<exists>p q r s. xs = [p, q, r, s]"
  by (auto simp: length_Suc_conv eval_nat_numeral)

lemma snoc4:
  assumes "data \<noteq> []" "length data mod 4 = 0"
  obtains pre p q r s where "data = pre @ [p, q, r, s]" "length pre mod 4 = 0"
proof -
  define k where "k = length data - 4"
  from assms have k: "4 \<le> length data"
    by (metis length_0_conv linorder_not_le mod_less)
  then have "length (drop k data) = 4" by (simp add: k_def)
  then obtain p q r s where "drop k data = [p, q, r, s]"
    using length4 by blast
  then have "data = take k data @ [p, q, r, s]" by (metis append_take_drop_id)
  moreover have "length (take k data) mod 4 = 0"
    using assms(2) k by (simp add: k_def le_mod_geq)
  ultimately show ?thesis by (rule that)
qed

lemma validate_snoc:
  assumes "length pre mod 4 = 0"
  shows "validate use_simd (pre @ [p, q, r, s]) \<longleftrightarrow> list_all IsBase64Char pre \<and> last_ok p q r s"
proof -
  let ?d = "pre @ [p, q, r, s]"
  have nth: "?d ! (length ?d - 2) = r" "?d ! (length ?d - 3) = q" "last ?d = s"
    by (simp_all add: nth_append nth_Cons')
  have len: "length ?d mod 4 = 0" using assms by simp
  have scan: "(case (if use_simd then validate_simd_loop ?d (length ?d - k) 0 else Some 0) of
      None \<Rightarrow> False | Some i \<Rightarrow> validate_scalar_loop ?d (length ?d - k) i) =
      list_all IsBase64Char (take (length ?d - k) ?d)" for k
    by (rule validate_scan) simp
  have V: "validate use_simd ?d \<longleftrightarrow>
     (let k = (if s = CHR ''='' then if r = CHR ''='' then 2 else 1 else 0)
      in list_all IsBase64Char (take (length ?d - k) ?d)
         \<and> \<not> (k = 1 \<and> decode_value r AND 0x03 \<noteq> 0) \<and> \<not> (k = 2 \<and> decode_value q AND 0x0f \<noteq> 0))"
    unfolding validate_def nth len Let_def scan [symmetric]
    by (auto split: option.splits)
  show ?thesis unfolding V last_ok_def Let_def
    by (auto simp: numeral_2_eq_2)
qed

subsection \<open>The codec on whole quanta\<close>

fun dec_full :: "string \<Rightarrow> byte list" where
  "dec_full (p # q # r # s # rest) =
     (let v = quantum (decode_value p) (decode_value q) (decode_value r) (decode_value s)
      in [ucast (drop_bit 16 v), ucast (drop_bit 8 v), ucast v] @ dec_full rest)"
| "dec_full _ = []"

lemma decode_loop_snoc:
  "length pre mod 4 = 0 \<Longrightarrow>
     decode_loop padding (pre @ [p, q, r, s]) = dec_full pre @ decode_loop padding [p, q, r, s]"
proof (induction pre rule: dec_full.induct)
  case (1 p' q' r' s' rest)
  have len: "length rest mod 4 = 0" using "1.prems" by simp
  obtain t ts where t: "rest @ [p, q, r, s] = t # ts" by (cases rest) auto
  with 1(1) len have "decode_loop padding (t # ts) = dec_full rest @ decode_loop padding [p, q, r, s]"
    by simp
  then show ?case by (simp add: t Let_def del: decode_loop.simps(2))
qed (auto)

lemma encode_loop_append:
  "length xs mod 3 = 0 \<Longrightarrow> encode_loop (xs @ ys) = encode_loop xs @ encode_loop ys"
  by (induction xs rule: encode_loop.induct) (auto simp: Let_def)

lemma encode_loop_full:
  "length bs mod 3 = 0 \<Longrightarrow>
     list_all IsBase64Char (encode_loop bs) \<and> length (encode_loop bs) mod 4 = 0 \<and> dec_full (encode_loop bs) = bs"
  by (induction bs rule: encode_loop.induct)
     (auto simp: Let_def quantum_sextets [simplified] group24_bytes)

lemma dec_full_encode:
  "length pre mod 4 = 0 \<Longrightarrow> list_all IsBase64Char pre \<Longrightarrow>
     encode_loop (dec_full pre) = pre \<and> length (dec_full pre) mod 3 = 0"
proof (induction pre rule: dec_full.induct)
  case (1 p q r s rest)
  then have v: "IsBase64Char p" "IsBase64Char q" "IsBase64Char r" "IsBase64Char s"
    and rest: "encode_loop (dec_full rest) = rest" "length (dec_full rest) mod 3 = 0" by auto
  note R = IsBase64Char_value [OF v(3)] and S = IsBase64Char_value [OF v(4)]
  note Q = quantum_parts(1) [OF IsBase64Char_value(1) [OF v(1)] IsBase64Char_value(1) [OF v(2)] R(1) S(1)]
  note X = sextet_quantum [OF v(1,2) R(1) S(1), unfolded R(2) S(2)]
  show ?case using rest by (simp add: Let_def group24_quantum Q X)
qed auto

subsection \<open>The last quantum\<close>

lemma and_mask_zero_bits:
  "(y :: byte) AND 3 = 0 \<Longrightarrow> n < 2 \<Longrightarrow> \<not> bit y n" "(y :: byte) AND 15 = 0 \<Longrightarrow> n < 4 \<Longrightarrow> \<not> bit y n"
proof -
  assume "y AND 3 = 0" "n < 2"
  then have "bit (y AND mask 2) n = bit (0 :: byte) n" by (simp add: mask_2)
  with \<open>n < 2\<close> show "\<not> bit y n" by (simp add: bit_simps)
next
  assume "y AND 15 = 0" "n < 4"
  then have "bit (y AND mask 4) n = bit (0 :: byte) n" by (simp add: mask_4)
  with \<open>n < 4\<close> show "\<not> bit y n" by (simp add: bit_simps)
qed

lemma quantum_pad1:
  assumes "y AND 3 = 0"
  shows "(ucast (quantum w x y 0) :: byte) = 0"
proof (rule bit_word_eqI)
  fix n assume "n < LENGTH(8)"
  then show "bit (ucast (quantum w x y 0) :: byte) n = bit (0 :: byte) n"
    using and_mask_zero_bits(1) [OF assms, of "n - 6"] by (auto simp: quantum_def bit_simps)
qed

lemma quantum_pad2:
  assumes "x AND 15 = 0"
  shows "(ucast (quantum w x 0 0) :: byte) = 0" "(ucast (drop_bit 8 (quantum w x 0 0)) :: byte) = 0"
proof -
  show "(ucast (quantum w x 0 0) :: byte) = 0" by (rule quantum_pad1) simp
  show "(ucast (drop_bit 8 (quantum w x 0 0)) :: byte) = 0"
  proof (rule bit_word_eqI)
    fix n assume "n < LENGTH(8)"
    then show "bit (ucast (drop_bit 8 (quantum w x 0 0)) :: byte) n = bit (0 :: byte) n"
      using and_mask_zero_bits(2) [OF assms, of "n + 8 - 12"]
      by (auto simp: quantum_def bit_simps)
  qed
qed

definition pad_count :: "char \<Rightarrow> char \<Rightarrow> nat" where
  "pad_count r s = (if s = CHR ''='' then 1 else 0) + (if r = CHR ''='' then 1 else 0)"

lemma last_quantum_encode:
  assumes "ys \<noteq> []" "length ys \<le> 3"
  obtains p q r s where "encode_loop ys = [p, q, r, s]" "last_ok p q r s"
    "decode_loop (pad_count r s) [p, q, r, s] = ys"
proof -
  from assms consider a where "ys = [a]" | a b where "ys = [a, b]" | a b c where "ys = [a, b, c]"
    by (cases ys rule: encode_loop.cases) auto
  then show ?thesis
  proof cases
    case (1 a)
    note S = quantum_sextets [of "group24 a 0 0", unfolded group24_pad group24_bytes]
    show ?thesis
      by (rule that [of "sextet (group24 a 0 0) 18" "sextet (group24 a 0 0) 12" "CHR ''=''" "CHR ''=''"])
        (use S in \<open>simp_all add: 1 Let_def last_ok_def pad_count_def group24_pad
          group24_bytes\<close>)
  next
    case (2 a b)
    note S = quantum_sextets [of "group24 a b 0", unfolded group24_pad group24_bytes]
    show ?thesis
      by (rule that [of "sextet (group24 a b 0) 18" "sextet (group24 a b 0) 12" "sextet (group24 a b 0) 6" "CHR ''=''"])
        (use S in \<open>simp_all add: 2 Let_def last_ok_def pad_count_def group24_pad
          group24_bytes\<close>)
  next
    case (3 a b c)
    note S = quantum_sextets [of "group24 a b c", unfolded group24_bytes]
    show ?thesis
      by (rule that [of "sextet (group24 a b c) 18" "sextet (group24 a b c) 12" "sextet (group24 a b c) 6" "sextet (group24 a b c) 0"])
        (use S in \<open>simp_all add: 3 Let_def last_ok_def pad_count_def group24_bytes\<close>)
  qed
qed

lemma last_quantum_decode:
  assumes "last_ok p q r s"
  shows "encode_loop (decode_loop (pad_count r s) [p, q, r, s]) = [p, q, r, s]"
    and "decode_loop (pad_count r s) [p, q, r, s] \<noteq> []"
proof -
  have v: "IsBase64Char p" "IsBase64Char q" using assms by (auto simp: last_ok_def)
  note PQ = IsBase64Char_value(1) [OF v(1)] IsBase64Char_value(1) [OF v(2)]
  have z: "(0 :: byte) < 64" by simp
  show "encode_loop (decode_loop (pad_count r s) [p, q, r, s]) = [p, q, r, s]"
  proof (cases "s = CHR ''=''")
    case s: True
    show ?thesis
    proof (cases "r = CHR ''=''")
      case True
      with assms s have "decode_value q AND 15 = 0" by (simp add: last_ok_def)
      note U = quantum_pad2 [OF this, of "decode_value p"]
      note G = group24_quantum [of "quantum (decode_value p) (decode_value q) 0 0",
          unfolded U quantum_parts(1) [OF PQ z z]]
      show ?thesis using s True sextet_quantum [OF v z z]
        by (simp add: Let_def pad_count_def G)
    next
      case False
      with assms s have r: "IsBase64Char r" "decode_value r AND 3 = 0" by (auto simp: last_ok_def)
      note R = IsBase64Char_value [OF r(1)]
      note G = group24_quantum [of "quantum (decode_value p) (decode_value q) (decode_value r) 0",
          unfolded quantum_pad1 [OF r(2)] quantum_parts(1) [OF PQ R(1) z]]
      show ?thesis using s False sextet_quantum [OF v R(1) z] R(2)
        by (simp add: Let_def pad_count_def G)
    qed
  next
    case s: False
    with assms have r: "IsBase64Char r" "IsBase64Char s" by (auto simp: last_ok_def)
    then have "r \<noteq> CHR ''=''" by auto
    with s have pad: "pad_count r s = 0" by (simp add: pad_count_def)
    have "encode_loop (dec_full [p, q, r, s]) = [p, q, r, s]"
      using dec_full_encode [of "[p, q, r, s]"] v r by simp
    with pad show ?thesis by (simp add: Let_def)
  qed
  show "decode_loop (pad_count r s) [p, q, r, s] \<noteq> []" by (simp add: Let_def)
qed

lemma decode_to_snoc:
  assumes "length pre mod 4 = 0"
  shows "decode_to use_simd (pre @ [p, q, r, s]) =
    (if list_all IsBase64Char pre \<and> last_ok p q r s
     then (True, dec_full pre @ decode_loop (pad_count r s) [p, q, r, s]) else (False, []))"
proof -
  let ?d = "pre @ [p, q, r, s]"
  have nth: "?d ! (length ?d - 2) = r" "last ?d = s" by (simp_all add: nth_append nth_Cons')
  show ?thesis
    unfolding decode_to_def validate_snoc [OF assms] nth Let_def
      pad_count_def [symmetric] decode_loop_snoc [OF assms] by simp
qed

lemma split_last3:
  assumes "bs \<noteq> []"
  obtains xs ys where "bs = xs @ ys" "length xs mod 3 = 0" "ys \<noteq> []" "length ys \<le> 3"
proof -
  define k where "k = (length bs - 1) div 3 * 3"
  have "0 < length bs" using assms by simp
  then have "k < length bs" "length bs - k \<le> 3" unfolding k_def by presburger+
  then show ?thesis
    by (intro that [of "take k bs" "drop k bs"]) (simp_all add: k_def)
qed

theorem decode_encode: "decode_to use_simd (EncodeFromArray (Some bs)) = (True, bs)"
proof (cases "bs = []")
  case True
  then show ?thesis by (simp add: EncodeFromArray_def decode_to_def validate_def)
next
  case False
  obtain xs ys where s: "bs = xs @ ys" "length xs mod 3 = 0" "ys \<noteq> []" "length ys \<le> 3"
    using split_last3 [OF False] .
  obtain p q r t where l: "encode_loop ys = [p, q, r, t]" "last_ok p q r t"
    "decode_loop (pad_count r t) [p, q, r, t] = ys"
    using last_quantum_encode [OF s(3,4)] .
  note F = encode_loop_full [OF s(2)]
  have "EncodeFromArray (Some bs) = encode_loop xs @ [p, q, r, t]"
    using False s l by (simp add: EncodeFromArray_def encode_loop_append)
  then show ?thesis using F l s(1) by (simp add: decode_to_snoc del: decode_loop.simps)
qed

theorem decode_only_encoded:
  assumes "decode_to use_simd data = (True, bs)"
  shows "data = EncodeFromArray (Some bs)"
proof (cases "data = []")
  case True
  with assms show ?thesis by (auto simp: EncodeFromArray_def decode_to_def validate_def)
next
  case False
  have "length data mod 4 = 0"
    using assms False by (auto simp: decode_to_def validate_def split: if_splits)
  with False obtain pre p q r s where d: "data = pre @ [p, q, r, s]" "length pre mod 4 = 0"
    by (rule snoc4)
  with assms have ok: "list_all IsBase64Char pre" "last_ok p q r s"
    and bs: "bs = dec_full pre @ decode_loop (pad_count r s) [p, q, r, s]"
    by (auto simp: decode_to_snoc simp del: decode_loop.simps split: if_splits)
  note F = dec_full_encode [OF d(2) ok(1)]
  note L = last_quantum_decode [OF ok(2)]
  from L(2) have "bs \<noteq> []" unfolding bs by blast
  moreover have "encode_loop bs = data"
    unfolding bs encode_loop_append [OF conjunct2 [OF F]] conjunct1 [OF F] L(1) d(1) ..
  ultimately show ?thesis by (simp add: EncodeFromArray_def)
qed

section \<open>Properties\<close>

text \<open>The decoder as a partial function: with its verdict folded into the result it is a strict codec.\<close>

definition decode_result :: "bool \<Rightarrow> string \<Rightarrow> byte list option" where
  "decode_result use_simd data = (case decode_to use_simd data of (ok, bs) \<Rightarrow> if ok then Some bs else None)"

lemma decode_result_iff: "decode_result use_simd data = Some bs \<longleftrightarrow> decode_to use_simd data = (True, bs)"
  by (auto simp: decode_result_def split: prod.splits)

interpretation base64: strict_codec "\<lambda>bs. EncodeFromArray (Some bs)" "decode_result use_simd" "\<lambda>_. True" for use_simd
  by unfold_locales (auto simp: decode_result_iff decode_encode dest: decode_only_encoded)

text \<open>C1. Round trip and strictness: a string decodes successfully to \<open>bs\<close> if and only if it is
  the encoding of \<open>bs\<close>. So \<^verbatim>\<open>Decode\<close> inverts \<^verbatim>\<open>Encode\<close>, every accepted text is canonical (right
  length, padding only at the end, zero pad bits), and no two texts decode to the same bytes.
  It holds with and without the SIMD validator.\<close>

theorem base64_decode_iff_encode:
  "decode_to use_simd data = (True, bs) \<longleftrightarrow> data = EncodeFromArray (Some bs)"
  using base64.dec_iff [of use_simd data bs] by (simp add: decode_result_iff)

text \<open>The 16-lane SIMD validator accepts the same strings as the table-driven scalar one, and
  a string is accepted exactly when it is the encoding of some byte sequence.\<close>

theorem base64_validate_simd:
  "validate True data = validate False data
   \<and> (IsBase64Encoded use_simd data \<longleftrightarrow> (\<exists>bs. data = EncodeFromArray (Some bs)))"
proof -
  have acc: "validate simd data \<longleftrightarrow> (\<exists>bs. data = EncodeFromArray (Some bs))" for simd
  proof
    assume "validate simd data"
    then have "\<exists>bs. decode_to simd data = (True, bs)" by (auto simp: decode_to_def Let_def)
    then show "\<exists>bs. data = EncodeFromArray (Some bs)" by (auto dest: decode_only_encoded)
  next
    assume "\<exists>bs. data = EncodeFromArray (Some bs)"
    then have "\<exists>bs. decode_to simd data = (True, bs)" by (auto simp: decode_encode)
    then show "validate simd data" by (auto simp: decode_to_def split: if_splits)
  qed
  show ?thesis unfolding IsBase64Encoded_def acc by simp
qed

lemma length_encode_loop: "length (encode_loop bs) = 4 * ((length bs + 2) div 3)"
  by (induction bs rule: encode_loop.induct) (auto simp: Let_def, presburger)

text \<open>On strings: \<^verbatim>\<open>Decode(Encode(s))\<close> is \<open>s\<close>, a failed decode leaves an empty result, and the
  encoding has the \<open>((n + 2) / 3) * 4\<close> characters the encoder allocates.\<close>

theorem base64_string_round_trip:
  "Decode_result use_simd (Encode s) = (True, s) \<and> Decode use_simd (Encode s) = s
   \<and> length (Encode s) = (length s + 2) div 3 * 4
   \<and> (\<not> validate use_simd t \<longrightarrow> Decode_result use_simd t = (False, []))"
proof -
  have "length (Encode s) = (length s + 2) div 3 * 4"
    using length_encode_loop [of "map byte_of_char s"]
    by (cases s) (simp_all add: Encode_def EncodeFromArray_def)
  then show ?thesis
    by (simp add: Encode_def Decode_result_def Decode_def decode_encode decode_to_def [of use_simd t])
qed

theorem base64_string_round_trip_witness:
  "\<not> validate False ''QQ=A'' \<and> Decode_result False ''QQ=A'' = (False, [])"
proof -
  have v: "\<not> validate False ''QQ=A''"
    using validate_snoc [of "[]" False "CHR ''Q''" "CHR ''Q''" "CHR ''=''" "CHR ''A''"]
    by (simp add: last_ok_def)
  with base64_string_round_trip [of False "[]" "''QQ=A''"] show ?thesis by simp
qed

section \<open>The older names\<close>

definition Encode_from_array :: "byte list option \<Rightarrow> string" where
  "Encode_from_array data = EncodeFromArray data"

definition Decode_from_array :: "bool \<Rightarrow> string option \<Rightarrow> nat \<Rightarrow> bool \<times> byte list" where
  "Decode_from_array use_simd data sz = DecodeFromArray use_simd data sz"

end
