(* ===== verification/Base64_Simd.thy ===== *)
theory Base64_Simd
  imports Base64
begin

text \<open>
  The vectorised coder at the end of \<^verbatim>\<open>src/breutil/encoding/base64.hpp\<close>, which is kept there switched off for later work: blocks of twelve bytes and sixteen characters with
  the alphabet computed lane by lane under masks instead of looked up. A vector of sixteen lanes is a list of bytes, and an operation on vectors is mapped over it. It is
  shown to agree with the coder in use on the blocks that it covers.
\<close>

section \<open>The code\<close>

text \<open>Writing consecutive elements of the result, which the caller has resized; past its end this is undefined.\<close>

definition write_at :: "nat \<Rightarrow> 'a list \<Rightarrow> 'a list \<Rightarrow> 'a list cpp_result" where
  "write_at pos xs r = (if pos + length xs \<le> length r then Ret (take pos r @ xs @ drop (pos + length xs) r) else UB)"

definition group_indices :: "byte list \<Rightarrow> nat \<Rightarrow> byte list" where
  "group_indices input pos =
     (let v = group24 (input ! pos) (input ! (pos + 1)) (input ! (pos + 2))
      in [ucast (drop_bit 18 v AND 0x3f), ucast (drop_bit 12 v AND 0x3f), ucast (drop_bit 6 v AND 0x3f), ucast (v AND 0x3f)])"

text \<open>One lane of the masked assignments, in their order.\<close>

definition ascii_lane :: "byte \<Rightarrow> byte" where
  "ascii_lane v =
     (let a = v + 65;
          a = (if v \<ge> 26 then v + (97 - 26) else a);
          a = (if v \<ge> 52 then v + (48 - 52) else a);
          a = (if v = 62 then 43 else a)
      in if v = 63 then 47 else a)"

definition encode_block :: "byte list \<Rightarrow> nat \<Rightarrow> string" where
  "encode_block input source =
     map char_of_byte (map ascii_lane (concat (map (\<lambda>group. group_indices input (source + group * 3)) [0, 1, 2, 3])))"

function encode_simd_loop :: "byte list \<Rightarrow> nat \<Rightarrow> nat \<Rightarrow> string \<Rightarrow> string cpp_result" where
  "encode_simd_loop input source target result =
     (if source + 12 \<le> length input
      then case write_at target (encode_block input source) result of
             UB \<Rightarrow> UB
           | Ret r \<Rightarrow> encode_simd_loop input (source + 12) (target + 16) r
      else Ret result)"
  by pat_completeness auto
termination by (relation "measure (\<lambda>(input, source, _). length input - source)") auto

definition encode_simd_experiment :: "byte list \<Rightarrow> string \<Rightarrow> string cpp_result" where
  "encode_simd_experiment input result = encode_simd_loop input 0 0 result"

definition simd_lane_ok :: "byte \<Rightarrow> bool" where
  "simd_lane_ok c \<longleftrightarrow> (65 \<le> c \<and> c \<le> 90) \<or> (97 \<le> c \<and> c \<le> 122) \<or> (48 \<le> c \<and> c \<le> 57) \<or> c = 43 \<or> c = 47"

definition value_lane :: "byte \<Rightarrow> byte" where
  "value_lane c =
     (let v = c - 65;
          v = (if 97 \<le> c \<and> c \<le> 122 then c - 97 + 26 else v);
          v = (if 48 \<le> c \<and> c \<le> 57 then c - 48 + 52 else v);
          v = (if c = 43 then 62 else v)
      in if c = 47 then 63 else v)"

definition decode_block :: "byte list \<Rightarrow> byte list" where
  "decode_block mapped =
     concat (map (\<lambda>lane. let v = quantum (mapped ! lane) (mapped ! (lane + 1)) (mapped ! (lane + 2)) (mapped ! (lane + 3))
                         in [ucast (drop_bit 16 v), ucast (drop_bit 8 v), ucast v]) [0, 4, 8, 12])"

text \<open>The flag is what the function returns, next to the result as it left it.\<close>

function decode_simd_loop :: "string \<Rightarrow> nat \<Rightarrow> nat \<Rightarrow> nat \<Rightarrow> byte list \<Rightarrow> (bool \<times> byte list) cpp_result" where
  "decode_simd_loop data full_end source target result =
     (if source + 16 \<le> full_end
      then if length data < source + 16 then UB
      else let chars = map byte_of_char (substr data source 16)
           in if \<not> list_all simd_lane_ok chars then Ret (False, result)
              else (case write_at target (decode_block (map value_lane chars)) result of
                      UB \<Rightarrow> UB
                    | Ret r \<Rightarrow> decode_simd_loop data full_end (source + 16) (target + 12) r)
      else Ret (True, result))"
  by pat_completeness auto
termination by (relation "measure (\<lambda>(data, full_end, source, _). full_end - source)") auto

text \<open>\<^verbatim>\<open>data.size() - 4\<close> wraps around for a text of fewer than four characters, which the loop then reads past its end.\<close>

definition decode_simd_experiment :: "string \<Rightarrow> byte list \<Rightarrow> (bool \<times> byte list) cpp_result" where
  "decode_simd_experiment data result =
     decode_simd_loop data (unat (word_of_nat (length data) - 4 :: u64)) 0 0 result"

section \<open>Lanes\<close>

lemma ascii_lane_alphabet:
  assumes "v < 64"
  shows "char_of_byte (ascii_lane v) = alphabet ! unat v"
proof -
  have n: "unat v < 64" using assms by (simp add: word_less_nat_alt)
  have l: "k < 256 \<Longrightarrow> (word_of_nat k \<le> v) = (k \<le> unat v)" for k
    by (simp add: word_le_nat_alt unat_of_nat)
  have e: "k < 256 \<Longrightarrow> (v = word_of_nat k) = (unat v = k)" for k
    by (auto simp: word_unat_eq_iff unat_of_nat)
  have a: "unat (v + word_of_nat k) = (unat v + k) mod 256" for k
    by (simp add: unat_word_ariths unat_of_nat mod_simps)
  have m: "unat v \<ge> 52 \<Longrightarrow> unat (v - 4) = unat v - 4"
    using unat_sub [of 4 v] by (simp add: word_le_nat_alt)
  have c: "char_of (43 :: nat) = CHR ''+''" "char_of (47 :: nat) = CHR ''/''" by code_simp+
  show ?thesis
    using n l [of 26] l [of 52] e [of 62] e [of 63] a [of 65] a [of 71] m c
    by (auto simp: ascii_lane_def char_of_byte_def alphabet_nth)
qed

lemma simd_lane_ok_char [simp]: "simd_lane_ok (byte_of_char c) = IsBase64Char c"
proof -
  have "(word_of_nat k \<le> byte_of_char c) = (k \<le> code c)" "(byte_of_char c \<le> word_of_nat k) = (code c \<le> k)"
    "(byte_of_char c = word_of_nat k) = (code c = k)" if "k < 256" for k
    using that by (auto simp: word_le_nat_alt unat_of_nat word_unat_eq_iff)
  note this [of 65, simplified] this [of 90, simplified] this [of 97, simplified] this [of 122, simplified] this [of 48, simplified]
    this [of 57, simplified] this [of 43, simplified] this [of 47, simplified]
  then show ?thesis by (simp add: simd_lane_ok_def IsBase64Char_simd simd_valid_code)
qed

lemma value_lane_char [simp]:
  assumes "IsBase64Char c"
  shows "value_lane (byte_of_char c) = decode_value c"
proof -
  have le: "(word_of_nat k \<le> byte_of_char c) = (k \<le> code c)" "(byte_of_char c \<le> word_of_nat k) = (code c \<le> k)"
    "(byte_of_char c = word_of_nat k) = (code c = k)" if "k < 256" for k
    using that by (auto simp: word_le_nat_alt unat_of_nat word_unat_eq_iff)
  note l = le [of 97, simplified] le [of 122, simplified] le [of 48, simplified] le [of 57, simplified] le [of 43, simplified] le [of 47, simplified]
  have m: "byte_of_char c - word_of_nat k = word_of_nat (code c - k)" if "k \<le> code c" for k
    using that by (simp add: byte_of_char_def of_nat_diff)
  consider "65 \<le> code c" "code c \<le> 90" | "97 \<le> code c" "code c \<le> 122"
    | "48 \<le> code c" "code c \<le> 57" | "code c = 43" | "code c = 47"
    using assms unfolding IsBase64Char_simd simd_valid_code by blast
  then show ?thesis
  proof cases
    case 1
    then have "value_lane (byte_of_char c) = byte_of_char c - 65" by (simp add: value_lane_def l)
    then show ?thesis using m [of 65] 1 by (simp add: decode_value_def table_nth)
  next
    case 2
    then have "value_lane (byte_of_char c) = byte_of_char c - 97 + 26" by (simp add: value_lane_def l)
    also have "\<dots> = word_of_nat (code c - 97) + 26" using m [of 97] 2 by simp
    also have "\<dots> = word_of_nat (code c - 97 + 26)" by simp
    also have "code c - 97 + 26 = code c - 71" using 2 by simp
    finally show ?thesis using 2 by (simp add: decode_value_def table_nth)
  next
    case 3
    then have "value_lane (byte_of_char c) = byte_of_char c - 48 + 52" by (simp add: value_lane_def l)
    also have "\<dots> = word_of_nat (code c - 48) + 52" using m [of 48] 3 by simp
    also have "\<dots> = word_of_nat (code c - 48 + 52)" by simp
    also have "code c - 48 + 52 = code c + 4" using 3 by simp
    finally show ?thesis using 3 by (simp add: decode_value_def table_nth)
  qed (simp_all add: value_lane_def l decode_value_def table_nth)
qed

section \<open>Blocks\<close>

lemma word_of_nat_less_64: "n < 64 \<Longrightarrow> (word_of_nat n :: byte) < 64"
  by (simp add: word_less_nat_alt unat_of_nat)

lemma unat_word_of_nat_64: "n < 64 \<Longrightarrow> unat (word_of_nat n :: byte) = n"
  by (simp add: unat_of_nat)

lemma group_lanes:
  "map char_of_byte (map ascii_lane (group_indices input pos))
     = encode_loop [input ! pos, input ! (pos + 1), input ! (pos + 2)]"
proof -
  have "char_of_byte (ascii_lane (ucast (drop_bit s v AND 63))) = sextet v s" for s and v :: u32
    unfolding sextet_def ucast_sextet [symmetric]
    by (subst ascii_lane_alphabet, rule word_of_nat_less_64, rule unat_sextet_less)
      (subst unat_word_of_nat_64, rule unat_sextet_less, rule refl)
  from this [where s = 0] this show ?thesis by (simp only: group_indices_def encode_loop.simps Let_def list.map drop_bit_0 id_apply append_Nil2)
qed

lemma encode_block_loop:
  assumes "source + 12 \<le> length input"
  shows "encode_block input source = encode_loop (take 12 (drop source input))" "length (encode_block input source) = 16"
proof -
  have "drop source input = [input ! source] @ [input ! (source + 1)] @ drop (source + 2) input" if "source + 2 \<le> length input" for source
    using that by (simp add: Cons_nth_drop_Suc)
  have t: "take 12 (drop source input) = concat (map (\<lambda>g. [input ! (source + g * 3), input ! (source + g * 3 + 1), input ! (source + g * 3 + 2)]) [0, 1, 2, 3])"
    using assms by (intro nth_equalityI) (auto simp: nth_append nth_Cons' less_Suc_eq numeral_eq_Suc)
  show "encode_block input source = encode_loop (take 12 (drop source input))"
    unfolding t encode_block_def map_concat map_map o_def
    by (simp add: group_lanes [unfolded map_map o_def] encode_loop_append Let_def add.assoc)
  show "length (encode_block input source) = 16" by (simp add: encode_block_def group_indices_def Let_def)
qed

section \<open>The loops\<close>

lemma write_at_fits: "pos + length xs \<le> length r \<Longrightarrow> \<exists>r'. write_at pos xs r = Ret r'"
  by (simp add: write_at_def)

lemma write_at_facts:
  assumes "write_at pos xs r = Ret r'"
  shows "length r' = length r" "take (pos + length xs) r' = take pos r @ xs" "pos + length xs \<le> n \<Longrightarrow> drop n r' = drop n r"
  using assms by (auto simp: write_at_def split: if_splits)

declare encode_simd_loop.simps [simp del] decode_simd_loop.simps [simp del]

lemma encode_simd_loop_eq:
  assumes "source + 12 * k \<le> length input" "length input < source + 12 * k + 12" "target + 16 * k \<le> length result"
  shows "encode_simd_loop input source target result
    = Ret (take target result @ encode_loop (take (12 * k) (drop source input)) @ drop (target + 16 * k) result)"
  using assms
proof (induction k arbitrary: source target result)
  case 0
  then show ?case by (subst encode_simd_loop.simps) simp
next
  case (Suc k)
  let ?b = "encode_block input source"
  have "source + 12 \<le> length input" using Suc.prems(1) by simp
  note b = encode_block_loop [OF this]
  have "target + length ?b \<le> length result" using Suc.prems(3) b(2) by simp
  from write_at_fits [OF this] obtain r where r: "write_at target ?b result = Ret r" ..
  note f = write_at_facts [OF r, unfolded b(2)]
  have s: "take (12 * Suc k) (drop source input) = take 12 (drop source input) @ take (12 * k) (drop (source + 12) input)"
    by (simp add: take_add add.commute)
  have "encode_simd_loop input source target result = encode_simd_loop input (source + 12) (target + 16) r"
    using Suc.prems(1) r by (subst encode_simd_loop.simps) simp
  also have "\<dots> = Ret (take (target + 16) r @ encode_loop (take (12 * k) (drop (source + 12) input)) @ drop (target + 16 + 16 * k) r)"
    using Suc.prems f(1) by (intro Suc.IH) auto
  also have "\<dots> = Ret (take target result @ encode_loop (take (12 * Suc k) (drop source input)) @ drop (target + 16 * Suc k) result)"
    using Suc.prems(1) unfolding s by (subst encode_loop_append) (auto simp: f(2,3) b(1) algebra_simps)
  finally show ?case .
qed

text \<open>The vectorised encoder writes the first part of what the encoder in use returns: everything up to the last full block.\<close>

theorem encode_simd_agrees:
  assumes "16 * (length input div 12) \<le> length result"
  defines "n \<equiv> 16 * (length input div 12)"
  shows "encode_simd_experiment input result = Ret (take n (encode_loop input) @ drop n result)"
proof -
  let ?k = "length input div 12"
  have "encode_simd_experiment input result = Ret (encode_loop (take (12 * ?k) input) @ drop n result)"
    unfolding encode_simd_experiment_def n_def
    using assms by (subst encode_simd_loop_eq [where k = ?k]) (simp_all add: dividend_less_times_div)
  moreover have l: "length (take (12 * ?k) input) = 12 * ?k" by (simp add: min.absorb2)
  have "encode_loop input = encode_loop (take (12 * ?k) input) @ encode_loop (drop (12 * ?k) input)"
    by (subst encode_loop_append [symmetric], unfold l) simp_all
  moreover have "length (encode_loop (take (12 * ?k) input)) = n"
    unfolding length_encode_loop l n_def by simp
  ultimately show ?thesis by simp
qed

lemma decode_loop_quantum:
  "rest \<noteq> [] \<Longrightarrow> decode_loop padding (p # q # r # s # rest) =
     (let v = quantum (decode_value p) (decode_value q) (decode_value r) (decode_value s)
      in [ucast (drop_bit 16 v), ucast (drop_bit 8 v), ucast v] @ decode_loop padding rest)"
  by (cases rest) simp_all

lemma decode_block_loop:
  assumes "length xs = 16" "ys \<noteq> []" "list_all IsBase64Char xs"
  shows "decode_loop padding (xs @ ys) = decode_block (map value_lane (map byte_of_char xs)) @ decode_loop padding ys"
proof -
  obtain a b c d e f g h i j k l m n p q where "xs = [a, b, c, d, e, f, g, h, i, j, k, l, m, n, p, q]"
    using assms(1) by (auto simp: numeral_eq_Suc length_Suc_conv)
  then show ?thesis using assms(2,3) by (simp add: decode_loop_quantum decode_block_def Let_def)
qed

lemma length_decode_block [simp]: "length (decode_block m) = 12"
  by (simp add: decode_block_def Let_def)

lemma decode_simd_loop_eq:
  assumes "source + 16 * k \<le> full_end" "full_end < source + 16 * k + 16" "full_end < length data" "target + 12 * k \<le> length result"
  shows "\<exists>r. decode_simd_loop data full_end source target result = Ret (list_all IsBase64Char (take (16 * k) (drop source data)), r)
    \<and> (list_all IsBase64Char (take (16 * k) (drop source data)) \<longrightarrow>
         (\<exists>bs. r = take target result @ bs @ drop (target + 12 * k) result \<and> length bs = 12 * k
            \<and> decode_loop padding (drop source data) = bs @ decode_loop padding (drop (source + 16 * k) data)))"
  using assms
proof (induction k arbitrary: source target result)
  case 0
  then show ?case by (subst decode_simd_loop.simps) simp
next
  case (Suc k)
  let ?xs = "take 16 (drop source data)" and ?next = "decode_simd_loop data full_end (source + 16) (target + 12)"
  have xs: "take (16 * Suc k) (drop source data) = ?xs @ take (16 * k) (drop (source + 16) data)"
    by (simp add: take_add add.commute)
  have d: "drop source data = ?xs @ drop (source + 16) data"
    using append_take_drop_id [of 16 "drop source data"] by (simp add: add.commute)
  have l: "drop (source + 16) data \<noteq> []" "length ?xs = 16" using Suc.prems by simp_all
  have ok: "list_all simd_lane_ok (map byte_of_char (substr data source 16)) = list_all IsBase64Char ?xs"
    by (simp add: substr_def list.pred_map o_def)
  show ?case
  proof (cases "list_all IsBase64Char ?xs")
    case False
    then have "decode_simd_loop data full_end source target result = Ret (False, result)"
      using Suc.prems ok by (subst decode_simd_loop.simps) simp
    with False show ?thesis unfolding xs by simp
  next
    case True
    let ?b = "decode_block (map value_lane (map byte_of_char ?xs))"
    have "target + length ?b \<le> length result" using Suc.prems(4) by simp
    from write_at_fits [OF this] obtain r where r: "write_at target ?b result = Ret r" ..
    note f = write_at_facts [OF r, unfolded length_decode_block]
    have step: "decode_simd_loop data full_end source target result = ?next r"
      using Suc.prems True ok r by (subst decode_simd_loop.simps) (simp add: substr_def Let_def)
    have "decode_loop padding (drop source data) = ?b @ decode_loop padding (drop (source + 16) data)"
      using decode_block_loop [OF l(2,1) True] d by simp
    with Suc.IH [of "source + 16" "target + 12" r] Suc.prems f step True show ?thesis
      unfolding xs by (fastforce simp: algebra_simps)
  qed
qed

text \<open>
  The vectorised decoder, on a text of at least one quantum: it refuses exactly when a full block has a character outside the alphabet, and otherwise writes
  the first part of what the decoder in use returns.
\<close>

theorem decode_simd_agrees:
  assumes "4 \<le> length data" "length data < 2 ^ 64" "12 * ((length data - 4) div 16) \<le> length result"
  defines "k \<equiv> (length data - 4) div 16"
  shows "\<exists>r. decode_simd_experiment data result = Ret (list_all IsBase64Char (take (16 * k) data), r)
    \<and> (list_all IsBase64Char (take (16 * k) data) \<longrightarrow> r = take (12 * k) (decode_loop padding data) @ drop (12 * k) result)"
proof -
  have "unat (word_of_nat (length data) :: u64) = length data" using assms(2) by (simp add: unat_of_nat)
  then have e: "unat (word_of_nat (length data) - 4 :: u64) = length data - 4"
    using assms(1) unat_sub [of 4 "word_of_nat (length data) :: u64"] by (simp add: word_le_nat_alt)
  have "length data - 4 < 16 * k + 16" unfolding k_def by (simp add: dividend_less_times_div)
  then show ?thesis
    using decode_simd_loop_eq [of 0 k "length data - 4" data 0 result padding] assms(1,3)
    unfolding decode_simd_experiment_def e by (fastforce simp: k_def)
qed

text \<open>On a shorter text it reads past the end; the decoder in use calls nothing like it before the text is validated.\<close>

lemma decode_simd_short: "length data < 4 \<Longrightarrow> decode_simd_experiment data result = UB"
proof -
  assume "length data < 4"
  then consider "length data = 0" | "length data = 1" | "length data = 2" | "length data = 3" by linarith
  then show ?thesis by cases (simp_all add: decode_simd_experiment_def decode_simd_loop.simps unsigned_minus_1_eq_mask mask_eq_exp_minus_1)
qed

end
