(* ===== verification/Binary_IO.thy ===== *)
theory Binary_IO
  imports Cpp_Prelude
begin

text \<open>
  \<^verbatim>\<open>src/breutil/binary_io.hpp\<close> (namespace \<^verbatim>\<open>bre::binary\<close>): fixed-width big-endian integers.
  The template parameter \<^verbatim>\<open>Integer\<close> is the width of a word type \<open>'a\<close>; signed integers have the
  same bits as their unsigned counterpart, to which the source casts before shifting.
\<close>

definition sizeof :: "'a::len word itself \<Rightarrow> nat" where
  "sizeof _ = LENGTH('a) div 8"

definition AppendInteger :: "byte list \<Rightarrow> 'a::len word \<Rightarrow> byte list" where
  "AppendInteger output v =
     foldl (\<lambda>out index. out @ [ucast (drop_bit ((sizeof TYPE('a word) - index - 1) * 8) v)])
       output [0..<sizeof TYPE('a word)]"

text \<open>The result is the returned flag, the new cursor and the new destination.\<close>

definition ReadInteger :: "byte list \<Rightarrow> nat \<Rightarrow> 'a::len word \<Rightarrow> bool \<times> nat \<times> 'a word" where
  "ReadInteger bytes offset v =
     (if length bytes < offset \<or> length bytes - offset < sizeof TYPE('a word) then (False, offset, v)
      else
        let (bits, offset') =
          foldl (\<lambda>(bits, off) index. (push_bit 8 bits OR ucast (bytes ! off), off + 1))
            (0, offset) [0..<sizeof TYPE('a word)]
        in (True, offset', bits))"

lemma foldl_snoc_map: "foldl (\<lambda>out i. out @ [f i]) acc xs = acc @ map f xs"
  by (induction xs arbitrary: acc) auto

lemma AppendInteger_bytes:
  "AppendInteger output (v :: 'a::len word) =
     output @ map (\<lambda>i. ucast (drop_bit ((sizeof TYPE('a word) - i - 1) * 8) v)) [0..<sizeof TYPE('a word)]"
  by (simp add: AppendInteger_def foldl_snoc_map)

lemma length_AppendInteger [simp]:
  "length (AppendInteger output (v :: 'a::len word)) = length output + sizeof TYPE('a word)"
  by (simp add: AppendInteger_bytes)

lemma push_drop_byte: "push_bit 8 (drop_bit 8 x) OR ucast (ucast x :: byte) = (x :: 'a::len word)"
proof (rule bit_word_eqI)
  fix n assume "n < LENGTH('a)"
  then show "bit (push_bit 8 (drop_bit 8 x) OR ucast (ucast x :: byte)) n = bit x n"
    by (cases "n < 8") (auto simp: bit_simps)
qed

lemma read_fold:
  assumes "k \<le> n" "n * 8 = LENGTH('a)" "offset + n \<le> length (bytes :: byte list)"
    and byte: "\<And>i. i < n \<Longrightarrow> bytes ! (offset + i) = ucast (drop_bit ((n - i - 1) * 8) (v :: 'a::len word))"
  shows "foldl (\<lambda>(bits, off) index. (push_bit 8 bits OR ucast (bytes ! off), off + 1)) (0, offset) [0..<k]
    = (drop_bit ((n - k) * 8) v, offset + k)"
  using assms(1)
proof (induction k)
  case 0
  have "drop_bit (n * 8) v = 0" unfolding assms(2) by (rule drop_bit_word_beyond) simp
  then show ?case by simp
next
  case (Suc k)
  then have "(n - k) * 8 = (n - Suc k) * 8 + 8" by simp
  then have "drop_bit ((n - k) * 8) v = drop_bit 8 (drop_bit ((n - Suc k) * 8) v)"
    by (simp add: add.commute)
  with Suc byte [of k] push_drop_byte [of "drop_bit ((n - Suc k) * 8) v"] show ?case by simp
qed

text \<open>Round trip on the wire: an integer appended to any output, followed by any further bytes,
  reads back unchanged at its offset, and the cursor moves by exactly its width.\<close>

theorem ReadInteger_AppendInteger:
  assumes "8 dvd LENGTH('a::len)"
  shows "ReadInteger (AppendInteger pre (v :: 'a word) @ post) (length pre) old
    = (True, length pre + sizeof TYPE('a word), v)"
proof -
  let ?n = "sizeof TYPE('a word)"
  let ?bytes = "AppendInteger pre v @ post"
  have n: "?n * 8 = LENGTH('a)" using assms by (simp add: sizeof_def)
  have "?bytes ! (length pre + i) = ucast (drop_bit ((?n - i - 1) * 8) v)" if "i < ?n" for i
    using that by (simp add: AppendInteger_bytes nth_append)
  then have "foldl (\<lambda>(bits, off) index. (push_bit 8 bits OR ucast (?bytes ! off), off + 1))
      (0, length pre) [0..<?n] = (drop_bit ((?n - ?n) * 8) v, length pre + ?n)"
    by (intro read_fold) (simp_all add: n)
  then show ?thesis by (simp add: ReadInteger_def)
qed

theorem ReadInteger_AppendInteger_witness:
  "ReadInteger (AppendInteger [7] (0x01020304 :: u32) @ [9]) 1 (0 :: u32) = (True, 5, 0x01020304)"
  using ReadInteger_AppendInteger [of "[7]" "0x01020304 :: u32" "[9]" 0] by (simp add: sizeof_def)

text \<open>An incomplete read fails and leaves both the cursor and the destination unchanged; a read
  succeeds exactly when the width is available, whatever the offset, and never moves further.\<close>

theorem ReadInteger_total:
  "(offset + sizeof TYPE('a word) \<le> length bytes \<longrightarrow>
      (\<exists>w. ReadInteger bytes offset (v :: 'a::len word) = (True, offset + sizeof TYPE('a word), w)))
   \<and> (\<not> offset + sizeof TYPE('a word) \<le> length bytes \<longrightarrow>
      ReadInteger bytes offset v = (False, offset, v))"
proof -
  have "snd (foldl (\<lambda>(bits, off) index. (push_bit 8 bits OR ucast (bytes ! off), off + 1))
      (b :: 'a word, o1) [0..<k]) = o1 + k" for b o1 k
    by (induction k) (auto simp: split_def)
  then show ?thesis
    by (auto simp: ReadInteger_def split_def Let_def)
qed

theorem ReadInteger_total_witness:
  "ReadInteger [1, 2] 1 (77 :: u16) = (False, 1, 77)"
  using ReadInteger_total [of 1 "[1, 2]" "77 :: u16"] by (simp add: sizeof_def)

end
