(* ===== verification/Net_Header.thy ===== *)
theory Net_Header
  imports Cpp_Prelude
begin

text \<open>
  \<^verbatim>\<open>src/breutil/net/net_header.hpp\<close>: the 32-byte message header (four magic bytes \<^verbatim>\<open>BREZ\<close>, the
  payload size, 24 reserved bytes) that \<^verbatim>\<open>TCPSession\<close> puts before every payload. The size is
  copied as the bytes of a \<^verbatim>\<open>uint32_t\<close> in host order; \<open>big\<close> says which order the host has.
\<close>

definition HeaderSize :: nat where "HeaderSize = 32"

record net_header =
  Data :: "byte list"
  FileSize :: u32

definition magic :: "byte list" where
  "magic = map byte_of_char ''BREZ''"

text \<open>The object representation of a \<^verbatim>\<open>uint32_t\<close>, and reading one back.\<close>

definition host_bytes :: "bool \<Rightarrow> u32 \<Rightarrow> byte list" where
  "host_bytes big v =
     (let le = [ucast v, ucast (drop_bit 8 v), ucast (drop_bit 16 v), ucast (drop_bit 24 v)]
      in if big then rev le else le)"

definition host_word :: "bool \<Rightarrow> byte list \<Rightarrow> u32" where
  "host_word big bs =
     (let le = (if big then rev bs else bs)
      in ucast (le ! 0) OR push_bit 8 (ucast (le ! 1)) OR push_bit 16 (ucast (le ! 2))
           OR push_bit 24 (ucast (le ! 3)))"

definition NetHeader :: net_header where
  "NetHeader = \<lparr>Data = magic @ replicate (HeaderSize - 4) 0, FileSize = 0\<rparr>"

definition Parse :: "bool \<Rightarrow> net_header \<Rightarrow> byte list \<Rightarrow> bool \<times> net_header" where
  "Parse big h data =
     (if length data < HeaderSize then (False, h)
      else if data ! 0 \<noteq> magic ! 0 \<or> data ! 1 \<noteq> magic ! 1 \<or> data ! 2 \<noteq> magic ! 2 \<or> data ! 3 \<noteq> magic ! 3
      then (False, h)
      else (True, h\<lparr>FileSize := host_word big (substr data 4 4), Data := data\<rparr>))"

definition GetHeaderSize :: "net_header \<Rightarrow> nat" where
  "GetHeaderSize h = length (Data h)"

text \<open>\<^verbatim>\<open>GetHeaderData(uint64_t size)\<close> stores the size cast to 32 bits and returns the bytes.\<close>

definition GetHeaderData :: "bool \<Rightarrow> net_header \<Rightarrow> u64 \<Rightarrow> byte list \<times> net_header" where
  "GetHeaderData big h sz =
     (let fs = ucast sz; d = take 4 (Data h) @ host_bytes big fs @ drop 8 (Data h);
          h' = h\<lparr>FileSize := fs, Data := d\<rparr>
      in (d, h'))"

definition Reset :: "net_header \<Rightarrow> net_header" where
  "Reset h = h\<lparr>Data := magic @ drop 4 (Data h), FileSize := 0\<rparr>"

section \<open>Invariant\<close>

definition header_ok :: "net_header \<Rightarrow> bool" where
  "header_ok h \<longleftrightarrow> HeaderSize \<le> length (Data h) \<and> take 4 (Data h) = magic"

lemma length_magic [simp]: "length magic = 4"
  by (simp add: magic_def)

lemma length_host_bytes [simp]: "length (host_bytes big v) = 4"
  by (simp add: host_bytes_def Let_def)

lemma host_word_bytes [simp]: "host_word big (host_bytes big v) = v"
proof -
  have "ucast (ucast v :: byte) OR push_bit 8 (ucast (ucast (drop_bit 8 v) :: byte))
     OR push_bit 16 (ucast (ucast (drop_bit 16 v) :: byte))
     OR push_bit 24 (ucast (ucast (drop_bit 24 v) :: byte)) = v" (is "?l = v")
  proof (rule bit_word_eqI)
    fix n assume n: "n < LENGTH(32)"
    consider "n < 8" | "8 \<le> n \<and> n < 16" | "16 \<le> n \<and> n < 24" | "24 \<le> n" by linarith
    then show "bit ?l n = bit v n" using n by cases (auto simp: bit_simps)
  qed
  then show ?thesis by (simp add: host_word_def host_bytes_def)
qed

lemma take4_eq_iff:
  assumes "4 \<le> length xs" "length ys = 4"
  shows "take 4 xs = ys \<longleftrightarrow> xs ! 0 = ys ! 0 \<and> xs ! 1 = ys ! 1 \<and> xs ! 2 = ys ! 2 \<and> xs ! 3 = ys ! 3"
proof -
  have "(\<forall>i<4. P i) \<longleftrightarrow> P 0 \<and> P 1 \<and> P 2 \<and> P (3 :: nat)" for P
    by (auto simp: numeral_eq_Suc All_less_Suc)
  with assms show ?thesis by (simp add: list_eq_iff_nth_eq)
qed

lemma Parse_success_iff:
  "fst (Parse big h data) \<longleftrightarrow> HeaderSize \<le> length data \<and> take 4 data = magic"
proof (cases "length data < HeaderSize")
  case True
  then show ?thesis by (simp add: Parse_def)
next
  case False
  then have "4 \<le> length data" by (simp add: HeaderSize_def)
  then have "take 4 data = magic \<longleftrightarrow> data ! 0 = magic ! 0 \<and> data ! 1 = magic ! 1
      \<and> data ! 2 = magic ! 2 \<and> data ! 3 = magic ! 3"
    by (intro take4_eq_iff) simp_all
  with False show ?thesis by (auto simp: Parse_def)
qed

text \<open>What the reader sees of a written header.\<close>

lemma Parse_header_data:
  assumes "header_ok h"
  shows "fst (Parse big h' (fst (GetHeaderData big h sz)))"
    and "FileSize (snd (Parse big h' (fst (GetHeaderData big h sz)))) = ucast sz"
proof -
  let ?d = "fst (GetHeaderData big h sz)"
  from assms have len: "HeaderSize \<le> length ?d" and mg: "take 4 ?d = magic"
    by (simp_all add: header_ok_def GetHeaderData_def Let_def HeaderSize_def)
  then show ok: "fst (Parse big h' ?d)" by (simp add: Parse_success_iff)
  have "substr ?d 4 4 = host_bytes big (ucast sz)"
    using assms by (simp add: header_ok_def GetHeaderData_def Let_def HeaderSize_def substr_def)
  moreover from ok have "FileSize (snd (Parse big h' ?d)) = host_word big (substr ?d 4 4)"
    by (auto simp: Parse_def split: if_splits)
  ultimately show "FileSize (snd (Parse big h' ?d)) = ucast sz" by simp
qed

section \<open>Properties\<close>

text \<open>The header is well formed (at least 32 bytes, magic in front) after construction, and
  \<^verbatim>\<open>GetHeaderData\<close>, a successful or failed \<^verbatim>\<open>Parse\<close> and \<^verbatim>\<open>Reset\<close> keep it so.\<close>

theorem header_ok_invariant:
  "header_ok NetHeader
   \<and> (header_ok h \<longrightarrow> header_ok (snd (GetHeaderData big h sz)) \<and> header_ok (snd (Parse big h data))
        \<and> header_ok (Reset h))"
proof -
  have "header_ok NetHeader" by (simp add: header_ok_def NetHeader_def HeaderSize_def)
  moreover have "header_ok (snd (GetHeaderData big h sz))" if "header_ok h"
    using that by (simp add: header_ok_def GetHeaderData_def Let_def HeaderSize_def)
  moreover have "header_ok (snd (Parse big h data))" if "header_ok h"
  proof (cases "fst (Parse big h data)")
    case True
    then have "HeaderSize \<le> length data \<and> take 4 data = magic" by (simp add: Parse_success_iff)
    moreover from True have "Data (snd (Parse big h data)) = data"
      by (auto simp: Parse_def split: if_splits)
    ultimately show ?thesis by (simp add: header_ok_def)
  next
    case False
    then have "snd (Parse big h data) = h" by (auto simp: Parse_def split: if_splits)
    with that show ?thesis by simp
  qed
  moreover have "header_ok (Reset h)" if "header_ok h"
    using that by (simp add: header_ok_def Reset_def HeaderSize_def)
  ultimately show ?thesis by blast
qed

theorem header_ok_invariant_witness:
  "header_ok (snd (GetHeaderData False NetHeader 5)) \<and> header_ok (Reset NetHeader)"
  using header_ok_invariant [of NetHeader False 5 "[]"] by simp

text \<open>A header written for a payload of \<open>sz\<close> bytes is accepted by the reader, which then sees
  \<open>sz\<close> cut to its low 32 bits: the announced length equals the payload's length exactly when
  the payload is shorter than 4 GiB.\<close>

theorem Parse_GetHeaderData:
  assumes "header_ok h"
  shows "fst (Parse big h' (fst (GetHeaderData big h sz)))
    \<and> FileSize (snd (Parse big h' (fst (GetHeaderData big h sz)))) = ucast sz
    \<and> (unat (FileSize (snd (Parse big h' (fst (GetHeaderData big h sz))))) = unat sz \<longleftrightarrow> unat sz < 2 ^ 32)"
proof -
  note ok = Parse_header_data(1) [OF assms] and fs = Parse_header_data(2) [OF assms]
  have "unat (ucast sz :: u32) = unat sz mod 2 ^ 32"
    by (simp add: unsigned_ucast_eq take_bit_eq_mod)
  then have "unat (ucast sz :: u32) = unat sz \<longleftrightarrow> unat sz < 2 ^ 32"
    by (metis mod_less mod_less_divisor zero_less_numeral zero_less_power)
  with ok fs show ?thesis by simp
qed

theorem Parse_GetHeaderData_witness:
  "fst (Parse False NetHeader (fst (GetHeaderData False NetHeader 0x100000005)))
   \<and> FileSize (snd (Parse False NetHeader (fst (GetHeaderData False NetHeader 0x100000005)))) = 5"
proof -
  have "header_ok NetHeader" by (simp add: header_ok_def NetHeader_def HeaderSize_def)
  from Parse_GetHeaderData [OF this, where big = False and h' = NetHeader and sz = "0x100000005"]
  show ?thesis by simp
qed

end
