(* ===== verification/Strconv.thy ===== *)
theory Strconv
  imports Cpp_Charconv
begin

text \<open>
  \<^verbatim>\<open>src/breutil/strconv.hpp\<close> (namespace \<^verbatim>\<open>bre::strconv\<close>): conversions between numbers, booleans
  and text, and quoting. \<^verbatim>\<open>int64_t\<close> and \<^verbatim>\<open>uint64_t\<close> accumulators are \<open>64 word\<close>s, so the
  wrap-around of the unsigned products is the source's; negating the smallest \<^verbatim>\<open>int64_t\<close> is
  undefined behaviour and shows as \<open>UB\<close>. \<^verbatim>\<open>FormatDouble\<close> (stream formatting) is not modelled and
  the \<^verbatim>\<open>double\<close> overload of \<^verbatim>\<open>from_chars\<close> is a parameter of \<^verbatim>\<open>ParseDouble\<close>.
\<close>

section \<open>Classification\<close>

definition IsPrint :: "u32 \<Rightarrow> bool" where
  "IsPrint r \<longleftrightarrow>
     (if r < 0x20 \<or> r = 0x7F then False
      else if r < 0x80 then True
      else if 0xD800 \<le> r \<and> r \<le> 0xDFFF then False
      else True)"

definition IsGraphic :: "u32 \<Rightarrow> bool" where
  "IsGraphic r \<longleftrightarrow>
     (if \<not> IsPrint r then False
      else if r = 0x20 \<or> r = 0x09 \<or> r = 0x0A \<or> r = 0x0D \<or> r = 0x0C \<or> r = 0x0B then False
      else True)"

section \<open>Integers and booleans\<close>

definition Atoi :: "string \<Rightarrow> int option" where
  "Atoi s =
     (if s = [] then None
      else
        let plus = (hd s = CHR ''+''); t = (if plus then tl s else s)
        in if plus \<and> t = [] then None
           else if plus \<and> (hd t = CHR ''-'' \<or> hd t = CHR ''+'') then None
           else case from_chars_int INT_MIN INT_MAX 10 t of
             FC_Ok v rest \<Rightarrow> if rest = [] then Some v else None
           | _ \<Rightarrow> None)"

definition ParseBool :: "string \<Rightarrow> bool option" where
  "ParseBool s =
     (let lower = map tolower s
      in if lower = ''true'' \<or> lower = ''1'' \<or> lower = ''t'' \<or> lower = ''yes'' then Some True
         else if lower = ''false'' \<or> lower = ''0'' \<or> lower = ''f'' \<or> lower = ''no'' then Some False
         else None)"

definition FormatBool :: "bool \<Rightarrow> string" where
  "FormatBool b = (if b then ''true'' else ''false'')"

text \<open>\<^verbatim>\<open>to_chars\<close> into \<^verbatim>\<open>char buf[65]\<close> reports an error when the text does not fit.\<close>

definition FormatInt :: "int \<Rightarrow> int \<Rightarrow> string" where
  "FormatInt v base =
     (if base < 2 \<or> 36 < base then []
      else let t = to_chars_int (nat base) v in if length t \<le> 65 then t else [])"

definition FormatUint :: "nat \<Rightarrow> int \<Rightarrow> string" where
  "FormatUint v base =
     (if base < 2 \<or> 36 < base then []
      else let t = to_digits (nat base) v in if length t \<le> 65 then t else [])"

definition Itoa :: "int \<Rightarrow> string" where
  "Itoa i = FormatInt i 10"

text \<open>The base prefix of a literal when the base is given as 0; both parsers share this code.\<close>

definition detect_base :: "int \<Rightarrow> string \<Rightarrow> int \<times> string" where
  "detect_base base sv =
     (if base = 0 then
        if 1 < length sv \<and> sv ! 0 = CHR ''0'' \<and> (sv ! 1 = CHR ''x'' \<or> sv ! 1 = CHR ''X'') then (16, drop 2 sv)
        else if 1 < length sv \<and> sv ! 0 = CHR ''0'' \<and> (sv ! 1 = CHR ''b'' \<or> sv ! 1 = CHR ''B'') then (2, drop 2 sv)
        else if 1 < length sv \<and> sv ! 0 = CHR ''0'' \<and> (sv ! 1 = CHR ''o'' \<or> sv ! 1 = CHR ''O'') then (8, drop 2 sv)
        else if 0 < length sv \<and> sv ! 0 = CHR ''0'' then (8, drop 1 sv)
        else (10, sv)
      else (base, sv))"

definition digit_of :: "char \<Rightarrow> nat option" where
  "digit_of c =
     (if CHR ''0'' \<le> c \<and> c \<le> CHR ''9'' then Some (code c - code (CHR ''0''))
      else if CHR ''a'' \<le> c \<and> c \<le> CHR ''z'' then Some (code c - code (CHR ''a'') + 10)
      else if CHR ''A'' \<le> c \<and> c \<le> CHR ''Z'' then Some (code c - code (CHR ''A'') + 10)
      else None)"

fun ParseInt_loop :: "bool \<Rightarrow> nat \<Rightarrow> u64 \<Rightarrow> string \<Rightarrow> u64 option" where
  "ParseInt_loop negative usedBase v [] = Some v"
| "ParseInt_loop negative usedBase v (c # cs) =
     (case digit_of c of
        None \<Rightarrow> None
      | Some digit \<Rightarrow>
          if usedBase \<le> digit then None
          else
            let next = v * word_of_nat usedBase + word_of_nat digit
            in if negative then
                 if 0x8000000000000000 < next then None else ParseInt_loop negative usedBase next cs
               else
                 if 0x7FFFFFFFFFFFFFFF < next then None else ParseInt_loop negative usedBase next cs)"

definition ParseInt :: "string \<Rightarrow> int \<Rightarrow> int \<Rightarrow> int option cpp_result" where
  "ParseInt s base bitSize =
     (if s = [] then Ret None
      else
        let signed = (hd s = CHR ''+'' \<or> hd s = CHR ''-'');
            negative = (signed \<and> hd s = CHR ''-'');
            (usedBase, sv) = detect_base base (if signed then tl s else s)
        in if usedBase < 2 \<or> 36 < usedBase then Ret None
           else if sv = [] then Ret None
           else case ParseInt_loop negative (nat usedBase) 0 sv of
             None \<Rightarrow> Ret None
           | Some v \<Rightarrow>
               if negative \<and> sint v = INT64_MIN then UB
               else
                 let r = (if negative then - sint v else sint v)
                 in if bitSize = 0 \<or> bitSize = 64 then Ret (Some r)
                    else if bitSize = 32 \<and> (r < INT_MIN \<or> INT_MAX < r) then Ret None
                    else Ret (Some r))"

fun ParseUint_loop :: "nat \<Rightarrow> u64 \<Rightarrow> string \<Rightarrow> u64 option" where
  "ParseUint_loop usedBase v [] = Some v"
| "ParseUint_loop usedBase v (c # cs) =
     (case digit_of c of
        None \<Rightarrow> None
      | Some digit \<Rightarrow>
          if usedBase \<le> digit then None
          else if v > (0xFFFFFFFFFFFFFFFF - word_of_nat digit) div word_of_nat usedBase then None
          else ParseUint_loop usedBase (v * word_of_nat usedBase + word_of_nat digit) cs)"

definition ParseUint :: "string \<Rightarrow> int \<Rightarrow> int \<Rightarrow> u64 option" where
  "ParseUint s base bitSize =
     (if s = [] then None
      else if hd s = CHR ''-'' then None
      else
        let (usedBase, sv) = detect_base base (if hd s = CHR ''+'' then tl s else s)
        in if usedBase < 2 \<or> 36 < usedBase then None
           else if sv = [] then None
           else case ParseUint_loop (nat usedBase) 0 sv of
             None \<Rightarrow> None
           | Some v \<Rightarrow>
               if bitSize = 0 \<or> bitSize = 64 then Some v
               else if bitSize = 32 \<and> 0xFFFFFFFF < v then None
               else Some v)"

text \<open>\<open>fc\<close> is \<^verbatim>\<open>std::from_chars\<close> for \<^verbatim>\<open>double\<close>: the value and the unread rest.\<close>

definition ParseDouble :: "(string \<Rightarrow> ('d \<times> string) option) \<Rightarrow> string \<Rightarrow> 'd option" where
  "ParseDouble fc s =
     (if s = [] then None
      else
        let plus = (hd s = CHR ''+''); t = (if plus then tl s else s)
        in if plus \<and> t = [] then None
           else if plus \<and> (hd t = CHR ''-'' \<or> hd t = CHR ''+'') then None
           else case fc t of
             Some (v, rest) \<Rightarrow> if rest = [] then Some v else None
           | None \<Rightarrow> None)"

section \<open>Quoting\<close>

definition hex_escape :: "nat \<Rightarrow> string" where
  "hex_escape n = [CHR 0x5C, CHR ''x'', digit_char (n div 16), digit_char (n mod 16)]"

definition utf8 :: "u32 \<Rightarrow> byte list" where
  "utf8 r =
     (if r \<le> 0x7FF then
        [0xC0 OR (ucast (drop_bit 6 r) AND 0x1F), 0x80 OR (ucast r AND 0x3F)]
      else if r \<le> 0xFFFF then
        [0xE0 OR (ucast (drop_bit 12 r) AND 0x0F), 0x80 OR (ucast (drop_bit 6 r) AND 0x3F),
         0x80 OR (ucast r AND 0x3F)]
      else
        [0xF0 OR (ucast (drop_bit 18 r) AND 0x07), 0x80 OR (ucast (drop_bit 12 r) AND 0x3F),
         0x80 OR (ucast (drop_bit 6 r) AND 0x3F), 0x80 OR (ucast r AND 0x3F)])"

definition QuoteChar32 :: "u32 \<Rightarrow> string" where
  "QuoteChar32 r =
     (let out =
        (if r = 0x5C then [CHR 0x5C, CHR 0x5C]
         else if r = 0x22 then [CHR 0x5C, CHR 0x22]
         else if r = 0x27 then [CHR 0x5C, CHR 0x27]
         else if r = 0x07 then [CHR 0x5C, CHR ''a'']
         else if r = 0x08 then [CHR 0x5C, CHR ''b'']
         else if r = 0x0C then [CHR 0x5C, CHR ''f'']
         else if r = 0x0A then [CHR 0x5C, CHR ''n'']
         else if r = 0x0D then [CHR 0x5C, CHR ''r'']
         else if r = 0x09 then [CHR 0x5C, CHR ''t'']
         else if r = 0x0B then [CHR 0x5C, CHR ''v'']
         else if r < 0x20 \<or> r = 0x7F then hex_escape (unat r)
         else if r < 0x80 then [char_of_byte (ucast r)]
         else map char_of_byte (utf8 r))
      in [CHR 0x27] @ out @ [CHR 0x27])"

definition quote_char :: "char \<Rightarrow> string" where
  "quote_char c =
     (if c = CHR 0x5C then [CHR 0x5C, CHR 0x5C]
      else if c = CHR 0x22 then [CHR 0x5C, CHR 0x22]
      else if c = CHR 0x07 then [CHR 0x5C, CHR ''a'']
      else if c = CHR 0x08 then [CHR 0x5C, CHR ''b'']
      else if c = CHR 0x0C then [CHR 0x5C, CHR ''f'']
      else if c = CHR 0x0A then [CHR 0x5C, CHR ''n'']
      else if c = CHR 0x0D then [CHR 0x5C, CHR ''r'']
      else if c = CHR 0x09 then [CHR 0x5C, CHR ''t'']
      else if c = CHR 0x0B then [CHR 0x5C, CHR ''v'']
      else if code c < 0x20 \<or> code c = 0x7f then hex_escape (code c)
      else [c])"

definition Quote :: "string \<Rightarrow> string" where
  "Quote s = [CHR 0x22] @ concat (map quote_char s) @ [CHR 0x22]"

definition quote_char_ascii :: "char \<Rightarrow> string" where
  "quote_char_ascii c =
     (if code c < 0x20 \<or> code c = 0x7f \<or> 0x80 \<le> code c then hex_escape (code c)
      else if c = CHR 0x5C then [CHR 0x5C, CHR 0x5C]
      else if c = CHR 0x22 then [CHR 0x5C, CHR 0x22]
      else [c])"

definition QuoteToASCII :: "string \<Rightarrow> string" where
  "QuoteToASCII s = [CHR 0x22] @ concat (map quote_char_ascii s) @ [CHR 0x22]"

definition quote_char_graphic :: "char \<Rightarrow> string" where
  "quote_char_graphic c =
     (if \<not> IsGraphic (ucast (byte_of_char c)) then hex_escape (code c)
      else if c = CHR 0x5C then [CHR 0x5C, CHR 0x5C]
      else if c = CHR 0x22 then [CHR 0x5C, CHR 0x22]
      else [c])"

definition QuoteToGraphic :: "string \<Rightarrow> string" where
  "QuoteToGraphic s = [CHR 0x22] @ concat (map quote_char_graphic s) @ [CHR 0x22]"

definition QuotedPrefix :: "string \<Rightarrow> string \<times> string option" where
  "QuotedPrefix s =
     (if s = [] then ([], None)
      else if hd s = CHR 0x22 \<or> hd s = CHR 0x27 then
        (case find_char_from s (hd s) 1 of
           None \<Rightarrow> ([], Some ''missing end quote'')
         | Some pos \<Rightarrow> (substr s 0 (pos + 1), None))
      else ([], Some ''invalid quote''))"

text \<open>
  The loop of \<^verbatim>\<open>Unquote\<close> over the characters between the quotes. \<open>q\<close> is the closing quote, which
  \<^verbatim>\<open>sscanf\<close> can still see behind the body.
\<close>

function unquote_body :: "char \<Rightarrow> string \<Rightarrow> string option" where
  "unquote_body q [] = Some []"
| "unquote_body q (c # cs) =
     (if c \<noteq> CHR 0x5C then map_option (Cons c) (unquote_body q cs)
      else case cs of
        [] \<Rightarrow> None
      | nxt # rest \<Rightarrow>
          if nxt = CHR ''a'' then map_option (Cons (CHR 0x07)) (unquote_body q rest)
          else if nxt = CHR ''b'' then map_option (Cons (CHR 0x08)) (unquote_body q rest)
          else if nxt = CHR ''f'' then map_option (Cons (CHR 0x0C)) (unquote_body q rest)
          else if nxt = CHR ''n'' then map_option (Cons (CHR 0x0A)) (unquote_body q rest)
          else if nxt = CHR ''r'' then map_option (Cons (CHR 0x0D)) (unquote_body q rest)
          else if nxt = CHR ''t'' then map_option (Cons (CHR 0x09)) (unquote_body q rest)
          else if nxt = CHR ''v'' then map_option (Cons (CHR 0x0B)) (unquote_body q rest)
          else if nxt = CHR ''x'' then
            (if length rest < 2 then None
             else case sscanf_2x (rest @ [q]) of
               None \<Rightarrow> None
             | Some d \<Rightarrow> map_option (Cons (char_of_byte (ucast d))) (unquote_body q (drop 2 rest)))
          else map_option (Cons nxt) (unquote_body q rest))"
  by pat_completeness auto
termination
  by (relation "measure (\<lambda>(q, s). length s)") auto

definition Unquote :: "string \<Rightarrow> string option" where
  "Unquote s =
     (if length s < 2 then None
      else if last s \<noteq> hd s then None
      else if hd s = CHR 0x60 then Some (substr s 1 (length s - 2))
      else unquote_body (hd s) (substr s 1 (length s - 2)))"

text \<open>\<^verbatim>\<open>static_cast<char32_t>\<close> of a (signed) \<^verbatim>\<open>char\<close> extends the sign.\<close>

definition char32_of :: "char \<Rightarrow> u32" where
  "char32_of c = signed (byte_of_char c)"

definition UnquoteChar :: "string \<Rightarrow> char \<Rightarrow> u32 \<times> bool \<times> string \<times> string option" where
  "UnquoteChar s quote =
     (if s = [] then (0, False, [], Some ''empty string'')
      else if hd s = quote then (0, False, s, Some ''first char is quote'')
      else if hd s \<noteq> CHR 0x5C then (char32_of (hd s), False, drop 1 s, None)
      else if length s < 2 then (0, False, [], Some ''incomplete escape'')
      else
        let nxt = s ! 1 in
          if nxt = CHR ''a'' then (0x07, False, drop 2 s, None)
          else if nxt = CHR ''b'' then (0x08, False, drop 2 s, None)
          else if nxt = CHR ''f'' then (0x0C, False, drop 2 s, None)
          else if nxt = CHR ''n'' then (0x0A, False, drop 2 s, None)
          else if nxt = CHR ''r'' then (0x0D, False, drop 2 s, None)
          else if nxt = CHR ''t'' then (0x09, False, drop 2 s, None)
          else if nxt = CHR ''v'' then (0x0B, False, drop 2 s, None)
          else if nxt = CHR ''x'' then
            (if length s < 4 then (0, False, [], Some ''incomplete hex escape'')
             else case sscanf_2x (drop 2 s) of
               None \<Rightarrow> (0, False, [], Some ''bad hex escape'')
             | Some d \<Rightarrow> (d, False, drop 4 s, None))
          else (char32_of nxt, False, drop 2 s, None))"

section \<open>Lemmas\<close>

subsection \<open>Accumulating digits\<close>

lemma digit_of_digit_value: "digit_of c = digit_value c"
  by (auto simp: digit_of_def digit_value_def isdigit_def less_eq_char_def)

lemma foldl_digits:
  "foldl (\<lambda>acc c. acc * base + dval c) a cs = a * base ^ length cs + digits_value base cs"
proof (induction cs rule: rev_induct)
  case Nil
  then show ?case by simp
next
  case (snoc c cs)
  then show ?case by (simp add: algebra_simps)
qed

lemma digits_value_Cons:
  "digits_value base (c # cs) = dval c * base ^ length cs + digits_value base cs"
  unfolding digits_value_def foldl_Cons using foldl_digits [of base "dval c" cs]
  by (simp add: digits_value_def)

lemma accumulate_step:
  "(a * base + dval c) * base ^ length cs + digits_value base cs
    = a * base ^ length (c # cs) + digits_value base (c # cs)"
  by (simp add: digits_value_Cons algebra_simps)

lemma accumulate_le:
  assumes "0 < base"
  shows "a * base + dval c \<le> a * base ^ length (c # cs) + digits_value base (c # cs)"
proof -
  have "(a * base + dval c) * 1 \<le> (a * base + dval c) * base ^ length cs"
    using assms by (intro mult_le_mono2) simp
  then have "a * base + dval c \<le> (a * base + dval c) * base ^ length cs + digits_value base cs"
    by (simp only: mult_1_right trans_le_add1)
  then show ?thesis by (simp only: accumulate_step)
qed

lemma unat_acc: "a < 2 ^ 64 \<Longrightarrow> unat (word_of_nat a :: u64) = a"
  by (simp add: unat_of_nat)

lemma digit_step:
  assumes "is_base_digit base c"
  shows "digit_of c = Some (dval c)" "dval c < base"
  using assms by (auto simp: is_base_digit_def dval_def digit_of_digit_value split: option.splits)

lemma ParseInt_loop_in_range:
  assumes "2 \<le> base" "list_all (is_base_digit base) cs"
    and "a * base ^ length cs + digits_value base cs \<le> (if neg then 2 ^ 63 else 2 ^ 63 - 1)"
  shows "ParseInt_loop neg base (word_of_nat a) cs =
     Some (word_of_nat (a * base ^ length cs + digits_value base cs))"
  using assms(2,3)
proof (induction cs arbitrary: a)
  case Nil
  then show ?case by simp
next
  case (Cons c cs)
  let ?a = "a * base + dval c"
  note d = digit_step [of base c]
  have le: "?a \<le> (if neg then 2 ^ 63 else 2 ^ 63 - 1)"
    using Cons.prems(2) accumulate_le [of base a c cs] assms(1) by linarith
  then have u: "unat (word_of_nat ?a :: u64) = ?a" by (intro unat_acc) (auto split: if_splits)
  have w: "(word_of_nat a :: u64) * word_of_nat base + word_of_nat (dval c) = word_of_nat ?a" by simp
  have "\<not> (if neg then (0x8000000000000000 :: u64) else 0x7FFFFFFFFFFFFFFF) < word_of_nat ?a"
    using le unfolding word_less_nat_alt u by (auto split: if_splits)
  moreover have "ParseInt_loop neg base (word_of_nat ?a) cs =
      Some (word_of_nat (?a * base ^ length cs + digits_value base cs))"
    using Cons.prems accumulate_step [of a base c cs] by (intro Cons.IH) auto
  ultimately show ?case
    using Cons.prems(1) d unfolding accumulate_step [symmetric]
    by (cases neg) (simp_all add: Let_def w del: of_nat_add of_nat_mult)
qed

lemma unat_div_check:
  assumes "a < 2 ^ 64" "d < base" "base \<le> 36"
  shows "(word_of_nat a :: u64) > (0xFFFFFFFFFFFFFFFF - word_of_nat d) div word_of_nat base
    \<longleftrightarrow> 2 ^ 64 \<le> a * base + d"
proof -
  have u: "unat (word_of_nat a :: u64) = a" "unat (word_of_nat base :: u64) = base"
    "unat (word_of_nat d :: u64) = d"
    using assms by (auto intro!: unat_acc)
  have "(word_of_nat d :: u64) \<le> 0xFFFFFFFFFFFFFFFF"
    using assms by (simp add: word_le_nat_alt u)
  then have "unat ((0xFFFFFFFFFFFFFFFF :: u64) - word_of_nat d) = 2 ^ 64 - 1 - d"
    by (simp add: unat_sub u)
  then have "unat (((0xFFFFFFFFFFFFFFFF :: u64) - word_of_nat d) div word_of_nat base) = (2 ^ 64 - 1 - d) div base"
    by (simp add: unat_div_distrib u)
  then have "(word_of_nat a :: u64) > (0xFFFFFFFFFFFFFFFF - word_of_nat d) div word_of_nat base
      \<longleftrightarrow> (2 ^ 64 - 1 - d) div base < a"
    unfolding word_less_nat_alt u by simp
  also have "\<dots> \<longleftrightarrow> 2 ^ 64 - 1 - d < a * base"
    using assms by (simp add: div_less_iff_less_mult)
  also have "\<dots> \<longleftrightarrow> 2 ^ 64 \<le> a * base + d" using assms by auto
  finally show ?thesis .
qed

lemma ParseUint_loop_exact:
  assumes "2 \<le> base" "base \<le> 36" "a < 2 ^ 64"
  shows "ParseUint_loop base (word_of_nat a) cs =
    (if list_all (is_base_digit base) cs \<and> a * base ^ length cs + digits_value base cs < 2 ^ 64
     then Some (word_of_nat (a * base ^ length cs + digits_value base cs)) else None)"
  using assms(3)
proof (induction cs arbitrary: a)
  case Nil
  then show ?case by simp
next
  case (Cons c cs)
  let ?a = "a * base + dval c"
  show ?case
  proof (cases "is_base_digit base c")
    case False
    then show ?thesis
      by (auto simp: is_base_digit_def digit_of_digit_value split: option.splits)
  next
    case True
    note d = digit_step [OF True]
    have w: "(word_of_nat a :: u64) * word_of_nat base + word_of_nat (dval c) = word_of_nat ?a" by simp
    note chk = unat_div_check [OF Cons.prems d(2) assms(2)]
    show ?thesis
    proof (cases "?a < 2 ^ 64")
      case True': True
      with chk have "\<not> (word_of_nat a :: u64) > (0xFFFFFFFFFFFFFFFF - word_of_nat (dval c)) div word_of_nat base"
        by simp
      then have "ParseUint_loop base (word_of_nat a) (c # cs) = ParseUint_loop base (word_of_nat ?a) cs"
        using d by (simp del: of_nat_add of_nat_mult add: w)
      with Cons.IH [OF True'] True show ?thesis unfolding accumulate_step by simp
    next
      case False
      with chk have "(word_of_nat a :: u64) > (0xFFFFFFFFFFFFFFFF - word_of_nat (dval c)) div word_of_nat base"
        by simp
      then have "ParseUint_loop base (word_of_nat a) (c # cs) = None" using d by simp
      moreover have "\<not> a * base ^ length (c # cs) + digits_value base (c # cs) < 2 ^ 64"
        using False accumulate_le [of base a c cs] assms(1) by linarith
      ultimately show ?thesis by simp
    qed
  qed
qed

subsection \<open>Formatting fits the buffer\<close>

lemma length_digits_64:
  assumes "2 \<le> base" "n < 2 ^ 64"
  shows "length (to_digits base n) \<le> 64"
proof -
  have "(2 :: nat) ^ 64 \<le> base ^ 64" using assms(1) by (rule power_mono) simp
  with assms show ?thesis by (intro length_to_digits) linarith+
qed

lemma FormatInt_eq:
  assumes "2 \<le> base" "base \<le> 36" "INT64_MIN \<le> v" "v \<le> INT64_MAX"
  shows "FormatInt v base = to_chars_int (nat base) v"
proof -
  have "2 \<le> nat base" using assms by simp
  then have "length (to_digits (nat base) (nat (- v))) \<le> 64" "length (to_digits (nat base) (nat v)) \<le> 64"
    using assms by (auto intro!: length_digits_64)
  with assms show ?thesis by (simp add: FormatInt_def to_chars_int_def Let_def)
qed

lemma sint_small: "n < 2 ^ 63 \<Longrightarrow> sint (word_of_nat n :: u64) = int n"
  by (simp add: signed_of_nat signed_take_bit_int_eq_self)

lemma ParseInt_digits:
  assumes base: "2 \<le> base" "base \<le> 36" and ds: "ds \<noteq> []" "list_all (is_base_digit (nat base)) ds"
    and range: "digits_value (nat base) ds \<le> (if neg then 2 ^ 63 else 2 ^ 63 - 1)"
  shows "ParseInt (if neg then CHR ''-'' # ds else ds) base 0 =
    (if neg \<and> digits_value (nat base) ds = 2 ^ 63 then UB
     else Ret (Some (if neg then - int (digits_value (nat base) ds) else int (digits_value (nat base) ds))))"
proof -
  have b: "2 \<le> nat base" using base by simp
  have loop: "ParseInt_loop neg (nat base) 0 ds = Some (word_of_nat (digits_value (nat base) ds))"
    using ParseInt_loop_in_range [OF b ds(2), of 0 neg] range by simp
  have hd: "hd ds \<noteq> CHR ''+''" "hd ds \<noteq> CHR ''-''"
    using ds by (auto simp: neq_Nil_conv dest: is_base_digit_not)
  have det: "detect_base base s = (base, s)" for s using base by (simp add: detect_base_def)
  have lim: "sint (word_of_nat (2 ^ 63) :: u64) = INT64_MIN" by simp
  have sm: "sint (word_of_nat n :: u64) = int n" "sint (word_of_nat n :: u64) \<noteq> INT64_MIN" if "n < 2 ^ 63" for n
    using sint_small [OF that] by simp_all
  show ?thesis
  proof (cases neg)
    case True
    then show ?thesis using loop det ds base range lim sm [of "digits_value (nat base) ds"]
      by (cases "digits_value (nat base) ds = 2 ^ 63") (simp_all add: ParseInt_def)
  next
    case False
    then show ?thesis using loop det ds base hd range sm [of "digits_value (nat base) ds"]
      by (simp add: ParseInt_def)
  qed
qed

lemma ParseInt_of_FormatInt:
  assumes "2 \<le> base" "base \<le> 36" "INT64_MIN \<le> v" "v \<le> INT64_MAX"
  shows "ParseInt (FormatInt v base) base 0 = (if v = INT64_MIN then UB else Ret (Some v))"
proof -
  have b: "2 \<le> nat base" "nat base \<le> 36" using assms by auto
  let ?n = "if v < 0 then nat (- v) else nat v"
  let ?ds = "to_digits (nat base) ?n"
  have dv: "digits_value (nat base) ?ds = ?n" using b by simp
  have "ParseInt (if v < 0 then CHR ''-'' # ?ds else ?ds) base 0 =
      (if v < 0 \<and> ?n = 2 ^ 63 then UB else Ret (Some (if v < 0 then - int ?n else int ?n)))"
    using ParseInt_digits [OF assms(1,2), of ?ds "v < 0"] list_all_to_digits [OF b] assms(3,4)
    unfolding dv by auto
  then show ?thesis
    using FormatInt_eq [OF assms] assms(3,4) by (auto simp: to_chars_int_def split: if_splits)
qed

subsection \<open>Quoting\<close>

lemma hex_digit_char:
  assumes "d < 16"
  shows "isxdigit (digit_char d)" "\<not> isspace (digit_char d)" "digit_char d \<noteq> CHR ''x''"
    "digit_char d \<noteq> CHR ''X''" "digit_char d \<noteq> CHR 0x00" "digit_char d \<noteq> CHR ''-''" "digit_char d \<noteq> CHR ''+''"
proof -
  show x: "isxdigit (digit_char d)"
    unfolding is_base_digit_16 [symmetric] is_base_digit_def using assms by simp
  then show "digit_char d \<noteq> CHR ''x''" "digit_char d \<noteq> CHR ''X''" "digit_char d \<noteq> CHR 0x00"
    by (auto simp: isxdigit_def isdigit_def)
  from x show "\<not> isspace (digit_char d)" "digit_char d \<noteq> CHR ''-''" "digit_char d \<noteq> CHR ''+''"
    by (auto simp: isxdigit_def isdigit_def isspace_def)
qed

lemma sscanf_hex2:
  assumes "a < 16" "b < 16"
  shows "sscanf_2x (digit_char a # digit_char b # rest) = Some (word_of_nat (a * 16 + b))"
proof -
  note A = hex_digit_char [OF assms(1)] and B = hex_digit_char [OF assms(2)]
  have "digits_value 16 [digit_char a, digit_char b] = a * 16 + b"
    using assms by (simp add: digits_value_def)
  then show ?thesis using A B
    by (simp add: sscanf_2x_def strip_sign_def)
qed

lemma unquote_hex_escape:
  assumes "n < 256"
  shows "unquote_body q (hex_escape n @ rest) = map_option (Cons (char_of n)) (unquote_body q rest)"
proof -
  have d: "n div 16 < 16" "n mod 16 < 16" using assms by auto
  have "unat (ucast (word_of_nat n :: u32) :: byte) = n"
    using assms by (simp add: unsigned_ucast_eq unat_of_nat take_bit_eq_mod)
  then have "char_of_byte (ucast (word_of_nat n :: u32)) = char_of n" by (simp add: char_of_byte_def)
  then show ?thesis
    using sscanf_hex2 [OF d, of "rest @ [q]"] by (simp add: hex_escape_def)
qed

lemma unquote_quote_char:
  "unquote_body q (quote_char c @ rest) = map_option (Cons c) (unquote_body q rest)"
  "unquote_body q (quote_char_ascii c @ rest) = map_option (Cons c) (unquote_body q rest)"
  "unquote_body q (quote_char_graphic c @ rest) = map_option (Cons c) (unquote_body q rest)"
  using unquote_hex_escape [of "code c" q rest]
  by (auto simp: quote_char_def quote_char_ascii_def quote_char_graphic_def)

lemma unquote_concat:
  assumes "\<And>c rest. unquote_body q (f c @ rest) = map_option (Cons c) (unquote_body q rest)"
  shows "unquote_body q (concat (map f s)) = Some s"
  by (induction s) (simp_all add: assms)

lemma Unquote_wrap: "Unquote ([CHR 0x22] @ body @ [CHR 0x22]) = unquote_body (CHR 0x22) body"
  by (simp add: Unquote_def substr_def)

lemma Unquote_Quote_each:
  "Unquote (Quote s) = Some s" "Unquote (QuoteToASCII s) = Some s" "Unquote (QuoteToGraphic s) = Some s"
  unfolding Quote_def QuoteToASCII_def QuoteToGraphic_def Unquote_wrap
  by (rule unquote_concat, rule unquote_quote_char)+

interpretation quote: codec Quote Unquote "\<lambda>_. True"
  by unfold_locales (rule Unquote_Quote_each)

interpretation quote_ascii: codec QuoteToASCII Unquote "\<lambda>_. True"
  by unfold_locales (rule Unquote_Quote_each)

section \<open>Properties\<close>

text \<open>Every \<^verbatim>\<open>int64_t\<close> prints in every base from 2 to 36 (the 65-character buffer always
  suffices) and the printed text parses back to the value; the one exception is the smallest
  \<^verbatim>\<open>int64_t\<close>, whose text drives \<^verbatim>\<open>ParseInt\<close> into the negation of \<^verbatim>\<open>INT64_MIN\<close>, a signed overflow.\<close>

theorem ParseInt_FormatInt:
  assumes "2 \<le> base" "base \<le> 36" "INT64_MIN \<le> v" "v \<le> INT64_MAX"
  shows "ParseInt (FormatInt v base) base 0 = (if v = INT64_MIN then UB else Ret (Some v))"
  using assms by (rule ParseInt_of_FormatInt)

theorem ParseInt_FormatInt_witness:
  "ParseInt (FormatInt (-255) 16) 16 0 = Ret (Some (-255))"
  using ParseInt_FormatInt [of 16 "-255"] by simp

text \<open>C3. \<^verbatim>\<open>ParseUint\<close> is exact: given a base it returns the value of the digits when all of them are
  digits of that base and the value fits 64 bits, and nothing otherwise; its division test
  catches every overflow.\<close>

theorem ParseUint_exact:
  assumes "2 \<le> base" "base \<le> 36" "s \<noteq> []" "hd s \<noteq> CHR ''+''" "hd s \<noteq> CHR ''-''"
  shows "ParseUint s base 0 =
    (if list_all (is_base_digit (nat base)) s \<and> digits_value (nat base) s < 2 ^ 64
     then Some (word_of_nat (digits_value (nat base) s)) else None)"
proof -
  have b: "2 \<le> nat base" "nat base \<le> 36" using assms by auto
  have "detect_base base s = (base, s)" using assms by (simp add: detect_base_def)
  then show ?thesis
    using ParseUint_loop_exact [OF b, of 0 s] assms by (simp add: ParseUint_def)
qed

theorem ParseUint_exact_witness:
  "ParseUint ''18446744073709551616'' 10 0 = None"
proof -
  have v: "digits_value 10 ''18446744073709551616'' = 18446744073709551616"
    by (simp add: digits_value_def dval_def digit_value_def isdigit_def)
  have "ParseUint ''18446744073709551616'' 10 0 =
    (if list_all (is_base_digit (nat 10)) ''18446744073709551616''
        \<and> digits_value (nat 10) ''18446744073709551616'' < 2 ^ 64
     then Some (word_of_nat (digits_value (nat 10) ''18446744073709551616'')) else None)"
    by (rule ParseUint_exact) simp_all
  then show ?thesis by (simp add: v)
qed

text \<open>\<^verbatim>\<open>ParseInt\<close> misses overflows: its test looks at the product after it has wrapped. The decimal
  text of \<open>2 ^ 65\<close> is accepted as 0, although the value is out of range; and with base 0 the
  text \<^verbatim>\<open>0\<close> is refused, because the octal prefix consumes the only digit.\<close>

theorem ParseInt_overflow_missed:
  "ParseInt ''36893488147419103232'' 10 0 = Ret (Some 0)
   \<and> digits_value 10 ''36893488147419103232'' = 2 ^ 65 \<and> ParseInt ''0'' 0 0 = Ret None"
  by (simp add: ParseInt_def detect_base_def digit_of_def less_eq_char_def
      digits_value_def dval_def digit_value_def isdigit_def)

text \<open>C32. \<^verbatim>\<open>Unquote\<close> inverts \<^verbatim>\<open>Quote\<close>, \<^verbatim>\<open>QuoteToASCII\<close> and \<^verbatim>\<open>QuoteToGraphic\<close> on every string,
  control characters, quotes, backslashes and bytes above 127 included.\<close>

theorem Unquote_Quote:
  "Unquote (Quote s) = Some s \<and> Unquote (QuoteToASCII s) = Some s \<and> Unquote (QuoteToGraphic s) = Some s"
  using quote.dec_enc quote_ascii.dec_enc Unquote_Quote_each(3) by blast

section \<open>Formatting floating point numbers\<close>

datatype float_mode = General | Fixed | Scientific

text \<open>\<open>show_double\<close> is the insertion of a \<^verbatim>\<open>double\<close> into a stream with a precision, six if none was set, and a mode.\<close>

definition FormatDouble :: "(nat \<Rightarrow> float_mode \<Rightarrow> 'd \<Rightarrow> string) \<Rightarrow> 'd \<Rightarrow> char \<Rightarrow> int \<Rightarrow> string" where
  "FormatDouble show_double f fmt prec =
     show_double (if 0 \<le> prec then nat prec else 6)
       (if fmt = CHR ''f'' \<or> fmt = CHR ''F'' then Fixed else if fmt = CHR ''e'' \<or> fmt = CHR ''E'' then Scientific else General) f"

text \<open>Without a precision six digits are printed, so two numbers that agree in them have one text and no parser can tell them apart.\<close>

lemma FormatDouble_not_injective:
  "show_double 6 General x = show_double 6 General y \<Longrightarrow>
    ParseDouble fc (FormatDouble show_double x (CHR ''g'') (- 1)) = ParseDouble fc (FormatDouble show_double y (CHR ''g'') (- 1))"
  by (simp add: FormatDouble_def)

end
