(* ===== verification/Hex_Codec.thy ===== *)
theory Hex_Codec
  imports Strconv
begin

text \<open>
  \<^verbatim>\<open>src/breutil/encoding/hex.hpp\<close> (class \<^verbatim>\<open>Hex\<close>): bytes as pairs of hexadecimal digits, and
  integers in base 16 through \<^verbatim>\<open>strconv\<close>. \<^verbatim>\<open>ToBytes\<close> converts each pair with \<^verbatim>\<open>std::stoi\<close>, whose
  exceptions it lets through.
\<close>

section \<open>Definitions\<close>

function ToBytes :: "string \<Rightarrow> std_exn + byte list" where
  "ToBytes hex =
     (if hex = [] then Inr []
      else bind_sum (stoi 16 (take 2 hex))
             (\<lambda>v. bind_sum (ToBytes (drop 2 hex)) (\<lambda>bs. Inr (word_of_int v # bs))))"
  by pat_completeness auto
termination
  by (relation "measure length") auto

declare ToBytes.simps [simp del]

definition hex_digits :: "bool \<Rightarrow> string" where
  "hex_digits uppercase = (if uppercase then ''0123456789ABCDEF'' else ''0123456789abcdef'')"

definition FromBytes :: "byte list \<Rightarrow> bool \<Rightarrow> string" where
  "FromBytes data uppercase =
     concat (map (\<lambda>b. [hex_digits uppercase ! unat (drop_bit 4 b), hex_digits uppercase ! unat (b AND 0x0F)]) data)"

definition hex_FormatInt :: "int \<Rightarrow> bool \<Rightarrow> string" where
  "hex_FormatInt v uppercase =
     (let ret = FormatInt v 16 in if uppercase then map toupper ret else ret)"

definition hex_ParseInt :: "string \<Rightarrow> int option cpp_result" where
  "hex_ParseInt hex = ParseInt hex 16 0"

section \<open>Lemmas\<close>

lemma all_less_16:
  "P 0 \<Longrightarrow> P 1 \<Longrightarrow> P 2 \<Longrightarrow> P 3 \<Longrightarrow> P 4 \<Longrightarrow> P 5 \<Longrightarrow> P 6 \<Longrightarrow> P 7 \<Longrightarrow> P 8 \<Longrightarrow> P 9 \<Longrightarrow> P 10 \<Longrightarrow> P 11
   \<Longrightarrow> P 12 \<Longrightarrow> P 13 \<Longrightarrow> P 14 \<Longrightarrow> P 15 \<Longrightarrow> n < (16::nat) \<Longrightarrow> P n"
  by (auto simp: numeral_eq_Suc less_Suc_eq)

lemma hex_digit:
  assumes "n < 16"
  shows "isxdigit (hex_digits up ! n)" "dval (hex_digits up ! n) = n" "\<not> isspace (hex_digits up ! n)"
    "hex_digits up ! n \<notin> {CHR ''x'', CHR ''X'', CHR ''-'', CHR ''+''}"
  using assms
  by (rule all_less_16 [rotated 16]; cases up;
      simp add: hex_digits_def isxdigit_def isdigit_def isspace_def dval_def digit_value_def)+

lemma strto_hex_pair:
  assumes "a < 16" "b < 16"
  shows "strto 16 [hex_digits up ! a, hex_digits up ! b] = Some (int (16 * a + b))"
  using hex_digit [OF assms(1), of up] hex_digit [OF assms(2), of up]
  by (simp add: strto_def strip_sign_def strip_0x_def digits_value_def)

lemma byte_nibbles:
  fixes b :: byte
  shows "unat (drop_bit 4 b) = unat b div 16" "unat (b AND 0x0F) = unat b mod 16"
proof -
  show "unat (drop_bit 4 b) = unat b div 16" by (simp add: drop_bit_eq_div unat_div)
  have "b AND 0x0F = take_bit 4 b" by (simp add: take_bit_eq_mask mask_eq_exp_minus_1)
  then show "unat (b AND 0x0F) = unat b mod 16" by (simp add: take_bit_eq_mod unat_mod)
qed

lemma stoi_hex_pair:
  fixes b :: byte
  shows "stoi 16 [hex_digits up ! unat (drop_bit 4 b), hex_digits up ! unat (b AND 0x0F)] = Inr (int (unat b))"
proof -
  have "unat b < 16 * 16" using unat_byte_less [of b] by (simp del: unat_byte_less)
  then have "unat b div 16 < 16" "unat b mod 16 < 16" by (auto simp: less_mult_imp_div_less)
  from strto_hex_pair [OF this, of up]
  have "strto 16 [hex_digits up ! unat (drop_bit 4 b), hex_digits up ! unat (b AND 0x0F)] = Some (int (unat b))"
    unfolding byte_nibbles by (simp del: of_nat_add of_nat_mult)
  moreover have "0 \<le> int (unat b)" "int (unat b) < 256" using unat_byte_less [of b] by linarith+
  then have "INT_MIN \<le> int (unat b)" "int (unat b) \<le> INT_MAX" by linarith+
  ultimately show ?thesis by (simp add: sto_range_def)
qed

lemma ToBytes_FromBytes_eq: "ToBytes (FromBytes bs up) = Inr bs"
proof (induction bs)
  case Nil
  then show ?case by (simp add: FromBytes_def ToBytes.simps)
next
  case (Cons b bs)
  have "FromBytes (b # bs) up =
      [hex_digits up ! unat (drop_bit 4 b), hex_digits up ! unat (b AND 0x0F)] @ FromBytes bs up"
    by (simp add: FromBytes_def)
  then show ?case using Cons.IH stoi_hex_pair [of up b]
    by (subst ToBytes.simps) simp
qed

text \<open>Upper case does not change a digit's value.\<close>

lemma code_toupper: "code (toupper c) = (if 97 \<le> code c \<and> code c \<le> 122 then code c - 32 else code c)"
proof -
  have "(code c - 32) mod 256 = code c - 32" by (rule mod_less) (use code_less_256 [of c] in linarith)
  then show ?thesis by (simp add: toupper_def)
qed

lemma digit_of_toupper: "digit_of (toupper c) = digit_of c"
proof -
  have "code (toupper c) = (if 97 \<le> code c \<and> code c \<le> 122 then code c - 32 else code c)"
    by (rule code_toupper)
  then show ?thesis by (auto simp: digit_of_def less_eq_char_def)
qed

lemma ParseInt_loop_toupper: "ParseInt_loop neg base v (map toupper s) = ParseInt_loop neg base v s"
proof (induction s arbitrary: v)
  case Nil
  then show ?case by simp
next
  case (Cons c s)
  then show ?case by (auto simp: digit_of_toupper Let_def split: option.split)
qed

lemma toupper_sign: "toupper c = CHR ''+'' \<longleftrightarrow> c = CHR ''+''" "toupper c = CHR ''-'' \<longleftrightarrow> c = CHR ''-''"
proof -
  have "code (toupper c) = 43 \<longleftrightarrow> code c = 43" "code (toupper c) = 45 \<longleftrightarrow> code c = 45"
    by (auto simp: code_toupper)
  then show "toupper c = CHR ''+'' \<longleftrightarrow> c = CHR ''+''" "toupper c = CHR ''-'' \<longleftrightarrow> c = CHR ''-''"
    using of_char_eq_iff [where 'a = nat, of "toupper c" "CHR ''+''"] of_char_eq_iff [where 'a = nat, of c "CHR ''+''"]
      of_char_eq_iff [where 'a = nat, of "toupper c" "CHR ''-''"] of_char_eq_iff [where 'a = nat, of c "CHR ''-''"]
    by simp_all
qed

lemma hex_ParseInt_toupper: "hex_ParseInt (map toupper s) = hex_ParseInt s"
proof (cases s)
  case (Cons c cs)
  have *: "ParseInt_loop neg base v (toupper c # map toupper cs) = ParseInt_loop neg base v (c # cs)" for neg base v
    using ParseInt_loop_toupper [of neg base v "c # cs"] by simp
  show ?thesis
    unfolding Cons hex_ParseInt_def ParseInt_def detect_base_def
    by (cases "c = CHR ''+'' \<or> c = CHR ''-''")
      (simp_all add: toupper_sign ParseInt_loop_toupper * Let_def del: ParseInt_loop.simps)
qed simp

interpretation hex_upper: codec "\<lambda>bs. FromBytes bs up" "\<lambda>s. case ToBytes s of Inr b \<Rightarrow> Some b | Inl _ \<Rightarrow> None" "\<lambda>_. True"
  for up by unfold_locales (simp add: ToBytes_FromBytes_eq)

section \<open>Properties\<close>

text \<open>\<^verbatim>\<open>ToBytes\<close> inverts \<^verbatim>\<open>FromBytes\<close> in both cases of the digits, without an exception, and the text
  has two characters per byte; so different byte sequences have different texts.\<close>

theorem ToBytes_FromBytes:
  "ToBytes (FromBytes bs uppercase) = Inr bs \<and> length (FromBytes bs uppercase) = 2 * length bs
   \<and> (FromBytes bs uppercase = FromBytes cs uppercase \<longleftrightarrow> bs = cs)"
proof -
  have "length (FromBytes bs uppercase) = 2 * length bs"
    by (induction bs) (simp_all add: FromBytes_def)
  then show ?thesis using ToBytes_FromBytes_eq hex_upper.enc_inject by simp
qed

text \<open>A hexadecimal integer parses back, in upper or lower case: every \<^verbatim>\<open>int\<close> survives.\<close>

theorem hex_ParseInt_FormatInt:
  assumes "INT_MIN \<le> v" "v \<le> INT_MAX"
  shows "hex_ParseInt (hex_FormatInt v uppercase) = Ret (Some v)"
proof -
  have "hex_ParseInt (FormatInt v 16) = Ret (Some v)"
    using assms ParseInt_of_FormatInt [of 16 v] by (simp add: hex_ParseInt_def)
  then show ?thesis by (simp add: hex_FormatInt_def Let_def hex_ParseInt_toupper)
qed

theorem hex_ParseInt_FormatInt_witness: "hex_ParseInt (hex_FormatInt (- 255) True) = Ret (Some (- 255))"
  by (rule hex_ParseInt_FormatInt) simp_all

end
