(* ===== verification/Byte_Buffer.thy ===== *)
theory Byte_Buffer
  imports Cpp_Prelude
begin

text \<open>
  \<^verbatim>\<open>src/breutil/buffer.hpp\<close> (class \<^verbatim>\<open>Buffer\<close>): a growing byte buffer with a read and a write index
  and eight bytes kept free in front. Pointers into the buffer are offsets from \<^verbatim>\<open>begin()\<close>. The
  unsigned subtractions and additions on \<^verbatim>\<open>size_t\<close> wrap around as in the source, a copy that leaves
  the vector is undefined behaviour, and a request beyond \<^verbatim>\<open>max_size\<close> throws.
\<close>

section \<open>State\<close>

definition kInitialSize :: nat where "kInitialSize = 1024"

definition kPrependSize :: nat where "kPrependSize = 8"

record buffer =
  buffer_data :: string
  readIndex :: nat
  writeIndex :: nat

type_synonym buffer_result = "(std_exn + buffer) cpp_result"

definition Buffer :: "nat \<Rightarrow> std_exn + buffer" where
  "Buffer initialSize =
     (let n = size_add kPrependSize initialSize in
      if max_size < n then Inl (LengthError ''vector'')
      else Inr \<lparr> buffer_data = replicate n (CHR 0x00), readIndex = kPrependSize, writeIndex = kPrependSize \<rparr>)"

text \<open>Move construction and move assignment: the new owner and what is left of the source. A
  moved-from vector is empty.\<close>

definition move_construct :: "buffer \<Rightarrow> buffer \<times> buffer" where
  "move_construct other =
     (\<lparr> buffer_data = buffer_data other, readIndex = readIndex other, writeIndex = writeIndex other \<rparr>,
      \<lparr> buffer_data = [], readIndex = kPrependSize, writeIndex = kPrependSize \<rparr>)"

definition move_assign :: "buffer \<Rightarrow> buffer \<Rightarrow> buffer \<times> buffer" where
  "move_assign this other =
     (this \<lparr> buffer_data := buffer_data other, readIndex := readIndex other, writeIndex := writeIndex other \<rparr>,
      \<lparr> buffer_data = [], readIndex = kPrependSize, writeIndex = kPrependSize \<rparr>)"

section \<open>Observers\<close>

definition ReadableBytes :: "buffer \<Rightarrow> nat" where
  "ReadableBytes b = size_sub (writeIndex b) (readIndex b)"

definition WritableBytes :: "buffer \<Rightarrow> nat" where
  "WritableBytes b = size_sub (length (buffer_data b)) (writeIndex b)"

definition PrependableBytes :: "buffer \<Rightarrow> nat" where
  "PrependableBytes b = readIndex b"

definition Peek :: "buffer \<Rightarrow> nat" where
  "Peek b = readIndex b"

definition BeginWrite :: "buffer \<Rightarrow> nat" where
  "BeginWrite b = writeIndex b"

definition Capacity :: "buffer \<Rightarrow> nat" where
  "Capacity b = length (buffer_data b)"

function crlf_loop :: "string \<Rightarrow> nat \<Rightarrow> nat \<Rightarrow> nat option cpp_result" where
  "crlf_loop v p e =
     (if p + 1 < e then
        if length v \<le> p + 1 then UB
        else if v ! p = CHR 0x0D \<and> v ! (p + 1) = CHR 0x0A then Ret (Some p)
        else crlf_loop v (p + 1) e
      else Ret None)"
  by pat_completeness auto
termination
  by (relation "measure (\<lambda>(v, p, e). e - p)") auto

declare crlf_loop.simps [simp del]

definition FindCRLF :: "buffer \<Rightarrow> nat option cpp_result" where
  "FindCRLF b = crlf_loop (buffer_data b) (Peek b) (BeginWrite b)"

definition FindCRLF_from :: "buffer \<Rightarrow> nat \<Rightarrow> nat option cpp_result" where
  "FindCRLF_from b start =
     (if start < Peek b \<or> BeginWrite b \<le> start then Ret None
      else crlf_loop (buffer_data b) start (BeginWrite b))"

definition FindEOL :: "buffer \<Rightarrow> nat option cpp_result" where
  "FindEOL b =
     bind_ub (read_range (buffer_data b) (Peek b) (ReadableBytes b))
       (\<lambda>sv. Ret (map_option (\<lambda>pos. Peek b + pos) (find_char_from sv (CHR 0x0A) 0)))"

definition buf_ToString :: "buffer \<Rightarrow> string cpp_result" where
  "buf_ToString b = read_range (buffer_data b) (Peek b) (ReadableBytes b)"

section \<open>Retrieving\<close>

definition RetrieveAll :: "buffer \<Rightarrow> buffer" where
  "RetrieveAll b = b \<lparr> readIndex := kPrependSize, writeIndex := kPrependSize \<rparr>"

definition Retrieve :: "buffer \<Rightarrow> nat \<Rightarrow> buffer" where
  "Retrieve b len =
     (if len < ReadableBytes b then b \<lparr> readIndex := readIndex b + len \<rparr> else RetrieveAll b)"

definition RetrieveUntil :: "buffer \<Rightarrow> nat \<Rightarrow> buffer" where
  "RetrieveUntil b e = (if Peek b \<le> e \<and> e \<le> BeginWrite b then Retrieve b (e - Peek b) else b)"

definition HasRead :: "buffer \<Rightarrow> nat \<Rightarrow> buffer" where
  "HasRead b len = Retrieve b len"

definition RetrieveAsString :: "buffer \<Rightarrow> nat \<Rightarrow> (string \<times> buffer) cpp_result" where
  "RetrieveAsString b len =
     (let n = (if ReadableBytes b < len then ReadableBytes b else len)
      in bind_ub (read_range (buffer_data b) (Peek b) n) (\<lambda>result. Ret (result, Retrieve b n)))"

definition RetrieveAllAsString :: "buffer \<Rightarrow> (string \<times> buffer) cpp_result" where
  "RetrieveAllAsString b = RetrieveAsString b (ReadableBytes b)"

section \<open>Writing\<close>

definition resize :: "string \<Rightarrow> nat \<Rightarrow> string" where
  "resize v n = take n v @ replicate (n - length v) (CHR 0x00)"

definition makeSpace :: "buffer \<Rightarrow> nat \<Rightarrow> buffer_result" where
  "makeSpace b len =
     (if size_add (WritableBytes b) (PrependableBytes b) < size_add len kPrependSize then
        let n = size_add (writeIndex b) len in
        if max_size < n then Ret (Inl (LengthError ''resize''))
        else Ret (Inr (b \<lparr> buffer_data := resize (buffer_data b) n \<rparr>))
      else
        let readable = ReadableBytes b in
        bind_ub (read_range (buffer_data b) (readIndex b) (writeIndex b - readIndex b)) (\<lambda>d.
        bind_ub (write_range (buffer_data b) kPrependSize d) (\<lambda>v.
          Ret (Inr (b \<lparr> buffer_data := v, readIndex := kPrependSize, writeIndex := size_add kPrependSize readable \<rparr>)))))"

definition EnsureWritableBytes :: "buffer \<Rightarrow> nat \<Rightarrow> buffer_result" where
  "EnsureWritableBytes b len = (if WritableBytes b < len then makeSpace b len else Ret (Inr b))"

definition HasWritten :: "buffer \<Rightarrow> nat \<Rightarrow> buffer" where
  "HasWritten b len = (if len \<le> WritableBytes b then b \<lparr> writeIndex := writeIndex b + len \<rparr> else b)"

definition Append :: "buffer \<Rightarrow> string \<Rightarrow> buffer_result" where
  "Append b d =
     bind_ub (EnsureWritableBytes b (length d)) (\<lambda>r.
       case r of
         Inl e \<Rightarrow> Ret (Inl e)
       | Inr b1 \<Rightarrow>
           bind_ub (write_range (buffer_data b1) (BeginWrite b1) d)
             (\<lambda>v. Ret (Inr (HasWritten (b1 \<lparr> buffer_data := v \<rparr>) (length d)))))"

definition Prepend :: "buffer \<Rightarrow> string \<Rightarrow> buffer_result" where
  "Prepend b d =
     (if PrependableBytes b < length d then Ret (Inl (LengthError ''Buffer::Prepend: not enough space''))
      else
        let r = readIndex b - length d in
        bind_ub (write_range (buffer_data b) r d)
          (\<lambda>v. Ret (Inr (b \<lparr> buffer_data := v, readIndex := r \<rparr>))))"

definition Shrink :: "buffer \<Rightarrow> nat \<Rightarrow> buffer_result" where
  "Shrink b reserve =
     (let n = size_add (size_add kPrependSize (ReadableBytes b)) reserve in
      if max_size < n then Ret (Inl (LengthError ''vector''))
      else
        bind_ub (read_range (buffer_data b) (Peek b) (BeginWrite b - Peek b)) (\<lambda>d.
        bind_ub (write_range (replicate n (CHR 0x00)) kPrependSize d) (\<lambda>v.
          Ret (Inr (b \<lparr> buffer_data := v, writeIndex := size_add kPrependSize (ReadableBytes b),
                       readIndex := kPrependSize \<rparr>)))))"

section \<open>Invariant and abstraction\<close>

definition buf_ok :: "buffer \<Rightarrow> bool" where
  "buf_ok b \<longleftrightarrow> readIndex b \<le> writeIndex b \<and> writeIndex b \<le> length (buffer_data b)
     \<and> kPrependSize \<le> length (buffer_data b) \<and> length (buffer_data b) \<le> max_size"

text \<open>What the buffer promises: a queue of bytes, the readable part.\<close>

definition readable :: "buffer \<Rightarrow> string" where
  "readable b = take (writeIndex b - readIndex b) (drop (readIndex b) (buffer_data b))"

section \<open>Lemmas\<close>

named_theorems buf_simps \<open>size arithmetic of a well-formed buffer\<close>

lemma buf_okD:
  assumes "buf_ok b"
  shows "readIndex b \<le> writeIndex b" "writeIndex b \<le> length (buffer_data b)"
    "8 \<le> length (buffer_data b)" "length (buffer_data b) \<le> max_size"
  using assms by (simp_all add: buf_ok_def kPrependSize_def)

lemma sizes [buf_simps]:
  assumes "buf_ok b"
  shows "ReadableBytes b = writeIndex b - readIndex b"
    "WritableBytes b = length (buffer_data b) - writeIndex b"
  using buf_okD [OF assms] by (simp_all add: ReadableBytes_def WritableBytes_def)

lemma length_readable [buf_simps]: "buf_ok b \<Longrightarrow> length (readable b) = writeIndex b - readIndex b"
  using buf_okD [of b] by (simp add: readable_def)

lemma Readable_length: "buf_ok b \<Longrightarrow> ReadableBytes b = length (readable b)"
  by (simp add: buf_simps)

lemma readable_fields:
  "readable (b \<lparr> buffer_data := v, writeIndex := w, readIndex := r \<rparr>) = take (w - r) (drop r v)"
  by (simp add: readable_def)

lemma read_readable:
  "buf_ok b \<Longrightarrow> read_range (buffer_data b) (readIndex b) (writeIndex b - readIndex b) = Ret (readable b)"
  using buf_okD [of b] by (simp add: readable_def)

lemma readable_after_write:
  assumes "length v = length (buffer_data b)" "take (w - r) (drop r v) = d" "buf_ok b" "r \<le> w" "w \<le> length v"
  shows "buf_ok (b \<lparr> buffer_data := v, readIndex := r, writeIndex := w \<rparr>)
    \<and> readable (b \<lparr> buffer_data := v, readIndex := r, writeIndex := w \<rparr>) = d"
  using assms buf_okD [OF assms(3)] by (simp add: buf_ok_def kPrependSize_def readable_def)

lemma RetrieveAll_ok: "buf_ok b \<Longrightarrow> buf_ok (RetrieveAll b) \<and> readable (RetrieveAll b) = []"
  by (simp add: buf_ok_def RetrieveAll_def readable_def)

lemma Retrieve_ok:
  assumes "buf_ok b"
  shows "buf_ok (Retrieve b n) \<and> readable (Retrieve b n) = drop n (readable b)"
proof (cases "n < ReadableBytes b")
  case True
  then show ?thesis using assms buf_okD [OF assms]
    by (simp add: Retrieve_def buf_simps buf_ok_def readable_def drop_take add.commute)
next
  case False
  then show ?thesis using RetrieveAll_ok [OF assms] assms by (simp add: Retrieve_def buf_simps)
qed

lemma RetrieveAsString_ok:
  assumes "buf_ok b"
  shows "RetrieveAsString b n = Ret (take n (readable b), Retrieve b (min n (ReadableBytes b)))"
proof -
  let ?m = "min n (writeIndex b - readIndex b)"
  have m: "(if ReadableBytes b < n then ReadableBytes b else n) = ?m" using assms by (simp add: buf_simps)
  have "read_range (buffer_data b) (readIndex b) ?m = Ret (take n (readable b))"
    using buf_okD [OF assms] by (simp add: readable_def)
  then show ?thesis unfolding RetrieveAsString_def m
    using assms by (simp add: Peek_def buf_simps)
qed

lemma resize_grows: "length v \<le> n \<Longrightarrow> resize v n = v @ replicate (n - length v) (CHR 0x00)"
  by (simp add: resize_def)

text \<open>Making room never changes the readable bytes. The bytes move to the front only when more than
  eight bytes are free there, so the copy never overruns what it reads.\<close>

lemma makeSpace_ok:
  assumes "buf_ok b" "length (buffer_data b) - writeIndex b < n" "n \<le> max_size"
  shows "makeSpace b n = Ret (Inl (LengthError ''resize'')) \<and> max_size < writeIndex b + n
    \<or> (\<exists>b'. makeSpace b n = Ret (Inr b') \<and> buf_ok b' \<and> readable b' = readable b \<and> n \<le> WritableBytes b')"
proof (cases "length (buffer_data b) - writeIndex b + readIndex b < n + 8")
  case grow: True
  have eq: "makeSpace b n = (if max_size < writeIndex b + n then Ret (Inl (LengthError ''resize''))
      else Ret (Inr (b \<lparr> buffer_data := resize (buffer_data b) (writeIndex b + n) \<rparr>)))"
    using grow buf_okD [OF assms(1)] assms(3)
    by (simp add: makeSpace_def sizes [OF assms(1)] PrependableBytes_def kPrependSize_def Let_def)
  let ?b = "b \<lparr> buffer_data := resize (buffer_data b) (writeIndex b + n) \<rparr>"
  show ?thesis
  proof (cases "max_size < writeIndex b + n")
    case False
    have len: "length (buffer_data b) \<le> writeIndex b + n" using assms(2) by simp
    have ok: "buf_ok ?b" using buf_okD [OF assms(1)] False len
      by (simp add: buf_ok_def kPrependSize_def resize_grows)
    moreover have "readable ?b = readable b" using buf_okD [OF assms(1)] len
      by (simp add: readable_def resize_grows)
    moreover have "n \<le> WritableBytes ?b" unfolding sizes(2) [OF ok] using len by (simp add: resize_grows)
    ultimately show ?thesis using eq False by auto
  qed (simp add: eq)
next
  case False
  let ?d = "readable b" and ?v = "buffer_data b"
  have r: "8 < readIndex b" using False assms(2) by simp
  have len: "length ?d = writeIndex b - readIndex b" using assms(1) by (rule length_readable)
  let ?v' = "take 8 ?v @ ?d @ drop (8 + length ?d) ?v"
  let ?b = "b \<lparr> buffer_data := ?v', readIndex := 8, writeIndex := 8 + length ?d \<rparr>"
  have sum: "WritableBytes b + PrependableBytes b < 2 ^ 64" "n + 8 < 2 ^ 64" "8 + ReadableBytes b < 2 ^ 64"
    using buf_okD [OF assms(1)] assms(3) by (simp_all add: sizes [OF assms(1)] PrependableBytes_def)
  have fits: "8 + length ?d \<le> length ?v" using buf_okD [OF assms(1)] r len by simp
  have "makeSpace b n = Ret (Inr ?b)"
    using False sum fits read_readable [OF assms(1)] Readable_length [OF assms(1)]
    by (simp add: makeSpace_def sizes(2) [OF assms(1)] PrependableBytes_def kPrependSize_def)
  moreover have "buf_ok ?b \<and> readable ?b = ?d"
    by (rule readable_after_write) (use fits buf_okD [OF assms(1)] assms(1) in simp_all)
  moreover from this have "n \<le> WritableBytes ?b"
    using sizes(2) [of ?b] False fits len buf_okD [OF assms(1)] by simp
  ultimately show ?thesis by blast
qed

lemma EnsureWritableBytes_ok:
  assumes "buf_ok b" "n \<le> max_size"
  shows "EnsureWritableBytes b n = Ret (Inl (LengthError ''resize'')) \<and> max_size < writeIndex b + n
    \<or> (\<exists>b'. EnsureWritableBytes b n = Ret (Inr b') \<and> buf_ok b' \<and> readable b' = readable b \<and> n \<le> WritableBytes b')"
  using makeSpace_ok [OF assms(1) _ assms(2)] assms(1) by (auto simp: EnsureWritableBytes_def sizes)

lemma write_back:
  assumes "buf_ok b" "length d \<le> WritableBytes b"
  shows "\<exists>v. write_range (buffer_data b) (writeIndex b) d = Ret v
    \<and> buf_ok (HasWritten (b \<lparr> buffer_data := v \<rparr>) (length d))
    \<and> readable (HasWritten (b \<lparr> buffer_data := v \<rparr>) (length d)) = readable b @ d"
proof -
  let ?v = "take (writeIndex b) (buffer_data b) @ d @ drop (writeIndex b + length d) (buffer_data b)"
  have fits: "writeIndex b + length d \<le> length (buffer_data b)"
    using assms(2) sizes(2) [OF assms(1)] buf_okD(2) [OF assms(1)] by simp
  then have len: "length ?v = length (buffer_data b)" by simp
  have h: "HasWritten (b \<lparr> buffer_data := ?v \<rparr>) (length d)
      = b \<lparr> buffer_data := ?v, readIndex := readIndex b, writeIndex := writeIndex b + length d \<rparr>" (is "_ = ?b")
    using assms(2) len unfolding HasWritten_def WritableBytes_def by simp
  have "take (writeIndex b + length d - readIndex b) (drop (readIndex b) ?v) = readable b @ d"
    using fits buf_okD(1) [OF assms(1)] unfolding readable_def drop_append take_append drop_take by simp
  from readable_after_write [OF len this assms(1)] fits buf_okD(1) [OF assms(1)] len
  have "buf_ok ?b \<and> readable ?b = readable b @ d" by simp
  with fits h show ?thesis by (intro exI [of _ ?v]) simp
qed

lemma Append_ok:
  assumes "buf_ok b" "length d \<le> max_size"
  shows "Append b d = Ret (Inl (LengthError ''resize'')) \<and> max_size < writeIndex b + length d
    \<or> (\<exists>b'. Append b d = Ret (Inr b') \<and> buf_ok b' \<and> readable b' = readable b @ d)"
  using EnsureWritableBytes_ok [OF assms]
proof (elim disjE exE conjE)
  fix b1 assume b1: "EnsureWritableBytes b (length d) = Ret (Inr b1)" "buf_ok b1" "readable b1 = readable b"
    "length d \<le> WritableBytes b1"
  then show ?thesis using write_back [OF b1(2,4)] by (auto simp: Append_def BeginWrite_def)
qed (simp add: Append_def)

lemma Prepend_ok:
  assumes "buf_ok b" "length d \<le> readIndex b"
  shows "\<exists>b'. Prepend b d = Ret (Inr b') \<and> buf_ok b' \<and> readable b' = d @ readable b"
proof -
  let ?r = "readIndex b - length d"
  let ?v = "take ?r (buffer_data b) @ d @ drop (?r + length d) (buffer_data b)"
  let ?b = "b \<lparr> buffer_data := ?v, readIndex := ?r, writeIndex := writeIndex b \<rparr>"
  have "Prepend b d = Ret (Inr ?b)"
    using assms buf_okD [OF assms(1)] by (simp add: Prepend_def PrependableBytes_def Let_def)
  moreover have "buf_ok ?b \<and> readable ?b = d @ readable b"
    by (rule readable_after_write) (use assms buf_okD [OF assms(1)] in \<open>simp_all add: readable_def\<close>)
  ultimately show ?thesis by blast
qed

lemma Shrink_ok:
  assumes "buf_ok b" "8 + length (readable b) + reserve \<le> max_size"
  shows "\<exists>b'. Shrink b reserve = Ret (Inr b') \<and> buf_ok b' \<and> readable b' = readable b
    \<and> Capacity b' = 8 + length (readable b) + reserve"
proof -
  let ?d = "readable b" and ?z = "replicate reserve (CHR 0x00)"
  let ?v = "replicate 8 (CHR 0x00) @ ?d @ ?z"
  let ?b = "b \<lparr> buffer_data := ?v, writeIndex := 8 + length ?d, readIndex := 8 \<rparr>"
  have "Shrink b reserve = Ret (Inr ?b)"
    using assms read_readable [OF assms(1)] Readable_length [OF assms(1)]
    by (simp add: Shrink_def Peek_def BeginWrite_def kPrependSize_def)
  moreover have "buf_ok ?b \<and> readable ?b = ?d \<and> Capacity ?b = 8 + length ?d + reserve"
    using assms(2) by (simp add: buf_ok_def kPrependSize_def readable_fields Capacity_def)
  ultimately show ?thesis by blast
qed

abbreviation CRLF :: string where "CRLF \<equiv> [CHR 0x0D, CHR 0x0A]"

lemma crlf_loop_find:
  "e \<le> length v \<Longrightarrow> p \<le> e \<Longrightarrow>
   crlf_loop v p e = Ret (map_option (\<lambda>i. p + i) (find_sub CRLF (take (e - p) (drop p v))))"
proof (induction v p e rule: crlf_loop.induct)
  case (1 v p e)
  show ?case
  proof (cases "p + 1 < e")
    case True
    define t where "t = take (e - (p + 2)) (drop (p + 2) v)"
    have u: "take (e - (p + 1)) (drop (p + 1) v) = v ! (p + 1) # t"
      using True 1(2) by (simp add: t_def Cons_nth_drop_Suc [symmetric] take_Cons')
    have s: "take (e - p) (drop p v) = v ! p # v ! (p + 1) # t"
      using True 1(2) u by (simp add: Cons_nth_drop_Suc [of p v, symmetric] take_Cons')
    show ?thesis
    proof (cases "v ! p = CHR 0x0D \<and> v ! (p + 1) = CHR 0x0A")
      case False
      then have "crlf_loop v p e = crlf_loop v (p + 1) e"
        using True 1(2) by (auto simp: crlf_loop.simps [of v p e])
      also have "\<dots> = Ret (map_option (\<lambda>i. p + 1 + i) (find_sub CRLF (v ! (p + 1) # t)))"
        using 1(1) True 1(2) False u by simp
      finally show ?thesis using False s
        by (simp add: starts_with_def option.map_comp o_def del: find_sub.simps(2) [of _ "v ! (p + 1)"])
    qed (use True 1(2) s in \<open>simp add: crlf_loop.simps [of v p e] starts_with_def\<close>)
  next
    case False
    then have "length (take (e - p) (drop p v)) \<le> 1" by simp
    then have "find_sub CRLF (take (e - p) (drop p v)) = None"
      by (cases "take (e - p) (drop p v)") (auto simp: starts_with_def)
    then show ?thesis using False by (simp add: crlf_loop.simps [of v p e])
  qed
qed

lemma FindCRLF_find:
  "buf_ok b \<Longrightarrow> FindCRLF b = Ret (map_option (\<lambda>i. readIndex b + i) (find_sub CRLF (readable b)))"
  using crlf_loop_find [of "writeIndex b" "buffer_data b" "readIndex b"] buf_okD [of b]
  by (simp add: FindCRLF_def Peek_def BeginWrite_def readable_def)

section \<open>The buffer as a queue of bytes\<close>

definition buf_put :: "buffer \<Rightarrow> string \<Rightarrow> nat \<times> buffer" where
  "buf_put b d =
     (if length d \<le> max_size then case Append b d of Ret (Inr b') \<Rightarrow> (length d, b') | _ \<Rightarrow> (0, b) else (0, b))"

definition buf_get :: "buffer \<Rightarrow> nat \<Rightarrow> string \<times> buffer" where
  "buf_get b n = (case RetrieveAsString b n of Ret r \<Rightarrow> r | UB \<Rightarrow> ([], b))"

lemma drop_min_length: "drop (min n (length xs)) xs = drop n xs"
  by (simp add: min_def)

lemma RetrieveAsString_queue:
  assumes "buf_ok b"
  shows "\<exists>b'. RetrieveAsString b n = Ret (take n (readable b), b') \<and> buf_ok b' \<and> readable b' = drop n (readable b)"
  using RetrieveAsString_ok [OF assms, of n] Retrieve_ok [OF assms, of "min n (ReadableBytes b)"]
  unfolding Readable_length [OF assms] drop_min_length by blast

interpretation buf_fifo: fifo buf_ok readable buf_put buf_get
proof
  show "buf_ok s' \<and> readable s' = readable s @ take n xs" if "buf_ok s" "buf_put s xs = (n, s')" for s xs n s'
    using Append_ok [OF that(1), of xs] that by (auto simp: buf_put_def split: if_splits)
  show "buf_ok s' \<and> ys = take n (readable s) \<and> readable s' = drop n (readable s)"
    if "buf_ok s" "buf_get s n = (ys, s')" for s n ys s'
    using that RetrieveAsString_queue [OF that(1), of n] by (auto simp: buf_get_def)
qed

section \<open>Properties\<close>



text \<open>Appending to a well-formed buffer either succeeds, with the data behind the readable bytes,
  or throws \<^verbatim>\<open>length_error\<close> because the vector would exceed its maximal size; it never writes out
  of bounds. Reading \<open>n\<close> bytes returns the first \<open>n\<close> readable ones, or all.\<close>

theorem Append_RetrieveAsString:
  assumes "buf_ok b" "length d \<le> max_size"
  shows "(Append b d = Ret (Inl (LengthError ''resize'')) \<and> max_size < writeIndex b + length d
      \<or> (\<exists>b'. Append b d = Ret (Inr b') \<and> buf_ok b' \<and> readable b' = readable b @ d))
    \<and> (\<exists>b'. RetrieveAsString b n = Ret (take n (readable b), b') \<and> buf_ok b' \<and> readable b' = drop n (readable b))
    \<and> buf_ToString b = Ret (readable b) \<and> ReadableBytes b = length (readable b)"
proof -
  have "buf_ToString b = Ret (readable b)"
    using read_readable [OF assms(1)] by (simp add: buf_ToString_def Peek_def sizes(1) [OF assms(1)])
  then show ?thesis
    using Append_ok [OF assms] RetrieveAsString_queue [OF assms(1), of n] Readable_length [OF assms(1)] by blast
qed

theorem Append_RetrieveAsString_witness:
  "\<exists>b'. Append \<lparr> buffer_data = ''01234567abcd'', readIndex = 8, writeIndex = 12 \<rparr> ''ef'' = Ret (Inr b') \<and> readable b' = ''abcdef''"
  using Append_RetrieveAsString [of "\<lparr> buffer_data = ''01234567abcd'', readIndex = 8, writeIndex = 12 \<rparr>" "''ef''"] by (auto simp: buf_ok_def kPrependSize_def readable_def)

text \<open>\<^verbatim>\<open>Prepend\<close> puts the data in front of the readable bytes when the free space there suffices and
  otherwise throws and changes nothing; \<^verbatim>\<open>Shrink\<close> keeps the readable bytes and leaves exactly the
  eight reserved bytes, the readable bytes and the requested reserve.\<close>

theorem Prepend_Shrink:
  assumes "buf_ok b" "8 + length (readable b) + reserve \<le> max_size"
  shows "(if length d \<le> PrependableBytes b
          then \<exists>b'. Prepend b d = Ret (Inr b') \<and> buf_ok b' \<and> readable b' = d @ readable b
          else Prepend b d = Ret (Inl (LengthError ''Buffer::Prepend: not enough space'')))
    \<and> (\<exists>b'. Shrink b reserve = Ret (Inr b') \<and> buf_ok b' \<and> readable b' = readable b
         \<and> Capacity b' = 8 + length (readable b) + reserve)"
  using Prepend_ok [OF assms(1)] Shrink_ok [OF assms] by (auto simp: PrependableBytes_def Prepend_def)

theorem Prepend_Shrink_witness:
  "\<exists>b'. Prepend \<lparr> buffer_data = ''01234567abcd'', readIndex = 8, writeIndex = 12 \<rparr> ''len:'' = Ret (Inr b') \<and> readable b' = ''len:abcd''"
  using Prepend_Shrink [of "\<lparr> buffer_data = ''01234567abcd'', readIndex = 8, writeIndex = 12 \<rparr>" 0 "''len:''"] by (auto simp: buf_ok_def kPrependSize_def readable_def PrependableBytes_def)

text \<open>Line framing: \<^verbatim>\<open>FindCRLF\<close> finds the first line end among the readable bytes, and retrieving
  past it takes exactly the first line and its CR LF off the front.\<close>

theorem FindCRLF_RetrieveUntil:
  assumes "buf_ok b" "FindCRLF b = Ret (Some p)"
  shows "\<exists>line. readable b = line @ CRLF @ readable (RetrieveUntil b (p + 2))
    \<and> length line = p - Peek b \<and> find_sub CRLF (readable b) = Some (length line)"
proof -
  obtain i where i: "find_sub CRLF (readable b) = Some i" "p = readIndex b + i"
    using assms FindCRLF_find [OF assms(1)] by auto
  note f = find_sub_Some [OF i(1)]
  then have "i + 2 \<le> writeIndex b - readIndex b" using length_readable [OF assms(1)] by simp
  then have "p + 2 \<le> writeIndex b" using i(2) by linarith
  then have "readable (RetrieveUntil b (p + 2)) = drop (i + 2) (readable b)"
    using Retrieve_ok [OF assms(1), of "i + 2"] i(2) by (simp add: RetrieveUntil_def Peek_def BeginWrite_def)
  moreover have c: "drop i (readable b) = CRLF @ drop (i + 2) (readable b)"
    using f append_take_drop_id [of "length CRLF" "drop i (readable b)"] by simp
  ultimately have "readable b = take i (readable b) @ CRLF @ readable (RetrieveUntil b (p + 2))"
    using append_take_drop_id [of i "readable b"] c by simp
  moreover have "length (take i (readable b)) = i" using f by simp
  ultimately show ?thesis using i by (intro exI [of _ "take i (readable b)"]) (simp add: Peek_def)
qed

theorem FindCRLF_RetrieveUntil_witness:
  "\<exists>line. ''ab'' @ CRLF = line @ CRLF @ readable (RetrieveUntil (\<lparr> buffer_data = ''01234567ab'' @ CRLF, readIndex = 8, writeIndex = 12 \<rparr>) 12)"
  using FindCRLF_RetrieveUntil [of "\<lparr> buffer_data = ''01234567ab'' @ CRLF, readIndex = 8, writeIndex = 12 \<rparr>" 10]
  by (auto simp: buf_ok_def kPrependSize_def FindCRLF_def crlf_loop.simps Peek_def BeginWrite_def readable_def)

text \<open>A moved-from buffer is unusable: its vector is empty while its indices are 8, so the unsigned
  \<^verbatim>\<open>WritableBytes\<close> wraps to \<open>2 ^ 64 - 8\<close>, no space is made, and appending any data writes past the
  end of the vector.\<close>

theorem moved_from_Append_UB:
  assumes "d \<noteq> []" "length d \<le> max_size"
  shows "WritableBytes (snd (move_construct b)) = 2 ^ 64 - 8 \<and> Append (snd (move_construct b)) d = UB"
  using assms
  by (simp add: move_construct_def WritableBytes_def size_sub_def kPrependSize_def Append_def
      EnsureWritableBytes_def BeginWrite_def write_range_def)

theorem moved_from_Append_UB_witness:
  "Append (snd (move_construct \<lparr> buffer_data = ''01234567abcd'', readIndex = 8, writeIndex = 12 \<rparr>)) ''x'' = UB"
  using moved_from_Append_UB [of "''x''"] by simp

end
