(* ===== verification/Block_Queue.thy ===== *)
theory Block_Queue
  imports Cpp_Prelude
begin

text \<open>
  \<^verbatim>\<open>src/breutil/block_queue.hpp\<close> (class \<^verbatim>\<open>BlockQueue<T>\<close>): a bounded blocking queue. Every member
  locks the mutex, so its body is one atomic step on the state. A definition returns the notifications
  it sends with its result; a blocking member returns \<open>None\<close> when its wait predicate is false, which
  is when the thread goes to sleep. The second half puts the members into a system of threads that
  wait on the two condition variables and are woken by the notifications.
\<close>

section \<open>The queue\<close>

record 'a block_queue =
  capacity :: nat
  isClose :: bool
  queue :: "'a list"

datatype notification = One_Consumer | All_Consumers | One_Producer | All_Producers

definition BlockQueue :: "nat \<Rightarrow> 'a block_queue" where
  "BlockQueue MaxCapacity = \<lparr> capacity = MaxCapacity, isClose = False, queue = [] \<rparr>"

definition Clear :: "'a block_queue \<Rightarrow> notification list \<times> 'a block_queue" where
  "Clear q = ([All_Producers], q \<lparr> queue := [] \<rparr>)"

definition Empty :: "'a block_queue \<Rightarrow> bool" where
  "Empty q \<longleftrightarrow> queue q = []"

definition Full :: "'a block_queue \<Rightarrow> bool" where
  "Full q \<longleftrightarrow> capacity q \<le> length (queue q)"

definition Close :: "'a block_queue \<Rightarrow> notification list \<times> 'a block_queue" where
  "Close q = ([All_Producers, All_Consumers], q \<lparr> isClose := True \<rparr>)"

definition SetCapacity :: "'a block_queue \<Rightarrow> nat \<Rightarrow> notification list \<times> 'a block_queue" where
  "SetCapacity q newCapacity =
     (if length (queue q) < newCapacity then [All_Producers] else [], q \<lparr> capacity := newCapacity \<rparr>)"

definition Front :: "'a block_queue \<Rightarrow> std_exn + 'a" where
  "Front q = (if queue q = [] then Inl (RuntimeError ''Queue is empty'') else Inr (hd (queue q)))"

definition Back :: "'a block_queue \<Rightarrow> std_exn + 'a" where
  "Back q = (if queue q = [] then Inl (RuntimeError ''Queue is empty'') else Inr (last (queue q)))"

definition TryPush :: "'a block_queue \<Rightarrow> 'a \<Rightarrow> bool \<times> notification list \<times> 'a block_queue" where
  "TryPush q item =
     (if isClose q \<or> capacity q \<le> length (queue q) then (False, [], q)
      else (True, [One_Consumer], q \<lparr> queue := queue q @ [item] \<rparr>))"

text \<open>The wait predicates of the two condition variables.\<close>

definition can_push :: "'a block_queue \<Rightarrow> bool" where
  "can_push q \<longleftrightarrow> isClose q \<or> length (queue q) < capacity q"

definition can_pop :: "'a block_queue \<Rightarrow> bool" where
  "can_pop q \<longleftrightarrow> isClose q \<or> queue q \<noteq> []"

definition Push :: "'a block_queue \<Rightarrow> 'a \<Rightarrow> (std_exn option \<times> notification list \<times> 'a block_queue) option" where
  "Push q item =
     (if \<not> can_push q then None
      else if isClose q then Some (Some (RuntimeError ''Queue is closed''), [], q)
      else Some (None, [One_Consumer], q \<lparr> queue := queue q @ [item] \<rparr>))"

text \<open>The timed members are given whether the time is up: \<^verbatim>\<open>wait_for\<close> then returns the predicate.\<close>

definition Push_for :: "'a block_queue \<Rightarrow> 'a \<Rightarrow> bool \<Rightarrow> (bool \<times> notification list \<times> 'a block_queue) option" where
  "Push_for q item expired =
     (if \<not> can_push q then if expired then Some (False, [], q) else None
      else if isClose q then Some (False, [], q)
      else Some (True, [One_Consumer], q \<lparr> queue := queue q @ [item] \<rparr>))"

definition TryPop :: "'a block_queue \<Rightarrow> 'a option \<times> notification list \<times> 'a block_queue" where
  "TryPop q =
     (case queue q of
        [] \<Rightarrow> (None, [], q)
      | item # rest \<Rightarrow> (Some item, [One_Producer], q \<lparr> queue := rest \<rparr>))"

definition Pop :: "'a block_queue \<Rightarrow> ('a option \<times> notification list \<times> 'a block_queue) option" where
  "Pop q =
     (if \<not> can_pop q then None
      else if isClose q \<and> queue q = [] then Some (None, [], q)
      else Some (Some (hd (queue q)), [One_Producer], q \<lparr> queue := tl (queue q) \<rparr>))"

definition Peek_for :: "'a block_queue \<Rightarrow> bool \<Rightarrow> 'a option option" where
  "Peek_for q expired =
     (if \<not> can_pop q then if expired then Some None else None
      else if isClose q \<and> queue q = [] then Some None
      else Some (Some (hd (queue q))))"

definition Pop_for :: "'a block_queue \<Rightarrow> bool \<Rightarrow> ('a option \<times> notification list \<times> 'a block_queue) option" where
  "Pop_for q expired =
     (if \<not> can_pop q then if expired then Some (None, [], q) else None
      else if isClose q \<and> queue q = [] then Some (None, [], q)
      else Some (Some (hd (queue q)), [One_Producer], q \<lparr> queue := tl (queue q) \<rparr>))"

text \<open>Batches. When the batch does not fit, its elements are tried one by one, each under its own
  lock; \<open>Push_range\<close> is the case that no other thread comes in between.\<close>

fun push_each :: "'a block_queue \<Rightarrow> 'a list \<Rightarrow> nat \<times> notification list \<times> 'a block_queue" where
  "push_each q [] = (0, [], q)"
| "push_each q (x # xs) =
     (let (result, ns, q1) = TryPush q x in
      if \<not> result then (0, [], q)
      else let (n, ns', q2) = push_each q1 xs in (Suc n, ns @ ns', q2))"

definition Push_all :: "'a block_queue \<Rightarrow> 'a list \<Rightarrow> (notification list \<times> 'a block_queue) option" where
  "Push_all q xs =
     (if \<not> isClose q \<and> length (queue q) + length xs \<le> capacity q
      then Some ([All_Consumers], q \<lparr> queue := queue q @ xs \<rparr>) else None)"

definition Push_range :: "'a block_queue \<Rightarrow> 'a list \<Rightarrow> nat \<times> notification list \<times> 'a block_queue" where
  "Push_range q xs =
     (case Push_all q xs of
        Some (ns, q') \<Rightarrow> (length xs, ns, q')
      | None \<Rightarrow> push_each q xs)"

fun pop_loop :: "nat \<Rightarrow> 'a list \<Rightarrow> 'a list \<times> 'a list" where
  "pop_loop 0 xs = ([], xs)"
| "pop_loop (Suc n) [] = ([], [])"
| "pop_loop (Suc n) (x # xs) = (let (ys, zs) = pop_loop n xs in (x # ys, zs))"

definition Pop_range :: "'a block_queue \<Rightarrow> nat \<Rightarrow> ('a list \<times> notification list \<times> 'a block_queue) option" where
  "Pop_range q maxCount =
     (if \<not> can_pop q then None
      else let (ys, rest) = pop_loop maxCount (queue q)
           in Some (ys, if 0 < length ys then [All_Producers] else [], q \<lparr> queue := rest \<rparr>))"

definition Flush :: "notification list" where "Flush = [One_Consumer]"

definition NotifyAll :: "notification list" where "NotifyAll = [All_Consumers, All_Producers]"

section \<open>Threads and condition variables\<close>

datatype consumer = CPop | CPopFor | CPeek | CBulk nat

datatype 'a producer = PPush 'a | PPushFor 'a

text \<open>Threads wait on one of the condition variables, or have been woken and are about to test
  their predicate again. The two logs record the order of the critical sections.\<close>

record 'a bq_system =
  bq :: "'a block_queue"
  cwaiting :: "consumer list"
  cready :: "consumer list"
  pwaiting :: "'a producer list"
  pready :: "'a producer list"
  pushed :: "'a list"
  delivered :: "'a list"

definition bq_init :: "nat \<Rightarrow> 'a bq_system" where
  "bq_init n = \<lparr> bq = BlockQueue n, cwaiting = [], cready = [], pwaiting = [], pready = [],
                pushed = [], delivered = [] \<rparr>"

definition remove_nth :: "nat \<Rightarrow> 'a list \<Rightarrow> 'a list" where
  "remove_nth i xs = take i xs @ drop (Suc i) xs"

text \<open>\<^verbatim>\<open>notify_one\<close> wakes some waiting thread, chosen by \<open>k\<close>.\<close>

fun wake :: "nat \<Rightarrow> notification \<Rightarrow> 'a bq_system \<Rightarrow> 'a bq_system" where
  "wake k One_Consumer s =
     (if cwaiting s = [] then s
      else let i = k mod length (cwaiting s)
           in s \<lparr> cwaiting := remove_nth i (cwaiting s), cready := cready s @ [cwaiting s ! i] \<rparr>)"
| "wake k All_Consumers s = s \<lparr> cwaiting := [], cready := cready s @ cwaiting s \<rparr>"
| "wake k One_Producer s =
     (if pwaiting s = [] then s
      else let i = k mod length (pwaiting s)
           in s \<lparr> pwaiting := remove_nth i (pwaiting s), pready := pready s @ [pwaiting s ! i] \<rparr>)"
| "wake k All_Producers s = s \<lparr> pwaiting := [], pready := pready s @ pwaiting s \<rparr>"

definition wakes :: "nat \<Rightarrow> notification list \<Rightarrow> 'a bq_system \<Rightarrow> 'a bq_system" where
  "wakes k ns s = fold (wake k) ns s"

text \<open>One attempt of a consumer: the delivered items, the notifications and the new queue.\<close>

fun consume :: "consumer \<Rightarrow> bool \<Rightarrow> 'a block_queue \<Rightarrow> ('a list \<times> notification list \<times> 'a block_queue) option" where
  "consume CPop expired q = map_option (\<lambda>(x, ns, q'). (case x of None \<Rightarrow> [] | Some a \<Rightarrow> [a], ns, q')) (Pop q)"
| "consume CPopFor expired q =
     map_option (\<lambda>(x, ns, q'). (case x of None \<Rightarrow> [] | Some a \<Rightarrow> [a], ns, q')) (Pop_for q expired)"
| "consume CPeek expired q = map_option (\<lambda>x. ([], [], q)) (Peek_for q expired)"
| "consume (CBulk n) expired q = Pop_range q n"

definition attempt_consumer :: "consumer \<Rightarrow> bool \<Rightarrow> nat \<Rightarrow> 'a bq_system \<Rightarrow> 'a bq_system" where
  "attempt_consumer c expired k s =
     (case consume c expired (bq s) of
        None \<Rightarrow> s \<lparr> cwaiting := cwaiting s @ [c] \<rparr>
      | Some (xs, ns, q') \<Rightarrow> wakes k ns (s \<lparr> bq := q', delivered := delivered s @ xs \<rparr>))"

fun produce :: "'a producer \<Rightarrow> bool \<Rightarrow> 'a block_queue \<Rightarrow> ('a list \<times> notification list \<times> 'a block_queue) option" where
  "produce (PPush x) expired q =
     map_option (\<lambda>(e, ns, q'). (if e = None then [x] else [], ns, q')) (Push q x)"
| "produce (PPushFor x) expired q =
     map_option (\<lambda>(ok, ns, q'). (if ok then [x] else [], ns, q')) (Push_for q x expired)"

definition attempt_producer :: "'a producer \<Rightarrow> bool \<Rightarrow> nat \<Rightarrow> 'a bq_system \<Rightarrow> 'a bq_system" where
  "attempt_producer p expired k s =
     (case produce p expired (bq s) of
        None \<Rightarrow> s \<lparr> pwaiting := pwaiting s @ [p] \<rparr>
      | Some (xs, ns, q') \<Rightarrow> wakes k ns (s \<lparr> bq := q', pushed := pushed s @ xs \<rparr>))"

text \<open>What the threads of a program can do next: call a member, go on after being woken, wake up
  without cause, or give up at a timeout.\<close>

datatype 'a action =
    Call_Consumer consumer
  | Call_Producer "'a producer"
  | Call_TryPush 'a
  | Call_TryPop
  | Call_Push_all "'a list"
  | Call_Close
  | Call_Clear
  | Call_SetCapacity nat
  | Call_Flush
  | Call_NotifyAll
  | Resume_Consumer nat
  | Resume_Producer nat
  | Spurious_Consumer nat
  | Spurious_Producer nat
  | Timeout_Consumer nat
  | Timeout_Producer nat

definition timed_consumer :: "consumer \<Rightarrow> bool" where
  "timed_consumer c \<longleftrightarrow> c = CPopFor \<or> c = CPeek"

fun timed_producer :: "'a producer \<Rightarrow> bool" where
  "timed_producer (PPush x) = False"
| "timed_producer (PPushFor x) = True"

fun exec :: "nat \<Rightarrow> 'a action \<Rightarrow> 'a bq_system \<Rightarrow> 'a bq_system" where
  "exec k (Call_Consumer c) s = attempt_consumer c False k s"
| "exec k (Call_Producer p) s = attempt_producer p False k s"
| "exec k (Call_TryPush x) s =
     (let (ok, ns, q') = TryPush (bq s) x
      in wakes k ns (s \<lparr> bq := q', pushed := pushed s @ (if ok then [x] else []) \<rparr>))"
| "exec k Call_TryPop s =
     (let (x, ns, q') = TryPop (bq s)
      in wakes k ns (s \<lparr> bq := q', delivered := delivered s @ (case x of None \<Rightarrow> [] | Some a \<Rightarrow> [a]) \<rparr>))"
| "exec k (Call_Push_all xs) s =
     (case Push_all (bq s) xs of
        None \<Rightarrow> s
      | Some (ns, q') \<Rightarrow> wakes k ns (s \<lparr> bq := q', pushed := pushed s @ xs \<rparr>))"
| "exec k Call_Close s = (let (ns, q') = Close (bq s) in wakes k ns (s \<lparr> bq := q' \<rparr>))"
| "exec k Call_Clear s = (let (ns, q') = Clear (bq s) in wakes k ns (s \<lparr> bq := q' \<rparr>))"
| "exec k (Call_SetCapacity n) s = (let (ns, q') = SetCapacity (bq s) n in wakes k ns (s \<lparr> bq := q' \<rparr>))"
| "exec k Call_Flush s = wakes k Flush s"
| "exec k Call_NotifyAll s = wakes k NotifyAll s"
| "exec k (Resume_Consumer i) s =
     (if i < length (cready s)
      then attempt_consumer (cready s ! i) False k (s \<lparr> cready := remove_nth i (cready s) \<rparr>) else s)"
| "exec k (Resume_Producer i) s =
     (if i < length (pready s)
      then attempt_producer (pready s ! i) False k (s \<lparr> pready := remove_nth i (pready s) \<rparr>) else s)"
| "exec k (Spurious_Consumer i) s =
     (if i < length (cwaiting s)
      then s \<lparr> cwaiting := remove_nth i (cwaiting s), cready := cready s @ [cwaiting s ! i] \<rparr> else s)"
| "exec k (Spurious_Producer i) s =
     (if i < length (pwaiting s)
      then s \<lparr> pwaiting := remove_nth i (pwaiting s), pready := pready s @ [pwaiting s ! i] \<rparr> else s)"
| "exec k (Timeout_Consumer i) s =
     (if i < length (cwaiting s) \<and> timed_consumer (cwaiting s ! i)
      then attempt_consumer (cwaiting s ! i) True k (s \<lparr> cwaiting := remove_nth i (cwaiting s) \<rparr>) else s)"
| "exec k (Timeout_Producer i) s =
     (if i < length (pwaiting s) \<and> timed_producer (pwaiting s ! i)
      then attempt_producer (pwaiting s ! i) True k (s \<lparr> pwaiting := remove_nth i (pwaiting s) \<rparr>) else s)"

text \<open>A schedule: the actions in the order of their critical sections, each with the choice of the
  thread a \<^verbatim>\<open>notify_one\<close> wakes.\<close>

fun run_schedule :: "(nat \<times> 'a action) list \<Rightarrow> 'a bq_system \<Rightarrow> 'a bq_system" where
  "run_schedule [] s = s"
| "run_schedule ((k, a) # as) s = run_schedule as (exec k a s)"

section \<open>Lemmas on the queue\<close>

lemma pop_loop_split: "pop_loop n xs = (take n xs, drop n xs)"
  by (induction n xs rule: pop_loop.induct) simp_all

lemma push_each_spec:
  "\<not> isClose q \<Longrightarrow> n = min (length xs) (capacity q - length (queue q)) \<Longrightarrow>
   \<exists>ns. push_each q xs = (n, ns, q \<lparr> queue := queue q @ take n xs \<rparr>)"
proof (induction xs arbitrary: q n)
  case Nil
  then show ?case by simp
next
  case (Cons x xs)
  show ?case
  proof (cases "capacity q \<le> length (queue q)")
    case True
    then show ?thesis using Cons.prems by (simp add: TryPush_def)
  next
    case False
    let ?q = "q \<lparr> queue := queue q @ [x] \<rparr>"
    let ?m = "min (length xs) (capacity q - length (queue ?q))"
    obtain ns where "push_each ?q xs = (?m, ns, ?q \<lparr> queue := queue ?q @ take ?m xs \<rparr>)"
      using Cons.IH [of ?q ?m] Cons.prems(1) by auto
    moreover have "n = Suc ?m" using Cons.prems(2) False by auto
    ultimately show ?thesis using False Cons.prems(1) by (simp add: TryPush_def)
  qed
qed

lemma push_each_closed: "isClose q \<Longrightarrow> push_each q xs = (0, [], q)"
  by (cases xs) (simp_all add: TryPush_def)

lemma Push_range_spec:
  "\<exists>ns. Push_range q xs =
     (let n = if isClose q then 0 else min (length xs) (capacity q - length (queue q))
      in (n, ns, q \<lparr> queue := queue q @ take n xs \<rparr>))"
proof (cases "isClose q")
  case True
  then show ?thesis by (simp add: Push_range_def Push_all_def push_each_closed)
next
  case False
  show ?thesis
  proof (cases "length (queue q) + length xs \<le> capacity q")
    case True
    then have "min (length xs) (capacity q - length (queue q)) = length xs" by simp
    with True False show ?thesis by (simp add: Push_range_def Push_all_def)
  next
    case all: False
    from push_each_spec [OF False refl, of xs] obtain ns where
      "push_each q xs = (min (length xs) (capacity q - length (queue q)), ns,
        q \<lparr> queue := queue q @ take (min (length xs) (capacity q - length (queue q))) xs \<rparr>)" ..
    with all False show ?thesis by (simp add: Push_range_def Push_all_def Let_def)
  qed
qed

definition bq_put :: "'a block_queue \<Rightarrow> 'a list \<Rightarrow> nat \<times> 'a block_queue" where
  "bq_put q xs = (case Push_range q xs of (n, ns, q') \<Rightarrow> (n, q'))"

definition bq_get :: "'a block_queue \<Rightarrow> nat \<Rightarrow> 'a list \<times> 'a block_queue" where
  "bq_get q n = (case Pop_range q n of None \<Rightarrow> ([], q) | Some (ys, ns, q') \<Rightarrow> (ys, q'))"

definition within_capacity :: "'a block_queue \<Rightarrow> bool" where
  "within_capacity q \<longleftrightarrow> length (queue q) \<le> capacity q"

interpretation bq_fifo: fifo within_capacity queue bq_put bq_get
proof
  show "within_capacity s' \<and> queue s' = queue s @ take n xs"
    if "within_capacity s" "bq_put s xs = (n, s')" for s :: "'a block_queue" and xs n s'
    using that Push_range_spec [of s xs] by (auto simp: bq_put_def within_capacity_def Let_def min_def le_diff_conv2)
  show "within_capacity s' \<and> ys = take n (queue s) \<and> queue s' = drop n (queue s)"
    if "within_capacity s" "bq_get s n = (ys, s')" for s :: "'a block_queue" and n ys s'
    using that by (auto simp: bq_get_def Pop_range_def can_pop_def pop_loop_split within_capacity_def split: if_splits)
qed

section \<open>Lemmas on the system\<close>

lemma length_remove_nth [simp]: "i < length xs \<Longrightarrow> length (remove_nth i xs) = length xs - 1"
  by (simp add: remove_nth_def)

lemma set_remove_nth: "set (remove_nth i xs) \<subseteq> set xs"
  using set_take_subset [of i xs] set_drop_subset [of "Suc i" xs] by (auto simp: remove_nth_def)

lemma wakes_simps [simp]:
  "wakes k [] s = s" "wakes k (n # ns) s = wakes k ns (wake k n s)"
  by (simp_all add: wakes_def)

lemma wake_keeps [simp]:
  "bq (wake k n s) = bq s" "pushed (wake k n s) = pushed s" "delivered (wake k n s) = delivered s"
  by (cases n; simp add: Let_def)+

lemma wakes_keeps [simp]:
  "bq (wakes k ns s) = bq s" "pushed (wakes k ns s) = pushed s" "delivered (wakes k ns s) = delivered s"
  by (induction ns arbitrary: s) simp_all

text \<open>The numbers of threads waiting and woken, and how the steps change them.\<close>

definition ncw :: "'a bq_system \<Rightarrow> nat" where "ncw s = length (cwaiting s)"
definition ncr :: "'a bq_system \<Rightarrow> nat" where "ncr s = length (cready s)"
definition npw :: "'a bq_system \<Rightarrow> nat" where "npw s = length (pwaiting s)"
definition npr :: "'a bq_system \<Rightarrow> nat" where "npr s = length (pready s)"

lemmas count_defs = ncw_def ncr_def npw_def npr_def

lemma count_update [simp]:
  "ncw (s \<lparr> bq := q \<rparr>) = ncw s" "ncr (s \<lparr> bq := q \<rparr>) = ncr s" "npw (s \<lparr> bq := q \<rparr>) = npw s" "npr (s \<lparr> bq := q \<rparr>) = npr s"
  "ncw (s \<lparr> pushed := l \<rparr>) = ncw s" "ncr (s \<lparr> pushed := l \<rparr>) = ncr s" "npw (s \<lparr> pushed := l \<rparr>) = npw s"
  "npr (s \<lparr> pushed := l \<rparr>) = npr s"
  "ncw (s \<lparr> delivered := l \<rparr>) = ncw s" "ncr (s \<lparr> delivered := l \<rparr>) = ncr s" "npw (s \<lparr> delivered := l \<rparr>) = npw s"
  "npr (s \<lparr> delivered := l \<rparr>) = npr s"
  "ncw (s \<lparr> cwaiting := cs \<rparr>) = length cs" "ncr (s \<lparr> cwaiting := cs \<rparr>) = ncr s" "npw (s \<lparr> cwaiting := cs \<rparr>) = npw s"
  "npr (s \<lparr> cwaiting := cs \<rparr>) = npr s"
  "ncw (s \<lparr> cready := cs \<rparr>) = ncw s" "ncr (s \<lparr> cready := cs \<rparr>) = length cs" "npw (s \<lparr> cready := cs \<rparr>) = npw s"
  "npr (s \<lparr> cready := cs \<rparr>) = npr s"
  "ncw (s \<lparr> pwaiting := ps \<rparr>) = ncw s" "ncr (s \<lparr> pwaiting := ps \<rparr>) = ncr s" "npw (s \<lparr> pwaiting := ps \<rparr>) = length ps"
  "npr (s \<lparr> pwaiting := ps \<rparr>) = npr s"
  "ncw (s \<lparr> pready := ps \<rparr>) = ncw s" "ncr (s \<lparr> pready := ps \<rparr>) = ncr s" "npw (s \<lparr> pready := ps \<rparr>) = npw s"
  "npr (s \<lparr> pready := ps \<rparr>) = length ps"
  by (simp_all add: count_defs)

lemma wake_counts [simp]:
  "ncw (wake k n s) = (case n of One_Consumer \<Rightarrow> ncw s - 1 | All_Consumers \<Rightarrow> 0 | _ \<Rightarrow> ncw s)"
  "ncr (wake k n s) = (case n of One_Consumer \<Rightarrow> if ncw s = 0 then ncr s else ncr s + 1 | All_Consumers \<Rightarrow> ncr s + ncw s | _ \<Rightarrow> ncr s)"
  "npw (wake k n s) = (case n of One_Producer \<Rightarrow> npw s - 1 | All_Producers \<Rightarrow> 0 | _ \<Rightarrow> npw s)"
  "npr (wake k n s) = (case n of One_Producer \<Rightarrow> if npw s = 0 then npr s else npr s + 1 | All_Producers \<Rightarrow> npr s + npw s | _ \<Rightarrow> npr s)"
  by (cases n; simp add: count_defs Let_def)+

declare wake.simps [simp del]

text \<open>A sleeping consumer is never forgotten: while one sleeps, there are at least as many woken
  consumers as items; likewise for producers and free places. \<open>d\<close> and \<open>e\<close> allow for a thread that
  has been woken and is about to act.\<close>

definition no_lost :: "nat \<Rightarrow> nat \<Rightarrow> 'a bq_system \<Rightarrow> bool" where
  "no_lost d e s \<longleftrightarrow>
     (0 < ncw s \<longrightarrow> length (queue (bq s)) \<le> ncr s + d)
   \<and> (0 < npw s \<longrightarrow> capacity (bq s) - length (queue (bq s)) \<le> npr s + e)
   \<and> (isClose (bq s) \<longrightarrow> ncw s = 0 \<and> npw s = 0)"

text \<open>A consumer that removes an item when it finds one.\<close>

fun takes :: "consumer \<Rightarrow> bool" where
  "takes CPop = True"
| "takes CPopFor = True"
| "takes CPeek = False"
| "takes (CBulk n) = (0 < n)"

lemma attempt_consumer_no_lost:
  assumes "no_lost 1 0 s" "takes c"
  shows "no_lost 0 0 (attempt_consumer c expired k s)"
proof (cases "queue (bq s)")
  case Nil
  with assms show ?thesis
    by (cases c) (auto simp: attempt_consumer_def Pop_def Pop_for_def Pop_range_def can_pop_def pop_loop_split no_lost_def)
next
  case (Cons x xs)
  with assms show ?thesis
    by (cases c) (auto simp: attempt_consumer_def Pop_def Pop_for_def Pop_range_def can_pop_def pop_loop_split no_lost_def)
qed

lemma attempt_producer_no_lost:
  assumes "no_lost 0 1 s"
  shows "no_lost 0 0 (attempt_producer p expired k s)"
  using assms
  by (cases p) (auto simp: attempt_producer_def Push_def Push_for_def can_push_def no_lost_def)

definition takers :: "'a bq_system \<Rightarrow> bool" where
  "takers s \<longleftrightarrow> list_all takes (cwaiting s) \<and> list_all takes (cready s)"

fun taking_action :: "'a action \<Rightarrow> bool" where
  "taking_action (Call_Consumer c) = takes c"
| "taking_action _ = True"

lemma no_lost_weaken: "no_lost 0 0 s \<Longrightarrow> no_lost d e s"
  by (auto simp: no_lost_def)

lemma exec_no_lost:
  assumes "no_lost 0 0 s" "takers s" "taking_action a"
  shows "no_lost 0 0 (exec k a s)"
proof (cases a)
  case (Call_Consumer c)
  then show ?thesis using assms by (auto intro: attempt_consumer_no_lost no_lost_weaken)
next
  case (Call_Producer p)
  then show ?thesis using assms by (auto intro: attempt_producer_no_lost no_lost_weaken)
next
  case (Call_TryPush x)
  then show ?thesis using assms(1) by (auto simp: TryPush_def no_lost_def)
next
  case Call_TryPop
  then show ?thesis using assms(1) by (auto simp: TryPop_def no_lost_def split: list.split)
next
  case (Call_Push_all xs)
  then show ?thesis using assms(1) by (auto simp: Push_all_def no_lost_def)
next
  case (Resume_Consumer i)
  let ?s = "s \<lparr> cready := remove_nth i (cready s) \<rparr>"
  have "no_lost 1 0 ?s \<and> takes (cready s ! i)" if "i < length (cready s)"
    using assms(1,2) that by (auto simp: no_lost_def takers_def list_all_length ncr_def)
  then show ?thesis using Resume_Consumer assms(1) attempt_consumer_no_lost by auto
next
  case (Resume_Producer i)
  let ?s = "s \<lparr> pready := remove_nth i (pready s) \<rparr>"
  have "no_lost 0 1 ?s" if "i < length (pready s)"
    using assms(1) that by (auto simp: no_lost_def npr_def)
  then show ?thesis using Resume_Producer assms(1) attempt_producer_no_lost by auto
next
  case (Timeout_Consumer i)
  let ?s = "s \<lparr> cwaiting := remove_nth i (cwaiting s) \<rparr>"
  have "no_lost 1 0 ?s \<and> takes (cwaiting s ! i)" if "i < length (cwaiting s)"
    using assms(1,2) that by (auto simp: no_lost_def takers_def list_all_length ncw_def)
  then show ?thesis using Timeout_Consumer assms(1) attempt_consumer_no_lost by auto
next
  case (Timeout_Producer i)
  let ?s = "s \<lparr> pwaiting := remove_nth i (pwaiting s) \<rparr>"
  have "no_lost 0 1 ?s" if "i < length (pwaiting s)"
    using assms(1) that by (auto simp: no_lost_def npw_def)
  then show ?thesis using Timeout_Producer assms(1) attempt_producer_no_lost by auto
next
  case (Spurious_Consumer i)
  then show ?thesis using assms(1) by (auto simp: no_lost_def count_defs)
next
  case (Spurious_Producer i)
  then show ?thesis using assms(1) by (auto simp: no_lost_def count_defs)
qed (use assms(1) in \<open>auto simp: no_lost_def Close_def Clear_def SetCapacity_def Flush_def NotifyAll_def\<close>)

text \<open>Which consumers are around never changes but by calls.\<close>

definition consumers :: "'a bq_system \<Rightarrow> consumer set" where
  "consumers s = set (cwaiting s) \<union> set (cready s)"

lemma consumers_update [simp]:
  "consumers (s \<lparr> bq := q \<rparr>) = consumers s" "consumers (s \<lparr> pushed := l \<rparr>) = consumers s"
  "consumers (s \<lparr> delivered := l \<rparr>) = consumers s" "consumers (s \<lparr> pwaiting := ps \<rparr>) = consumers s"
  "consumers (s \<lparr> pready := ps \<rparr>) = consumers s"
  by (simp_all add: consumers_def)

lemma consumers_wake: "consumers (wake k n s) \<subseteq> consumers s"
  using set_remove_nth [of "k mod length (cwaiting s)" "cwaiting s"]
  by (cases n) (auto simp: consumers_def wake.simps Let_def)

lemma consumers_wakes: "consumers (wakes k ns s) \<subseteq> consumers s"
  by (induction ns arbitrary: s) (use consumers_wake in fastforce)+

lemma consumers_attempt:
  "consumers (attempt_consumer c expired k s) \<subseteq> insert c (consumers s)"
  "consumers (attempt_producer p expired k s) \<subseteq> consumers s"
proof -
  show "consumers (attempt_consumer c expired k s) \<subseteq> insert c (consumers s)"
  proof (cases "consume c expired (bq s)")
    case None
    then show ?thesis by (auto simp: attempt_consumer_def consumers_def)
  next
    case (Some r)
    then show ?thesis using consumers_wakes [of k "fst (snd r)" "s \<lparr> bq := snd (snd r), delivered := delivered s @ fst r \<rparr>"]
      by (auto simp: attempt_consumer_def split: prod.splits)
  qed
  show "consumers (attempt_producer p expired k s) \<subseteq> consumers s"
  proof (cases "produce p expired (bq s)")
    case None
    then show ?thesis by (simp add: attempt_producer_def)
  next
    case (Some r)
    then show ?thesis using consumers_wakes [of k "fst (snd r)" "s \<lparr> bq := snd (snd r), pushed := pushed s @ fst r \<rparr>"]
      by (auto simp: attempt_producer_def split: prod.splits)
  qed
qed

lemma takers_iff: "takers s \<longleftrightarrow> (\<forall>c\<in>consumers s. takes c)"
  by (auto simp: takers_def consumers_def list_all_iff)

lemma consumers_fewer:
  "consumers (s \<lparr> cready := remove_nth i (cready s) \<rparr>) \<subseteq> consumers s"
  "consumers (s \<lparr> cwaiting := remove_nth i (cwaiting s) \<rparr>) \<subseteq> consumers s"
  using set_remove_nth by (fastforce simp: consumers_def)+

lemma consumers_wakes_sub: "consumers s \<subseteq> A \<Longrightarrow> consumers (wakes k ns s) \<subseteq> A"
  using consumers_wakes by (rule order_trans)

lemma consumers_wake_sub: "consumers s \<subseteq> A \<Longrightarrow> consumers (wake k n s) \<subseteq> A"
  using consumers_wake by (rule order_trans)

lemma consumers_attempt_member:
  "c \<in> A \<Longrightarrow> consumers s \<subseteq> A \<Longrightarrow> consumers (attempt_consumer c expired k s) \<subseteq> A"
  using consumers_attempt(1) [of c expired k s] by auto

lemma consumers_resumed:
  "i < length (cready s) \<Longrightarrow> cready s ! i \<in> consumers s" "i < length (cwaiting s) \<Longrightarrow> cwaiting s ! i \<in> consumers s"
  by (simp_all add: consumers_def)

lemma consumers_exec:
  "consumers (exec k a s) \<subseteq> (case a of Call_Consumer c \<Rightarrow> insert c (consumers s) | _ \<Rightarrow> consumers s)"
proof (cases a)
  case (Spurious_Consumer i)
  then show ?thesis using set_remove_nth [of i "cwaiting s"] by (auto simp: consumers_def)
next
  case (Timeout_Producer i)
  then show ?thesis using consumers_attempt(2) [of "pwaiting s ! i" True k "s \<lparr> pwaiting := remove_nth i (pwaiting s) \<rparr>"] by simp
next
  case (Resume_Producer i)
  then show ?thesis using consumers_attempt(2) [of "pready s ! i" False k "s \<lparr> pready := remove_nth i (pready s) \<rparr>"] by simp
qed (simp_all add: consumers_attempt consumers_attempt_member consumers_resumed consumers_fewer consumers_wakes_sub consumers_wake_sub
      Close_def Clear_def SetCapacity_def split: prod.split option.split)

lemma exec_takers: "takers s \<Longrightarrow> taking_action a \<Longrightarrow> takers (exec k a s)"
  using consumers_exec [of k a s] by (cases a) (auto simp: takers_iff)

lemma run_no_lost:
  "no_lost 0 0 s \<Longrightarrow> takers s \<Longrightarrow> list_all taking_action (map snd as) \<Longrightarrow> no_lost 0 0 (run_schedule as s)"
  by (induction as s rule: run_schedule.induct) (auto intro: exec_no_lost exec_takers)

subsection \<open>Order and conservation\<close>

definition conserved :: "'a bq_system \<Rightarrow> bool" where
  "conserved s \<longleftrightarrow> pushed s = delivered s @ queue (bq s)"

fun not_clear :: "'a action \<Rightarrow> bool" where
  "not_clear Call_Clear = False"
| "not_clear _ = True"

lemma consume_splits: "consume c expired q = Some (xs, ns, q') \<Longrightarrow> queue q = xs @ queue q'"
  by (cases c) (auto simp: Pop_def Pop_for_def Pop_range_def can_pop_def pop_loop_split split: if_splits)

lemma produce_appends: "produce p expired q = Some (xs, ns, q') \<Longrightarrow> queue q' = queue q @ xs"
  by (cases p) (auto simp: Push_def Push_for_def split: if_splits)

lemma attempt_conserved:
  "conserved s \<Longrightarrow> conserved (attempt_consumer c expired k s)"
  "conserved s \<Longrightarrow> conserved (attempt_producer p expired k s)"
  by (auto simp: attempt_consumer_def attempt_producer_def conserved_def
      dest: consume_splits produce_appends split: option.split)

lemma conserved_update [simp]:
  "conserved (s \<lparr> cwaiting := cs \<rparr>) = conserved s" "conserved (s \<lparr> cready := cs \<rparr>) = conserved s"
  "conserved (s \<lparr> pwaiting := ps \<rparr>) = conserved s" "conserved (s \<lparr> pready := ps \<rparr>) = conserved s"
  by (simp_all add: conserved_def)

lemma exec_conserved: "conserved s \<Longrightarrow> not_clear a \<Longrightarrow> conserved (exec k a s)"
proof (cases a)
  case (Call_TryPush x)
  then show "conserved s \<Longrightarrow> ?thesis" by (simp add: TryPush_def conserved_def)
next
  case Call_TryPop
  then show "conserved s \<Longrightarrow> ?thesis" by (simp add: TryPop_def conserved_def split: list.split)
next
  case (Call_Push_all xs)
  then show "conserved s \<Longrightarrow> ?thesis" by (simp add: Push_all_def conserved_def)
qed (auto simp: attempt_conserved, auto simp: conserved_def Close_def SetCapacity_def)

lemma run_conserved: "conserved s \<Longrightarrow> list_all not_clear (map snd as) \<Longrightarrow> conserved (run_schedule as s)"
  by (induction as s rule: run_schedule.induct) (auto intro: exec_conserved)

section \<open>Properties\<close>

text \<open>C10. First in, first out, under every interleaving: in any schedule of calls, wake-ups, spurious
  wake-ups and timeouts that does not clear the queue, the items delivered so far followed by those
  still queued are exactly the items accepted so far, in order.\<close>

theorem block_queue_order:
  assumes "list_all not_clear (map snd schedule)"
  shows "pushed (run_schedule schedule (bq_init n))
    = delivered (run_schedule schedule (bq_init n)) @ queue (bq (run_schedule schedule (bq_init n)))"
  using run_conserved [OF _ assms, of "bq_init n"]
  by (simp add: conserved_def bq_init_def BlockQueue_def)

theorem block_queue_order_witness:
  "let s = run_schedule [(0, Call_Consumer CPop), (0, Call_Producer (PPush (7::nat))), (0, Resume_Consumer 0)] (bq_init 1)
   in pushed s = [7] \<and> delivered s = [7] \<and> pushed s = delivered s @ queue (bq s)"
  using block_queue_order [of "[(0, Call_Consumer CPop), (0, Call_Producer (PPush (7::nat))), (0, Resume_Consumer 0)]" 1]
  by (simp add: bq_init_def BlockQueue_def attempt_consumer_def attempt_producer_def Pop_def can_pop_def Push_def
      can_push_def wake.simps remove_nth_def)

text \<open>C6. No wake-up is lost as long as every blocking consumer takes what it finds (\<^verbatim>\<open>Pop\<close>, timed or
  not, single or in batches of at least one): in any schedule, when no woken consumer is left to run,
  a consumer sleeps only on an empty open queue, and when no woken producer is left, a producer
  sleeps only on a full open queue. Closing, clearing and resizing are included.\<close>

theorem no_lost_wakeup:
  assumes "list_all taking_action (map snd schedule)" and "s = run_schedule schedule (bq_init n)"
  shows "(cready s = [] \<and> cwaiting s \<noteq> [] \<longrightarrow> queue (bq s) = [] \<and> \<not> isClose (bq s))
    \<and> (pready s = [] \<and> pwaiting s \<noteq> [] \<longrightarrow> Full (bq s) \<and> \<not> isClose (bq s))"
proof -
  have "no_lost 0 0 s" unfolding assms(2)
    by (rule run_no_lost [OF _ _ assms(1)]) (simp_all add: no_lost_def takers_def bq_init_def count_defs)
  then show ?thesis by (auto simp: no_lost_def count_defs Full_def)
qed

theorem no_lost_wakeup_witness:
  "let s = run_schedule [(0, Call_Consumer CPop)] (bq_init 1 :: nat bq_system)
   in cready s = [] \<and> cwaiting s \<noteq> [] \<and> queue (bq s) = [] \<and> \<not> isClose (bq s)"
  using no_lost_wakeup [of "[(0, Call_Consumer CPop)]" "run_schedule [(0, Call_Consumer CPop)] (bq_init 1 :: nat bq_system)" 1]
  by (simp add: bq_init_def BlockQueue_def attempt_consumer_def Pop_def can_pop_def)

text \<open>With \<^verbatim>\<open>Peek\<close> a wake-up can be lost: the single notification of a push may go to the peeking
  thread, which leaves the item where it is and passes nothing on; the thread in \<^verbatim>\<open>Pop\<close> then sleeps
  on a queue that holds an item, with no woken thread left.\<close>

theorem peek_loses_wakeup:
  "\<exists>schedule. let s = run_schedule schedule (bq_init 4 :: nat bq_system)
     in cwaiting s = [CPop] \<and> cready s = [] \<and> queue (bq s) = [7] \<and> \<not> isClose (bq s)"
  by (rule exI [of _ "[(0, Call_Consumer CPop), (0, Call_Consumer CPeek), (1, Call_Producer (PPush 7)), (0, Resume_Consumer 0)]"])
    (simp add: bq_init_def BlockQueue_def attempt_consumer_def attempt_producer_def Pop_def Peek_for_def can_pop_def
      Push_def can_push_def wake.simps remove_nth_def)

text \<open>A batch push accepts a prefix and reports its length: nothing when the queue is closed,
  otherwise as many items as there are free places; a batch pop removes the first items and blocks
  only on an empty open queue.\<close>

theorem batch_push_pop:
  "(\<exists>ns. Push_range q xs =
      (let n = if isClose q then 0 else min (length xs) (capacity q - length (queue q))
       in (n, ns, q \<lparr> queue := queue q @ take n xs \<rparr>)))
   \<and> (if queue q = [] \<and> \<not> isClose q then Pop_range q m = None
      else \<exists>ns. Pop_range q m = Some (take m (queue q), ns, q \<lparr> queue := drop m (queue q) \<rparr>))"
  using Push_range_spec [of q xs] by (auto simp: Pop_range_def can_pop_def pop_loop_split)

text \<open>In any run of batch pushes and pops the queue never exceeds its capacity, and what was
  accepted comes out in order.\<close>

theorem block_queue_batches:
  assumes "fifo_run bq_put bq_get ops (BlockQueue n) = (accepted, popped, q)"
  shows "within_capacity q \<and> accepted = popped @ queue q"
  using bq_fifo.run_conserves [OF _ assms] by (simp add: within_capacity_def BlockQueue_def)

theorem block_queue_batches_witness:
  "within_capacity \<lparr> capacity = 2, isClose = False, queue = [2, 4::nat] \<rparr>
   \<and> fifo_run bq_put bq_get [Put [1, 2, 3], Get 1, Put [4::nat]] (BlockQueue 2)
       = ([1, 2, 4], [1], \<lparr> capacity = 2, isClose = False, queue = [2, 4] \<rparr>)"
proof -
  have r: "fifo_run bq_put bq_get [Put [1, 2, 3], Get 1, Put [4::nat]] (BlockQueue 2)
      = ([1, 2, 4], [1], \<lparr> capacity = 2, isClose = False, queue = [2, 4] \<rparr>)"
    by (simp add: bq_put_def bq_get_def BlockQueue_def Push_range_def Push_all_def TryPush_def Pop_range_def can_pop_def)
  from block_queue_batches [OF r] r show ?thesis by blast
qed

section \<open>Observers and destruction\<close>

definition IsClosed :: "'a block_queue \<Rightarrow> bool" where
  "IsClosed q = isClose q"

definition Size :: "'a block_queue \<Rightarrow> nat" where
  "Size q = length (queue q)"

definition Capacity :: "'a block_queue \<Rightarrow> nat" where
  "Capacity q = capacity q"

text \<open>The destructor closes the queue; it does not wait for the threads that it wakes.\<close>

definition BlockQueue_destroy :: "'a block_queue \<Rightarrow> notification list \<times> 'a block_queue" where
  "BlockQueue_destroy q = Close q"

end
