(* ===== verification/Thread_Pool.thy ===== *)
theory Thread_Pool
  imports Cpp_Prelude
begin

text \<open>
  \<^verbatim>\<open>src/breutil/thread_pool.hpp\<close> (class \<^verbatim>\<open>ThreadPool\<close>): workers that take tasks from a shared queue.
  The model is a step relation. Each critical section, each update of the atomic counter, each run of
  a task and each notification is one step, so steps of different threads interleave freely; the
  notification of \<^verbatim>\<open>Enqueue\<close> and of the destructor comes after the unlock and is a step of its own.
  A task is a \<^verbatim>\<open>packaged_task\<close>, which stores an exception in its future, so a task always returns to
  the worker.
\<close>

section \<open>State\<close>

text \<open>Where a worker is in the loop of lines 96--120: about to lock and test the predicate, asleep
  on \<^verbatim>\<open>_condVar\<close>, with a task in hand, running it (after \<^verbatim>\<open>fetch_add\<close>), done with it (before
  \<^verbatim>\<open>fetch_sub\<close>), about to update \<^verbatim>\<open>_unfinishedTasks\<close>, or returned.\<close>

datatype 'a worker = Testing | Sleeping | Taken 'a | Running 'a | Ran | Leaving | Exited

record 'a pool =
  workers :: "'a worker list"
  activeThreads :: nat
  stop :: bool
  tasks :: "'a list"
  unfinishedTasks :: nat
  notify_pending :: nat
  stop_pending :: bool
  submitted :: "'a list"
  started :: "'a list"
  executed :: "'a list"

definition ThreadPool :: "nat \<Rightarrow> 'a pool" where
  "ThreadPool threadCount =
     \<lparr> workers = replicate (if threadCount = 0 then 2 else threadCount) Testing, activeThreads = 0,
       stop = False, tasks = [], unfinishedTasks = 0, notify_pending = 0, stop_pending = False,
       submitted = [], started = [], executed = [] \<rparr>"

definition GetThreadCount :: "'a pool \<Rightarrow> nat" where
  "GetThreadCount p = length (workers p)"

definition GetQueueSize :: "'a pool \<Rightarrow> nat" where
  "GetQueueSize p = length (tasks p)"

definition GetActiveThreadCount :: "'a pool \<Rightarrow> nat" where
  "GetActiveThreadCount p = activeThreads p"

text \<open>\<^verbatim>\<open>WaitAll\<close> returns in the states in which its predicate holds.\<close>

definition WaitAll_returns :: "'a pool \<Rightarrow> bool" where
  "WaitAll_returns p \<longleftrightarrow> unfinishedTasks p = 0"

section \<open>Steps\<close>

text \<open>The critical section of \<^verbatim>\<open>Enqueue\<close>; the result says whether the future is valid.\<close>

definition Enqueue :: "'a pool \<Rightarrow> 'a \<Rightarrow> bool \<times> 'a pool" where
  "Enqueue p t =
     (if stop p then (False, p)
      else (True, p \<lparr> tasks := tasks p @ [t], unfinishedTasks := unfinishedTasks p + 1,
                     notify_pending := notify_pending p + 1, submitted := submitted p @ [t] \<rparr>))"

text \<open>The destructor up to the joins: the flag is set under the lock, the broadcast follows.\<close>

definition request_stop :: "'a pool \<Rightarrow> 'a pool" where
  "request_stop p = p \<lparr> stop := True, stop_pending := True \<rparr>"

definition wake_worker :: "'a worker \<Rightarrow> 'a worker" where
  "wake_worker w = (case w of Sleeping \<Rightarrow> Testing | _ \<Rightarrow> w)"

inductive client_step :: "'a pool \<Rightarrow> 'a pool \<Rightarrow> bool" where
  enqueue: "client_step p (snd (Enqueue p t))"
| stop: "client_step p (request_stop p)"
| spurious: "i < length (workers p) \<Longrightarrow> workers p ! i = Sleeping \<Longrightarrow> client_step p (p \<lparr> workers := (workers p)[i := Testing] \<rparr>)"

inductive pool_internal :: "'a pool \<Rightarrow> 'a pool \<Rightarrow> bool" where
  sleep: "i < length (workers p) \<Longrightarrow> workers p ! i = Testing \<Longrightarrow> \<not> stop p \<Longrightarrow> tasks p = [] \<Longrightarrow>
    pool_internal p (p \<lparr> workers := (workers p)[i := Sleeping] \<rparr>)"
| exit: "i < length (workers p) \<Longrightarrow> workers p ! i = Testing \<Longrightarrow> stop p \<Longrightarrow> tasks p = [] \<Longrightarrow>
    pool_internal p (p \<lparr> workers := (workers p)[i := Exited] \<rparr>)"
| take_task: "i < length (workers p) \<Longrightarrow> workers p ! i = Testing \<Longrightarrow> tasks p = t # ts \<Longrightarrow>
    pool_internal p (p \<lparr> workers := (workers p)[i := Taken t], tasks := ts, started := started p @ [t] \<rparr>)"
| begin_task: "i < length (workers p) \<Longrightarrow> workers p ! i = Taken t \<Longrightarrow>
    pool_internal p (p \<lparr> workers := (workers p)[i := Running t], activeThreads := activeThreads p + 1 \<rparr>)"
| run_task: "i < length (workers p) \<Longrightarrow> workers p ! i = Running t \<Longrightarrow>
    pool_internal p (p \<lparr> workers := (workers p)[i := Ran], executed := executed p @ [t] \<rparr>)"
| end_task: "i < length (workers p) \<Longrightarrow> workers p ! i = Ran \<Longrightarrow>
    pool_internal p (p \<lparr> workers := (workers p)[i := Leaving], activeThreads := size_sub (activeThreads p) 1 \<rparr>)"
| finish: "i < length (workers p) \<Longrightarrow> workers p ! i = Leaving \<Longrightarrow>
    pool_internal p (p \<lparr> workers := (workers p)[i := Testing], unfinishedTasks := size_sub (unfinishedTasks p) 1 \<rparr>)"
| notify_none: "0 < notify_pending p \<Longrightarrow> Sleeping \<notin> set (workers p) \<Longrightarrow>
    pool_internal p (p \<lparr> notify_pending := notify_pending p - 1 \<rparr>)"
| notify_one: "0 < notify_pending p \<Longrightarrow> i < length (workers p) \<Longrightarrow> workers p ! i = Sleeping \<Longrightarrow>
    pool_internal p (p \<lparr> notify_pending := notify_pending p - 1, workers := (workers p)[i := Testing] \<rparr>)"
| notify_all: "stop_pending p \<Longrightarrow>
    pool_internal p (p \<lparr> stop_pending := False, workers := map wake_worker (workers p) \<rparr>)"

inductive reachable :: "nat \<Rightarrow> 'a pool \<Rightarrow> bool" for n where
  init: "reachable n (ThreadPool n)"
| client: "reachable n p \<Longrightarrow> client_step p p' \<Longrightarrow> reachable n p'"
| internal: "reachable n p \<Longrightarrow> pool_internal p p' \<Longrightarrow> reachable n p'"

section \<open>Counting workers\<close>

text \<open>The task a worker holds and has not run, and three numbers of workers.\<close>

fun in_hand :: "'a worker \<Rightarrow> 'a multiset" where
  "in_hand (Taken t) = {#t#}"
| "in_hand (Running t) = {#t#}"
| "in_hand _ = {#}"

fun busy :: "'a worker \<Rightarrow> nat" where
  "busy (Taken t) = 1"
| "busy (Running t) = 1"
| "busy Ran = 1"
| "busy Leaving = 1"
| "busy _ = 0"

fun active :: "'a worker \<Rightarrow> nat" where
  "active (Running t) = 1"
| "active Ran = 1"
| "active _ = 0"

fun testing :: "'a worker \<Rightarrow> nat" where
  "testing Testing = 1"
| "testing _ = 0"

definition total_of :: "('a worker \<Rightarrow> 'b::comm_monoid_add) \<Rightarrow> 'a worker list \<Rightarrow> 'b" where
  "total_of f ws = sum_list (map f ws)"

lemma total_split: "i < length ws \<Longrightarrow> total_of f ws = f (ws ! i) + total_of f (take i ws @ drop (Suc i) ws)"
  unfolding total_of_def by (subst id_take_nth_drop [of i ws]) (simp_all add: ac_simps)

lemma total_update_split:
  "i < length ws \<Longrightarrow> total_of f (ws[i := w]) = f w + total_of f (take i ws @ drop (Suc i) ws)"
  by (simp add: total_of_def upd_conv_take_nth_drop ac_simps)

lemma total_update:
  fixes f :: "'a worker \<Rightarrow> 'b::cancel_comm_monoid_add"
  assumes "i < length ws"
  shows "total_of f (ws[i := w]) = total_of f ws - f (ws ! i) + f w"
  using total_split [OF assms, of f] total_update_split [OF assms, of f w] by (simp add: ac_simps)

lemma total_ge: "i < length ws \<Longrightarrow> f (ws ! i) \<le> total_of f ws" for f :: "'a worker \<Rightarrow> nat"
  using total_split [of i ws f] by simp

lemma total_zero: "(\<And>w. w \<in> set ws \<Longrightarrow> f w = 0) \<Longrightarrow> total_of f ws = 0"
  unfolding total_of_def by (induction ws) auto

lemma Sleeping_update: "i < length ws \<Longrightarrow> w \<noteq> Sleeping \<Longrightarrow> Sleeping \<in> set (ws[i := w]) \<Longrightarrow> Sleeping \<in> set ws"
  using set_update_subset_insert [of ws i w] by auto

lemma Exited_update: "i < length ws \<Longrightarrow> w \<noteq> Exited \<Longrightarrow> Exited \<in> set (ws[i := w]) \<Longrightarrow> Exited \<in> set ws"
  using set_update_subset_insert [of ws i w] by auto

lemma wake_worker_simps [simp]:
  "busy (wake_worker w) = busy w" "active (wake_worker w) = active w" "in_hand (wake_worker w) = in_hand w"
  "wake_worker w \<noteq> Sleeping" "wake_worker w = Exited \<longleftrightarrow> w = Exited"
  by (cases w; simp add: wake_worker_def)+

lemma total_wake [simp]:
  "total_of busy (map wake_worker ws) = total_of busy ws" "total_of active (map wake_worker ws) = total_of active ws"
  "total_of in_hand (map wake_worker ws) = total_of in_hand ws"
  by (simp_all add: total_of_def o_def)

lemma wake_sets [simp]:
  "Sleeping \<notin> wake_worker ` A" "Exited \<in> wake_worker ` A \<longleftrightarrow> Exited \<in> A"
proof -
  show "Sleeping \<notin> wake_worker ` A" using wake_worker_simps(4) by (metis imageE)
  have "wake_worker Exited = Exited" by simp
  then show "Exited \<in> wake_worker ` A \<longleftrightarrow> Exited \<in> A" using wake_worker_simps(5) by (metis imageE imageI)
qed

section \<open>Invariant\<close>

text \<open>The counters are exact, and every accepted task is queued, in a worker's hands or executed.\<close>

definition accounts :: "'a pool \<Rightarrow> bool" where
  "accounts p \<longleftrightarrow> unfinishedTasks p = length (tasks p) + total_of busy (workers p)
     \<and> activeThreads p = total_of active (workers p)
     \<and> submitted p = started p @ tasks p
     \<and> mset (started p) = mset (executed p) + total_of in_hand (workers p)"

text \<open>No worker sleeps through a task or through the stop request, and workers return only after it.\<close>

definition attentive :: "'a pool \<Rightarrow> bool" where
  "attentive p \<longleftrightarrow> (Sleeping \<in> set (workers p) \<longrightarrow> length (tasks p) \<le> notify_pending p + total_of testing (workers p))
     \<and> (Sleeping \<in> set (workers p) \<longrightarrow> stop p \<longrightarrow> stop_pending p)
     \<and> (Exited \<in> set (workers p) \<longrightarrow> stop p \<and> tasks p = [])
     \<and> 0 < length (workers p)"

lemmas pool_inv_defs = accounts_def attentive_def

lemma accounts_internal: "pool_internal p p' \<Longrightarrow> accounts p \<Longrightarrow> accounts p'"
proof (induction rule: pool_internal.induct)
  case (end_task i p)
  then show ?case using total_ge [of i "workers p" active] total_ge [of i "workers p" busy] by (simp add: accounts_def total_update)
next
  case (finish i p)
  then show ?case using total_ge [of i "workers p" busy] by (simp add: accounts_def total_update)
next
  case (run_task i p t)
  then have "t \<in># total_of in_hand (workers p)" using total_split [of i "workers p" in_hand] by simp
  moreover have "1 \<le> total_of busy (workers p)" using total_ge [of i "workers p" busy] run_task by simp
  moreover have "1 \<le> total_of active (workers p)" using total_ge [of i "workers p" active] run_task by simp
  ultimately show ?case using run_task by (simp add: accounts_def total_update)
next
  case (begin_task i p t)
  then have "t \<in># total_of in_hand (workers p)" using total_split [of i "workers p" in_hand] by simp
  moreover have "1 \<le> total_of busy (workers p)" using total_ge [of i "workers p" busy] begin_task by simp
  ultimately show ?case using begin_task by (simp add: accounts_def total_update)
qed (auto simp: accounts_def total_update)

lemma attentive_internal: "pool_internal p p' \<Longrightarrow> attentive p \<Longrightarrow> attentive p'"
proof (induction rule: pool_internal.induct)
  case (take_task i p t ts)
  have "1 \<le> total_of testing (workers p)" using total_ge [of i "workers p" testing] take_task by simp
  then show ?case using take_task
    by (auto simp: attentive_def total_update dest: Sleeping_update Exited_update)
next
  case (notify_one p i)
  have "Sleeping \<in> set (workers p)" using notify_one nth_mem by metis
  then show ?case using notify_one
    by (auto simp: attentive_def total_update dest: Exited_update)
qed (auto simp: attentive_def total_update dest: Sleeping_update Exited_update)

lemma Enqueue_inv: "accounts p \<Longrightarrow> accounts (snd (Enqueue p t))" "attentive p \<Longrightarrow> attentive (snd (Enqueue p t))"
  by (auto simp: Enqueue_def pool_inv_defs)

lemma client_inv: "client_step p p' \<Longrightarrow> accounts p \<and> attentive p \<Longrightarrow> accounts p' \<and> attentive p'"
proof (induction rule: client_step.induct)
  case (spurious i p)
  have "Sleeping \<in> set (workers p)" using spurious nth_mem by metis
  then show ?case using spurious by (auto simp: pool_inv_defs total_update dest: Exited_update)
qed (auto simp: Enqueue_inv, auto simp: request_stop_def pool_inv_defs)

lemma ThreadPool_inv: "accounts (ThreadPool n) \<and> attentive (ThreadPool n)"
  by (auto simp: pool_inv_defs ThreadPool_def intro!: total_zero total_zero [symmetric])

lemma reachable_inv: "reachable n p \<Longrightarrow> accounts p \<and> attentive p"
  by (induction rule: reachable.induct) (use ThreadPool_inv client_inv accounts_internal attentive_internal in blast)+

section \<open>Termination and quiescence\<close>

fun weight :: "'a worker \<Rightarrow> nat" where
  "weight Exited = 0"
| "weight Sleeping = 0"
| "weight Testing = 1"
| "weight Leaving = 2"
| "weight Ran = 3"
| "weight (Running t) = 4"
| "weight (Taken t) = 5"

definition remaining_work :: "'a pool \<Rightarrow> nat" where
  "remaining_work p = 7 * length (tasks p) + total_of weight (workers p) + 2 * notify_pending p
     + (if stop_pending p then length (workers p) + 1 else 0)"

lemma weight_wake: "total_of weight (map wake_worker ws) \<le> total_of weight ws + length ws"
proof (induction ws)
  case (Cons w ws)
  then show ?case by (cases w) (simp_all add: total_of_def wake_worker_def)
qed (simp add: total_of_def)

lemma internal_decreases: "pool_internal p p' \<Longrightarrow> remaining_work p' < remaining_work p"
proof (induction rule: pool_internal.induct)
  case (notify_all p)
  then show ?case using weight_wake [of "workers p"] by (simp add: remaining_work_def)
qed (simp_all add: remaining_work_def total_update, (use total_ge [of _ _ weight] in fastforce)+)

lemma quiescent_workers:
  assumes "\<nexists>p'. pool_internal p p'" "w \<in> set (workers p)"
  shows "w = Sleeping \<or> w = Exited"
proof -
  obtain i where i: "i < length (workers p)" "workers p ! i = w" using assms(2) by (auto simp: in_set_conv_nth)
  show ?thesis
  proof (cases w)
    case Testing
    then show ?thesis using i assms(1) pool_internal.sleep [of i p] pool_internal.exit [of i p] pool_internal.take_task [of i p]
      by (cases "tasks p") auto
  qed (use i assms(1) pool_internal.intros(4-7) [of i p] in auto)
qed

lemma quiescent_done:
  assumes inv: "accounts p" "attentive p" and q: "\<nexists>p'. pool_internal p p'"
  shows "tasks p = [] \<and> unfinishedTasks p = 0 \<and> mset (executed p) = mset (submitted p)
    \<and> (stop p \<longrightarrow> set (workers p) = {Exited})"
proof -
  note W = quiescent_workers [OF q]
  have zero: "total_of busy (workers p) = 0" "total_of testing (workers p) = 0" "total_of in_hand (workers p) = {#}"
    using W by (intro total_zero; fastforce)+
  have np: "notify_pending p = 0" if "Sleeping \<in> set (workers p)"
    using q that pool_internal.notify_one [of p] by (auto simp: in_set_conv_nth)
  have sp: "\<not> stop_pending p" using q pool_internal.notify_all by blast
  have t: "tasks p = []"
  proof (cases "Sleeping \<in> set (workers p)")
    case True
    then show ?thesis using inv(2) np zero by (auto simp: attentive_def)
  next
    case False
    moreover have "workers p \<noteq> []" using inv(2) by (auto simp: attentive_def)
    ultimately have "Exited \<in> set (workers p)" using W by (metis list.set_intros(1) neq_Nil_conv)
    then show ?thesis using inv(2) by (simp add: attentive_def)
  qed
  moreover have "set (workers p) = {Exited}" if "stop p"
  proof -
    have "Sleeping \<notin> set (workers p)" "workers p \<noteq> []" using that sp inv(2) by (auto simp: attentive_def)
    with W show ?thesis by (cases "workers p") fastforce+
  qed
  ultimately show ?thesis using inv(1) zero by (auto simp: accounts_def)
qed

section \<open>Properties\<close>

text \<open>C11. The counters are exact in every reachable state: \<^verbatim>\<open>_unfinishedTasks\<close> is the number of queued
  tasks plus the number of workers between taking a task and accounting for it, so its decrement
  never wraps; \<^verbatim>\<open>_activeThreads\<close> is the number of workers between the start of a task and the update after its end, and so at most the
  number of threads, and its decrement never wraps. Tasks start in the order
  of submission and each accepted task is executed at most once.\<close>

theorem pool_accounts:
  assumes "reachable n p"
  shows "unfinishedTasks p = GetQueueSize p + total_of busy (workers p)
    \<and> GetActiveThreadCount p = total_of active (workers p) \<and> GetActiveThreadCount p \<le> GetThreadCount p
    \<and> submitted p = started p @ tasks p
    \<and> mset (executed p) \<subseteq># mset (started p)"
proof -
  have a: "accounts p" using reachable_inv [OF assms] by simp
  have "total_of active ws \<le> length ws" for ws :: "'a worker list"
  proof (induction ws)
    case (Cons w ws)
    then show ?case by (cases w) (simp_all add: total_of_def)
  qed (simp add: total_of_def)
  with a show ?thesis by (simp add: accounts_def GetQueueSize_def GetActiveThreadCount_def GetThreadCount_def)
qed

theorem pool_accounts_witness:
  "\<exists>p. reachable 1 p \<and> workers p = [Running (7::nat)] \<and> unfinishedTasks p = GetQueueSize p + 1 \<and> GetActiveThreadCount p = 1"
proof -
  let ?q = "snd (Enqueue (ThreadPool 1) (7::nat))"
  let ?r = "?q \<lparr> workers := [Taken 7], tasks := [], started := [7] \<rparr>"
  let ?p = "?r \<lparr> workers := [Running 7], activeThreads := 1 \<rparr>"
  have 0: "reachable 1 ?q" by (rule reachable.client [OF reachable.init client_step.enqueue])
  have "pool_internal ?q ?r"
    using pool_internal.take_task [of 0 ?q 7 "[]"] by (simp add: Enqueue_def ThreadPool_def)
  from reachable.internal [OF 0 this] have 1: "reachable 1 ?r" .
  have "pool_internal ?r ?p"
    using pool_internal.begin_task [of 0 ?r 7] by (simp add: Enqueue_def ThreadPool_def)
  from reachable.internal [OF 1 this] have 2: "reachable 1 ?p" .
  have w: "workers ?p = [Running 7]" by simp
  show ?thesis using pool_accounts [OF 2] 2 w by (intro exI [of _ ?p]) (simp add: total_of_def)
qed

text \<open>C13. When \<^verbatim>\<open>WaitAll\<close> returns, every task accepted so far has been executed exactly once and
  the queue is empty.\<close>

theorem WaitAll_complete:
  assumes "reachable n p" "WaitAll_returns p"
  shows "tasks p = [] \<and> mset (executed p) = mset (submitted p)"
proof -
  have a: "accounts p" using reachable_inv [OF assms(1)] by simp
  then have z: "tasks p = []" "total_of busy (workers p) = 0" using assms(2) by (auto simp: accounts_def WaitAll_returns_def)
  have "in_hand w = {#}" if "busy w = 0" for w :: "'a worker" using that by (cases w) simp_all
  then have "total_of in_hand (workers p) = {#}" using z(2) by (intro total_zero) (auto simp: total_of_def)
  with a z show ?thesis by (simp add: accounts_def)
qed

theorem WaitAll_complete_witness:
  "tasks (ThreadPool 3 :: nat pool) = [] \<and> mset (executed (ThreadPool 3 :: nat pool)) = mset (submitted (ThreadPool 3))"
  using WaitAll_complete [OF reachable.init, of 3] by (simp add: WaitAll_returns_def ThreadPool_def)

text \<open>C12. The pool never gets stuck. Between calls from outside, the steps of the workers and the pending
  notifications come to an end (a measure decreases), and when none is possible every accepted task
  has been executed, nothing is unfinished, and after the stop request every worker has returned, so
  the joins of the destructor succeed.\<close>

theorem pool_drains:
  assumes "reachable n p"
  shows "(pool_internal p p' \<longrightarrow> remaining_work p' < remaining_work p)
    \<and> ((\<nexists>p'. pool_internal p p') \<longrightarrow>
        tasks p = [] \<and> unfinishedTasks p = 0 \<and> mset (executed p) = mset (submitted p)
        \<and> (stop p \<longrightarrow> set (workers p) = {Exited}))"
  using internal_decreases reachable_inv [OF assms] quiescent_done by blast

theorem pool_drains_witness:
  "pool_internal (ThreadPool 1) (ThreadPool 1 \<lparr> workers := [Sleeping] \<rparr> :: nat pool)
   \<and> remaining_work (ThreadPool 1 \<lparr> workers := [Sleeping] \<rparr> :: nat pool) < remaining_work (ThreadPool 1 :: nat pool)"
proof -
  have "pool_internal (ThreadPool 1) (ThreadPool 1 \<lparr> workers := [Sleeping] \<rparr> :: nat pool)"
    using pool_internal.sleep [of 0 "ThreadPool 1 :: nat pool"] by (simp add: ThreadPool_def)
  then show ?thesis using pool_drains [OF reachable.init [of 1]] by blast
qed

section \<open>Destruction\<close>

text \<open>The destructor requests the stop and then joins every worker, so it returns in the states where all of them have returned.\<close>

definition destructor_returns :: "'a pool \<Rightarrow> bool" where
  "destructor_returns p \<longleftrightarrow> list_all (\<lambda>w. w = Exited) (workers p)"

lemma destructor_drained: "attentive p \<Longrightarrow> workers p \<noteq> [] \<Longrightarrow> destructor_returns p \<Longrightarrow> tasks p = []"
  by (cases "workers p") (auto simp: attentive_def destructor_returns_def)

end
