(* ===== verification/Ip_Address.thy ===== *)
theory Ip_Address
  imports Cpp_Charconv
begin

text \<open>
  \<^verbatim>\<open>src/breutil/net/ip.hpp\<close> (class \<^verbatim>\<open>Ip\<close>): textual and binary IPv4 and IPv6 addresses. An empty byte
  vector is the code's answer to an unparsable text. \<^verbatim>\<open>std::istringstream\<close> extraction is
  \<open>extract_int\<close> and \<open>extract_char\<close> of the prelude; group counts stay far below the range of \<^verbatim>\<open>int\<close>.
\<close>

section \<open>IPv4 text\<close>

text \<open>One pass of the loop of \<^verbatim>\<open>toBytesV4\<close>: \<open>n\<close> numbers are still to come.\<close>

fun v4_loop :: "nat \<Rightarrow> string \<Rightarrow> byte list option" where
  "v4_loop 0 iss = (case extract_char iss of Some _ \<Rightarrow> None | None \<Rightarrow> Some [])"
| "v4_loop (Suc n) iss =
     (case extract_int iss of
        None \<Rightarrow> None
      | Some (num, rest) \<Rightarrow>
          if num < 0 \<or> 255 < num then None
          else if 0 < n then
            (case extract_char rest of
               None \<Rightarrow> None
             | Some (dot, rest') \<Rightarrow>
                 if dot \<noteq> CHR ''.'' then None
                 else map_option (Cons (word_of_int num)) (v4_loop n rest'))
          else map_option (Cons (word_of_int num)) (v4_loop n rest))"

definition toBytesV4 :: "string \<Rightarrow> byte list" where
  "toBytesV4 ip_str = (case v4_loop 4 ip_str of None \<Rightarrow> [] | Some bs \<Rightarrow> bs)"

section \<open>IPv6 text\<close>

fun group_loop :: "u16 \<Rightarrow> string \<Rightarrow> u16 option" where
  "group_loop v [] = Some v"
| "group_loop v (c # cs) =
     (let v' = v * 16 in
      if CHR ''0'' \<le> c \<and> c \<le> CHR ''9'' then group_loop (v' + word_of_nat (code c - 48)) cs
      else if CHR ''a'' \<le> c \<and> c \<le> CHR ''f'' then group_loop (v' + word_of_nat (code c - 97 + 10)) cs
      else if CHR ''A'' \<le> c \<and> c \<le> CHR ''F'' then group_loop (v' + word_of_nat (code c - 65 + 10)) cs
      else None)"

definition parseIPv6Group :: "string \<Rightarrow> u16 option" where
  "parseIPv6Group grp = (if grp = [] \<or> 4 < length grp then None else group_loop 0 grp)"

text \<open>The groups of a text separated by colons, from position \<open>start\<close>. \<open>limit\<close> is how many groups may
  still be stored; the loop over the part right of the double colon has no limit of its own.\<close>

definition next_colon :: "string \<Rightarrow> nat \<Rightarrow> nat" where
  "next_colon sv start = (case find_char_from sv (CHR '':'') start of None \<Rightarrow> length sv | Some i \<Rightarrow> i)"

lemma next_colon_ge: "start < length sv \<Longrightarrow> start \<le> next_colon sv start"
  by (auto simp: next_colon_def find_char_from_def split: option.split)

function groups_loop :: "string \<Rightarrow> nat option \<Rightarrow> nat \<Rightarrow> u16 list option" where
  "groups_loop sv limit start =
     (if start < length sv then
        let e = next_colon sv start
        in case parseIPv6Group (substr sv start (e - start)) of
             None \<Rightarrow> None
           | Some v \<Rightarrow>
               if limit = Some 0 then None
               else map_option (Cons v) (groups_loop sv (map_option (\<lambda>n. n - 1) limit) (e + 1))
      else Some [])"
  by pat_completeness auto
termination
proof (relation "measure (\<lambda>(sv, limit, start). length sv - start)")
  fix sv limit start x v
  assume "start < length sv" "x = next_colon sv start"
  then show "((sv, map_option (\<lambda>n. n - 1) limit, x + 1), sv, limit, start) \<in> measure (\<lambda>(sv, limit, start). length sv - start)"
    using next_colon_ge [of start sv] by simp
qed simp

declare groups_loop.simps [simp del]

fun store_groups :: "byte list \<Rightarrow> nat \<Rightarrow> u16 list \<Rightarrow> byte list" where
  "store_groups result pos [] = result"
| "store_groups result pos (v # vs) =
     store_groups (result[pos * 2 := ucast (drop_bit 8 v AND 0xFF), pos * 2 + 1 := ucast (v AND 0xFF)]) (pos + 1) vs"

definition toBytesV6 :: "string \<Rightarrow> byte list" where
  "toBytesV6 sv =
     (case find_sub_from sv ''::'' 0 of
        Some double_colon_pos \<Rightarrow>
          if find_sub_from sv ''::'' (double_colon_pos + 2) \<noteq> None then []
          else
            let left = substr sv 0 double_colon_pos;
                right = (if double_colon_pos + 2 < length sv then drop (double_colon_pos + 2) sv else [])
            in (case groups_loop left (Some 8) 0 of
                  None \<Rightarrow> []
                | Some lg \<Rightarrow>
                    (case groups_loop right None 0 of
                       None \<Rightarrow> []
                     | Some rg \<Rightarrow>
                         if 8 \<le> length lg + length rg then []
                         else store_groups (store_groups (replicate 16 0) 0 lg) (8 - length rg) rg))
      | None \<Rightarrow>
          (case groups_loop sv (Some 8) 0 of
             None \<Rightarrow> []
           | Some gs \<Rightarrow> if length gs \<noteq> 8 then [] else store_groups (replicate 16 0) 0 gs))"

section \<open>Conversions\<close>

definition ip_ToBytes :: "string \<Rightarrow> byte list" where
  "ip_ToBytes ip_str =
     (if ip_str = [] then []
      else if find_char_from ip_str (CHR '':'') 0 = None then toBytesV4 ip_str
      else toBytesV6 ip_str)"

definition ip_ToBytes_int :: "u32 \<Rightarrow> byte list" where
  "ip_ToBytes_int ip_int =
     [ucast (drop_bit 24 ip_int), ucast (drop_bit 16 ip_int), ucast (drop_bit 8 ip_int), ucast ip_int]"

definition group_at :: "byte list \<Rightarrow> nat \<Rightarrow> u16" where
  "group_at bs i = push_bit 8 (ucast (bs ! (i * 2))) OR ucast (bs ! (i * 2 + 1))"

text \<open>The search for the longest run of zero groups: (longest start, its length, current start,
  its length). The start \<open>-1\<close> of the source is \<open>None\<close>.\<close>

type_synonym zero_run = "nat option \<times> nat \<times> nat option \<times> nat"

definition close_run :: "zero_run \<Rightarrow> zero_run" where
  "close_run r =
     (case r of (ms, ml, cs, cl) \<Rightarrow>
        if ml < cl \<and> 1 < cl then (cs, cl, None, 0) else (ms, ml, None, 0))"

definition scan_group :: "u16 \<Rightarrow> nat \<Rightarrow> zero_run \<Rightarrow> zero_run" where
  "scan_group v i r =
     (if v = 0 then
        (case r of (ms, ml, cs, cl) \<Rightarrow> if cs = None then (ms, ml, Some i, 1) else (ms, ml, cs, cl + 1))
      else close_run r)"

fun scan_loop :: "u16 list \<Rightarrow> nat \<Rightarrow> zero_run \<Rightarrow> zero_run" where
  "scan_loop [] i r = r"
| "scan_loop (v # vs) i r = scan_loop vs (i + 1) (scan_group v i r)"

definition longest_zeros :: "u16 list \<Rightarrow> nat option \<times> nat" where
  "longest_zeros gs =
     (case close_run (scan_loop gs 0 (None, 0, None, 0)) of (ms, ml, _) \<Rightarrow> (ms, ml))"

definition hex_text :: "u16 \<Rightarrow> string" where
  "hex_text v = to_digits 16 (unat v)"

function v6_text_loop :: "u16 list \<Rightarrow> nat option \<Rightarrow> nat \<Rightarrow> nat \<Rightarrow> string" where
  "v6_text_loop gs ms ml i =
     (if i < 8 then
        if 0 < ml \<and> ms = Some i then ''::'' @ v6_text_loop gs ms ml (i + ml)
        else hex_text (gs ! i) @ (if i < 7 \<and> (ml = 0 \<or> ms \<noteq> Some (i + 1)) then '':'' else [])
             @ v6_text_loop gs ms ml (i + 1)
      else [])"
  by pat_completeness auto
termination
  by (relation "measure (\<lambda>(gs, ms, ml, i). 8 - i)") auto

declare v6_text_loop.simps [simp del]

definition ip_ToString :: "byte list \<Rightarrow> string" where
  "ip_ToString ip_bytes =
     (if length ip_bytes = 4 then
        to_string_int (uint (ip_bytes ! 0)) @ ''.'' @ to_string_int (uint (ip_bytes ! 1)) @ ''.''
        @ to_string_int (uint (ip_bytes ! 2)) @ ''.'' @ to_string_int (uint (ip_bytes ! 3))
      else if length ip_bytes = 16 then
        let gs = map (group_at ip_bytes) [0..<8]; (ms, ml) = longest_zeros gs
        in v6_text_loop gs ms ml 0
      else [])"

definition ip_ToString_int :: "u32 \<Rightarrow> string" where
  "ip_ToString_int ip_int = ip_ToString (ip_ToBytes_int ip_int)"

definition ToInt_bytes :: "byte list \<Rightarrow> std_exn + u32" where
  "ToInt_bytes ip_bytes =
     (if length ip_bytes \<noteq> 4 then Inl (InvalidArgument ''Only IPv4 supported'')
      else Inr (foldl (\<lambda>val b. push_bit 8 val OR ucast b) 0 ip_bytes))"

definition ToInt_string :: "string \<Rightarrow> std_exn + u32" where
  "ToInt_string ip_str =
     (let bytes = ip_ToBytes ip_str
      in if length bytes \<noteq> 4 then Inl (InvalidArgument ''Only IPv4 supported'') else ToInt_bytes bytes)"

section \<open>Predicates\<close>

definition IsValidIp :: "string \<Rightarrow> bool" where
  "IsValidIp ip_str =
     (let bytes = ip_ToBytes ip_str in bytes \<noteq> [] \<and> (length bytes = 4 \<or> length bytes = 16))"

definition IsValidIp_bytes :: "byte list \<Rightarrow> bool" where
  "IsValidIp_bytes ip_bytes =
     (if length ip_bytes \<noteq> 4 \<and> length ip_bytes \<noteq> 16 then False
      else let str = ip_ToString ip_bytes
           in if str = [] then False else ip_ToBytes str = ip_bytes)"

definition IsMulticastIp_bytes :: "byte list \<Rightarrow> bool" where
  "IsMulticastIp_bytes ip_bytes =
     (if length ip_bytes = 4 then (ip_bytes ! 0) AND 0xF0 = 0xE0
      else if length ip_bytes = 16 then ip_bytes ! 0 = 0xFF
      else False)"

definition IsMulticastIp :: "string \<Rightarrow> bool" where
  "IsMulticastIp ip_str =
     (let bytes = ip_ToBytes ip_str in if bytes = [] then False else IsMulticastIp_bytes bytes)"

definition IsMulticastIp_int :: "u32 \<Rightarrow> bool" where
  "IsMulticastIp_int ip_in \<longleftrightarrow> ip_in AND 0xF0000000 = 0xE0000000"

definition IsBroadcastIp_int :: "u32 \<Rightarrow> u32 \<Rightarrow> bool" where
  "IsBroadcastIp_int ip_in subnet_mask_in \<longleftrightarrow> ip_in OR subnet_mask_in = 0xFFFFFFFF"

definition IsBroadcastIp_bytes :: "byte list \<Rightarrow> byte list \<Rightarrow> bool" where
  "IsBroadcastIp_bytes ip_bytes subnet_mask_bytes =
     (if length ip_bytes \<noteq> length subnet_mask_bytes then False
      else if length ip_bytes = 4 then
        (case (ToInt_bytes ip_bytes, ToInt_bytes subnet_mask_bytes) of
           (Inr ip_int, Inr subnet_mask_int) \<Rightarrow> IsBroadcastIp_int ip_int subnet_mask_int
         | _ \<Rightarrow> False)
      else False)"

definition IsBroadcastIp :: "string \<Rightarrow> string \<Rightarrow> bool" where
  "IsBroadcastIp ip_str subnet_mask_str =
     (let bytes = ip_ToBytes ip_str; subnet_mask_bytes = ip_ToBytes subnet_mask_str
      in if bytes = [] \<or> subnet_mask_bytes = [] then False else IsBroadcastIp_bytes bytes subnet_mask_bytes)"

definition IsLoopback_bytes :: "byte list \<Rightarrow> bool" where
  "IsLoopback_bytes ip =
     (if length ip = 4 then ip ! 0 = 127
      else if length ip = 16 then ip = replicate 15 0 @ [1]
      else False)"

definition IsLoopback :: "string \<Rightarrow> bool" where
  "IsLoopback ip = (let bytes = ip_ToBytes ip in if bytes = [] then False else IsLoopback_bytes bytes)"

definition IsLoopback_int :: "u32 \<Rightarrow> bool" where
  "IsLoopback_int ip_int \<longleftrightarrow> drop_bit 24 ip_int AND 0xFF = 127"

section \<open>The class\<close>

record ip =
  ip_bytes :: "byte list"
  is_ipv6 :: bool

definition Ip_string :: "string \<Rightarrow> ip" where
  "Ip_string ip_str = (let bs = ip_ToBytes ip_str in \<lparr> ip_bytes = bs, is_ipv6 = (length bs = 16) \<rparr>)"

definition Ip_bytes :: "byte list \<Rightarrow> std_exn + ip" where
  "Ip_bytes bytes =
     (if length bytes \<noteq> 4 \<and> length bytes \<noteq> 16
      then Inl (InvalidArgument ''IP bytes must be 4 (IPv4) or 16 (IPv6) bytes'')
      else Inr \<lparr> ip_bytes = bytes, is_ipv6 = (length bytes = 16) \<rparr>)"

definition Ip_int :: "u32 \<Rightarrow> ip" where
  "Ip_int ip_int = \<lparr> ip_bytes = ip_ToBytes_int ip_int, is_ipv6 = False \<rparr>"

definition overwrite :: "'a list \<Rightarrow> 'a list \<Rightarrow> 'a list cpp_result" where
  "overwrite arr bs = write_range arr 0 bs"

definition ToBytesV6 :: "ip \<Rightarrow> (std_exn + byte list) cpp_result" where
  "ToBytesV6 ip =
     (if \<not> is_ipv6 ip then Ret (Inl (LogicError ''Not an IPv6 address''))
      else bind_ub (overwrite (replicate 16 0) (ip_bytes ip)) (\<lambda>arr. Ret (Inr arr)))"

definition ToBytesV4 :: "ip \<Rightarrow> (std_exn + byte list) cpp_result" where
  "ToBytesV4 ip =
     (if is_ipv6 ip then Ret (Inl (LogicError ''Not an IPv4 address''))
      else bind_ub (overwrite (replicate 4 0) (ip_bytes ip)) (\<lambda>arr. Ret (Inr arr)))"

definition ToInt :: "ip \<Rightarrow> std_exn + u32" where
  "ToInt ip =
     (if is_ipv6 ip then Inl (LogicError ''IPv6 cannot be converted to uint32_t'') else ToInt_bytes (ip_bytes ip))"

definition IsValid :: "ip \<Rightarrow> bool" where
  "IsValid ip \<longleftrightarrow> ip_bytes ip \<noteq> []"

definition ip_index :: "ip \<Rightarrow> nat \<Rightarrow> std_exn + byte" where
  "ip_index ip index =
     (if length (ip_bytes ip) \<le> index then Inl (OutOfRange ''IP address index out of range'')
      else Inr (ip_bytes ip ! index))"

definition ip_eq :: "ip \<Rightarrow> ip \<Rightarrow> bool" where
  "ip_eq a b \<longleftrightarrow> is_ipv6 a = is_ipv6 b \<and> ip_bytes a = ip_bytes b"

section \<open>Groups and their text\<close>

lemma isxdigit_ranges:
  "isxdigit c \<longleftrightarrow> (CHR ''0'' \<le> c \<and> c \<le> CHR ''9'') \<or> (CHR ''a'' \<le> c \<and> c \<le> CHR ''f'') \<or> (CHR ''A'' \<le> c \<and> c \<le> CHR ''F'')"
  by (auto simp: isxdigit_def isdigit_def less_eq_char_def)

lemma group_step:
  assumes "isxdigit c"
  shows "group_loop v (c # cs) = group_loop (v * 16 + word_of_nat (dval c)) cs"
  using assms
  by (auto simp: isxdigit_def isdigit_def less_eq_char_def dval_def digit_value_def)

lemma group_loop_value:
  "list_all isxdigit cs \<Longrightarrow> group_loop (word_of_nat n) cs = Some (word_of_nat (foldl (\<lambda>a c. a * 16 + dval c) n cs))"
proof (induction cs arbitrary: n)
  case Nil
  then show ?case by simp
next
  case (Cons c cs)
  then show ?case using Cons.IH [of "n * 16 + dval c"] by (simp add: group_step del: group_loop.simps)
qed

lemma hex_text_facts:
  shows "hex_text v \<noteq> []" "length (hex_text v) \<le> 4" "list_all isxdigit (hex_text v)" "CHR '':'' \<notin> set (hex_text v)"
proof -
  show "hex_text v \<noteq> []" by (simp add: hex_text_def)
  have "unat v < 16 ^ 4" using unsigned_less [of v, where 'a = nat] by simp
  then show "length (hex_text v) \<le> 4" unfolding hex_text_def by (intro length_to_digits) auto
  show x: "list_all isxdigit (hex_text v)"
    using list_all_to_digits [of 16 "unat v"] by (simp add: hex_text_def)
  then show "CHR '':'' \<notin> set (hex_text v)" by (auto simp: list_all_iff isxdigit_def isdigit_def)
qed

lemma parse_hex_text [simp]: "parseIPv6Group (hex_text v) = Some v"
proof -
  have "digits_value 16 (hex_text v) = unat v" by (simp add: hex_text_def)
  then have "group_loop 0 (hex_text v) = Some v"
    using group_loop_value [OF hex_text_facts(3) [of v], of 0] by (simp add: digits_value_def)
  then show ?thesis using hex_text_facts(1,2) [of v] by (simp add: parseIPv6Group_def)
qed

fun colon_join :: "u16 list \<Rightarrow> string" where
  "colon_join [] = []"
| "colon_join [v] = hex_text v"
| "colon_join (v # vs) = hex_text v @ '':'' @ colon_join vs"

lemma colon_join_Cons: "vs \<noteq> [] \<Longrightarrow> colon_join (v # vs) = hex_text v @ '':'' @ colon_join vs"
  by (cases vs) simp_all

lemma colon_join_hd: "\<exists>c t. colon_join (v # vs) = c # t \<and> c \<noteq> CHR '':''"
proof -
  obtain c t where h: "hex_text v = c # t" using hex_text_facts(1) by (meson neq_Nil_conv)
  then have "c \<noteq> CHR '':''" using hex_text_facts(4) [of v] by auto
  then show ?thesis using h by (cases vs) auto
qed

lemma next_colon_at:
  assumes "CHR '':'' \<notin> set h"
  shows "next_colon (pre @ h @ CHR '':'' # rest) (length pre) = length pre + length h"
    "next_colon (pre @ h) (length pre) = length pre + length h"
proof -
  have "find_index (\<lambda>x. x = CHR '':'') (h @ CHR '':'' # rest) = Some (length h)"
    using assms by (induction h) auto
  then show "next_colon (pre @ h @ CHR '':'' # rest) (length pre) = length pre + length h"
    by (simp add: next_colon_def find_char_from_def)
  have n: "find_index (\<lambda>x. x = CHR '':'') h = None" using assms by auto
  show "next_colon (pre @ h) (length pre) = length pre + length h"
    by (simp add: next_colon_def find_char_from_def n)
qed

lemma groups_loop_end: "length sv \<le> start \<Longrightarrow> groups_loop sv limit start = Some []"
  by (simp add: groups_loop.simps)

lemma groups_loop_step:
  assumes "start < length sv" "parseIPv6Group (substr sv start (next_colon sv start - start)) = Some v" "limit \<noteq> Some 0"
  shows "groups_loop sv limit start
    = map_option (Cons v) (groups_loop sv (map_option (\<lambda>n. n - 1) limit) (next_colon sv start + 1))"
  using assms by (subst groups_loop.simps) simp

lemma groups_loop_join:
  "(case limit of None \<Rightarrow> True | Some n \<Rightarrow> length gs \<le> n) \<Longrightarrow>
   groups_loop (pre @ colon_join gs) limit (length pre) = Some gs"
proof (induction gs arbitrary: pre limit)
  case Nil
  then show ?case by (simp add: groups_loop_end)
next
  case (Cons v vs)
  have l: "limit \<noteq> Some 0" "case map_option (\<lambda>n. n - 1) limit of None \<Rightarrow> True | Some n \<Rightarrow> length vs \<le> n"
    using Cons.prems by (auto split: option.splits)
  note h = hex_text_facts [of v]
  show ?case
  proof (cases "vs = []")
    case True
    note e = next_colon_at(2) [OF h(4), of pre]
    have "groups_loop (pre @ hex_text v) limit (length pre) = map_option (Cons v) (groups_loop (pre @ hex_text v)
        (map_option (\<lambda>n. n - 1) limit) (next_colon (pre @ hex_text v) (length pre) + 1))"
      by (rule groups_loop_step) (use h(1) l(1) e in \<open>simp_all add: substr_def\<close>)
    then show ?thesis using True e by (simp add: groups_loop_end)
  next
    case False
    let ?pre = "pre @ hex_text v @ '':''"
    let ?sv = "pre @ hex_text v @ CHR '':'' # colon_join vs"
    note e = next_colon_at(1) [OF h(4), of pre "colon_join vs"]
    have "groups_loop ?sv limit (length pre) = map_option (Cons v) (groups_loop ?sv
        (map_option (\<lambda>n. n - 1) limit) (next_colon ?sv (length pre) + 1))"
      by (rule groups_loop_step) (use h(1) l(1) e in \<open>simp_all add: substr_def\<close>)
    moreover have "groups_loop ?sv (map_option (\<lambda>n. n - 1) limit) (length ?pre) = Some vs"
      using Cons.IH [OF l(2), of ?pre] by simp
    ultimately show ?thesis using False e by (simp add: colon_join_Cons)
  qed
qed

section \<open>The double colon\<close>

lemma dc_skip: "c \<noteq> CHR '':'' \<Longrightarrow> find_sub ''::'' (c # xs) = map_option Suc (find_sub ''::'' xs)"
  by (simp add: starts_with_def)

lemma dc_skip_list:
  "CHR '':'' \<notin> set h \<Longrightarrow> find_sub ''::'' (h @ xs) = map_option (\<lambda>i. length h + i) (find_sub ''::'' xs)"
proof (induction h)
  case (Cons c h)
  then have "find_sub ''::'' (c # h @ xs) = map_option Suc (find_sub ''::'' (h @ xs))" by (intro dc_skip) auto
  then show ?case using Cons by (simp add: option.map_comp o_def del: find_sub.simps)
qed (cases "find_sub ''::'' xs"; simp)

lemma dc_skip_colon: "c \<noteq> CHR '':'' \<Longrightarrow> find_sub ''::'' (CHR '':'' # c # xs) = map_option Suc (find_sub ''::'' (c # xs))"
  by (simp add: starts_with_def)

lemma dc_join_rest:
  "find_sub ''::'' (colon_join gs @ rest) = map_option (\<lambda>i. length (colon_join gs) + i) (find_sub ''::'' rest)"
proof (induction gs rule: colon_join.induct)
  case (3 v w vs)
  obtain c t where ct: "colon_join (w # vs) = c # t" "c \<noteq> CHR '':''" using colon_join_hd by blast
  have "find_sub ''::'' (CHR '':'' # colon_join (w # vs) @ rest)
      = map_option Suc (find_sub ''::'' (colon_join (w # vs) @ rest))"
    unfolding ct(1) append_Cons using ct(2) by (rule dc_skip_colon)
  then show ?case using 3 dc_skip_list [OF hex_text_facts(4), of v "CHR '':'' # colon_join (w # vs) @ rest"]
    by (simp add: option.map_comp o_def add.assoc del: find_sub.simps)
qed (simp_all add: dc_skip_list hex_text_facts option.map_ident del: find_sub.simps)

lemma dc_join_none: "find_sub ''::'' (colon_join gs) = None"
  using dc_join_rest [of gs "[]"] by simp

lemma dc_join: "find_sub ''::'' (colon_join gs @ ''::'' @ rest) = Some (length (colon_join gs))"
  using dc_join_rest [of gs "''::'' @ rest"] by (simp add: starts_with_def)

section \<open>Printing\<close>

lemma v6_text_plain:
  assumes "length gs = 8" "i \<le> 8" "ml = 0 \<or> (\<forall>k. i \<le> k \<longrightarrow> ms \<noteq> Some k)"
  shows "v6_text_loop gs ms ml i = colon_join (drop i gs)"
  using assms(2,3)
proof (induction rule: inc_induct)
  case base
  then show ?case using assms(1) by (simp add: v6_text_loop.simps)
next
  case (step n)
  have d: "drop n gs = gs ! n # drop (Suc n) gs" using step assms(1) by (simp add: Cons_nth_drop_Suc)
  have "n < 7 \<longleftrightarrow> drop (Suc n) gs \<noteq> []" using assms(1) by auto
  moreover have "ml = 0 \<or> ms \<noteq> Some n \<and> ms \<noteq> Some (Suc n)" using step.prems le_SucI [of n n] by blast
  moreover have "v6_text_loop gs ms ml (Suc n) = colon_join (drop (Suc n) gs)" using step by auto
  ultimately show ?case
    using step.hyps d by (subst v6_text_loop.simps) (auto simp: colon_join_Cons)
qed

lemma v6_text_compressed:
  assumes "length gs = 8" "i \<le> s" "s + ml \<le> 8" "0 < ml"
  shows "v6_text_loop gs (Some s) ml i = colon_join (take (s - i) (drop i gs)) @ ''::'' @ colon_join (drop (s + ml) gs)"
  using assms(2)
proof (induction rule: inc_induct)
  case base
  have "v6_text_loop gs (Some s) ml (s + ml) = colon_join (drop (s + ml) gs)"
    by (rule v6_text_plain) (use assms in auto)
  then show ?case using assms by (subst v6_text_loop.simps) simp
next
  case (step n)
  let ?t = "take (s - Suc n) (drop (Suc n) gs)"
  have d: "take (s - n) (drop n gs) = gs ! n # ?t"
    using step.hyps assms by (simp add: Cons_nth_drop_Suc [symmetric] take_Cons')
  have "n + 1 \<noteq> s \<longleftrightarrow> ?t \<noteq> []" using step.hyps assms by auto
  then show ?case
    using step assms d by (subst v6_text_loop.simps) (auto simp: colon_join_Cons)
qed

text \<open>The run that is compressed lies within the groups and is all zero.\<close>

definition zeros :: "u16 list \<Rightarrow> nat \<Rightarrow> nat \<Rightarrow> bool" where
  "zeros gs s l \<longleftrightarrow> take l (drop s gs) = replicate l 0"

definition run_ok :: "u16 list \<Rightarrow> nat \<Rightarrow> zero_run \<Rightarrow> bool" where
  "run_ok gs i r \<longleftrightarrow> (case r of (ms, ml, cs, cl) \<Rightarrow>
     (ml = 0 \<or> (\<exists>s. ms = Some s \<and> s + ml \<le> i \<and> zeros gs s ml))
     \<and> (case cs of None \<Rightarrow> cl = 0 | Some c \<Rightarrow> c + cl = i \<and> zeros gs c cl))"

lemma close_run_ok: "run_ok gs i r \<Longrightarrow> run_ok gs i (close_run r)"
  by (cases r) (auto simp: run_ok_def close_run_def split: option.splits)

lemma run_ok_Suc: "run_ok gs i (ms, ml, None, 0) \<Longrightarrow> run_ok gs (Suc i) (ms, ml, None, 0)"
  by (auto simp: run_ok_def)

lemma zeros_extend:
  assumes "zeros gs c l" "c + l < length gs" "gs ! (c + l) = 0"
  shows "zeros gs c (Suc l)"
proof -
  have "take (Suc l) (drop c gs) = take l (drop c gs) @ [gs ! (c + l)]"
    using assms(2) by (simp add: take_Suc_conv_app_nth)
  then show ?thesis using assms(1,3) by (simp add: zeros_def replicate_append_same)
qed

lemma zeros_single: "i < length gs \<Longrightarrow> gs ! i = 0 \<Longrightarrow> zeros gs i (Suc 0)"
  by (simp add: zeros_def Cons_nth_drop_Suc [symmetric])

lemma scan_group_ok:
  assumes "run_ok gs i r" "i < length gs"
  shows "run_ok gs (Suc i) (scan_group (gs ! i) i r)"
proof -
  obtain ms ml cs cl where r: "r = (ms, ml, cs, cl)" by (metis prod_cases4)
  show ?thesis
  proof (cases "gs ! i = 0")
    case True
    show ?thesis
    proof (cases cs)
      case None
      with True r assms show ?thesis by (auto simp: run_ok_def scan_group_def zeros_single)
    next
      case (Some c)
      then have "c + cl = i" "zeros gs c cl" using assms(1) r by (simp_all add: run_ok_def)
      then have "zeros gs c (Suc cl)" using zeros_extend True assms(2) by simp
      with Some True r assms show ?thesis by (auto simp: run_ok_def scan_group_def)
    qed
  next
    case False
    have "\<exists>ms' ml'. close_run r = (ms', ml', None, 0)" by (simp add: close_run_def r)
    then obtain ms' ml' where c: "close_run r = (ms', ml', None, 0)" by blast
    from close_run_ok [OF assms(1)] False show ?thesis by (simp add: scan_group_def c run_ok_Suc)
  qed
qed

lemma scan_loop_ok: "run_ok gs i r \<Longrightarrow> i \<le> length gs \<Longrightarrow> run_ok gs (length gs) (scan_loop (drop i gs) i r)"
proof (induction "length gs - i" arbitrary: i r)
  case 0
  then show ?case by simp
next
  case (Suc n)
  then have "i < length gs" by simp
  then show ?case using Suc scan_group_ok [of gs i r] by (simp add: Cons_nth_drop_Suc [symmetric])
qed

lemma longest_zeros_ok:
  assumes "longest_zeros gs = (ms, ml)"
  shows "ml = 0 \<or> (\<exists>s. ms = Some s \<and> s + ml \<le> length gs \<and> take ml (drop s gs) = replicate ml 0)"
proof -
  have "run_ok gs (length gs) (close_run (scan_loop gs 0 (None, 0, None, 0)))"
    using scan_loop_ok [of gs 0 "(None, 0, None, 0)"] by (intro close_run_ok) (simp add: run_ok_def)
  then show ?thesis using assms by (auto simp: longest_zeros_def run_ok_def zeros_def split: prod.splits)
qed

section \<open>Bytes and groups\<close>

definition group_bytes :: "u16 \<Rightarrow> byte list" where
  "group_bytes v = [ucast (drop_bit 8 v AND 0xFF), ucast (v AND 0xFF)]"

lemma mask_FF: "(0xFF :: u16) = mask 8"
  by (simp add: mask_eq_exp_minus_1)

lemma group_bytes_join: "group_bytes (push_bit 8 (ucast a) OR ucast b) = [a, b]"
proof -
  have "(ucast (drop_bit 8 (push_bit 8 (ucast a) OR ucast b :: u16) AND 0xFF) :: byte) = a"
    unfolding mask_FF by (rule bit_word_eqI) (auto simp: bit_simps dest: bit_imp_le_length)
  moreover have "(ucast ((push_bit 8 (ucast a) OR ucast b :: u16) AND 0xFF) :: byte) = b"
    unfolding mask_FF by (rule bit_word_eqI) (auto simp: bit_simps dest: bit_imp_le_length)
  ultimately show ?thesis by (simp add: group_bytes_def)
qed

lemma group_bytes_zero: "group_bytes 0 = [0, 0]"
  by (simp add: group_bytes_def)

lemma store_groups_at:
  "2 * (pos + length gs) \<le> length bs \<Longrightarrow>
   store_groups bs pos gs = take (2 * pos) bs @ concat (map group_bytes gs) @ drop (2 * (pos + length gs)) bs"
proof (induction gs arbitrary: bs pos)
  case Nil
  then show ?case by simp
next
  case (Cons v vs)
  let ?bs = "bs[pos * 2 := ucast (drop_bit 8 v AND 0xFF), pos * 2 + 1 := ucast (v AND 0xFF)]"
  have "store_groups bs pos (v # vs) = take (2 * (pos + 1)) ?bs @ concat (map group_bytes vs) @ drop (2 * (pos + 1 + length vs)) ?bs"
    using Cons.IH [of "pos + 1" ?bs] Cons.prems by simp
  moreover have "take (2 * (pos + 1)) ?bs = take (2 * pos) bs @ group_bytes v"
    using Cons.prems
    by (auto simp: list_eq_iff_nth_eq nth_append nth_list_update group_bytes_def less_Suc_eq mult.commute)
  moreover have "drop (2 * (pos + 1 + length vs)) ?bs = drop (2 * (pos + length (v # vs))) bs"
    by (simp add: drop_update_cancel mult.commute)
  ultimately show ?case by simp
qed

lemma concat_zero_groups: "concat (map group_bytes (replicate n 0)) = replicate (2 * n) 0"
  by (induction n) (simp_all add: group_bytes_zero)

lemma length_concat_groups: "length (concat (map group_bytes gs)) = 2 * length gs"
  by (induction gs) (simp_all add: group_bytes_def)

lemma groups_of_bytes:
  assumes "length bs = 16"
  shows "concat (map group_bytes (map (group_at bs) [0..<8])) = bs"
proof -
  have "group_bytes (group_at bs i) = [bs ! (2 * i), bs ! (2 * i + 1)]" for i
    unfolding group_at_def group_bytes_join by (simp add: mult.commute)
  then have "concat (map group_bytes (map (group_at bs) [0..<8])) = map ((!) bs) [0..<16]"
    by (simp add: upt_rec numeral_eq_Suc)
  also have "\<dots> = bs" using assms by (metis map_nth)
  finally show ?thesis .
qed

section \<open>Round trips\<close>

lemma toBytesV6_plain:
  assumes "length gs = 8"
  shows "toBytesV6 (colon_join gs) = concat (map group_bytes gs)"
  using groups_loop_join [where limit = "Some 8" and gs = gs and pre = "[]"] assms store_groups_at [of 0 gs "replicate 16 0"]
  by (simp add: toBytesV6_def find_sub_from_def dc_join_none length_concat_groups)

lemma toBytesV6_compressed:
  assumes "length L + length R < 8"
  shows "toBytesV6 (colon_join L @ ''::'' @ colon_join R)
    = concat (map group_bytes (L @ replicate (8 - length L - length R) 0 @ R))"
proof -
  let ?sv = "colon_join L @ ''::'' @ colon_join R" and ?n = "length (colon_join L)"
  have f1: "find_sub_from ?sv ''::'' 0 = Some ?n" using dc_join [of L "colon_join R"] by (simp add: find_sub_from_def)
  have f2: "find_sub_from ?sv ''::'' (?n + 2) = None" by (simp add: find_sub_from_def dc_join_none)
  have l: "groups_loop (substr ?sv 0 ?n) (Some 8) 0 = Some L"
    using groups_loop_join [where limit = "Some 8" and gs = L and pre = "[]"] assms by (simp add: substr_def)
  have "(if ?n + 2 < length ?sv then drop (?n + 2) ?sv else []) = colon_join R" by simp
  then have r: "groups_loop (if ?n + 2 < length ?sv then drop (?n + 2) ?sv else []) None 0 = Some R"
    using groups_loop_join [where limit = None and gs = R and pre = "[]"] by simp
  have "store_groups (store_groups (replicate 16 0) 0 L) (8 - length R) R
    = concat (map group_bytes L) @ replicate (2 * (8 - length L - length R)) 0 @ concat (map group_bytes R)"
    using assms by (simp add: store_groups_at length_concat_groups diff_mult_distrib2)
  then show ?thesis unfolding toBytesV6_def f1
    using f2 l r assms by (simp add: Let_def concat_zero_groups [simplified] del: find_sub.simps)
qed

lemma colon_in_join: "2 \<le> length gs \<Longrightarrow> CHR '':'' \<in> set (colon_join gs)"
  by (cases gs rule: colon_join.cases) auto

lemma toBytesV6_text:
  assumes "length gs = 8" "longest_zeros gs = (ms, ml)"
  shows "toBytesV6 (v6_text_loop gs ms ml 0) = concat (map group_bytes gs) \<and> CHR '':'' \<in> set (v6_text_loop gs ms ml 0)"
proof -
  consider "ml = 0" | s where "0 < ml" "ms = Some s" "s + ml \<le> 8" "take ml (drop s gs) = replicate ml 0"
    using longest_zeros_ok [OF assms(2)] assms(1) by auto
  then show ?thesis
  proof cases
    case 1
    then have p: "v6_text_loop gs ms ml 0 = colon_join gs" using v6_text_plain [OF assms(1), of 0 ml ms] by simp
    show ?thesis unfolding p using colon_in_join [of gs] toBytesV6_plain [OF assms(1)] assms(1) by simp
  next
    case (2 s)
    let ?L = "take s gs" and ?R = "drop (s + ml) gs"
    have p: "v6_text_loop gs ms ml 0 = colon_join ?L @ ''::'' @ colon_join ?R"
      using v6_text_compressed [OF assms(1) _ 2(3,1), of 0] 2(2) by simp
    have "gs = ?L @ take ml (drop s gs) @ ?R"
      by (metis append_take_drop_id drop_drop add.commute)
    moreover have "ml = 8 - length ?L - length ?R" using 2(3) assms(1) by simp
    ultimately have "?L @ replicate (8 - length ?L - length ?R) 0 @ ?R = gs" using 2(4) by simp
    then show ?thesis unfolding p using toBytesV6_compressed [of ?L ?R] 2(1,3) assms(1) by simp
  qed
qed

lemma ToBytes_ToString_v6:
  assumes "length bs = 16"
  shows "toBytesV6 (ip_ToString bs) = bs \<and> CHR '':'' \<in> set (ip_ToString bs)"
proof -
  define gs where "gs = map (group_at bs) [0..<8]"
  obtain ms ml where z: "longest_zeros gs = (ms, ml)" by fastforce
  have "ip_ToString bs = v6_text_loop gs ms ml 0" using assms z by (simp add: ip_ToString_def gs_def)
  moreover have "length gs = 8" by (simp add: gs_def)
  ultimately show ?thesis using toBytesV6_text [OF _ z] groups_of_bytes [OF assms] by (simp add: gs_def)
qed

lemma extract_dot: "extract_char (CHR ''.'' # rest) = Some (CHR ''.'', rest)"
  by (simp add: extract_char_def isspace_def)

lemma extract_byte:
  fixes b :: byte
  assumes "no_digit_next 10 rest"
  shows "extract_int (to_string_int (uint b) @ rest) = Some (uint b, rest)"
proof -
  have "0 \<le> uint b" "uint b < 256" using uint_lt2p [of b] by simp_all
  then show ?thesis using assms by (intro extract_int_to_chars) linarith+
qed

lemma byte_range: "\<not> (uint (b :: byte) < 0 \<or> 255 < uint b)"
  using uint_lt2p [of b] by (simp add: not_less)

lemma no_digit_dot: "no_digit_next 10 (CHR ''.'' # rest)" "no_digit_next 10 []"
  by (simp_all add: no_digit_next_def isdigit_def)

lemma v4_loop_step:
  fixes b :: byte
  shows "v4_loop (Suc (Suc n)) (to_string_int (uint b) @ CHR ''.'' # rest) = map_option (Cons b) (v4_loop (Suc n) rest)"
    "v4_loop (Suc 0) (to_string_int (uint b)) = Some [b]"
proof -
  show "v4_loop (Suc (Suc n)) (to_string_int (uint b) @ CHR ''.'' # rest) = map_option (Cons b) (v4_loop (Suc n) rest)"
    using extract_byte [OF no_digit_dot(1), of b rest] byte_range [of b]
    by (simp add: extract_dot v4_loop.simps(2) [of "Suc n"] del: v4_loop.simps)
  show "v4_loop (Suc 0) (to_string_int (uint b)) = Some [b]"
    using extract_byte [OF no_digit_dot(2), of b] byte_range [of b] by (simp add: extract_char_def)
qed

lemma toBytesV4_text:
  "toBytesV4 (to_string_int (uint a) @ ''.'' @ to_string_int (uint b) @ ''.'' @ to_string_int (uint c) @ ''.'' @ to_string_int (uint d))
   = [a, b, c, d]"
proof -
  have "(4 :: nat) = Suc (Suc (Suc (Suc 0)))" by simp
  then show ?thesis unfolding toBytesV4_def by (simp only: append_Cons append_Nil v4_loop_step) simp
qed

lemma no_colon_in_number: "CHR '':'' \<notin> set (to_string_int v)"
proof -
  have "isdigit x" if "x \<in> set (to_digits 10 n)" for x n
    using list_all_to_digits [of 10 n] that by (simp add: list_all_iff)
  moreover have not_colon: "\<not> isdigit (CHR '':'')" by (simp add: isdigit_def)
  ultimately have "CHR '':'' \<notin> set (to_digits 10 n)" for n by (metis not_colon)
  then show ?thesis by (simp add: to_chars_int_def)
qed

lemma ToBytes_ToString_eq:
  assumes "length bs = 4 \<or> length bs = 16"
  shows "ip_ToBytes (ip_ToString bs) = bs \<and> ip_ToString bs \<noteq> []"
proof (cases "length bs = 16")
  case True
  then show ?thesis using ToBytes_ToString_v6 [OF True]
    by (auto simp: ip_ToBytes_def find_char_from_def)
next
  case False
  then obtain a b c d where bs: "bs = [a, b, c, d]" using assms by (auto simp: numeral_eq_Suc length_Suc_conv)
  have t: "ip_ToString bs = to_string_int (uint a) @ ''.'' @ to_string_int (uint b) @ ''.'' @ to_string_int (uint c) @ ''.'' @ to_string_int (uint d)"
    by (simp add: ip_ToString_def bs)
  have "CHR '':'' \<notin> set (ip_ToString bs)" unfolding t by (simp add: no_colon_in_number)
  then have "find_char_from (ip_ToString bs) (CHR '':'') 0 = None" by (auto simp: find_char_from_def)
  then show ?thesis using toBytesV4_text [of a b c d] t by (simp add: ip_ToBytes_def bs)
qed

lemma v4_loop_length: "v4_loop n s = Some bs \<Longrightarrow> length bs = n"
  by (induction n s arbitrary: bs rule: v4_loop.induct) (auto split: option.splits if_splits)

lemma store_groups_length [simp]: "length (store_groups bs pos gs) = length bs"
  by (induction bs pos gs rule: store_groups.induct) simp_all

lemma ip_ToBytes_length: "length (ip_ToBytes s) \<in> {0, 4, 16}"
proof -
  have "length (toBytesV4 s) \<in> {0, 4}" by (auto simp: toBytesV4_def dest: v4_loop_length split: option.split)
  moreover have "length (toBytesV6 s) \<in> {0, 16}"
    by (auto simp: toBytesV6_def Let_def split: option.split)
  ultimately show ?thesis by (auto simp: ip_ToBytes_def)
qed

lemma ToInt_ToBytes_int: "ToInt_bytes (ip_ToBytes_int w) = Inr w"
proof -
  have "push_bit 8 (push_bit 8 (push_bit 8 (ucast (ucast (drop_bit 24 w) :: byte)) OR ucast (ucast (drop_bit 16 w) :: byte))
      OR ucast (ucast (drop_bit 8 w) :: byte)) OR ucast (ucast w :: byte) = w" (is "?l = w")
  proof (rule bit_word_eqI)
    fix n assume "n < LENGTH(32)"
    then have "n < 32" by simp
    then consider "n < 8" | "8 \<le> n" "n < 16" | "16 \<le> n" "n < 24" | "24 \<le> n" "n < 32" by linarith
    then show "bit ?l n = bit w n"
      by cases (auto simp: bit_simps)
  qed
  then show ?thesis by (simp add: ToInt_bytes_def ip_ToBytes_int_def)
qed

lemma byte_up_down: "(ucast (ucast b :: u32) :: byte) = b"
  by (rule bit_word_eqI) (auto simp: bit_simps dest: bit_imp_le_length)

text \<open>A well-formed address object: no bytes (invalid), four or sixteen, and the flag tells which.\<close>

definition ip_ok :: "ip \<Rightarrow> bool" where
  "ip_ok ip \<longleftrightarrow> length (ip_bytes ip) \<in> {0, 4, 16} \<and> (is_ipv6 ip \<longleftrightarrow> length (ip_bytes ip) = 16)"

interpretation ip_text: codec ip_ToString "\<lambda>s. let bs = ip_ToBytes s in if bs = [] then None else Some bs"
  "\<lambda>bs. length bs = 4 \<or> length bs = 16"
proof
  fix bs :: "byte list" assume a: "length bs = 4 \<or> length bs = 16"
  then have "bs \<noteq> []" by auto
  then show "(let bs' = ip_ToBytes (ip_ToString bs) in if bs' = [] then None else Some bs') = Some bs"
    using ToBytes_ToString_eq [OF a] by (simp add: Let_def)
qed

section \<open>Properties\<close>

text \<open>C30. Printing and parsing addresses is lossless: a byte sequence survives \<^verbatim>\<open>ToString\<close> followed by
  \<^verbatim>\<open>ToBytes\<close> exactly when it has four or sixteen bytes (this is what \<^verbatim>\<open>IsValidIp\<close> on bytes tests), and
  addresses with the same text are equal. The compression of the longest run of zero groups to a
  double colon is covered, for every address.\<close>

theorem ip_text_round_trip:
  "(IsValidIp_bytes bs \<longleftrightarrow> length bs = 4 \<or> length bs = 16)
   \<and> (IsValidIp_bytes bs \<longrightarrow> ip_ToBytes (ip_ToString bs) = bs)
   \<and> (IsValidIp_bytes bs \<longrightarrow> IsValidIp_bytes cs \<longrightarrow> (ip_ToString bs = ip_ToString cs \<longleftrightarrow> bs = cs))"
proof -
  have v: "IsValidIp_bytes x \<longleftrightarrow> length x = 4 \<or> length x = 16" for x
    using ToBytes_ToString_eq [of x] by (auto simp: IsValidIp_bytes_def)
  then show ?thesis using ToBytes_ToString_eq [of bs] ip_text.enc_inject [of bs cs] by blast
qed

theorem ip_text_round_trip_witness:
  "ip_ToBytes (ip_ToString [127, 0, 0, 1]) = [127, 0, 0, 1] \<and> IsValidIp_bytes (replicate 15 0 @ [1])"
  using ip_text_round_trip [of "[127, 0, 0, 1]" "[]"] ip_text_round_trip [of "replicate 15 0 @ [1]" "[]"] by simp

text \<open>IPv4 addresses as integers: bytes and text of a 32-bit integer convert back to it without
  an exception, and the integer and byte versions of the loopback test agree.\<close>

theorem ip_int_round_trip:
  "ToInt_bytes (ip_ToBytes_int w) = Inr w \<and> ToInt_string (ip_ToString_int w) = Inr w
   \<and> (IsLoopback_bytes (ip_ToBytes_int w) \<longleftrightarrow> IsLoopback_int w)"
proof -
  have l: "length (ip_ToBytes_int w) = 4" by (simp add: ip_ToBytes_int_def)
  then have "ToInt_string (ip_ToString_int w) = Inr w"
    using ToBytes_ToString_eq [of "ip_ToBytes_int w"] ToInt_ToBytes_int [of w]
    by (simp add: ToInt_string_def ip_ToString_int_def)
  moreover have "IsLoopback_bytes (ip_ToBytes_int w) \<longleftrightarrow> IsLoopback_int w"
  proof -
    have "drop_bit 24 w AND 0xFF = ucast (ucast (drop_bit 24 w) :: byte)"
      by (rule bit_word_eqI) (auto simp: bit_simps mask_eq_exp_minus_1 [of 8, where 'a = "32 word", simplified, symmetric])
    then have "drop_bit 24 w AND 0xFF = 127 \<longleftrightarrow> ucast (ucast (drop_bit 24 w) :: byte) = (ucast (127 :: byte) :: u32)" by simp
    also have "\<dots> \<longleftrightarrow> (ucast (drop_bit 24 w) :: byte) = 127" by (metis byte_up_down)
    finally show ?thesis by (simp add: IsLoopback_bytes_def IsLoopback_int_def ip_ToBytes_int_def)
  qed
  ultimately show ?thesis using ToInt_ToBytes_int by blast
qed

text \<open>The integer of four bytes determines them.\<close>

lemma ToInt_bytes_inverse: "length bs = 4 \<Longrightarrow> \<exists>w. ToInt_bytes bs = Inr w \<and> ip_ToBytes_int w = bs"
proof -
  assume "length bs = 4"
  then obtain a b c d where bs: "bs = [a, b, c, d]" by (auto simp: numeral_eq_Suc length_Suc_conv)
  let ?w = "push_bit 8 (push_bit 8 (push_bit 8 (ucast a) OR ucast b) OR ucast c) OR ucast d :: u32"
  have "(ucast (drop_bit 24 ?w) :: byte) = a" "(ucast (drop_bit 16 ?w) :: byte) = b" "(ucast (drop_bit 8 ?w) :: byte) = c" "(ucast ?w :: byte) = d"
    by (rule bit_word_eqI; auto simp: bit_simps dest: bit_imp_le_length)+
  then show ?thesis by (simp add: bs ToInt_bytes_def ip_ToBytes_int_def)
qed

text \<open>C38. Every constructor yields a well-formed object or throws, and the accessors of a well-formed object agree. An object is
  IPv6 with sixteen bytes, IPv4 with four, or invalid with none. \<^verbatim>\<open>ToBytesV6\<close> returns the bytes of the first kind and throws for the others;
  \<^verbatim>\<open>ToBytesV4\<close> throws for the first kind, returns the bytes of the second, and four zeros for an invalid object. \<^verbatim>\<open>ToInt\<close>
  of an IPv4 object is the integer from which \<^verbatim>\<open>Ip(uint32_t)\<close> makes the same object again, and throws for the others. A valid object is also made again from its
  bytes and from its text, and indexing reads its bytes or throws.
\<close>

theorem ip_objects_ok:
  "ip_ok (Ip_string s) \<and> ip_ok (Ip_int w) \<and> ToInt (Ip_int w) = Inr w
   \<and> (case Ip_bytes bs of Inr ip \<Rightarrow> ip_ok ip \<and> ip_bytes ip = bs | Inl _ \<Rightarrow> \<not> IsValidIp_bytes bs)
   \<and> (ip_ok ip \<longrightarrow>
        (if is_ipv6 ip then
           ToBytesV6 ip = Ret (Inr (ip_bytes ip)) \<and> (\<exists>m. ToBytesV4 ip = Ret (Inl (LogicError m))) \<and> (\<exists>m. ToInt ip = Inl (LogicError m))
         else
           (\<exists>m. ToBytesV6 ip = Ret (Inl (LogicError m)))
           \<and> (if IsValid ip then ToBytesV4 ip = Ret (Inr (ip_bytes ip)) \<and> (\<exists>v. ToInt ip = Inr v \<and> Ip_int v = ip)
              else ToBytesV4 ip = Ret (Inr [0, 0, 0, 0]) \<and> (\<exists>m. ToInt ip = Inl (InvalidArgument m))))
        \<and> (IsValid ip \<longrightarrow> Ip_bytes (ip_bytes ip) = Inr ip \<and> Ip_string (ip_ToString (ip_bytes ip)) = ip)
        \<and> (if i < length (ip_bytes ip) then ip_index ip i = Inr (ip_bytes ip ! i) else \<exists>m. ip_index ip i = Inl (OutOfRange m)))"
proof -
  have "ip_ok (Ip_string s)" using ip_ToBytes_length [of s] by (simp add: Ip_string_def ip_ok_def Let_def)
  moreover have "ip_ok (Ip_int w) \<and> ToInt (Ip_int w) = Inr w"
    using ToInt_ToBytes_int [of w] by (simp add: Ip_int_def ip_ok_def ToInt_def ip_ToBytes_int_def)
  moreover have "case Ip_bytes bs of Inr ip \<Rightarrow> ip_ok ip \<and> ip_bytes ip = bs | Inl _ \<Rightarrow> \<not> IsValidIp_bytes bs"
    by (auto simp: Ip_bytes_def ip_ok_def IsValidIp_bytes_def)
  moreover have "if is_ipv6 ip then
         ToBytesV6 ip = Ret (Inr (ip_bytes ip)) \<and> (\<exists>m. ToBytesV4 ip = Ret (Inl (LogicError m))) \<and> (\<exists>m. ToInt ip = Inl (LogicError m))
       else
         (\<exists>m. ToBytesV6 ip = Ret (Inl (LogicError m)))
         \<and> (if IsValid ip then ToBytesV4 ip = Ret (Inr (ip_bytes ip)) \<and> (\<exists>v. ToInt ip = Inr v \<and> Ip_int v = ip)
            else ToBytesV4 ip = Ret (Inr [0, 0, 0, 0]) \<and> (\<exists>m. ToInt ip = Inl (InvalidArgument m)))" if ok: "ip_ok ip"
  proof -
    have same: "Ip_int v = ip" if "ip_ToBytes_int v = ip_bytes ip" "\<not> is_ipv6 ip" for v using that by (simp add: Ip_int_def)
    consider "is_ipv6 ip" "length (ip_bytes ip) = 16" | "\<not> is_ipv6 ip" "length (ip_bytes ip) = 4" | "\<not> is_ipv6 ip" "ip_bytes ip = []"
      using ok by (auto simp: ip_ok_def)
    then show ?thesis
    proof cases
      case 2
      then show ?thesis using ToInt_bytes_inverse [OF 2(2)] same
        by (auto simp: ToBytesV4_def ToBytesV6_def ToInt_def overwrite_def write_range_def IsValid_def)
    qed (auto simp: ToBytesV4_def ToBytesV6_def ToInt_def ToInt_bytes_def overwrite_def write_range_def IsValid_def numeral_eq_Suc)
  qed
  moreover have "Ip_bytes (ip_bytes ip) = Inr ip \<and> Ip_string (ip_ToString (ip_bytes ip)) = ip" if "ip_ok ip" "IsValid ip"
    using that ToBytes_ToString_eq [of "ip_bytes ip"] by (auto simp: ip_ok_def IsValid_def Ip_bytes_def Ip_string_def Let_def)
  ultimately show ?thesis by (auto simp: ip_index_def)
qed

theorem ip_objects_ok_witness:
  "ToBytesV4 (Ip_string ''10.0.0.1'') = Ret (Inr [10, 0, 0, 1])
   \<and> (\<exists>v. ToInt (Ip_string ''10.0.0.1'') = Inr v \<and> Ip_int v = Ip_string ''10.0.0.1'')"
proof -
  have "Ip_string ''10.0.0.1'' = \<lparr>ip_bytes = [10, 0, 0, 1], is_ipv6 = False\<rparr>" by code_simp
  then show ?thesis
    using ip_objects_ok [where ip = "Ip_string ''10.0.0.1''" and s = "''10.0.0.1''" and w = 0 and bs = "[]" and i = 0]
    by (simp add: IsValid_def ip_ok_def)
qed

text \<open>The parser is laxer than the address syntax: a colon after the last group is ignored, and
  the stream extraction of the IPv4 parser skips white space and accepts a plus sign.\<close>

theorem ip_parser_lax:
  "ip_ToBytes ''1:2:3:4:5:6:7:8:'' = [0, 1, 0, 2, 0, 3, 0, 4, 0, 5, 0, 6, 0, 7, 0, 8]
   \<and> ip_ToBytes ''1::2:'' = [0, 1, 0, 0, 0, 0, 0, 0, 0, 0, 0, 0, 0, 0, 0, 2]
   \<and> ip_ToBytes '' +1 . 2.3.4 '' = [1, 2, 3, 4]"
  by code_simp

end
