(* ===== verification/Mac_Address.thy ===== *)
theory Mac_Address
  imports Cpp_Charconv
begin

text \<open>
  \<^verbatim>\<open>src/breutil/net/mac.hpp\<close> (class \<^verbatim>\<open>Mac\<close>): 48-bit hardware addresses. The fixed array of six bytes is
  a list; \<open>mac_ok\<close> says that it has six elements.
\<close>

section \<open>Definitions\<close>

record mac =
  mac_bytes :: "byte list"
  valid :: bool

definition HexCharToInt :: "char \<Rightarrow> int" where
  "HexCharToInt c =
     (if CHR ''0'' \<le> c \<and> c \<le> CHR ''9'' then int (code c) - 48
      else if CHR ''a'' \<le> c \<and> c \<le> CHR ''f'' then int (code c) - 97 + 10
      else if CHR ''A'' \<le> c \<and> c \<le> CHR ''F'' then int (code c) - 65 + 10
      else - 1)"

text \<open>The first loop: the hexadecimal digits of the text, or nothing at an illegal character.\<close>

fun hex_only :: "string \<Rightarrow> string option" where
  "hex_only [] = Some []"
| "hex_only (c # cs) =
     (if isxdigit c then map_option (Cons c) (hex_only cs)
      else if c \<noteq> CHR '':'' \<and> c \<noteq> CHR ''-'' \<and> c \<noteq> CHR ''.'' \<and> c \<noteq> CHR '' '' \<and> c \<noteq> CHR ''='' then None
      else hex_only cs)"

text \<open>The second loop, from byte \<open>i\<close>: whether it completes, and the array it leaves.\<close>

function mac_bytes_loop :: "string \<Rightarrow> nat \<Rightarrow> byte list \<Rightarrow> bool \<times> byte list" where
  "mac_bytes_loop hex i result =
     (if i < 6 then
        let high = HexCharToInt (hex ! (i * 2)); low = HexCharToInt (hex ! (i * 2 + 1))
        in if high < 0 \<or> low < 0 then (False, result)
           else mac_bytes_loop hex (i + 1) (result[i := word_of_int (push_bit 4 high OR low)])
      else (True, result))"
  by pat_completeness auto
termination
  by (relation "measure (\<lambda>(hex, i, result). 6 - i)") auto

declare mac_bytes_loop.simps [simp del]

definition ParseMacString :: "string \<Rightarrow> byte list \<times> bool" where
  "ParseMacString mac_str =
     (let result = replicate 6 0 in
      if mac_str = [] then (result, False)
      else case hex_only mac_str of
        None \<Rightarrow> (result, False)
      | Some hex \<Rightarrow>
          if length hex \<noteq> 12 then (result, False)
          else case mac_bytes_loop hex 0 result of (ok, r) \<Rightarrow> (r, ok))"

definition Mac_default :: mac where
  "Mac_default = \<lparr> mac_bytes = replicate 6 0, valid = False \<rparr>"

definition Mac_string :: "string \<Rightarrow> mac" where
  "Mac_string mac_str = (case ParseMacString mac_str of (r, v) \<Rightarrow> \<lparr> mac_bytes = r, valid = v \<rparr>)"

definition Mac_array :: "byte list \<Rightarrow> mac" where
  "Mac_array bytes = \<lparr> mac_bytes = bytes, valid = True \<rparr>"

text \<open>\<^verbatim>\<open>std::hex << std::uppercase << std::setfill('0') << std::setw(2)\<close>.\<close>

definition hex2 :: "byte \<Rightarrow> string" where
  "hex2 b = (let t = map toupper (to_digits 16 (unat b)) in replicate (2 - length t) (CHR ''0'') @ t)"

fun mac_text_loop :: "byte list \<Rightarrow> nat \<Rightarrow> string \<Rightarrow> string" where
  "mac_text_loop [] i spliter = []"
| "mac_text_loop (b # bs) i spliter =
     hex2 b @ (if i < 5 \<and> spliter \<noteq> [] then spliter else []) @ mac_text_loop bs (i + 1) spliter"

definition mac_ToString :: "byte list \<Rightarrow> string \<Rightarrow> string" where
  "mac_ToString bytes spliter = mac_text_loop bytes 0 spliter"

definition IsValidMac :: "string \<Rightarrow> bool" where
  "IsValidMac mac_str = snd (ParseMacString mac_str)"

definition mac_ToBytes :: "string \<Rightarrow> std_exn + byte list" where
  "mac_ToBytes mac_str =
     (case ParseMacString mac_str of (result, v) \<Rightarrow>
        if \<not> v then Inl (InvalidArgument ''Invalid MAC address format'') else Inr result)"

definition mac_eq :: "mac \<Rightarrow> mac \<Rightarrow> bool" where
  "mac_eq a b \<longleftrightarrow> mac_bytes a = mac_bytes b"

definition mac_index :: "mac \<Rightarrow> nat \<Rightarrow> std_exn + byte" where
  "mac_index m index =
     (if 6 \<le> index then Inl (OutOfRange ''MAC address index out of range'') else Inr (mac_bytes m ! index))"

section \<open>Lemmas\<close>

definition mac_separator :: "char \<Rightarrow> bool" where
  "mac_separator c \<longleftrightarrow> c = CHR '':'' \<or> c = CHR ''-'' \<or> c = CHR ''.'' \<or> c = CHR '' '' \<or> c = CHR ''=''"

lemma separator_not_digit: "mac_separator c \<Longrightarrow> \<not> isxdigit c"
  by (auto simp: mac_separator_def isxdigit_def isdigit_def)

lemma hex_only_eq:
  "hex_only s = (if list_all (\<lambda>c. isxdigit c \<or> mac_separator c) s then Some (filter isxdigit s) else None)"
  by (induction s) (auto simp: mac_separator_def)

lemma HexCharToInt_dval: "isxdigit c \<Longrightarrow> HexCharToInt c = int (dval c)"
  by (auto simp: HexCharToInt_def isxdigit_def isdigit_def less_eq_char_def dval_def digit_value_def)

lemma dval_xdigit: "isxdigit c \<Longrightarrow> dval c < 16"
  by (auto simp: isxdigit_def isdigit_def dval_def digit_value_def)

definition pair_byte :: "char \<Rightarrow> char \<Rightarrow> byte" where
  "pair_byte h l = word_of_nat (16 * dval h + dval l)"

lemma pair_byte_eq:
  assumes "isxdigit h" "isxdigit l"
  shows "word_of_int (push_bit 4 (HexCharToInt h) OR HexCharToInt l) = pair_byte h l"
proof -
  have "push_bit 4 (int (dval h)) OR int (dval l) = int (16 * dval h + dval l)"
  proof -
    have "\<not> bit (push_bit 4 (int (dval h))) n \<or> \<not> bit (int (dval l)) n" for n
    proof -
      have "int (dval l) = take_bit 4 (int (dval l))"
        using dval_xdigit [OF assms(2)] by (simp add: take_bit_int_eq_self)
      then have "bit (int (dval l)) n \<Longrightarrow> n < 4" by (metis bit_take_bit_iff)
      then show ?thesis by (auto simp: bit_push_bit_iff_int)
    qed
    then have "push_bit 4 (int (dval h)) OR int (dval l) = push_bit 4 (int (dval h)) + int (dval l)"
      by (rule disjunctive_add [symmetric])
    then show ?thesis by (simp add: push_bit_eq_mult)
  qed
  then show ?thesis using assms by (simp add: HexCharToInt_dval pair_byte_def)
qed

lemma mac_loop_eq:
  assumes "length hex = 12" "list_all isxdigit hex" "length r = 6" "i \<le> 6"
  shows "mac_bytes_loop hex i r = (True, take i r @ map (\<lambda>j. pair_byte (hex ! (2 * j)) (hex ! (2 * j + 1))) [i..<6])"
  using assms(4,3)
proof (induction arbitrary: r rule: inc_induct)
  case base
  then show ?case by (simp add: mac_bytes_loop.simps)
next
  case (step n)
  have x: "isxdigit (hex ! (n * 2))" "isxdigit (hex ! (n * 2 + 1))"
    using step.hyps assms(1,2) by (auto simp: list_all_length)
  have "mac_bytes_loop hex n r = mac_bytes_loop hex (Suc n) (r[n := pair_byte (hex ! (n * 2)) (hex ! (n * 2 + 1))])"
    using step.hyps pair_byte_eq [OF x] HexCharToInt_dval [OF x(1)] HexCharToInt_dval [OF x(2)]
    by (subst mac_bytes_loop.simps) (simp add: Let_def)
  then show ?case using step
    by (simp add: take_Suc_conv_app_nth upt_conv_Cons mult.commute)
qed

text \<open>The parser accepts exactly the texts of twelve hexadecimal digits and any separators.\<close>

lemma ParseMacString_eq:
  "ParseMacString s =
     (if list_all (\<lambda>c. isxdigit c \<or> mac_separator c) s \<and> length (filter isxdigit s) = 12
      then (map (\<lambda>j. pair_byte (filter isxdigit s ! (2 * j)) (filter isxdigit s ! (2 * j + 1))) [0..<6], True)
      else (replicate 6 0, False))"
proof -
  have "list_all isxdigit (filter isxdigit s)" by (simp add: list_all_iff)
  then show ?thesis
    using mac_loop_eq [of "filter isxdigit s" "replicate 6 0" 0]
    by (auto simp: ParseMacString_def hex_only_eq Let_def)
qed

lemma toupper_digit:
  assumes "d < 16"
  shows "isxdigit (toupper (digit_char d))" "dval (toupper (digit_char d)) = d"
  using assms by (auto simp: toupper_def digit_char_def isxdigit_def isdigit_def dval_def digit_value_def)

lemma hex2_digits: "hex2 b = [toupper (digit_char (unat b div 16)), toupper (digit_char (unat b mod 16))]"
proof -
  have "unat b < 16 * 16" using unat_byte_less [of b] by (simp del: unat_byte_less)
  then have d: "unat b div 16 < 16" by (simp add: less_mult_imp_div_less)
  show ?thesis
  proof (cases "unat b < 16")
    case True
    then have "to_digits 16 (unat b) = [digit_char (unat b)]" by (simp add: to_digits.simps [of 16 "unat b"])
    moreover have "toupper (digit_char 0) = CHR ''0''" by code_simp
    ultimately show ?thesis using True by (simp add: hex2_def)
  next
    case False
    then have "to_digits 16 (unat b) = [digit_char (unat b div 16), digit_char (unat b mod 16)]"
      using d by (simp add: to_digits.simps [of 16 "unat b"] to_digits.simps [of 16 "unat b div 16"])
    then show ?thesis by (simp add: hex2_def)
  qed
qed

lemma hex2_facts:
  "list_all isxdigit (hex2 b)" "length (hex2 b) = 2" "pair_byte (hex2 b ! 0) (hex2 b ! 1) = b"
proof -
  have "unat b < 16 * 16" using unat_byte_less [of b] by (simp del: unat_byte_less)
  then have d: "unat b div 16 < 16" "unat b mod 16 < 16" by (simp_all add: less_mult_imp_div_less)
  note D = toupper_digit [OF d(1)] toupper_digit [OF d(2)]
  show "list_all isxdigit (hex2 b)" "length (hex2 b) = 2" using D by (simp_all add: hex2_digits)
  have "pair_byte (hex2 b ! 0) (hex2 b ! 1) = word_of_nat (16 * (unat b div 16) + unat b mod 16)"
    using D by (simp add: hex2_digits pair_byte_def)
  then show "pair_byte (hex2 b ! 0) (hex2 b ! 1) = b" by (simp del: of_nat_add of_nat_mult)
qed

lemma concat_pairs_nth:
  "i < length bs \<Longrightarrow> concat (map hex2 bs) ! (2 * i) = hex2 (bs ! i) ! 0 \<and> concat (map hex2 bs) ! (2 * i + 1) = hex2 (bs ! i) ! 1"
proof (induction bs arbitrary: i)
  case (Cons b bs)
  then show ?case by (cases i) (simp_all add: nth_append hex2_facts)
qed simp

lemma mac_text_loop_parts:
  assumes "list_all mac_separator spliter"
  shows "list_all (\<lambda>c. isxdigit c \<or> mac_separator c) (mac_text_loop bs i spliter)
    \<and> filter isxdigit (mac_text_loop bs i spliter) = concat (map hex2 bs)"
proof (induction bs arbitrary: i)
  case (Cons b bs)
  have "list_all (\<lambda>c. isxdigit c \<or> mac_separator c) (hex2 b)" "filter isxdigit (hex2 b) = hex2 b"
    using hex2_facts(1) [of b] by (auto simp: list_all_iff filter_id_conv)
  moreover have "list_all (\<lambda>c. isxdigit c \<or> mac_separator c) spliter" "filter isxdigit spliter = []"
    using assms separator_not_digit by (auto simp: list_all_iff filter_empty_conv)
  ultimately show ?case using Cons by simp
qed simp

lemma parse_mac_text:
  assumes "length bs = 6" "list_all mac_separator spliter"
  shows "ParseMacString (mac_ToString bs spliter) = (bs, True)"
proof -
  let ?t = "mac_ToString bs spliter" and ?c = "concat (map hex2 bs)"
  have p: "list_all (\<lambda>c. isxdigit c \<or> mac_separator c) ?t" "filter isxdigit ?t = ?c"
    using mac_text_loop_parts [OF assms(2)] by (simp_all add: mac_ToString_def)
  have "length (concat (map hex2 xs)) = 2 * length xs" for xs by (induction xs) (simp_all add: hex2_facts)
  then have "length ?c = 12" using assms(1) by simp
  moreover have "map (\<lambda>j. pair_byte (?c ! (2 * j)) (?c ! (2 * j + 1))) [0..<6] = bs"
    using assms(1) concat_pairs_nth [of _ bs] by (intro nth_equalityI) (simp_all add: hex2_facts(3) [simplified])
  ultimately show ?thesis using p by (simp add: ParseMacString_eq)
qed

section \<open>Properties\<close>

text \<open>An address printed with any separator built from the five separator characters, or none,
  parses back to the same bytes and is valid.\<close>

theorem mac_round_trip:
  assumes "length bs = 6" "list_all mac_separator spliter"
  shows "mac_ToBytes (mac_ToString bs spliter) = Inr bs \<and> IsValidMac (mac_ToString bs spliter)
    \<and> mac_eq (Mac_string (mac_ToString bs spliter)) (Mac_array bs)"
  using parse_mac_text [OF assms]
  by (simp add: mac_ToBytes_def IsValidMac_def Mac_string_def Mac_array_def mac_eq_def)

theorem mac_round_trip_witness:
  "mac_ToBytes (mac_ToString [0, 0x1A, 0x2B, 0xFF, 4, 5] ''-'') = Inr [0, 0x1A, 0x2B, 0xFF, 4, 5]"
  using mac_round_trip [of "[0, 0x1A, 0x2B, 0xFF, 4, 5]" "''-''"] by (simp add: mac_separator_def)

text \<open>A text is a valid address exactly when it consists of separators and exactly twelve
  hexadecimal digits, wherever they stand; the result always has six bytes, all zero when the
  text is invalid, so an invalid address equals the valid all-zero one.\<close>

theorem mac_valid_iff:
  "(IsValidMac s \<longleftrightarrow> list_all (\<lambda>c. isxdigit c \<or> mac_separator c) s \<and> length (filter isxdigit s) = 12)
   \<and> length (mac_bytes (Mac_string s)) = 6
   \<and> (\<not> IsValidMac s \<longrightarrow> mac_eq (Mac_string s) (Mac_array (replicate 6 0)))"
  by (auto simp: IsValidMac_def ParseMacString_eq Mac_string_def mac_eq_def Mac_array_def)

theorem mac_valid_iff_witness: "mac_eq (Mac_string ''not a mac'') (Mac_array (replicate 6 0)) \<and> \<not> IsValidMac ''not a mac''"
proof -
  have "\<not> IsValidMac ''not a mac''"
    using mac_valid_iff [of "''not a mac''"] by (simp add: isxdigit_def isdigit_def mac_separator_def)
  then show ?thesis using mac_valid_iff [of "''not a mac''"] by blast
qed

end
