(* ===== verification/Std_Map.thy ===== *)
theory Std_Map
  imports Cpp_Prelude
begin

text \<open>
  \<^verbatim>\<open>std::map\<close> as the sorted association list its iterators walk, and the interface of a key-value
  store that the configuration components share.
\<close>

section \<open>Sorted maps\<close>

type_synonym ('k, 'v) std_map = "('k \<times> 'v) list"

fun map_set :: "'k::linorder \<Rightarrow> 'v \<Rightarrow> ('k, 'v) std_map \<Rightarrow> ('k, 'v) std_map" where
  "map_set k v [] = [(k, v)]"
| "map_set k v ((k', v') # m) =
     (if k < k' then (k, v) # (k', v') # m
      else if k = k' then (k, v) # m
      else (k', v') # map_set k v m)"

definition map_erase :: "'k \<Rightarrow> ('k, 'v) std_map \<Rightarrow> bool \<times> ('k, 'v) std_map" where
  "map_erase k m = (k \<in> fst ` set m, filter (\<lambda>e. fst e \<noteq> k) m)"

definition map_ok :: "('k::linorder, 'v) std_map \<Rightarrow> bool" where
  "map_ok m \<longleftrightarrow> sorted_wrt (<) (map fst m)"

lemma map_ok_Nil [simp]: "map_ok []"
  by (simp add: map_ok_def)

lemma set_map_set: "fst ` set (map_set k v m) = insert k (fst ` set m)"
  by (induction k v m rule: map_set.induct) (simp_all add: insert_commute)

lemma map_of_map_set [simp]: "map_of (map_set k v m) = (map_of m)(k \<mapsto> v)"
  by (induction m) auto

lemma map_set_entries: "e \<in> set (map_set k v m) \<Longrightarrow> e = (k, v) \<or> e \<in> set m"
  by (induction m) (auto split: if_splits)

lemma map_ok_set [simp]: "map_ok m \<Longrightarrow> map_ok (map_set k v m)"
proof (induction m)
  case (Cons e m)
  obtain k' v' where e: "e = (k', v')" by fastforce
  have "\<forall>x\<in>fst ` set (map_set k v m). k' < x" if "\<not> k < k'" "k \<noteq> k'"
    using that Cons.prems e by (auto simp: set_map_set map_ok_def)
  then show ?case using Cons e by (auto simp: map_ok_def dest: order.strict_trans)
qed (simp add: map_ok_def)

lemma map_of_erase [simp]: "map_of (snd (map_erase k m)) = (map_of m)(k := None)"
  by (induction m) (auto simp: map_erase_def)

lemma map_ok_filter: "map_ok m \<Longrightarrow> map_ok (filter P m)"
  by (simp add: map_ok_def sorted_wrt_map sorted_wrt_filter)

lemma map_ok_erase [simp]: "map_ok m \<Longrightarrow> map_ok (snd (map_erase k m))"
  by (simp add: map_erase_def map_ok_filter)

lemma map_erase_found: "fst (map_erase k m) \<longleftrightarrow> map_of m k \<noteq> None"
  by (simp add: map_erase_def map_of_eq_None_iff)

lemma map_ok_distinct: "map_ok m \<Longrightarrow> distinct (map fst m)"
  by (simp add: map_ok_def strict_sorted_iff)

text \<open>A sorted map is determined by its lookups.\<close>

lemma assoc_from_map:
  assumes "distinct (map fst m)"
  shows "m = map (\<lambda>k. (k, the (map_of m k))) (map fst m)"
proof -
  have "(fst e, the (map_of m (fst e))) = e" if "e \<in> set m" for e
    using that assms by (metis map_of_is_SomeI option.sel prod.collapse)
  then show ?thesis by (simp add: map_idI o_def)
qed

lemma map_ok_unique:
  assumes "map_ok m" "map_ok m'" "map_of m = map_of m'"
  shows "m = m'"
proof -
  have "set (map fst m) = set (map fst m')"
    using assms(3) by (metis dom_map_of_conv_image_fst list.set_map)
  then have "map fst m = map fst m'"
    using assms(1,2) unfolding map_ok_def by (metis strict_sorted_equal)
  then show ?thesis
    using assoc_from_map [OF map_ok_distinct [OF assms(1)]] assoc_from_map [OF map_ok_distinct [OF assms(2)]] assms(3)
    by metis
qed

section \<open>Key-value stores\<close>

datatype ('k, 'v) kv_op = Kv_Set 'k 'v | Kv_Remove 'k

fun kv_run :: "('s \<Rightarrow> 'k \<Rightarrow> 'v \<Rightarrow> 's) \<Rightarrow> ('s \<Rightarrow> 'k \<Rightarrow> 's) \<Rightarrow> ('k, 'v) kv_op list \<Rightarrow> 's \<Rightarrow> 's" where
  "kv_run upd rmv [] s = s"
| "kv_run upd rmv (Kv_Set k v # ops) s = kv_run upd rmv ops (upd s k v)"
| "kv_run upd rmv (Kv_Remove k # ops) s = kv_run upd rmv ops (rmv s k)"

text \<open>The abstract behaviour of such a sequence on a map.\<close>

fun kv_spec :: "('k, 'v) kv_op list \<Rightarrow> ('k \<Rightarrow> 'v option) \<Rightarrow> ('k \<Rightarrow> 'v option)" where
  "kv_spec [] m = m"
| "kv_spec (Kv_Set k v # ops) m = kv_spec ops (m(k \<mapsto> v))"
| "kv_spec (Kv_Remove k # ops) m = kv_spec ops (m(k := None))"

locale kv_store =
  fixes inv :: "'s \<Rightarrow> bool" and lookup :: "'s \<Rightarrow> 'k \<Rightarrow> 'v option"
    and upd :: "'s \<Rightarrow> 'k \<Rightarrow> 'v \<Rightarrow> 's" and rmv :: "'s \<Rightarrow> 'k \<Rightarrow> 's"
  assumes upd_ok: "inv s \<Longrightarrow> inv (upd s k v) \<and> lookup (upd s k v) = (lookup s)(k \<mapsto> v)"
    and rmv_ok: "inv s \<Longrightarrow> inv (rmv s k) \<and> lookup (rmv s k) = (lookup s)(k := None)"
begin

lemma run_refines: "inv s \<Longrightarrow> inv (kv_run upd rmv ops s) \<and> lookup (kv_run upd rmv ops s) = kv_spec ops (lookup s)"
proof (induction ops arbitrary: s)
  case (Cons op ops)
  show ?case
  proof (cases op)
    case (Kv_Set k v)
    then show ?thesis using Cons.IH [of "upd s k v"] upd_ok [OF Cons.prems, of k v] by (simp only: kv_run.simps kv_spec.simps)
  next
    case (Kv_Remove k)
    then show ?thesis using Cons.IH [of "rmv s k"] rmv_ok [OF Cons.prems, of k] by (simp only: kv_run.simps kv_spec.simps)
  qed
qed simp

lemma lookup_last_write:
  assumes "inv s"
  shows "lookup (upd s k v) k = Some v" "k \<noteq> k' \<Longrightarrow> lookup (upd s k v) k' = lookup s k'"
  using upd_ok [OF assms] by simp_all

end

interpretation std_map_store: kv_store "map_ok :: ('k::linorder, 'v) std_map \<Rightarrow> bool" map_of "\<lambda>m k v. map_set k v m" "\<lambda>m k. snd (map_erase k m)"
  by unfold_locales simp_all

end
