(* ===== verification/Ini_File.thy ===== *)
theory Ini_File
  imports Cpp_Charconv Std_Map
begin

text \<open>
  \<^verbatim>\<open>src/breutil/ini.hpp\<close> (\<^verbatim>\<open>IniSection\<close>, \<^verbatim>\<open>Ini\<close>): configuration files of sections and keys. The state is
  the sorted map of sections; the file system is a parameter that gives the text of a readable file.
  Every member locks the mutex, so each is one step. Messages to \<^verbatim>\<open>cerr\<close> are left out.
\<close>

section \<open>Sections\<close>

type_synonym ini_section = "(string, string) std_map"

definition sec_index :: "ini_section \<Rightarrow> string \<Rightarrow> string" where
  "sec_index sec key = (case map_of sec key of None \<Rightarrow> [] | Some v \<Rightarrow> v)"

definition sec_GetStr :: "ini_section \<Rightarrow> string \<Rightarrow> string \<Rightarrow> string" where
  "sec_GetStr sec key defaultValue = (case map_of sec key of None \<Rightarrow> defaultValue | Some v \<Rightarrow> v)"

definition sec_GetInt :: "ini_section \<Rightarrow> string \<Rightarrow> int \<Rightarrow> int" where
  "sec_GetInt sec key defaultValue =
     (case map_of sec key of
        None \<Rightarrow> defaultValue
      | Some v \<Rightarrow> if v = [] then defaultValue
                  else (case stoi 10 v of Inr i \<Rightarrow> i | Inl _ \<Rightarrow> defaultValue))"

text \<open>\<open>stod\<close> is \<^verbatim>\<open>std::stod\<close>.\<close>

definition sec_GetDouble :: "(string \<Rightarrow> std_exn + 'd) \<Rightarrow> ini_section \<Rightarrow> string \<Rightarrow> 'd \<Rightarrow> 'd" where
  "sec_GetDouble stod sec key defaultValue =
     (case map_of sec key of
        None \<Rightarrow> defaultValue
      | Some v \<Rightarrow> if v = [] then defaultValue
                  else (case stod v of Inr d \<Rightarrow> d | Inl _ \<Rightarrow> defaultValue))"

definition sec_GetBool :: "ini_section \<Rightarrow> string \<Rightarrow> bool \<Rightarrow> bool" where
  "sec_GetBool sec key defaultValue =
     (case map_of sec key of
        None \<Rightarrow> defaultValue
      | Some v \<Rightarrow>
          if v = [] then defaultValue
          else
            let value = map tolower v
            in if value = ''true'' \<or> value = ''1'' \<or> value = ''yes'' \<or> value = ''on'' then True
               else if value = ''false'' \<or> value = ''0'' \<or> value = ''no'' \<or> value = ''off'' then False
               else defaultValue)"

definition sec_HasKey :: "ini_section \<Rightarrow> string \<Rightarrow> bool" where
  "sec_HasKey sec key \<longleftrightarrow> map_of sec key \<noteq> None"

definition sec_SetValue :: "ini_section \<Rightarrow> string \<Rightarrow> string \<Rightarrow> ini_section" where
  "sec_SetValue sec key v = map_set key v sec"

definition sec_GetAllKeys :: "ini_section \<Rightarrow> string list" where
  "sec_GetAllKeys sec = map fst sec"

section \<open>Configurations\<close>

type_synonym ini_map = "(string, ini_section) std_map"

record ini =
  config_map :: ini_map
  file_path :: string

text \<open>\<^verbatim>\<open>_config_map[section]\<close>: the section, created empty when absent.\<close>

definition section_of :: "ini_map \<Rightarrow> string \<Rightarrow> ini_section" where
  "section_of m s = (case map_of m s of None \<Rightarrow> [] | Some sec \<Rightarrow> sec)"

definition ini_index :: "ini \<Rightarrow> string \<Rightarrow> ini_section \<times> ini" where
  "ini_index c s =
     (case map_of (config_map c) s of
        None \<Rightarrow> ([], c \<lparr> config_map := map_set s [] (config_map c) \<rparr>)
      | Some sec \<Rightarrow> (sec, c))"

definition ini_GetStr :: "ini \<Rightarrow> string \<Rightarrow> string \<Rightarrow> string \<Rightarrow> string" where
  "ini_GetStr c s key defaultValue =
     (case map_of (config_map c) s of None \<Rightarrow> defaultValue | Some sec \<Rightarrow> sec_GetStr sec key defaultValue)"

definition ini_GetInt :: "ini \<Rightarrow> string \<Rightarrow> string \<Rightarrow> int \<Rightarrow> int" where
  "ini_GetInt c s key defaultValue =
     (case map_of (config_map c) s of None \<Rightarrow> defaultValue | Some sec \<Rightarrow> sec_GetInt sec key defaultValue)"

definition ini_GetDouble :: "(string \<Rightarrow> std_exn + 'd) \<Rightarrow> ini \<Rightarrow> string \<Rightarrow> string \<Rightarrow> 'd \<Rightarrow> 'd" where
  "ini_GetDouble stod c s key defaultValue =
     (case map_of (config_map c) s of None \<Rightarrow> defaultValue | Some sec \<Rightarrow> sec_GetDouble stod sec key defaultValue)"

definition ini_GetBool :: "ini \<Rightarrow> string \<Rightarrow> string \<Rightarrow> bool \<Rightarrow> bool" where
  "ini_GetBool c s key defaultValue =
     (case map_of (config_map c) s of None \<Rightarrow> defaultValue | Some sec \<Rightarrow> sec_GetBool sec key defaultValue)"

definition put_key :: "ini_map \<Rightarrow> string \<Rightarrow> string \<Rightarrow> string \<Rightarrow> ini_map" where
  "put_key m s key v = map_set s (sec_SetValue (section_of m s) key v) m"

definition ini_Set :: "ini \<Rightarrow> string \<Rightarrow> string \<Rightarrow> string \<Rightarrow> ini" where
  "ini_Set c s key v = c \<lparr> config_map := put_key (config_map c) s key v \<rparr>"

definition ini_Set_int :: "ini \<Rightarrow> string \<Rightarrow> string \<Rightarrow> int \<Rightarrow> ini" where
  "ini_Set_int c s key v = ini_Set c s key (to_string_int v)"

definition ini_Set_bool :: "ini \<Rightarrow> string \<Rightarrow> string \<Rightarrow> bool \<Rightarrow> ini" where
  "ini_Set_bool c s key v = ini_Set c s key (if v then ''true'' else ''false'')"

definition ini_HasSection :: "ini \<Rightarrow> string \<Rightarrow> bool" where
  "ini_HasSection c s \<longleftrightarrow> map_of (config_map c) s \<noteq> None"

definition ini_HasKey :: "ini \<Rightarrow> string \<Rightarrow> string \<Rightarrow> bool" where
  "ini_HasKey c s key \<longleftrightarrow> (case map_of (config_map c) s of None \<Rightarrow> False | Some sec \<Rightarrow> sec_HasKey sec key)"

definition ini_GetAllSections :: "ini \<Rightarrow> string list" where
  "ini_GetAllSections c = map fst (config_map c)"

definition ini_GetAllKeys :: "ini \<Rightarrow> string \<Rightarrow> string list" where
  "ini_GetAllKeys c s = (case map_of (config_map c) s of None \<Rightarrow> [] | Some sec \<Rightarrow> sec_GetAllKeys sec)"

definition ini_RemoveSection :: "ini \<Rightarrow> string \<Rightarrow> bool \<times> ini" where
  "ini_RemoveSection c s = (let (found, m) = map_erase s (config_map c) in (found, c \<lparr> config_map := m \<rparr>))"

definition ini_RemoveKey :: "ini \<Rightarrow> string \<Rightarrow> string \<Rightarrow> bool \<times> ini" where
  "ini_RemoveKey c s key =
     (case map_of (config_map c) s of
        None \<Rightarrow> (False, c)
      | Some sec \<Rightarrow>
          let (found, sec') = map_erase key sec in (found, c \<lparr> config_map := map_set s sec' (config_map c) \<rparr>))"

section \<open>Files\<close>

abbreviation newline :: char where "newline \<equiv> CHR 0x0A"

text \<open>\<^verbatim>\<open>Save\<close>: the text written, when the path is set and the file opens.\<close>

definition save_section :: "string \<times> ini_section \<Rightarrow> string" where
  "save_section e =
     ''['' @ fst e @ '']'' @ [newline]
     @ concat (map (\<lambda>kv. fst kv @ ''='' @ snd kv @ [newline]) (snd e)) @ [newline]"

definition save_text :: "ini_map \<Rightarrow> string" where
  "save_text m = concat (map save_section m)"

definition Save :: "ini \<Rightarrow> bool \<Rightarrow> bool \<times> string option" where
  "Save c opens =
     (if file_path c = [] then (False, None)
      else if \<not> opens then (False, None)
      else (True, Some (save_text (config_map c))))"

definition ini_trim :: "string \<Rightarrow> string" where
  "ini_trim str =
     (let ws = [CHR '' '', CHR 0x09, CHR 0x0A, CHR 0x0D] in
      case find_first_not_of str ws of
        None \<Rightarrow> []
      | Some first \<Rightarrow>
          (case find_last_not_of str ws of
             None \<Rightarrow> []
           | Some lst \<Rightarrow> substr str first (lst - first + 1)))"

fun unescape_loop :: "bool \<Rightarrow> string \<Rightarrow> string" where
  "unescape_loop escaped [] = []"
| "unescape_loop escaped (c # cs) =
     (if escaped then
        (if c = CHR ''n'' then CHR 0x0A
         else if c = CHR ''t'' then CHR 0x09
         else if c = CHR ''r'' then CHR 0x0D
         else c) # unescape_loop False cs
      else if c = CHR 0x5C then unescape_loop True cs
      else c # unescape_loop False cs)"

definition unescapeString :: "string \<Rightarrow> string" where
  "unescapeString str = unescape_loop False str"

definition processQuotedString :: "string \<Rightarrow> string" where
  "processQuotedString str0 =
     (let str = ini_trim str0 in
      if str = [] then str
      else if (hd str = CHR 0x22 \<and> last str = CHR 0x22) \<or> (hd str = CHR 0x27 \<and> last str = CHR 0x27)
      then unescapeString (substr str 1 (size_sub (length str) 2))
      else str)"

function getlines :: "string \<Rightarrow> string list" where
  "getlines s =
     (if s = [] then []
      else takeWhile (\<lambda>c. c \<noteq> newline) s # getlines (drop 1 (dropWhile (\<lambda>c. c \<noteq> newline) s)))"
  by pat_completeness auto
termination
proof (relation "measure length")
  fix s :: string assume "s \<noteq> []"
  then have "length (drop 1 (dropWhile (\<lambda>c. c \<noteq> newline) s)) < length s"
    using length_dropWhile_le [of "\<lambda>c. c \<noteq> newline" s] by (cases s) auto
  then show "(drop 1 (dropWhile (\<lambda>c. c \<noteq> newline) s), s) \<in> measure length" by simp
qed simp

declare getlines.simps [simp del]

text \<open>One turn of the loop of \<^verbatim>\<open>load\<close> on the map and the current section.\<close>

definition load_line :: "ini_map \<times> string \<Rightarrow> string \<Rightarrow> ini_map \<times> string" where
  "load_line st line0 =
     (let (m, current_section) = st;
          line1 = (case find_index (\<lambda>c. c = CHR '';'' \<or> c = CHR ''#'') line0 of
                     None \<Rightarrow> line0 | Some comment_pos \<Rightarrow> substr line0 0 comment_pos);
          line = ini_trim line1
      in if line = [] then st
         else if hd line = CHR ''['' \<and> last line = CHR '']''
         then (m, ini_trim (substr line 1 (size_sub (length line) 2)))
         else case find_char_from line (CHR ''='') 0 of
           None \<Rightarrow> st
         | Some equal_pos \<Rightarrow>
             let key = ini_trim (substr line 0 equal_pos);
                 v = processQuotedString (drop (equal_pos + 1) line)
             in if key = [] then st
                else if current_section = [] then st
                else (put_key m current_section key v, current_section))"

definition load :: "ini \<Rightarrow> (string \<Rightarrow> string option) \<Rightarrow> string \<Rightarrow> std_exn option \<times> ini" where
  "load c fs filename =
     (let c1 = c \<lparr> file_path := filename, config_map := [] \<rparr> in
      case fs filename of
        None \<Rightarrow> (Some (RuntimeError (''[Ini] Failed to open file: '' @ filename)), c1)
      | Some text \<Rightarrow> (None, c1 \<lparr> config_map := fst (foldl load_line ([], []) (getlines text)) \<rparr>))"

definition Reload :: "ini \<Rightarrow> (string \<Rightarrow> string option) \<Rightarrow> string \<Rightarrow> std_exn option \<times> ini" where
  "Reload c fs filePath = load c fs filePath"

text \<open>The registry of singletons: \<^verbatim>\<open>Instance\<close> registers the object before it loads the file.\<close>

definition Instance ::
  "(string, ini) std_map \<Rightarrow> (string \<Rightarrow> string option) \<Rightarrow> string \<Rightarrow> bool \<Rightarrow> (std_exn + ini) \<times> (string, ini) std_map" where
  "Instance instances fs filePath null_ini =
     (if filePath = [] then (Inl (RuntimeError ''[Ini] Instance called with empty filePath''), instances)
      else case map_of instances filePath of
        Some c \<Rightarrow> (Inr c, instances)
      | None \<Rightarrow>
          let c0 = \<lparr> config_map = [], file_path = filePath \<rparr>;
              instances1 = map_set filePath c0 instances
          in if null_ini then (Inr c0, instances1)
             else let (e, c) = load c0 fs filePath
                  in (case e of None \<Rightarrow> Inr c | Some exn \<Rightarrow> Inl exn, map_set filePath c instances1))"

section \<open>Lookups and well-formedness\<close>

definition map_lookup :: "ini_map \<Rightarrow> string \<times> string \<Rightarrow> string option" where
  "map_lookup m p = (case map_of m (fst p) of None \<Rightarrow> None | Some sec \<Rightarrow> map_of sec (snd p))"

definition ini_lookup :: "ini \<Rightarrow> string \<times> string \<Rightarrow> string option" where
  "ini_lookup c = map_lookup (config_map c)"

definition nested_ok :: "ini_map \<Rightarrow> bool" where
  "nested_ok m \<longleftrightarrow> map_ok m \<and> (\<forall>s sec. map_of m s = Some sec \<longrightarrow> map_ok sec)"

definition ini_ok :: "ini \<Rightarrow> bool" where
  "ini_ok c \<longleftrightarrow> nested_ok (config_map c)"

lemma map_lookup_put: "map_lookup (put_key m s k v) = (map_lookup m)((s, k) \<mapsto> v)"
  by (auto simp: map_lookup_def put_key_def sec_SetValue_def section_of_def fun_eq_iff split: option.splits)

lemma nested_ok_put: "nested_ok m \<Longrightarrow> nested_ok (put_key m s k v)"
  by (auto simp: nested_ok_def put_key_def sec_SetValue_def section_of_def split: option.splits)

lemma HasKey_lookup: "ini_HasKey c s k \<longleftrightarrow> ini_lookup c (s, k) \<noteq> None"
  by (auto simp: ini_HasKey_def ini_lookup_def map_lookup_def sec_HasKey_def split: option.splits)

lemma GetStr_lookup: "ini_GetStr c s k d = (case ini_lookup c (s, k) of None \<Rightarrow> d | Some v \<Rightarrow> v)"
  by (auto simp: ini_GetStr_def ini_lookup_def map_lookup_def sec_GetStr_def split: option.splits)

lemma GetInt_lookup:
  "ini_GetInt c s k d = (case ini_lookup c (s, k) of None \<Rightarrow> d
     | Some v \<Rightarrow> if v = [] then d else (case stoi 10 v of Inr i \<Rightarrow> i | Inl _ \<Rightarrow> d))"
  by (simp add: ini_GetInt_def ini_lookup_def map_lookup_def sec_GetInt_def split: option.splits)

lemma GetBool_lookup:
  "ini_GetBool c s k d = (case ini_lookup c (s, k) of None \<Rightarrow> d
     | Some v \<Rightarrow> sec_GetBool [(k, v)] k d)"
  by (auto simp: ini_GetBool_def ini_lookup_def map_lookup_def sec_GetBool_def split: option.splits)

interpretation ini_store: kv_store ini_ok ini_lookup "\<lambda>c p v. ini_Set c (fst p) (snd p) v"
  "\<lambda>c p. snd (ini_RemoveKey c (fst p) (snd p))"
proof
  show "ini_ok (ini_Set c (fst p) (snd p) v) \<and> ini_lookup (ini_Set c (fst p) (snd p) v) = (ini_lookup c)(p \<mapsto> v)"
    if "ini_ok c" for c p v
    using that by (simp add: ini_Set_def ini_ok_def nested_ok_put ini_lookup_def map_lookup_put)
  show "ini_ok (snd (ini_RemoveKey c (fst p) (snd p)))
      \<and> ini_lookup (snd (ini_RemoveKey c (fst p) (snd p))) = (ini_lookup c)(p := None)"
    if "ini_ok c" for c p
  proof (cases "map_of (config_map c) (fst p)")
    case None
    then show ?thesis using that by (cases p) (simp add: ini_RemoveKey_def ini_lookup_def map_lookup_def fun_eq_iff)
  next
    case (Some sec)
    have ok: "nested_ok (map_set (fst p) (snd (map_erase (snd p) sec)) (config_map c))"
      using that Some by (auto simp: ini_ok_def nested_ok_def)
    have "snd (ini_RemoveKey c (fst p) (snd p)) = c \<lparr> config_map := map_set (fst p) (snd (map_erase (snd p) sec)) (config_map c) \<rparr>"
      using Some by (simp add: ini_RemoveKey_def split_def Let_def)
    then show ?thesis using ok Some
      by (cases p) (auto simp: ini_ok_def ini_lookup_def map_lookup_def fun_eq_iff)
  qed
qed

section \<open>Trimming\<close>

definition ini_blank :: "char \<Rightarrow> bool" where
  "ini_blank c \<longleftrightarrow> c \<in> set [CHR '' '', CHR 0x09, CHR 0x0A, CHR 0x0D]"

lemma ini_trim_strip: "ini_trim s = strip ini_blank s"
  unfolding ini_trim_def Let_def trim_substr_strip ini_blank_def ..

lemma trimmed_ends:
  assumes "ini_trim s = s" "s \<noteq> []"
  shows "\<not> ini_blank (hd s)" "\<not> ini_blank (last s)"
  using strip_ends [of ini_blank s] assms by (simp_all add: ini_trim_strip)

lemma trim_id: "\<not> ini_blank (hd s) \<Longrightarrow> \<not> ini_blank (last s) \<Longrightarrow> ini_trim s = s"
  by (cases "s = []") (simp add: ini_trim_strip strip_def strip_right_def, simp add: ini_trim_strip strip_id)

section \<open>Saving and loading\<close>

definition plain :: "char \<Rightarrow> bool" where
  "plain c \<longleftrightarrow> c \<noteq> newline \<and> c \<noteq> CHR '';'' \<and> c \<noteq> CHR ''#''"

definition savable_section :: "string \<Rightarrow> bool" where
  "savable_section s \<longleftrightarrow> s \<noteq> [] \<and> ini_trim s = s \<and> list_all plain s"

definition savable_key :: "string \<Rightarrow> bool" where
  "savable_key k \<longleftrightarrow> k \<noteq> [] \<and> ini_trim k = k \<and> list_all plain k \<and> CHR ''='' \<notin> set k \<and> hd k \<noteq> CHR ''[''"

definition quoted :: "string \<Rightarrow> bool" where
  "quoted v \<longleftrightarrow> v \<noteq> [] \<and> hd v = last v \<and> (hd v = CHR 0x22 \<or> hd v = CHR 0x27)"

definition savable_value :: "string \<Rightarrow> bool" where
  "savable_value v \<longleftrightarrow> ini_trim v = v \<and> list_all plain v \<and> \<not> quoted v"

definition savable :: "ini_map \<Rightarrow> bool" where
  "savable m \<longleftrightarrow> list_all (\<lambda>e. savable_section (fst e)
     \<and> list_all (\<lambda>kv. savable_key (fst kv) \<and> savable_value (snd kv)) (snd e)) m"

lemma getlines_line: "newline \<notin> set l \<Longrightarrow> getlines (l @ newline # rest) = l # getlines rest"
proof -
  assume n: "newline \<notin> set l"
  then have "takeWhile (\<lambda>c. c \<noteq> newline) (l @ newline # rest) = l"
    "dropWhile (\<lambda>c. c \<noteq> newline) (l @ newline # rest) = newline # rest"
    by (simp_all add: takeWhile_append dropWhile_append)
  then show ?thesis by (subst getlines.simps) simp
qed

lemma no_comment: "list_all plain s \<Longrightarrow> find_index (\<lambda>c. c = CHR '';'' \<or> c = CHR ''#'') s = None"
  by (auto simp: list_all_iff plain_def)

lemma plain_no_newline: "list_all plain s \<Longrightarrow> newline \<notin> set s"
  by (auto simp: list_all_iff plain_def)

lemma load_section_line:
  assumes "savable_section s"
  shows "load_line (m, cur) (''['' @ s @ '']'') = (m, s)"
proof -
  let ?l = "''['' @ s @ '']''"
  have p: "list_all plain ?l" using assms by (simp add: savable_section_def plain_def)
  have t: "ini_trim ?l = ?l" by (rule trim_id) (simp_all add: ini_blank_def)
  show ?thesis using assms unfolding load_line_def no_comment [OF p]
    by (simp add: t [simplified] Let_def savable_section_def substr_def)
qed

lemma load_blank_line: "load_line st [] = st"
  by (cases st) (simp add: load_line_def ini_trim_strip strip_def strip_right_def)

lemma load_key_line:
  assumes "savable_key k" "savable_value v" "s \<noteq> []"
  shows "load_line (m, s) (k @ ''='' @ v) = (put_key m s k v, s)"
proof -
  let ?l = "k @ ''='' @ v"
  note K = assms(1) [unfolded savable_key_def] and V = assms(2) [unfolded savable_value_def]
  have p: "list_all plain ?l" using K V by (simp add: plain_def)
  have t: "ini_trim ?l = ?l"
    using K V trimmed_ends [of k] trimmed_ends [of v] by (intro trim_id) (auto simp: ini_blank_def)
  have "find_index (\<lambda>x. x = CHR ''='') ?l = Some (length k)" using K find_index_append_first [of k "\<lambda>x. x = CHR ''=''" "CHR ''=''" v] by auto
  then have e: "find_char_from ?l (CHR ''='') 0 = Some (length k)" by (simp add: find_char_from_def)
  have "processQuotedString v = v"
    using V by (auto simp: processQuotedString_def quoted_def Let_def)
  then show ?thesis using K assms(3) unfolding load_line_def no_comment [OF p] option.case t e Let_def prod.case
    by (simp add: substr_def)
qed

definition restore_section :: "string \<Rightarrow> ini_section \<Rightarrow> ini_map \<Rightarrow> ini_map" where
  "restore_section s sec m = fold (\<lambda>kv m. put_key m s (fst kv) (snd kv)) sec m"

lemma load_keys:
  assumes "s \<noteq> []"
  shows "list_all (\<lambda>kv. savable_key (fst kv) \<and> savable_value (snd kv)) sec \<Longrightarrow>
   foldl load_line (m, s) (map (\<lambda>kv. fst kv @ ''='' @ snd kv) sec) = (restore_section s sec m, s)"
proof (induction sec arbitrary: m)
  case (Cons kv sec)
  have "load_line (m, s) (fst kv @ ''='' @ snd kv) = (put_key m s (fst kv) (snd kv), s)"
    using Cons.prems assms by (intro load_key_line) simp_all
  then show ?case using Cons by (simp add: restore_section_def)
qed (simp add: restore_section_def)

lemma getlines_keys:
  "list_all (\<lambda>kv. savable_key (fst kv) \<and> savable_value (snd kv)) sec \<Longrightarrow>
   getlines (concat (map (\<lambda>kv. fst kv @ ''='' @ snd kv @ [newline]) sec) @ rest)
   = map (\<lambda>kv. fst kv @ ''='' @ snd kv) sec @ getlines rest"
proof (induction sec)
  case (Cons kv sec)
  have "newline \<notin> set (fst kv @ ''='' @ snd kv)"
    using Cons.prems plain_no_newline by (auto simp: savable_key_def savable_value_def)
  from getlines_line [OF this, of "concat (map (\<lambda>kv. fst kv @ ''='' @ snd kv @ [newline]) sec) @ rest"] Cons
  show ?case by simp
qed simp

lemma load_saved:
  "savable L \<Longrightarrow> fst (foldl load_line (m, cur) (getlines (save_text L))) = fold (\<lambda>e. restore_section (fst e) (snd e)) L m"
proof (induction L arbitrary: m cur)
  case Nil
  then show ?case by (simp add: save_text_def getlines.simps)
next
  case (Cons e L)
  obtain s sec where e: "e = (s, sec)" by fastforce
  have s: "savable_section s" "s \<noteq> []" "newline \<notin> set (''['' @ s @ '']'')"
    and ks: "list_all (\<lambda>kv. savable_key (fst kv) \<and> savable_value (snd kv)) sec" and L: "savable L"
    using Cons.prems plain_no_newline by (auto simp: savable_def savable_section_def e)
  have b: "getlines ([] @ newline # save_text L) = [] # getlines (save_text L)" by (rule getlines_line) simp
  have "getlines (save_text (e # L)) = (''['' @ s @ '']'') # map (\<lambda>kv. fst kv @ ''='' @ snd kv) sec @ [] # getlines (save_text L)"
    using getlines_line [OF s(3)] getlines_keys [OF ks] b by (simp add: save_text_def save_section_def e)
  then show ?case
    using load_section_line [OF s(1), of m cur] load_keys [OF s(2) ks] Cons.IH [OF L] by (simp add: load_blank_line e)
qed

lemma restore_section_lookup:
  "distinct (map fst sec) \<Longrightarrow> map_lookup (restore_section s sec m) (s', k)
    = (if s' = s then (case map_of sec k of None \<Rightarrow> map_lookup m (s, k) | Some v \<Rightarrow> Some v) else map_lookup m (s', k))"
proof (induction sec arbitrary: m)
  case (Cons kv sec)
  obtain k0 v0 where kv: "kv = (k0, v0)" by fastforce
  then have n: "map_of sec k0 = None" using Cons.prems by (simp add: map_of_eq_None_iff)
  show ?case using Cons n kv by (auto simp: restore_section_def map_lookup_put split: option.split)
qed (simp add: restore_section_def)

lemma restore_lookup:
  "distinct (map fst L) \<Longrightarrow> (\<forall>e\<in>set L. distinct (map fst (snd e))) \<Longrightarrow>
   map_lookup (fold (\<lambda>e. restore_section (fst e) (snd e)) L m) (s, k)
   = (case map_lookup L (s, k) of None \<Rightarrow> map_lookup m (s, k) | Some v \<Rightarrow> Some v)"
proof (induction L arbitrary: m)
  case (Cons e L)
  obtain s0 sec0 where e: "e = (s0, sec0)" by fastforce
  then have n: "map_of L s0 = None" using Cons.prems by (simp add: map_of_eq_None_iff)
  show ?case using Cons n e restore_section_lookup [of sec0 s0 m s k]
    by (auto simp: map_lookup_def split: option.split)
qed (simp add: map_lookup_def)

lemma nested_distinct: "nested_ok m \<Longrightarrow> distinct (map fst m) \<and> (\<forall>e\<in>set m. distinct (map fst (snd e)))"
  by (auto simp: nested_ok_def map_ok_distinct)

section \<open>Properties\<close>



text \<open>A configuration is a map from section and key to value: any sequence of \<^verbatim>\<open>Set\<close> and
  \<^verbatim>\<open>RemoveKey\<close> calls keeps the nested maps sorted, and afterwards every lookup answers what the last
  such call on its section and key says.\<close>

theorem ini_is_a_map:
  assumes "ini_ok c" and "c' = kv_run (\<lambda>c p v. ini_Set c (fst p) (snd p) v) (\<lambda>c p. snd (ini_RemoveKey c (fst p) (snd p))) ops c"
  shows "ini_ok c' \<and> ini_HasKey c' s k = (kv_spec ops (ini_lookup c) (s, k) \<noteq> None)
    \<and> ini_GetStr c' s k d = (case kv_spec ops (ini_lookup c) (s, k) of None \<Rightarrow> d | Some v \<Rightarrow> v)"
  using ini_store.run_refines [OF assms(1), of ops] by (simp add: assms(2) HasKey_lookup GetStr_lookup)

theorem ini_is_a_map_witness:
  "ini_GetStr (ini_Set \<lparr> config_map = [], file_path = [] \<rparr> ''a'' ''b'' ''v'') ''a'' ''b'' [] = ''v''"
proof -
  have o: "ini_ok \<lparr> config_map = [], file_path = [] \<rparr>" by (simp add: ini_ok_def nested_ok_def)
  show ?thesis using ini_is_a_map [OF o refl, of "[Kv_Set (''a'', ''b'') ''v'']" "''a''" "''b''" "[]"] by simp
qed

text \<open>Typed settings read back what was stored: an \<^verbatim>\<open>int\<close> and a \<^verbatim>\<open>bool\<close> survive \<^verbatim>\<open>Set\<close> and the
  matching getter, whatever default is given.\<close>

theorem ini_typed_round_trip:
  assumes "ini_ok c" "INT_MIN \<le> v" "v \<le> INT_MAX"
  shows "ini_GetInt (ini_Set_int c s k v) s k i = v \<and> ini_GetBool (ini_Set_bool c s k b) s k d = b"
proof -
  have l: "ini_lookup (ini_Set c s k x) (s, k) = Some x" for x
    using ini_store.lookup_last_write(1) [OF assms(1), of "(s, k)"] by simp
  have "to_string_int v \<noteq> []" by (simp add: to_chars_int_def)
  moreover have "map tolower ''true'' = ''true''" "map tolower ''false'' = ''false''" by (simp_all add: tolower_def)
  ultimately show ?thesis using stoi_to_string [OF assms(2,3)]
    by (simp add: GetInt_lookup GetBool_lookup ini_Set_int_def ini_Set_bool_def l sec_GetBool_def)
qed

theorem ini_typed_round_trip_witness:
  "ini_GetInt (ini_Set_int \<lparr> config_map = [], file_path = [] \<rparr> ''a'' ''b'' (- 7)) ''a'' ''b'' 0 = - 7"
  using ini_typed_round_trip [of "\<lparr> config_map = [], file_path = [] \<rparr>" "- 7"] by (simp add: ini_ok_def nested_ok_def)

text \<open>Comments are cut before quotes are looked at: a comment character inside a quoted value ends
  the line there, and the opening quote stays in the value.\<close>

theorem ini_quoted_comment_cut:
  "load c (\<lambda>_. Some (''[s]'' @ [newline] @ ''k='' @ [CHR 0x22] @ ''a;b'' @ [CHR 0x22, newline])) f
   = (None, c \<lparr> config_map := [(''s'', [(''k'', [CHR 0x22, CHR ''a''])])], file_path := f \<rparr>)"
proof -
  have "fst (foldl load_line ([], []) (getlines (''[s]'' @ [newline] @ ''k='' @ [CHR 0x22] @ ''a;b'' @ [CHR 0x22, newline])))
    = [(''s'', [(''k'', [CHR 0x22, CHR ''a''])])]" by code_simp
  then show ?thesis by (simp add: load_def)
qed

text \<open>A failed first load leaves an empty configuration registered: \<^verbatim>\<open>Instance\<close> throws when the file
  cannot be opened, but the next call for the same path returns that empty configuration without
  trying the file again, even if it can be read by then.\<close>

theorem Instance_after_failure:
  assumes "path \<noteq> []" "map_of instances path = None" "fs path = None"
  shows "fst (Instance instances fs path False) = Inl (RuntimeError (''[Ini] Failed to open file: '' @ path))
    \<and> fst (Instance (snd (Instance instances fs path False)) fs' path False) = Inr \<lparr> config_map = [], file_path = path \<rparr>"
  using assms by (simp add: Instance_def load_def Let_def)

theorem Instance_after_failure_witness:
  "fst (Instance (snd (Instance [] (\<lambda>_. None) ''a.ini'' False)) (\<lambda>_. Some ''[s]'') ''a.ini'' False)
   = Inr \<lparr> config_map = [], file_path = ''a.ini'' \<rparr>"
  using Instance_after_failure [of "''a.ini''" "[]" "\<lambda>_. None" "\<lambda>_. Some ''[s]''"] by simp

end
