(* ===== verification/Settings_Layer.thy ===== *)
theory Settings_Layer
  imports Ini_File
begin

text \<open>
  \<^verbatim>\<open>src/breutil/settings.hpp\<close> (class \<^verbatim>\<open>Settings\<close>): a layer of defaults under a configuration file. The
  hash maps of the defaults are only looked up, never iterated, so they are maps. A default that is
  not a number makes \<^verbatim>\<open>std::stoi\<close> throw out of \<^verbatim>\<open>GetInt\<close>.
\<close>

section \<open>Definitions\<close>

record settings =
  file_config :: ini
  default_config :: "string \<Rightarrow> (string \<Rightarrow> string option) option"
  current_section :: string
  config_path :: string

definition Settings :: "ini \<Rightarrow> string \<Rightarrow> settings" where
  "Settings file config_name =
     \<lparr> file_config = file, default_config = (\<lambda>_. None), current_section = ''default'', config_path = config_name \<rparr>"

definition UseSection :: "settings \<Rightarrow> string \<Rightarrow> settings" where
  "UseSection st s = st \<lparr> current_section := s \<rparr>"

text \<open>The two nested lookups in the defaults.\<close>

definition default_of :: "settings \<Rightarrow> string \<Rightarrow> string \<Rightarrow> string option" where
  "default_of st s key = (case default_config st s of None \<Rightarrow> None | Some m \<Rightarrow> m key)"

definition GetStr :: "settings \<Rightarrow> string \<Rightarrow> string \<Rightarrow> string \<Rightarrow> string" where
  "GetStr st s key def =
     (if ini_HasKey (file_config st) s key then ini_GetStr (file_config st) s key []
      else case default_of st s key of Some v \<Rightarrow> v | None \<Rightarrow> def)"

definition GetInt :: "settings \<Rightarrow> string \<Rightarrow> string \<Rightarrow> int \<Rightarrow> std_exn + int" where
  "GetInt st s key def =
     (if ini_HasKey (file_config st) s key then Inr (ini_GetInt (file_config st) s key 0)
      else case default_of st s key of Some v \<Rightarrow> stoi 10 v | None \<Rightarrow> Inr def)"

definition GetDouble :: "'d \<Rightarrow> (string \<Rightarrow> std_exn + 'd) \<Rightarrow> settings \<Rightarrow> string \<Rightarrow> string \<Rightarrow> 'd \<Rightarrow> std_exn + 'd" where
  "GetDouble zero stod st s key def =
     (if ini_HasKey (file_config st) s key then Inr (ini_GetDouble stod (file_config st) s key zero)
      else case default_of st s key of Some v \<Rightarrow> stod v | None \<Rightarrow> Inr def)"

definition GetBool :: "settings \<Rightarrow> string \<Rightarrow> string \<Rightarrow> bool \<Rightarrow> bool" where
  "GetBool st s key def =
     (if ini_HasKey (file_config st) s key then ini_GetBool (file_config st) s key False
      else case default_of st s key of Some v \<Rightarrow> v = ''true'' \<or> v = ''1'' | None \<Rightarrow> def)"

definition GetStr_current :: "settings \<Rightarrow> string \<Rightarrow> string \<Rightarrow> string" where
  "GetStr_current st key def = GetStr st (current_section st) key def"

definition GetInt_current :: "settings \<Rightarrow> string \<Rightarrow> int \<Rightarrow> std_exn + int" where
  "GetInt_current st key def = GetInt st (current_section st) key def"

definition GetBool_current :: "settings \<Rightarrow> string \<Rightarrow> bool \<Rightarrow> bool" where
  "GetBool_current st key def = GetBool st (current_section st) key def"

definition SetDefault :: "settings \<Rightarrow> string \<Rightarrow> string \<Rightarrow> string \<Rightarrow> settings" where
  "SetDefault st s key v =
     st \<lparr> default_config := (default_config st)(s \<mapsto>
            (case default_config st s of None \<Rightarrow> (\<lambda>_. None) | Some m \<Rightarrow> m)(key \<mapsto> v)) \<rparr>"

definition SetDefault_current :: "settings \<Rightarrow> string \<Rightarrow> string \<Rightarrow> settings" where
  "SetDefault_current st key v = SetDefault st (current_section st) key v"

definition SetDefault_int :: "settings \<Rightarrow> string \<Rightarrow> int \<Rightarrow> settings" where
  "SetDefault_int st key v = SetDefault st (current_section st) key (to_string_int v)"

definition SetDefault_bool :: "settings \<Rightarrow> string \<Rightarrow> bool \<Rightarrow> settings" where
  "SetDefault_bool st key v = SetDefault st (current_section st) key (if v then ''true'' else ''false'')"

definition Set :: "settings \<Rightarrow> string \<Rightarrow> string \<Rightarrow> string \<Rightarrow> settings" where
  "Set st s key v = st \<lparr> file_config := ini_Set (file_config st) s key v \<rparr>"

definition Set_current :: "settings \<Rightarrow> string \<Rightarrow> string \<Rightarrow> settings" where
  "Set_current st key v = Set st (current_section st) key v"

definition Set_int :: "settings \<Rightarrow> string \<Rightarrow> int \<Rightarrow> settings" where
  "Set_int st key v = Set st (current_section st) key (to_string_int v)"

definition Set_bool :: "settings \<Rightarrow> string \<Rightarrow> bool \<Rightarrow> settings" where
  "Set_bool st key v = Set st (current_section st) key (if v then ''true'' else ''false'')"

definition HasKey :: "settings \<Rightarrow> string \<Rightarrow> string \<Rightarrow> bool" where
  "HasKey st s key \<longleftrightarrow> ini_HasKey (file_config st) s key
     \<or> (default_config st s \<noteq> None \<and> the (default_config st s) key \<noteq> None)"

definition settings_Save :: "settings \<Rightarrow> bool \<Rightarrow> bool \<times> string option" where
  "settings_Save st opens = Save (file_config st) opens"

definition settings_Reload :: "settings \<Rightarrow> (string \<Rightarrow> string option) \<Rightarrow> std_exn option \<times> settings" where
  "settings_Reload st fs =
     (let (e, c) = Reload (file_config st) fs (config_path st) in (e, st \<lparr> file_config := c \<rparr>))"

definition RemoveKey :: "settings \<Rightarrow> string \<Rightarrow> string \<Rightarrow> bool \<times> settings" where
  "RemoveKey st s key = (let (found, c) = ini_RemoveKey (file_config st) s key in (found, st \<lparr> file_config := c \<rparr>))"

definition RemoveSection :: "settings \<Rightarrow> string \<Rightarrow> bool \<times> settings" where
  "RemoveSection st s = (let (found, c) = ini_RemoveSection (file_config st) s in (found, st \<lparr> file_config := c \<rparr>))"

definition AllSections :: "settings \<Rightarrow> string list" where
  "AllSections st = ini_GetAllSections (file_config st)"

definition AllKeys :: "settings \<Rightarrow> string \<Rightarrow> string list" where
  "AllKeys st s = ini_GetAllKeys (file_config st) s"

section \<open>Layers\<close>

text \<open>What the two layers together hold.\<close>

definition effective :: "settings \<Rightarrow> string \<times> string \<Rightarrow> string option" where
  "effective st p =
     (case ini_lookup (file_config st) p of Some v \<Rightarrow> Some v | None \<Rightarrow> default_of st (fst p) (snd p))"

lemma default_of_SetDefault:
  "default_of (SetDefault st s k v) s' k' = (if (s', k') = (s, k) then Some v else default_of st s' k')"
  by (simp add: default_of_def SetDefault_def split: option.split)

lemma default_of_file [simp]: "default_of (st \<lparr> file_config := c \<rparr>) s k = default_of st s k"
  by (simp add: default_of_def)

lemma SetDefault_file [simp]: "file_config (SetDefault st s k v) = file_config st"
  by (simp add: SetDefault_def)

lemma GetStr_effective: "GetStr st s k d = (case effective st (s, k) of None \<Rightarrow> d | Some v \<Rightarrow> v)"
  by (auto simp: GetStr_def effective_def HasKey_lookup GetStr_lookup split: option.split)

lemma HasKey_effective: "HasKey st s k \<longleftrightarrow> effective st (s, k) \<noteq> None"
  by (auto simp: HasKey_def effective_def HasKey_lookup default_of_def split: option.split)

lemma ini_lookup_Set: "ini_ok c \<Longrightarrow> ini_lookup (ini_Set c s k v) = (ini_lookup c)((s, k) \<mapsto> v)"
  using ini_store.upd_ok [of c "(s, k)" v] by simp

lemma ini_lookup_RemoveKey: "ini_ok c \<Longrightarrow> ini_lookup (snd (ini_RemoveKey c s k)) = (ini_lookup c)((s, k) := None)"
  using ini_store.rmv_ok [of c "(s, k)"] by simp

section \<open>Properties\<close>

text \<open>Two layers: a key is present when either layer has it, a stored value hides the default, a
  default never overrides the file, removing the stored value brings the default back, and other
  keys are not affected.\<close>

theorem settings_layers:
  assumes "ini_ok (file_config st)"
  shows "GetStr (Set st s k v) s k d = v
    \<and> GetStr (SetDefault st s k v) s k d = (if ini_HasKey (file_config st) s k then GetStr st s k d else v)
    \<and> GetStr (snd (RemoveKey (Set (SetDefault st s k w) s k v) s k)) s k d = w
    \<and> HasKey (SetDefault st s k v) s k
    \<and> ((s', k') \<noteq> (s, k) \<longrightarrow> GetStr (Set st s k v) s' k' d = GetStr st s' k' d
         \<and> GetStr (SetDefault st s k v) s' k' d = GetStr st s' k' d)"
proof -
  have e: "effective (Set st s k v) = (effective st)((s, k) \<mapsto> v)"
    using assms by (auto simp: effective_def Set_def ini_lookup_Set fun_eq_iff split: option.split)
  have "ini_ok (ini_Set (file_config st) s k v)" using ini_store.upd_ok [OF assms, of "(s, k)" v] by simp
  then have r: "effective (snd (RemoveKey (Set (SetDefault st s k w) s k v) s k)) (s, k) = Some w"
    using assms ini_lookup_RemoveKey [of "ini_Set (file_config st) s k v" s k]
      default_of_SetDefault [of st s k w s k]
    by (simp add: effective_def RemoveKey_def Set_def split_def Let_def)
  show ?thesis
    using e r by (auto simp: GetStr_effective HasKey_effective effective_def default_of_SetDefault HasKey_lookup split: option.split)
qed

theorem settings_layers_witness:
  "GetStr (snd (RemoveKey (Set (SetDefault (Settings \<lparr> config_map = [], file_path = ''f'' \<rparr> ''f'') ''a'' ''k'' ''w'') ''a'' ''k'' ''v'') ''a'' ''k'')) ''a'' ''k'' [] = ''w''"
  using settings_layers [of "Settings \<lparr> config_map = [], file_path = ''f'' \<rparr> ''f''"]
  by (simp add: Settings_def ini_ok_def nested_ok_def)

text \<open>When the file holds text that is not a number, \<^verbatim>\<open>GetInt\<close> ignores both the caller's default and
  the registered one and returns 0.\<close>

theorem settings_GetInt_unparsable:
  assumes "ini_lookup (file_config st) (s, k) = Some v" "stoi 10 v = Inl e"
  shows "GetInt st s k def = Inr 0 \<and> GetInt (SetDefault st s k ''5'') s k def = Inr 0"
  using assms by (simp add: GetInt_def HasKey_lookup GetInt_lookup)

theorem settings_GetInt_unparsable_witness:
  "GetInt (Settings \<lparr> config_map = [(''a'', [(''k'', ''x'')])], file_path = ''f'' \<rparr> ''f'') ''a'' ''k'' 42 = Inr 0"
  using settings_GetInt_unparsable [of "Settings \<lparr> config_map = [(''a'', [(''k'', ''x'')])], file_path = ''f'' \<rparr> ''f''" "''a''" "''k''" "''x''"]
  by (simp add: Settings_def ini_lookup_def map_lookup_def sto_range_def strto_def strip_sign_def strip_0x_def isspace_def isdigit_def)

end
