(* ===== verification/Json_Value.thy ===== *)
theory Json_Value
  imports Cpp_Charconv
begin

text \<open>
  \<^verbatim>\<open>src/breutil/json/json_value.hpp\<close> (class \<^verbatim>\<open>Value\<close>) and its equality in \<^verbatim>\<open>json_tool.hpp\<close>. The tag
  and the variant of the class are one datatype; \<^verbatim>\<open>double\<close> is the type parameter \<open>'d\<close>. An object is a
  hash map: the association list holds its entries in iteration order, which has no meaning; new keys
  are appended, and equality and all theorems ignore the order. A member that returns a reference is
  a pair of functions, one that reads through the reference and one that stores through it.
\<close>

section \<open>Values\<close>

datatype json_type = TNull | TBool | TInt | TDouble | TString | TArray | TObject

datatype 'd json =
    JNull
  | JBool bool
  | JInt int
  | JDouble 'd
  | JString string
  | JArray "'d json list"
  | JObject "(string \<times> 'd json) list"

datatype json_error_type = SyntaxError | TypeError | ValueError | KeyError | UnknownError

text \<open>What the members throw: \<^verbatim>\<open>JsonParseException\<close>, or \<^verbatim>\<open>std::out_of_range\<close>.\<close>

datatype json_exn = JsonParseException string json_error_type | Json_std std_exn

definition TypeStr :: "json_type \<Rightarrow> string" where
  "TypeStr t = (case t of TNull \<Rightarrow> ''Null'' | TBool \<Rightarrow> ''Bool'' | TInt \<Rightarrow> ''Int'' | TDouble \<Rightarrow> ''Double''
     | TString \<Rightarrow> ''String'' | TArray \<Rightarrow> ''Array'' | TObject \<Rightarrow> ''Object'')"

fun jtype :: "'d json \<Rightarrow> json_type" where
  "jtype JNull = TNull"
| "jtype (JBool b) = TBool"
| "jtype (JInt i) = TInt"
| "jtype (JDouble d) = TDouble"
| "jtype (JString s) = TString"
| "jtype (JArray a) = TArray"
| "jtype (JObject m) = TObject"

definition GetTypeStr :: "'d json \<Rightarrow> string" where
  "GetTypeStr v = TypeStr (jtype v)"

definition type_error :: json_exn where
  "type_error = JsonParseException ''Type Error: Invalid type'' TypeError"

definition checkType :: "'d json \<Rightarrow> json_type \<Rightarrow> json_exn + unit" where
  "checkType v expected = (if jtype v \<noteq> expected then Inl type_error else Inr ())"

section \<open>Setters\<close>

text \<open>The setters replace the value whatever it was.\<close>

definition json_Clear :: "'d json \<Rightarrow> 'd json" where "json_Clear v = JNull"
definition SetBool :: "'d json \<Rightarrow> bool \<Rightarrow> 'd json" where "SetBool v b = JBool b"
definition SetInt :: "'d json \<Rightarrow> int \<Rightarrow> 'd json" where "SetInt v i = JInt i"
definition SetDouble :: "'d json \<Rightarrow> 'd \<Rightarrow> 'd json" where "SetDouble v d = JDouble d"
definition SetString :: "'d json \<Rightarrow> string \<Rightarrow> 'd json" where "SetString v s = JString s"
definition SetArray :: "'d json \<Rightarrow> 'd json" where "SetArray v = JArray []"
definition SetObject :: "'d json \<Rightarrow> 'd json" where "SetObject v = JObject []"

section \<open>Typed access\<close>

definition AsBool :: "'d json \<Rightarrow> json_exn + bool" where
  "AsBool v = (case v of JBool b \<Rightarrow> Inr b | _ \<Rightarrow> Inl type_error)"

definition AsInt :: "'d json \<Rightarrow> json_exn + int" where
  "AsInt v = (case v of JInt i \<Rightarrow> Inr i | _ \<Rightarrow> Inl type_error)"

definition AsDouble :: "'d json \<Rightarrow> json_exn + 'd" where
  "AsDouble v = (case v of JDouble d \<Rightarrow> Inr d | _ \<Rightarrow> Inl type_error)"

definition AsString :: "'d json \<Rightarrow> json_exn + string" where
  "AsString v = (case v of JString s \<Rightarrow> Inr s | _ \<Rightarrow> Inl type_error)"

definition AsArray :: "'d json \<Rightarrow> json_exn + 'd json list" where
  "AsArray v = (case v of JArray a \<Rightarrow> Inr a | _ \<Rightarrow> Inl type_error)"

definition AsObject :: "'d json \<Rightarrow> json_exn + (string \<times> 'd json) list" where
  "AsObject v = (case v of JObject m \<Rightarrow> Inr m | _ \<Rightarrow> Inl type_error)"

definition IsUInt :: "'d json \<Rightarrow> bool" where
  "IsUInt v \<longleftrightarrow> jtype v = TInt \<and> (case AsInt v of Inr i \<Rightarrow> 0 \<le> i | Inl _ \<Rightarrow> False)"

definition IsIntegral :: "'d json \<Rightarrow> bool" where
  "IsIntegral v \<longleftrightarrow> jtype v = TInt \<or> IsUInt v"

definition IsNumeric :: "'d json \<Rightarrow> bool" where
  "IsNumeric v \<longleftrightarrow> IsIntegral v \<or> jtype v = TDouble"

definition IsConvertibleTo :: "'d json \<Rightarrow> json_type \<Rightarrow> bool" where
  "IsConvertibleTo v other = (case other of TDouble \<Rightarrow> IsNumeric v | _ \<Rightarrow> jtype v = other)"

definition json_Empty :: "'d json \<Rightarrow> bool" where
  "json_Empty v = (case v of JNull \<Rightarrow> True | JString s \<Rightarrow> s = [] | JArray a \<Rightarrow> a = [] | JObject m \<Rightarrow> m = [] | _ \<Rightarrow> False)"

definition json_Size :: "'d json \<Rightarrow> nat" where
  "json_Size v = (case v of JArray a \<Rightarrow> length a | JObject m \<Rightarrow> length m | _ \<Rightarrow> 0)"

section \<open>Arrays\<close>

definition resize_array :: "'d json list \<Rightarrow> nat \<Rightarrow> 'd json list" where
  "resize_array a n = take n a @ replicate (n - length a) JNull"

text \<open>The parameter of \<^verbatim>\<open>Resize\<close> is an \<^verbatim>\<open>int\<close>; a negative one converts to a huge \<^verbatim>\<open>size_t\<close> and throws.\<close>

definition Resize :: "'d json \<Rightarrow> int \<Rightarrow> json_exn + 'd json" where
  "Resize v newSize =
     (case v of
        JArray a \<Rightarrow> if newSize < 0 then Inl (Json_std (LengthError ''vector::_M_default_append''))
                    else Inr (JArray (resize_array a (nat newSize)))
      | _ \<Rightarrow> Inl type_error)"

text \<open>The non-constant \<^verbatim>\<open>operator[]\<close> on an index grows the array.\<close>

definition index_get :: "'d json \<Rightarrow> nat \<Rightarrow> json_exn + ('d json \<times> 'd json)" where
  "index_get v i =
     (case v of
        JArray a \<Rightarrow> (let a' = (if length a \<le> i then resize_array a (i + 1) else a) in Inr (a' ! i, JArray a'))
      | _ \<Rightarrow> Inl type_error)"

definition index_set :: "'d json \<Rightarrow> nat \<Rightarrow> 'd json \<Rightarrow> json_exn + 'd json" where
  "index_set v i x =
     (case v of
        JArray a \<Rightarrow> (let a' = (if length a \<le> i then resize_array a (i + 1) else a) in Inr (JArray (a'[i := x])))
      | _ \<Rightarrow> Inl type_error)"

definition index_const :: "'d json \<Rightarrow> nat \<Rightarrow> json_exn + 'd json" where
  "index_const v i =
     (case v of
        JArray a \<Rightarrow> if length a \<le> i then Inl (Json_std (OutOfRange ''Array index out of range'')) else Inr (a ! i)
      | _ \<Rightarrow> Inl type_error)"

definition At_index :: "'d json \<Rightarrow> nat \<Rightarrow> json_exn + 'd json" where
  "At_index v i =
     (case v of
        JArray a \<Rightarrow> if length a \<le> i then Inl (Json_std (OutOfRange ''vector::_M_range_check'')) else Inr (a ! i)
      | _ \<Rightarrow> Inl type_error)"

definition json_Append :: "'d json \<Rightarrow> 'd json \<Rightarrow> json_exn + 'd json" where
  "json_Append v x = (case v of JArray a \<Rightarrow> Inr (JArray (a @ [x])) | _ \<Rightarrow> Inl type_error)"

definition Remove_index :: "'d json \<Rightarrow> nat \<Rightarrow> json_exn + 'd json" where
  "Remove_index v i =
     (case v of
        JArray a \<Rightarrow> if length a \<le> i then Inl (Json_std (OutOfRange ''Array index out of range''))
                    else Inr (JArray (take i a @ drop (i + 1) a))
      | _ \<Rightarrow> Inl type_error)"

definition Reserve :: "'d json \<Rightarrow> nat \<Rightarrow> json_exn + 'd json" where
  "Reserve v n = (case v of JArray a \<Rightarrow> Inr v | JObject m \<Rightarrow> Inr v | _ \<Rightarrow> Inl type_error)"

section \<open>Objects\<close>

text \<open>The non-constant \<^verbatim>\<open>operator[]\<close> on a key turns a null value into an object and inserts the key
  with a null value when it is absent.\<close>

definition key_ready :: "(string \<times> 'd json) list \<Rightarrow> string \<Rightarrow> (string \<times> 'd json) list" where
  "key_ready m k = (if map_of m k = None then m @ [(k, JNull)] else m)"

definition as_object :: "'d json \<Rightarrow> json_exn + (string \<times> 'd json) list" where
  "as_object v = (case v of JNull \<Rightarrow> Inr [] | JObject m \<Rightarrow> Inr m | _ \<Rightarrow> Inl type_error)"

definition key_get :: "'d json \<Rightarrow> string \<Rightarrow> json_exn + ('d json \<times> 'd json)" where
  "key_get v k =
     bind_sum (as_object v) (\<lambda>m. Inr (the (map_of (key_ready m k) k), JObject (key_ready m k)))"

definition key_set :: "'d json \<Rightarrow> string \<Rightarrow> 'd json \<Rightarrow> json_exn + 'd json" where
  "key_set v k x = bind_sum (as_object v) (\<lambda>m. Inr (JObject (AList.update k x m)))"

definition key_const :: "'d json \<Rightarrow> string \<Rightarrow> json_exn + 'd json" where
  "key_const v k =
     (case v of
        JObject m \<Rightarrow> Inr (case map_of m k of None \<Rightarrow> JNull | Some x \<Rightarrow> x)
      | _ \<Rightarrow> Inl type_error)"

definition At_key :: "'d json \<Rightarrow> string \<Rightarrow> json_exn + 'd json" where
  "At_key v k =
     (case v of
        JObject m \<Rightarrow> (case map_of m k of None \<Rightarrow> Inl (Json_std (OutOfRange ''Object key not found'')) | Some x \<Rightarrow> Inr x)
      | _ \<Rightarrow> Inl type_error)"

definition Remove_key :: "'d json \<Rightarrow> string \<Rightarrow> json_exn + 'd json" where
  "Remove_key v k =
     (case v of JObject m \<Rightarrow> Inr (JObject (filter (\<lambda>e. fst e \<noteq> k) m)) | _ \<Rightarrow> Inl type_error)"

section \<open>Iteration\<close>

text \<open>What a loop from \<^verbatim>\<open>begin()\<close> to \<^verbatim>\<open>end()\<close> visits.\<close>

definition iterate :: "'d json \<Rightarrow> json_exn + 'd json list" where
  "iterate v =
     (case v of
        JArray a \<Rightarrow> Inr a
      | JObject m \<Rightarrow> Inr (map snd m)
      | _ \<Rightarrow> Inl (JsonParseException (''Type Error: Value: '' @ GetTypeStr v @ '' is not iterable'') TypeError))"

section \<open>Equality\<close>

text \<open>\<^verbatim>\<open>operator==\<close>; objects are compared as hash maps: the same number of entries, and every entry of
  one has an equal partner in the other. \<open>deq\<close> is the equality of \<^verbatim>\<open>double\<close>.\<close>

fun value_eq :: "('d \<Rightarrow> 'd \<Rightarrow> bool) \<Rightarrow> 'd json \<Rightarrow> 'd json \<Rightarrow> bool" where
  "value_eq deq JNull w = (case w of JNull \<Rightarrow> True | _ \<Rightarrow> False)"
| "value_eq deq (JInt i) w = (case w of JInt j \<Rightarrow> i = j | _ \<Rightarrow> False)"
| "value_eq deq (JDouble d) w = (case w of JDouble e \<Rightarrow> deq d e | _ \<Rightarrow> False)"
| "value_eq deq (JBool b) w = (case w of JBool c \<Rightarrow> b = c | _ \<Rightarrow> False)"
| "value_eq deq (JString s) w = (case w of JString t \<Rightarrow> s = t | _ \<Rightarrow> False)"
| "value_eq deq (JArray a) w = (case w of JArray c \<Rightarrow> list_all2 (\<lambda>x y. value_eq deq x y) a c | _ \<Rightarrow> False)"
| "value_eq deq (JObject m) w =
     (case w of
        JObject n \<Rightarrow> length m = length n
          \<and> list_all (\<lambda>e. case map_of n (fst e) of None \<Rightarrow> False | Some y \<Rightarrow> value_eq deq (snd e) y) m
      | _ \<Rightarrow> False)"

section \<open>Well-formed values\<close>

text \<open>Integers fit \<^verbatim>\<open>int\<close> and the keys of an object are distinct.\<close>

fun json_ok :: "'d json \<Rightarrow> bool" where
  "json_ok (JInt i) = (INT_MIN \<le> i \<and> i \<le> INT_MAX)"
| "json_ok (JArray a) = list_all json_ok a"
| "json_ok (JObject m) = (distinct (map fst m) \<and> list_all (\<lambda>e. json_ok (snd e)) m)"
| "json_ok _ = True"

lemma json_ok_JNull [simp]: "json_ok JNull"
  by simp

lemma resize_array_ok: "list_all json_ok a \<Longrightarrow> list_all json_ok (resize_array a n)"
  by (auto simp: resize_array_def list_all_iff dest: in_set_takeD)

lemma length_resize_array [simp]: "length (resize_array a n) = n"
  by (simp add: resize_array_def)

lemma list_all_update: "list_all P xs \<Longrightarrow> P x \<Longrightarrow> list_all P (xs[i := x])"
  using set_update_subset_insert [of xs i x] by (auto simp: list_all_iff)

lemma alist_update_ok:
  assumes "distinct (map fst m)" "list_all (\<lambda>e. P (snd e)) m" "P x"
  shows "distinct (map fst (AList.update k x m)) \<and> list_all (\<lambda>e. P (snd e)) (AList.update k x m)"
proof -
  have "list_all (\<lambda>e. P (snd e)) (AList.update k x m)"
    using assms(2,3) by (induction m) auto
  then show ?thesis using assms(1) by (simp add: distinct_update)
qed

lemma key_ready_ok:
  "distinct (map fst m) \<Longrightarrow> list_all (\<lambda>e. json_ok (snd e)) m \<Longrightarrow>
   distinct (map fst (key_ready m k)) \<and> list_all (\<lambda>e. json_ok (snd e)) (key_ready m k)"
  by (auto simp: key_ready_def map_of_eq_None_iff)

lemma as_object_ok: "json_ok v \<Longrightarrow> as_object v = Inr m \<Longrightarrow> distinct (map fst m) \<and> list_all (\<lambda>e. json_ok (snd e)) m"
  by (cases v) (auto simp: as_object_def)

section \<open>Equality is an equivalence\<close>

lemma value_eq_refl:
  assumes "\<And>d. deq d d"
  shows "json_ok v \<Longrightarrow> value_eq deq v v"
proof (induction v)
  case (JArray a)
  then show ?case by (simp add: list_all2_conv_all_nth list_all_length)
next
  case (JObject m)
  have "value_eq deq (snd e) (snd e) \<and> map_of m (fst e) = Some (snd e)" if "e \<in> set m" for e
    using that JObject.IH [OF that, of "snd e"] JObject.prems
    by (cases e rule: prod.exhaust) (auto simp: list_all_iff)
  then show ?case by (simp add: list_all_iff)
qed (simp_all add: assms)

lemma same_keys:
  assumes "distinct (map fst m)" "distinct (map fst n)" "length m = length n"
    "\<And>e. e \<in> set m \<Longrightarrow> map_of n (fst e) \<noteq> None"
  shows "fst ` set m = fst ` set n"
proof (rule card_subset_eq)
  show "fst ` set m \<subseteq> fst ` set n" using assms(4) by (auto simp: map_of_eq_None_iff)
  show "card (fst ` set m) = card (fst ` set n)"
    using distinct_card [OF assms(1)] distinct_card [OF assms(2)] assms(3) by simp
qed simp

lemma object_eq_iff:
  assumes "distinct (map fst m)" "distinct (map fst n)"
  shows "value_eq deq (JObject m) (JObject n) \<longleftrightarrow>
    fst ` set m = fst ` set n \<and> (\<forall>k x y. map_of m k = Some x \<longrightarrow> map_of n k = Some y \<longrightarrow> value_eq deq x y)"
proof
  assume e: "value_eq deq (JObject m) (JObject n)"
  then have *: "map_of n (fst e) \<noteq> None \<and> value_eq deq (snd e) (the (map_of n (fst e)))" if "e \<in> set m" for e
    using that by (auto simp: list_all_iff split: option.splits)
  have "fst ` set m = fst ` set n" using e * by (intro same_keys assms) auto
  moreover have "value_eq deq x y" if "map_of m k = Some x" "map_of n k = Some y" for k x y
    using * [of "(k, x)"] that map_of_SomeD by fastforce
  ultimately show "fst ` set m = fst ` set n \<and> (\<forall>k x y. map_of m k = Some x \<longrightarrow> map_of n k = Some y \<longrightarrow> value_eq deq x y)"
    by blast
next
  assume r: "fst ` set m = fst ` set n \<and> (\<forall>k x y. map_of m k = Some x \<longrightarrow> map_of n k = Some y \<longrightarrow> value_eq deq x y)"
  have "length m = length n"
    using r distinct_card [OF assms(1)] distinct_card [OF assms(2)] by simp
  moreover have "case map_of n (fst e) of None \<Rightarrow> False | Some y \<Rightarrow> value_eq deq (snd e) y" if "e \<in> set m" for e
  proof -
    have "map_of m (fst e) = Some (snd e)" using that assms(1) by simp
    moreover have "map_of n (fst e) \<noteq> None" using that r by (metis imageI map_of_eq_None_iff)
    ultimately show ?thesis using r by (auto split: option.split)
  qed
  ultimately show "value_eq deq (JObject m) (JObject n)" by (simp add: list_all_iff)
qed

lemma map_of_value: "map_of m k = Some x \<Longrightarrow> (k, x) \<in> set m"
  by (rule map_of_SomeD)

lemma value_eq_sym:
  assumes "\<And>d e. deq d e \<Longrightarrow> deq e d"
  shows "json_ok v \<Longrightarrow> json_ok w \<Longrightarrow> value_eq deq v w \<Longrightarrow> value_eq deq w v"
proof (induction v arbitrary: w)
  case (JArray a)
  then obtain c where c: "w = JArray c" "list_all2 (value_eq deq) a c" by (auto split: json.splits)
  then have "list_all2 (value_eq deq) c a"
    using JArray by (auto simp: list_all2_conv_all_nth list_all_length)
  then show ?case using c by simp
next
  case (JObject m)
  then obtain n where w: "w = JObject n" by (auto split: json.splits)
  have d: "distinct (map fst m)" "distinct (map fst n)" using JObject w by simp_all
  have e: "fst ` set m = fst ` set n" "\<And>k x y. map_of m k = Some x \<Longrightarrow> map_of n k = Some y \<Longrightarrow> value_eq deq x y"
    using JObject.prems(3) unfolding w object_eq_iff [OF d] by blast+
  have "value_eq deq y x" if "map_of n k = Some y" "map_of m k = Some x" for k x y
  proof -
    have "(k, x) \<in> set m" "(k, y) \<in> set n" using that map_of_SomeD by fast+
    then have "json_ok x" "json_ok y" using JObject.prems w by (auto simp: list_all_iff)
    then show ?thesis using JObject.IH [OF \<open>(k, x) \<in> set m\<close>, of x y] e(2) [OF that(2,1)] by simp
  qed
  then show ?case unfolding w object_eq_iff [OF d(2,1)] using e(1) by auto
qed (auto split: json.splits intro: assms)

lemma value_eq_trans:
  assumes "\<And>d e f. deq d e \<Longrightarrow> deq e f \<Longrightarrow> deq d f"
  shows "json_ok u \<Longrightarrow> json_ok v \<Longrightarrow> json_ok w \<Longrightarrow> value_eq deq u v \<Longrightarrow> value_eq deq v w \<Longrightarrow> value_eq deq u w"
proof (induction u arbitrary: v w)
  case (JArray a)
  then obtain b c where c: "v = JArray b" "w = JArray c" "list_all2 (value_eq deq) a b" "list_all2 (value_eq deq) b c"
    by (auto split: json.splits)
  have ok: "list_all json_ok a" "list_all json_ok b" "list_all json_ok c" using JArray.prems c by simp_all
  have "list_all2 (value_eq deq) a c" unfolding list_all2_conv_all_nth
  proof (intro conjI allI impI)
    show "length a = length c" using c by (simp add: list_all2_conv_all_nth)
    fix i assume i: "i < length a"
    then show "value_eq deq (a ! i) (c ! i)"
      using JArray.IH [of "a ! i" "b ! i" "c ! i"] c(3,4) ok by (auto simp: list_all2_conv_all_nth list_all_length)
  qed
  then show ?case using c by simp
next
  case (JObject m)
  then obtain n l where w: "v = JObject n" "w = JObject l" by (auto split: json.splits)
  have d: "distinct (map fst m)" "distinct (map fst n)" "distinct (map fst l)" using JObject w by simp_all
  have e: "fst ` set m = fst ` set n" "\<And>k x y. map_of m k = Some x \<Longrightarrow> map_of n k = Some y \<Longrightarrow> value_eq deq x y"
    using JObject.prems(4) unfolding w object_eq_iff [OF d(1,2)] by blast+
  have f: "fst ` set n = fst ` set l" "\<And>k x y. map_of n k = Some x \<Longrightarrow> map_of l k = Some y \<Longrightarrow> value_eq deq x y"
    using JObject.prems(5) unfolding w object_eq_iff [OF d(2,3)] by blast+
  have "value_eq deq x z" if "map_of m k = Some x" "map_of l k = Some z" for k x z
  proof -
    have "k \<in> fst ` set n" using e(1) that(1) by (metis map_of_eq_None_iff option.distinct(1))
    then obtain y where y: "map_of n k = Some y" by (metis map_of_eq_None_iff not_None_eq)
    have s: "(k, x) \<in> set m" "(k, y) \<in> set n" "(k, z) \<in> set l" using that y map_of_SomeD by fast+
    then have "json_ok x" "json_ok y" "json_ok z" using JObject.prems w by (auto simp: list_all_iff)
    then show ?thesis
      using JObject.IH [OF s(1), of x y z] e(2) [OF that(1) y] f(2) [OF y that(2)] by simp
  qed
  then show ?case unfolding w object_eq_iff [OF d(1,3)] using e(1) f(1) by auto
qed (auto split: json.splits intro: assms)

section \<open>Properties\<close>

text \<open>The equality of values is an equivalence relation on well-formed values (given one on
  \<^verbatim>\<open>double\<close>), although objects are compared in one direction only; the order of entries does not
  matter: two objects are equal exactly when they have the same keys with equal values.\<close>

theorem json_equality:
  assumes "\<And>d. deq d d" "\<And>d e. deq d e \<Longrightarrow> deq e d" "\<And>d e f. deq d e \<Longrightarrow> deq e f \<Longrightarrow> deq d f"
    and "json_ok u" "json_ok v" "json_ok w"
  shows "value_eq deq u u \<and> (value_eq deq u v \<longleftrightarrow> value_eq deq v u)
    \<and> (value_eq deq u v \<longrightarrow> value_eq deq v w \<longrightarrow> value_eq deq u w)"
  using value_eq_refl [of deq u] value_eq_sym [of deq u v] value_eq_sym [of deq v u] value_eq_trans [of deq u v w] assms
  by blast

theorem json_equality_witness:
  "value_eq (=) (JObject [(''a'', JInt 1), (''b'', JNull)]) (JObject [(''b'', JNull), (''a'', JInt 1 :: nat json)])
   \<longleftrightarrow> value_eq (=) (JObject [(''b'', JNull), (''a'', JInt 1)]) (JObject [(''a'', JInt 1), (''b'', JNull :: nat json)])"
proof -
  let ?u = "JObject [(''a'', JInt 1), (''b'', JNull :: nat json)]" and ?v = "JObject [(''b'', JNull), (''a'', JInt 1 :: nat json)]"
  have "json_ok ?u" "json_ok ?v" by simp_all
  from json_equality [OF _ _ _ this json_ok_JNull, of "(=)"] show ?thesis by blast
qed

text \<open>Every mutation keeps a value well formed, errors included: writing through an index or a
  key, appending, removing and resizing.\<close>

theorem json_mutations_ok:
  assumes "json_ok v" "json_ok x"
  shows "pred_sum (\<lambda>_. True) json_ok (index_set v i x) \<and> pred_sum (\<lambda>_. True) json_ok (key_set v k x)
    \<and> pred_sum (\<lambda>_. True) json_ok (json_Append v x) \<and> pred_sum (\<lambda>_. True) json_ok (Remove_index v i)
    \<and> pred_sum (\<lambda>_. True) json_ok (Remove_key v k) \<and> pred_sum (\<lambda>_. True) json_ok (Resize v n)
    \<and> pred_sum (\<lambda>_. True) (\<lambda>r. json_ok (fst r) \<and> json_ok (snd r)) (key_get v k)"
proof -
  have "pred_sum (\<lambda>_. True) json_ok (key_set v k x)"
  proof (cases "as_object v")
    case (Inr m)
    then show ?thesis using alist_update_ok [of m json_ok x k] as_object_ok [OF assms(1) Inr] assms(2) by (simp add: key_set_def)
  qed (simp add: key_set_def)
  moreover have "pred_sum (\<lambda>_. True) (\<lambda>r. json_ok (fst r) \<and> json_ok (snd r)) (key_get v k)"
  proof (cases "as_object v")
    case (Inr m)
    have ok: "distinct (map fst (key_ready m k))" "list_all (\<lambda>e. json_ok (snd e)) (key_ready m k)"
      using key_ready_ok as_object_ok [OF assms(1) Inr] by blast+
    obtain y where y: "map_of (key_ready m k) k = Some y"
      by (cases "map_of m k") (auto simp: key_ready_def map_add_def)
    then have "json_ok y" using ok(2) map_of_SomeD [OF y] by (auto simp: list_all_iff)
    then show ?thesis using Inr ok y by (simp add: key_get_def)
  qed (simp add: key_get_def)
  moreover have "pred_sum (\<lambda>_. True) json_ok (index_set v i x)" "pred_sum (\<lambda>_. True) json_ok (Resize v n)"
    using assms resize_array_ok by (cases v; auto simp: index_set_def Resize_def Let_def intro!: list_all_update)+
  moreover have "pred_sum (\<lambda>_. True) json_ok (Remove_index v i)" "pred_sum (\<lambda>_. True) json_ok (Remove_key v k)"
    "pred_sum (\<lambda>_. True) json_ok (json_Append v x)"
    using assms by (cases v; auto simp: Remove_index_def Remove_key_def json_Append_def list_all_iff
        distinct_map_filter dest: in_set_takeD in_set_dropD)+
  ultimately show ?thesis by blast
qed

theorem json_mutations_ok_witness:
  "pred_sum (\<lambda>_. True) json_ok (index_set (JArray [JInt 1 :: nat json]) 3 (JString ''x''))"
  using json_mutations_ok [of "JArray [JInt 1 :: nat json]" "JString ''x''"] by simp

text \<open>What is stored is read back: after \<^verbatim>\<open>v[k] = x\<close> the key holds \<open>x\<close> and the other keys are as
  before, and a null value has become an object; after \<^verbatim>\<open>v[i] = x\<close> index \<open>i\<close> holds \<open>x\<close>, the other
  indices are as before, and an array that was too short is padded with nulls.\<close>

theorem json_read_back:
  "(case key_set v k x of
      Inl _ \<Rightarrow> v \<noteq> JNull \<and> jtype v \<noteq> TObject
    | Inr w \<Rightarrow> At_key w k = Inr x \<and> (k' \<noteq> k \<longrightarrow> v \<noteq> JNull \<longrightarrow> key_const w k' = key_const v k'))
   \<and> (case index_set v i x of
        Inl _ \<Rightarrow> jtype v \<noteq> TArray
      | Inr w \<Rightarrow> At_index w i = Inr x \<and> json_Size w = max (json_Size v) (i + 1)
          \<and> (j \<noteq> i \<longrightarrow> j < json_Size w \<longrightarrow> At_index w j = (if j < json_Size v then At_index v j else Inr JNull)))"
proof -
  have "nth (resize_array a n) j = (if j < length a then a ! j else JNull)" if "j < n" for a :: "'a json list" and n j
    using that by (simp add: resize_array_def nth_append)
  then show ?thesis
    by (cases v) (auto simp: key_set_def as_object_def At_key_def key_const_def update_conv
        index_set_def At_index_def json_Size_def Let_def max_def)
qed

theorem json_read_back_witness:
  "\<exists>w. index_set (JArray [] :: nat json) 2 (JInt 7) = Inr w \<and> At_index w 0 = Inr JNull \<and> json_Size w = 3"
  using json_read_back [where v = "JArray [] :: nat json" and i = 2 and x = "JInt 7" and j = 0]
  by (simp add: index_set_def json_Size_def Let_def)

section \<open>Construction, assignment and the type predicates\<close>

text \<open>The constructors, by the type of their argument. A C string ends at its NUL.\<close>

datatype 'd value_arg =
    From_Nothing
  | From_Bool bool
  | From_Int int
  | From_Double 'd
  | From_CString string
  | From_String string
  | From_Array "'d json list"
  | From_Object "(string \<times> 'd json) list"
  | From_Value "'d json"

fun Value_of :: "'d value_arg \<Rightarrow> 'd json" where
  "Value_of From_Nothing = JNull"
| "Value_of (From_Bool b) = JBool b"
| "Value_of (From_Int i) = JInt i"
| "Value_of (From_Double d) = JDouble d"
| "Value_of (From_CString s) = JString (takeWhile (\<lambda>c. c \<noteq> CHR 0x00) s)"
| "Value_of (From_String s) = JString s"
| "Value_of (From_Array a) = JArray a"
| "Value_of (From_Object a) = JObject a"
| "Value_of (From_Value v) = v"

text \<open>Assignment of another object: the target gets its type and value.\<close>

definition Value_assign :: "'d json \<Rightarrow> 'd json \<Rightarrow> 'd json" where
  "Value_assign this other = other"

definition IsNull :: "'d json \<Rightarrow> bool" where "IsNull v \<longleftrightarrow> jtype v = TNull"
definition IsBool :: "'d json \<Rightarrow> bool" where "IsBool v \<longleftrightarrow> jtype v = TBool"
definition IsInt :: "'d json \<Rightarrow> bool" where "IsInt v \<longleftrightarrow> jtype v = TInt"
definition IsDouble :: "'d json \<Rightarrow> bool" where "IsDouble v \<longleftrightarrow> jtype v = TDouble"
definition IsString :: "'d json \<Rightarrow> bool" where "IsString v \<longleftrightarrow> jtype v = TString"
definition IsArray :: "'d json \<Rightarrow> bool" where "IsArray v \<longleftrightarrow> jtype v = TArray"
definition IsObject :: "'d json \<Rightarrow> bool" where "IsObject v \<longleftrightarrow> jtype v = TObject"

text \<open>An accessor succeeds exactly on the values of its predicate.\<close>

lemma accessors_match:
  "(\<exists>b. AsBool v = Inr b) = IsBool v" "(\<exists>s. AsString v = Inr s) = IsString v"
  "(\<exists>a. AsArray v = Inr a) = IsArray v" "(\<exists>a. AsObject v = Inr a) = IsObject v"
  by (cases v; simp add: AsBool_def AsString_def AsArray_def AsObject_def checkType_def IsBool_def IsString_def IsArray_def IsObject_def)+

end
