(* ===== verification/Json_Generator.thy ===== *)
theory Json_Generator
  imports Json_Value
begin

text \<open>
  \<^verbatim>\<open>src/breutil/json/json_generator.hpp\<close> (class \<^verbatim>\<open>Generator\<close>): the text of a value. \<open>ts\<close> is
  \<^verbatim>\<open>std::to_string(double)\<close>. The source prints the entries of an object after sorting pointers to them;
  the model sorts the pairs of key and printed value, which is the same order. The reservation of
  memory is left out.
\<close>

section \<open>Definitions\<close>

definition appendIndent :: "int \<Rightarrow> int \<Rightarrow> string" where
  "appendIndent w level = replicate (nat (level * w)) (CHR '' '')"

text \<open>\<^verbatim>\<open>to_chars\<close> into 32 characters; the fallback \<^verbatim>\<open>std::to_string\<close> gives the same digits.\<close>

definition appendInt :: "int \<Rightarrow> string" where
  "appendInt v = (let t = to_chars_int 10 v in if length t \<le> 32 then t else to_string_int v)"

definition replacement :: "char \<Rightarrow> string option" where
  "replacement c =
     (if c = CHR 0x22 then Some [CHR 0x5C, CHR 0x22]
      else if c = CHR 0x5C then Some [CHR 0x5C, CHR 0x5C]
      else if c = CHR 0x08 then Some [CHR 0x5C, CHR ''b'']
      else if c = CHR 0x0C then Some [CHR 0x5C, CHR ''f'']
      else if c = CHR 0x0A then Some [CHR 0x5C, CHR ''n'']
      else if c = CHR 0x0D then Some [CHR 0x5C, CHR ''r'']
      else if c = CHR 0x09 then Some [CHR 0x5C, CHR ''t'']
      else None)"

text \<open>The loop copies the run since the last replaced character whenever it meets the next one.\<close>

function quoted_loop :: "string \<Rightarrow> nat \<Rightarrow> nat \<Rightarrow> string \<Rightarrow> string" where
  "quoted_loop v i runStart out =
     (if i < length v then
        (case replacement (v ! i) of
           None \<Rightarrow> quoted_loop v (i + 1) runStart out
         | Some r \<Rightarrow> quoted_loop v (i + 1) (i + 1) (out @ substr v runStart (i - runStart) @ r))
      else out @ substr v runStart (length v - runStart))"
  by pat_completeness auto
termination
  by (relation "measure (\<lambda>(v, i, runStart, out). length v - i)") auto

declare quoted_loop.simps [simp del]

definition appendQuotedString :: "string \<Rightarrow> string" where
  "appendQuotedString v = [CHR 0x22] @ quoted_loop v 0 0 [] @ [CHR 0x22]"

definition nl_if :: "int \<Rightarrow> string" where
  "nl_if w = (if 0 < w then [CHR 0x0A] else [])"

definition indent_if :: "int \<Rightarrow> int \<Rightarrow> string" where
  "indent_if w level = (if 0 < w then appendIndent w level else [])"

text \<open>The elements of an array or object, already printed, with indentation, commas and line ends.\<close>

fun append_items :: "int \<Rightarrow> int \<Rightarrow> string list \<Rightarrow> string" where
  "append_items w level [] = []"
| "append_items w level [t] = indent_if w level @ t @ nl_if w"
| "append_items w level (t # ts) = indent_if w level @ t @ '','' @ nl_if w @ append_items w level ts"

definition appendArray :: "int \<Rightarrow> int \<Rightarrow> string list \<Rightarrow> string" where
  "appendArray w level texts =
     (if texts = [] then ''[]''
      else ''['' @ nl_if w @ append_items w level texts @ indent_if w (level - 1) @ '']'')"

definition member_text :: "int \<Rightarrow> string \<times> string \<Rightarrow> string" where
  "member_text w e = appendQuotedString (fst e) @ (if 0 < w then '': '' else '':'') @ snd e"

definition appendObject :: "int \<Rightarrow> int \<Rightarrow> bool \<Rightarrow> (string \<times> string) list \<Rightarrow> string" where
  "appendObject w level sortKeys texts =
     (if texts = [] then ''{}''
      else
        let entries = (if sortKeys then sort_key fst texts else texts)
        in ''{'' @ nl_if w @ append_items w level (map (member_text w) entries) @ indent_if w (level - 1) @ ''}'')"

fun appendValue :: "('d \<Rightarrow> string) \<Rightarrow> int \<Rightarrow> bool \<Rightarrow> int \<Rightarrow> 'd json \<Rightarrow> string" where
  "appendValue ts w sortKeys level JNull = ''null''"
| "appendValue ts w sortKeys level (JBool b) = (if b then ''true'' else ''false'')"
| "appendValue ts w sortKeys level (JInt i) = appendInt i"
| "appendValue ts w sortKeys level (JDouble d) = ts d"
| "appendValue ts w sortKeys level (JString s) = appendQuotedString s"
| "appendValue ts w sortKeys level (JArray a) =
     appendArray w (level + 1) (map (appendValue ts w sortKeys (level + 1)) a)"
| "appendValue ts w sortKeys level (JObject m) =
     appendObject w (level + 1) sortKeys (map (\<lambda>e. (fst e, appendValue ts w sortKeys (level + 1) (snd e))) m)"

definition generate :: "('d \<Rightarrow> string) \<Rightarrow> 'd json \<Rightarrow> bool \<Rightarrow> int \<Rightarrow> bool \<Rightarrow> string" where
  "generate ts v pretty indentWidth sortKeys = appendValue ts (if pretty then indentWidth else 0) sortKeys 0 v"

definition json_ToString :: "('d \<Rightarrow> string) \<Rightarrow> 'd json \<Rightarrow> bool \<Rightarrow> int \<Rightarrow> bool \<Rightarrow> string" where
  "json_ToString ts v need_indent indent sortKeys = generate ts v need_indent indent sortKeys"

section \<open>Quoting\<close>

definition escape_char :: "char \<Rightarrow> string" where
  "escape_char c = (case replacement c of None \<Rightarrow> [c] | Some r \<Rightarrow> r)"

lemma concat_map_plain: "(\<And>c. c \<in> set xs \<Longrightarrow> f c = [c]) \<Longrightarrow> concat (map f xs) = xs"
  by (induction xs) simp_all

lemma quoted_loop_eq:
  assumes "runStart \<le> i" "i \<le> length v" "\<And>j. runStart \<le> j \<Longrightarrow> j < i \<Longrightarrow> replacement (v ! j) = None"
  shows "quoted_loop v i runStart out = out @ concat (map escape_char (drop runStart v))"
  using assms
proof (induction v i runStart out rule: quoted_loop.induct)
  case (1 v i runStart out)
  have plain: "concat (map escape_char (take (i - runStart) (drop runStart v))) = take (i - runStart) (drop runStart v)"
  proof -
    have "escape_char c = [c]" if "c \<in> set (take (i - runStart) (drop runStart v))" for c
    proof -
      from that obtain j where "j < i - runStart" "c = v ! (runStart + j)"
        using 1(3,4) by (auto simp: in_set_conv_nth)
      then show ?thesis using 1(5) [of "runStart + j"] by (simp add: escape_char_def)
    qed
    then show ?thesis by (rule concat_map_plain)
  qed
  show ?case
  proof (cases "i < length v")
    case True
    have split: "drop runStart v = take (i - runStart) (drop runStart v) @ v ! i # drop (i + 1) v"
      using 1(3) True append_take_drop_id [of "i - runStart" "drop runStart v"] Cons_nth_drop_Suc [OF True] by simp
    show ?thesis
    proof (cases "replacement (v ! i)")
      case None
      have "replacement (v ! j) = None" if "runStart \<le> j" "j < i + 1" for j
        using that None 1(5) less_Suc_eq by auto
      then have "quoted_loop v (i + 1) runStart out = out @ concat (map escape_char (drop runStart v))"
        using 1(1) [OF True None] 1(3) True by simp
      then show ?thesis using True None by (subst quoted_loop.simps) simp
    next
      case (Some r)
      have e: "concat (map escape_char (drop runStart v)) = take (i - runStart) (drop runStart v) @ r @ concat (map escape_char (drop (i + 1) v))"
        by (subst split) (simp only: map_append concat_append plain list.map concat.simps escape_char_def Some option.case)
      have "quoted_loop v (i + 1) (i + 1) (out @ substr v runStart (i - runStart) @ r)
          = (out @ substr v runStart (i - runStart) @ r) @ concat (map escape_char (drop (i + 1) v))"
        using 1(2) [OF True Some] True by simp
      then show ?thesis using True Some e by (subst quoted_loop.simps) (simp add: substr_def)
    qed
  next
    case False
    then have "i = length v" using 1(4) by simp
    then show ?thesis using plain by (subst quoted_loop.simps) (simp add: substr_def)
  qed
qed

lemma appendQuotedString_eq: "appendQuotedString v = [CHR 0x22] @ concat (map escape_char v) @ [CHR 0x22]"
  using quoted_loop_eq [of 0 0 v "[]"] by (simp add: appendQuotedString_def)

section \<open>Reserved capacity\<close>

text \<open>What the text reserves before it is built; it has no influence on the text.\<close>

definition initialCapacity :: "'d json \<Rightarrow> nat" where
  "initialCapacity v =
     (case v of
        JArray xs \<Rightarrow> max 256 (length xs * 16)
      | JObject es \<Rightarrow> max 256 (length es * 24)
      | _ \<Rightarrow> 256)"

end
