(* ===== verification/Json_Parser.thy ===== *)
theory Json_Parser
  imports Json_Generator
begin

text \<open>
  \<^verbatim>\<open>src/breutil/json/json_parse.hpp\<close> (class \<^verbatim>\<open>Parser\<close>). The parser's position is the suffix of the input
  still to be read; an error keeps its message and the number of characters left, which give the
  position of the source's message (its decoration is left out). \<open>fcd\<close> is \<^verbatim>\<open>std::from_chars\<close> for
  \<^verbatim>\<open>double\<close>: the value and the unread rest. The mutually recursive functions take fuel; \<open>parse\<close> gives
  twice the length of the input and two, and a theorem shows that this always suffices.
\<close>

section \<open>Results\<close>

datatype 'a presult = POk 'a string | PErr string nat | PFuel

fun pbind :: "'a presult \<Rightarrow> ('a \<Rightarrow> string \<Rightarrow> 'b presult) \<Rightarrow> 'b presult" where
  "pbind (POk x r) f = f x r"
| "pbind (PErr m n) f = PErr m n"
| "pbind PFuel f = PFuel"

lemma pbind_cong [fundef_cong]:
  "m = m' \<Longrightarrow> (\<And>x r. m' = POk x r \<Longrightarrow> f x r = g x r) \<Longrightarrow> pbind m f = pbind m' g"
  by (cases m') simp_all

definition skipWhitespace :: "string \<Rightarrow> string" where
  "skipWhitespace s = dropWhile isspace s"

definition expect :: "string \<Rightarrow> string \<Rightarrow> unit presult" where
  "expect expected s =
     (if take (length expected) s \<noteq> expected then PErr (''Expected '' @ [CHR 0x27] @ expected @ [CHR 0x27]) (length s)
      else POk () (drop (length expected) s))"

section \<open>Scalars\<close>

definition parseNull :: "string \<Rightarrow> 'd json presult" where
  "parseNull s = pbind (expect ''null'' s) (\<lambda>_ r. POk JNull r)"

definition parseBool :: "string \<Rightarrow> 'd json presult" where
  "parseBool s =
     (if take 4 s = ''true'' then POk (JBool True) (drop 4 s)
      else if take 5 s = ''false'' then POk (JBool False) (drop 5 s)
      else PErr ''Invalid boolean value'' (length s))"

text \<open>Where the number ends, and whether it has integer digits and a fraction or exponent.\<close>

definition skip_sign :: "string \<Rightarrow> string" where
  "skip_sign s = (case s of c # t \<Rightarrow> if c = CHR ''-'' \<or> c = CHR ''+'' then t else s | [] \<Rightarrow> s)"

definition skip_fraction :: "string \<Rightarrow> bool \<times> string" where
  "skip_fraction s = (case s of c # t \<Rightarrow> if c = CHR ''.'' then (True, dropWhile isdigit t) else (False, s) | [] \<Rightarrow> (False, s))"

definition skip_exponent :: "string \<Rightarrow> bool \<times> string" where
  "skip_exponent s =
     (case s of
        c # t \<Rightarrow> if c = CHR ''e'' \<or> c = CHR ''E'' then (True, dropWhile isdigit (skip_sign t)) else (False, s)
      | [] \<Rightarrow> (False, s))"

definition parseNumber :: "(string \<Rightarrow> ('d \<times> string) option) \<Rightarrow> string \<Rightarrow> 'd json presult" where
  "parseNumber fcd start =
     (let intPart = skip_sign start;
          p1 = dropWhile isdigit intPart;
          hasIntDigits = (p1 \<noteq> intPart);
          (frac, p2) = skip_fraction p1;
          (expo, p) = skip_exponent p2;
          isFloat = (frac \<or> expo);
          text = take (length start - length p) start;
          as_double = (case fcd text of
                         Some (d, rest) \<Rightarrow> if rest = [] then POk (JDouble d) p else PErr (''Invalid number: '' @ text) (length p)
                       | None \<Rightarrow> PErr (''Invalid number: '' @ text) (length p))
      in if \<not> isFloat \<and> hasIntDigits
         then (case from_chars_int INT_MIN INT_MAX 10 text of
                 FC_Ok v rest \<Rightarrow> if rest = [] then POk (JInt v) p else as_double
               | _ \<Rightarrow> as_double)
         else as_double)"

definition parseDefault :: "(string \<Rightarrow> ('d \<times> string) option) \<Rightarrow> string \<Rightarrow> 'd json presult" where
  "parseDefault fcd s =
     (if isdigit (hd s) \<or> hd s = CHR ''-'' then parseNumber fcd s else PErr ''Unexpected character'' (length s))"

section \<open>Strings\<close>

definition encode_utf8 :: "u32 \<Rightarrow> byte list option" where
  "encode_utf8 cp =
     (if cp \<le> 0x7F then Some [ucast cp]
      else if cp \<le> 0x7FF then
        Some [0xC0 OR (ucast (drop_bit 6 cp) AND 0x1F), 0x80 OR (ucast cp AND 0x3F)]
      else if cp \<le> 0xFFFF then
        Some [0xE0 OR (ucast (drop_bit 12 cp) AND 0x0F), 0x80 OR (ucast (drop_bit 6 cp) AND 0x3F),
              0x80 OR (ucast cp AND 0x3F)]
      else if cp \<le> 0x10FFFF then
        Some [0xF0 OR (ucast (drop_bit 18 cp) AND 0x07), 0x80 OR (ucast (drop_bit 12 cp) AND 0x3F),
              0x80 OR (ucast (drop_bit 6 cp) AND 0x3F), 0x80 OR (ucast cp AND 0x3F)]
      else None)"

text \<open>Four hexadecimal digits as an \<^verbatim>\<open>unsigned int\<close>.\<close>

definition hex4 :: "string \<Rightarrow> u32 option" where
  "hex4 s =
     (case from_chars_int 0 4294967295 16 (take 4 s) of
        FC_Ok v rest \<Rightarrow> if rest = [] then Some (word_of_int v) else None
      | _ \<Rightarrow> None)"

text \<open>\<^verbatim>\<open>ParseUnicode\<close> from behind the \<^verbatim>\<open>u\<close>: the bytes it appends and what is left.\<close>

definition ParseUnicode :: "string \<Rightarrow> string presult" where
  "ParseUnicode r =
     (if length r \<le> 4 then PErr ''Invalid Unicode escape sequence'' (length r)
      else
        let r4 = drop 4 r in
        case hex4 r of
          None \<Rightarrow> PErr ''Invalid Unicode escape sequence'' (length r4)
        | Some cp \<Rightarrow>
            let finish = (\<lambda>c rest. case encode_utf8 c of
                            None \<Rightarrow> PErr ''Invalid Unicode code point'' (length rest)
                          | Some bs \<Rightarrow> POk (map char_of_byte bs) rest)
            in if 0xD800 \<le> cp \<and> cp \<le> 0xDBFF then
                 if length r4 \<le> 6 \<or> r4 ! 0 \<noteq> CHR 0x5C \<or> r4 ! 1 \<noteq> CHR ''u''
                 then PErr ''Invalid Unicode surrogate pair'' (length r4)
                 else
                   let r10 = drop 6 r4 in
                   case hex4 (drop 2 r4) of
                     None \<Rightarrow> PErr ''Invalid Unicode surrogate pair'' (length r10)
                   | Some low \<Rightarrow>
                       if low < 0xDC00 \<or> 0xDFFF < low then PErr ''Invalid Unicode surrogate pair'' (length r10)
                       else finish (0x10000 + push_bit 10 (cp - 0xD800) + (low - 0xDC00)) r10
               else finish cp r4)"

definition simple_escape :: "char \<Rightarrow> char option" where
  "simple_escape c =
     (if c = CHR 0x22 then Some (CHR 0x22)
      else if c = CHR 0x5C then Some (CHR 0x5C)
      else if c = CHR ''/'' then Some (CHR ''/'')
      else if c = CHR ''b'' then Some (CHR 0x08)
      else if c = CHR ''f'' then Some (CHR 0x0C)
      else if c = CHR ''n'' then Some (CHR 0x0A)
      else if c = CHR ''r'' then Some (CHR 0x0D)
      else if c = CHR ''t'' then Some (CHR 0x09)
      else None)"

definition in_run :: "char \<Rightarrow> bool" where
  "in_run c \<longleftrightarrow> c \<noteq> CHR 0x22 \<and> c \<noteq> CHR 0x5C"

lemma ParseUnicode_shorter: "ParseUnicode r = POk x r' \<Longrightarrow> length r' < length r"
  by (auto simp: ParseUnicode_def Let_def split: if_splits option.splits)

text \<open>The loop of \<^verbatim>\<open>parseStringContent\<close> behind the opening quote, and the final \<^verbatim>\<open>expect\<close>.\<close>

function string_loop :: "string \<Rightarrow> string presult" where
  "string_loop s =
     (case s of
        [] \<Rightarrow> pbind (expect [CHR 0x22] s) (\<lambda>_ r. POk [] r)
      | c # t \<Rightarrow>
          if c = CHR 0x22 then pbind (expect [CHR 0x22] s) (\<lambda>_ r. POk [] r)
          else if c = CHR 0x5C then
            (case t of
               [] \<Rightarrow> PErr ''Invalid escape sequence'' 0
             | e # r \<Rightarrow>
                 if e = CHR ''u'' then
                   pbind (ParseUnicode r) (\<lambda>x r'. pbind (string_loop r') (\<lambda>y r''. POk (x @ y) r''))
                 else
                   (case simple_escape e of
                      None \<Rightarrow> PErr ''Invalid escape character'' (length t)
                    | Some x \<Rightarrow> pbind (string_loop r) (\<lambda>y r''. POk (x # y) r'')))
          else pbind (string_loop (dropWhile in_run s)) (\<lambda>y r''. POk (takeWhile in_run s @ y) r''))"
  by pat_completeness auto
termination
proof (relation "measure length")
  fix s :: string and c t
  assume "s = c # t" "c \<noteq> CHR 0x22" "c \<noteq> CHR 0x5C"
  then have "length (dropWhile in_run s) \<le> length t" by (simp add: in_run_def length_dropWhile_le)
  then show "(dropWhile in_run s, s) \<in> measure length" using \<open>s = c # t\<close> by simp
qed (auto dest: ParseUnicode_shorter)

declare string_loop.simps [simp del]

definition parseStringContent :: "string \<Rightarrow> string presult" where
  "parseStringContent s = pbind (expect [CHR 0x22] s) (\<lambda>_ r. string_loop r)"

section \<open>Arrays and objects\<close>

text \<open>\<open>parse_elements\<close> and \<open>parse_members\<close> are the loops of \<^verbatim>\<open>parseArray\<close> and \<^verbatim>\<open>parseObject\<close>; \<open>acc\<close> is the value
  under construction.\<close>

fun parseValue :: "(string \<Rightarrow> ('d \<times> string) option) \<Rightarrow> nat \<Rightarrow> string \<Rightarrow> 'd json presult"
  and parse_elements :: "(string \<Rightarrow> ('d \<times> string) option) \<Rightarrow> nat \<Rightarrow> 'd json list \<Rightarrow> string \<Rightarrow> 'd json presult"
  and parse_members :: "(string \<Rightarrow> ('d \<times> string) option) \<Rightarrow> nat \<Rightarrow> (string \<times> 'd json) list \<Rightarrow> string \<Rightarrow> 'd json presult" where
  "parseValue fcd 0 s0 = PFuel"
| "parseValue fcd (Suc n) s0 =
     (let s = skipWhitespace s0 in
      if s = [] then PErr ''Unexpected end of input'' 0
      else if hd s = CHR ''n'' then parseNull s
      else if hd s = CHR ''t'' \<or> hd s = CHR ''f'' then parseBool s
      else if hd s = CHR 0x22 then pbind (parseStringContent s) (\<lambda>str r. POk (JString str) r)
      else if hd s = CHR ''['' then
        pbind (expect ''['' s) (\<lambda>_ r.
          let r = skipWhitespace r in
          if r \<noteq> [] \<and> hd r = CHR '']'' then POk (JArray []) (tl r) else parse_elements fcd n [] r)
      else if hd s = CHR ''{'' then
        pbind (expect ''{'' s) (\<lambda>_ r.
          let r = skipWhitespace r in
          if r \<noteq> [] \<and> hd r = CHR ''}'' then POk (JObject []) (tl r) else parse_members fcd n [] r)
      else parseDefault fcd s)"
| "parse_elements fcd 0 acc s = PFuel"
| "parse_elements fcd (Suc n) acc s =
     pbind (parseValue fcd n s) (\<lambda>v r0.
       let r = skipWhitespace r0 in
       if r = [] then PErr ''Unexpected end of array'' 0
       else if hd r = CHR '','' then parse_elements fcd n (acc @ [v]) (skipWhitespace (tl r))
       else if hd r = CHR '']'' then POk (JArray (acc @ [v])) (tl r)
       else PErr (''Expected '' @ [CHR 0x27] @ '','' @ [CHR 0x27] @ '' or '' @ [CHR 0x27] @ '']'' @ [CHR 0x27]) (length r))"
| "parse_members fcd 0 acc s = PFuel"
| "parse_members fcd (Suc n) acc s =
     (if s = [] then PErr ''Unexpected end of object'' 0
      else if hd s \<noteq> CHR 0x22 then PErr ''Expected string key'' (length s)
      else
        pbind (parseStringContent s) (\<lambda>key r1.
        pbind (expect '':'' (skipWhitespace r1)) (\<lambda>_ r2.
        pbind (parseValue fcd n r2) (\<lambda>v r3.
          let acc' = AList.update key v acc; r = skipWhitespace r3 in
          if r = [] then PErr ''Unexpected end of object'' 0
          else if hd r = CHR '','' then parse_members fcd n acc' (skipWhitespace (tl r))
          else if hd r = CHR ''}'' then POk (JObject acc') (tl r)
          else PErr (''Expected '' @ [CHR 0x27] @ '','' @ [CHR 0x27] @ '' or '' @ [CHR 0x27] @ ''}'' @ [CHR 0x27]) (length r)))))"

section \<open>Cleaning the input\<close>

text \<open>\<open>prev\<close> is the character before the current one.\<close>

fun tail_comma_loop :: "char option \<Rightarrow> bool \<Rightarrow> bool \<Rightarrow> bool \<Rightarrow> string \<Rightarrow> string" where
  "tail_comma_loop prev inString inArray inObject [] = []"
| "tail_comma_loop prev inString inArray inObject (c # cs) =
     (let inS = (if c = CHR 0x22 \<and> prev \<noteq> Some (CHR 0x5C) then \<not> inString else inString) in
      if inS then c # tail_comma_loop (Some c) inS inArray inObject cs
      else
        let inA = (if c = CHR ''['' then True else if c = CHR '']'' then False else inArray);
            inO = (if c = CHR ''['' \<or> c = CHR '']'' then inObject
                   else if c = CHR ''{'' then True else if c = CHR ''}'' then False else inObject);
            next = dropWhile isspace cs
        in if (inA \<or> inO) \<and> c = CHR '','' \<and> next \<noteq> [] \<and> (hd next = CHR '']'' \<or> hd next = CHR ''}'')
           then tail_comma_loop (Some c) inS inA inO cs
           else c # tail_comma_loop (Some c) inS inA inO cs)"

definition removeTailComma :: "string \<Rightarrow> string" where
  "removeTailComma str = tail_comma_loop None False False False str"

datatype comment_mode = NoComment | SingleLine | MultiLine

text \<open>\<open>p2\<close> and \<open>p1\<close> are the two characters before the current one.\<close>

fun comments_loop :: "char option \<Rightarrow> char option \<Rightarrow> bool \<Rightarrow> comment_mode \<Rightarrow> string \<Rightarrow> string" where
  "comments_loop p2 p1 inString mode [] = []"
| "comments_loop p2 p1 inString SingleLine (c # cs) =
     (if c = CHR 0x0A then c # comments_loop p1 (Some c) inString NoComment cs
      else comments_loop p1 (Some c) inString SingleLine cs)"
| "comments_loop p2 p1 inString MultiLine (c # cs) =
     (if c = CHR ''*'' \<and> cs \<noteq> [] \<and> hd cs = CHR ''/''
      then comments_loop (Some c) (Some (hd cs)) inString NoComment (tl cs)
      else comments_loop p1 (Some c) inString MultiLine cs)"
| "comments_loop p2 p1 inString NoComment (c # cs) =
     (if c = CHR 0x22 \<and> (p1 \<noteq> Some (CHR 0x5C) \<or> p2 = Some (CHR 0x5C))
      then c # comments_loop p1 (Some c) (\<not> inString) NoComment cs
      else if \<not> inString \<and> c = CHR ''/'' \<and> cs \<noteq> [] \<and> hd cs = CHR ''/''
      then comments_loop (Some c) (Some (hd cs)) inString SingleLine (tl cs)
      else if \<not> inString \<and> c = CHR ''/'' \<and> cs \<noteq> [] \<and> hd cs = CHR ''*''
      then comments_loop (Some c) (Some (hd cs)) inString MultiLine (tl cs)
      else c # comments_loop p1 (Some c) inString NoComment cs)"

definition removeComments :: "string \<Rightarrow> string" where
  "removeComments str = comments_loop None None False NoComment str"

section \<open>Entry point\<close>

text \<open>What \<^verbatim>\<open>Parser::parse\<close> returns or throws: the value, or the message and the position.\<close>

datatype 'd parse_outcome = Parsed "'d json" | ParseError string nat | NoFuel

definition run_parser :: "(string \<Rightarrow> ('d \<times> string) option) \<Rightarrow> string \<Rightarrow> 'd parse_outcome" where
  "run_parser fcd input =
     (case parseValue fcd (2 * length input + 2) input of
        POk v _ \<Rightarrow> Parsed v
      | PErr message left \<Rightarrow> ParseError message (length input - left)
      | PFuel \<Rightarrow> NoFuel)"

definition json_parse :: "(string \<Rightarrow> ('d \<times> string) option) \<Rightarrow> string \<Rightarrow> bool \<Rightarrow> 'd parse_outcome" where
  "json_parse fcd str is_strict =
     (if is_strict then run_parser fcd str else run_parser fcd (removeComments (removeTailComma str)))"

section \<open>Fuel\<close>

text \<open>A result is good for the input \<open>s\<close> when it is not the lack of fuel: a value that satisfies \<open>P\<close>
  with some of \<open>s\<close> consumed, or an error at a position within \<open>s\<close>.\<close>

definition good :: "('a \<Rightarrow> bool) \<Rightarrow> string \<Rightarrow> 'a presult \<Rightarrow> bool" where
  "good P s m = (case m of POk v r \<Rightarrow> length r < length s \<and> P v | PErr _ k \<Rightarrow> k \<le> length s | PFuel \<Rightarrow> False)"

lemma good_simps [simp]:
  "good P s (POk v r) \<longleftrightarrow> length r < length s \<and> P v" "good P s (PErr m k) \<longleftrightarrow> k \<le> length s" "\<not> good P s PFuel"
  by (simp_all add: good_def)

lemma good_bind:
  assumes "good P s m" "length s \<le> length t" "\<And>x r. P x \<Longrightarrow> length r < length s \<Longrightarrow> good Q t (f x r)"
  shows "good Q t (pbind m f)"
  using assms by (cases m) auto

lemma good_mono: "good P s m \<Longrightarrow> length s \<le> length t \<Longrightarrow> (\<And>x. P x \<Longrightarrow> Q x) \<Longrightarrow> good Q t m"
  by (cases m) auto

lemma length_skipWhitespace: "length (skipWhitespace s) \<le> length s"
  by (simp add: skipWhitespace_def length_dropWhile_le)

lemma good_expect: "e \<noteq> [] \<Longrightarrow> good (\<lambda>_. True) s (expect e s)"
proof -
  assume "e \<noteq> []"
  moreover have "length e \<le> length s" if "take (length e) s = e" using arg_cong [OF that, of length] by simp
  ultimately show ?thesis by (cases e; cases s) (auto simp: expect_def)
qed

lemma good_ParseUnicode: "good (\<lambda>_. True) r (ParseUnicode r)"
  by (auto simp: ParseUnicode_def Let_def split: option.splits)

lemma good_string_loop: "good (\<lambda>_. True) (CHR 0x22 # s) (string_loop s)"
proof (induction s rule: string_loop.induct)
  case (1 s)
  have keep: "good (\<lambda>_. True) (CHR 0x22 # s) (pbind (string_loop r) (\<lambda>y r''. POk (g y) r''))"
    if "good (\<lambda>_. True) (CHR 0x22 # r) (string_loop r)" "length r \<le> length s" for g r
    using that by (auto intro!: good_bind)
  show ?case
  proof (cases s)
    case Nil
    then show ?thesis by (subst string_loop.simps) (simp add: expect_def)
  next
    case (Cons c t)
    consider "c = CHR 0x22" | "c = CHR 0x5C" | "c \<noteq> CHR 0x22" "c \<noteq> CHR 0x5C" by blast
    then show ?thesis
    proof cases
      case 1
      then show ?thesis using Cons by (subst string_loop.simps) (simp add: expect_def)
    next
      case 2
      show ?thesis
      proof (cases t)
        case Nil
        then show ?thesis using Cons 2 by (subst string_loop.simps) simp
      next
        case (Cons e r)
        note st = \<open>s = c # t\<close> Cons
        show ?thesis
        proof (cases "e = CHR ''u''")
          case True
          have "good (\<lambda>_. True) (CHR 0x22 # s) (pbind (ParseUnicode r) (\<lambda>x r'. pbind (string_loop r') (\<lambda>y r''. POk (x @ y) r'')))"
          proof (cases "ParseUnicode r")
            case (POk x r')
            then show ?thesis using keep [OF 1(1) [OF st(1) _ _ st(2) True POk]] ParseUnicode_shorter [OF POk] st 2 by simp
          qed (use good_ParseUnicode [of r] st in auto)
          then show ?thesis using st 2 True by (subst string_loop.simps) simp
        next
          case False
          have "good (\<lambda>_. True) (CHR 0x22 # r) (string_loop r)" if "simple_escape e = Some x" for x
            using 1(2) [OF st(1) _ _ st(2) False that] 2 by simp
          then show ?thesis using keep [of r] st 2 False by (subst string_loop.simps) (auto split: option.split)
        qed
      qed
    next
      case 3
      then show ?thesis using keep [OF 1(3) [OF Cons 3]] Cons length_dropWhile_le [of in_run t]
        by (subst string_loop.simps) (simp add: in_run_def)
    qed
  qed
qed

lemma good_parseStringContent: "good (\<lambda>_. True) s (parseStringContent s)"
  unfolding parseStringContent_def
proof (rule good_bind [OF good_expect])
  fix x and r :: string assume "length r < length s"
  then show "good (\<lambda>_. True) s (string_loop r)" by (intro good_mono [OF good_string_loop]) auto
qed auto

lemma good_parseNumber:
  assumes "s \<noteq> []" "isdigit (hd s) \<or> hd s = CHR ''-''"
  shows "good json_ok s (parseNumber fcd s)"
proof -
  define p1 where "p1 = dropWhile isdigit (skip_sign s)"
  define p2 where "p2 = snd (skip_fraction p1)"
  define p where "p = snd (skip_exponent p2)"
  have sg: "length (skip_sign t) \<le> length t" for t by (auto simp: skip_sign_def split: list.split)
  have "length p1 < length s"
  proof (cases s)
    case (Cons c t)
    show ?thesis
    proof (cases "isdigit c")
      case True
      then have "c \<noteq> CHR ''-''" "c \<noteq> CHR ''+''" by (auto simp: isdigit_def)
      then show ?thesis using Cons True length_dropWhile_le [of isdigit t] by (simp add: p1_def skip_sign_def)
    next
      case False
      then show ?thesis using Cons assms length_dropWhile_le [of isdigit t] by (simp add: p1_def skip_sign_def)
    qed
  qed (use assms in simp)
  moreover have "length p2 \<le> length p1"
    by (auto simp: p2_def skip_fraction_def le_SucI length_dropWhile_le split: list.split)
  moreover have "length p \<le> length p2"
    using sg length_dropWhile_le [of isdigit] by (auto simp: p_def skip_exponent_def split: list.split intro: le_SucI order_trans)
  ultimately have l: "length p < length s" by linarith
  have int: "INT_MIN \<le> v \<and> v \<le> INT_MAX" if "from_chars_int INT_MIN INT_MAX 10 t = FC_Ok v r" for t v r
    using that by (auto simp: from_chars_int_def Let_def split: if_splits)
  show ?thesis
    using l unfolding parseNumber_def Let_def p_def p2_def p1_def
    by (auto split: prod.split option.split from_chars_result.split dest: int)
qed

lemma good_scalars:
  assumes "s \<noteq> []"
  shows "good json_ok s (parseNull s)" "good json_ok s (parseBool s)" "good json_ok s (parseDefault fcd s)"
proof -
  show "good json_ok s (parseNull s)"
    unfolding parseNull_def by (rule good_bind [OF good_expect]) auto
  show "good json_ok s (parseBool s)" using assms by (simp add: parseBool_def)
  show "good json_ok s (parseDefault fcd s)" using assms good_parseNumber [of s fcd] by (simp add: parseDefault_def)
qed

lemma skip_shorter: "length r < length s \<Longrightarrow> length (skipWhitespace r) < length s"
  using length_skipWhitespace [of r] by linarith

lemma skip_tl_shorter: "r \<noteq> [] \<Longrightarrow> length (skipWhitespace (tl r)) < length r"
  using length_skipWhitespace [of "tl r"] by (cases r) auto

text \<open>One unfolding of each function, given that the calls it makes are good.\<close>

lemma good_group:
  assumes "length t \<le> length s" "json_ok x" "\<And>r. length r < length t \<Longrightarrow> good json_ok r (f r)"
  shows "good json_ok s (pbind (expect [b] t) (\<lambda>_ r. let r = skipWhitespace r in
    if r \<noteq> [] \<and> hd r = e then POk x (tl r) else f r))"
proof (rule good_bind [OF good_expect assms(1)])
  fix r :: string assume "length r < length t"
  then have u: "length (skipWhitespace r) < length t" by (rule skip_shorter)
  then have "good json_ok s (f (skipWhitespace r))" using good_mono [OF assms(3) [OF u]] assms(1) by simp
  then show "good json_ok s (let r = skipWhitespace r in if r \<noteq> [] \<and> hd r = e then POk x (tl r) else f r)"
    using u assms(1,2) by (auto simp: Let_def)
qed simp

lemma good_parseValue_step:
  fixes fcd :: "string \<Rightarrow> ('d \<times> string) option"
  assumes "\<And>r. length r < length s \<Longrightarrow> good json_ok r (parse_elements fcd n [] r)"
    and "\<And>r. length r < length s \<Longrightarrow> good json_ok r (parse_members fcd n [] r)"
  shows "good json_ok s (parseValue fcd (Suc n) s)"
proof -
  define t where "t = skipWhitespace s"
  have ts: "length t \<le> length s" by (simp add: t_def length_skipWhitespace)
  have "good json_ok s (parseNull t :: 'd json presult)" "good json_ok s (parseBool t :: 'd json presult)"
    "good json_ok s (parseDefault fcd t)" if "t \<noteq> []"
    using good_scalars [OF that] ts by (blast intro: good_mono)+
  moreover have "good json_ok s (pbind (parseStringContent t) (\<lambda>str r. POk (JString str :: 'd json) r))"
    by (rule good_bind [OF good_parseStringContent ts]) (use ts in auto)
  moreover have "good json_ok s (pbind (expect ''['' t) (\<lambda>_ r. let r = skipWhitespace r in
      if r \<noteq> [] \<and> hd r = CHR '']'' then POk (JArray []) (tl r) else parse_elements fcd n [] r))"
    using assms(1) ts by (intro good_group) auto
  moreover have "good json_ok s (pbind (expect ''{'' t) (\<lambda>_ r. let r = skipWhitespace r in
      if r \<noteq> [] \<and> hd r = CHR ''}'' then POk (JObject []) (tl r) else parse_members fcd n [] r))"
    using assms(2) ts by (intro good_group) auto
  ultimately show ?thesis unfolding parseValue.simps t_def [symmetric] Let_def [of t]
    by (simp only: good_simps le0 if_split refl) blast
qed

lemma good_next:
  assumes "length r0 < length s" "json_ok x" "\<And>r. length r < length s \<Longrightarrow> good json_ok r (f r)"
  shows "good json_ok s (let r = skipWhitespace r0 in
     if r = [] then PErr m1 0
     else if hd r = CHR '','' then f (skipWhitespace (tl r))
     else if hd r = e then POk x (tl r) else PErr m2 (length r))"
proof -
  have r: "length (skipWhitespace r0) < length s" by (rule skip_shorter [OF assms(1)])
  have "good json_ok s (f (skipWhitespace (tl (skipWhitespace r0))))" if "skipWhitespace r0 \<noteq> []"
    using skip_tl_shorter [OF that] r by (intro good_mono [OF assms(3)]) auto
  then show ?thesis using r assms(2) by (auto simp: Let_def)
qed

lemma good_elements_step:
  assumes "good json_ok s (parseValue fcd n s)"
    and "\<And>v r. json_ok v \<Longrightarrow> length r < length s \<Longrightarrow> good json_ok r (parse_elements fcd n (acc @ [v]) r)"
    and "list_all json_ok acc"
  shows "good json_ok s (parse_elements fcd (Suc n) acc s)"
  unfolding parse_elements.simps
  by (rule good_bind [OF assms(1) order_refl], rule good_next) (use assms in auto)

lemma good_if: "(b \<Longrightarrow> good P s x) \<Longrightarrow> (\<not> b \<Longrightarrow> good P s y) \<Longrightarrow> good P s (if b then x else y)"
  by simp

lemma good_key:
  assumes "\<And>key r. length r < length s \<Longrightarrow> good P s (f key r)"
  shows "good P s (pbind (parseStringContent s) (\<lambda>key r1. pbind (expect '':'' (skipWhitespace r1)) (\<lambda>_ r. f key r)))"
proof (rule good_bind [OF good_parseStringContent order_refl])
  fix key and r1 :: string assume "length r1 < length s"
  then have "length (skipWhitespace r1) < length s" by (rule skip_shorter)
  then show "good P s (pbind (expect '':'' (skipWhitespace r1)) (\<lambda>_ r. f key r))"
    using assms by (intro good_bind [OF good_expect]) auto
qed

lemma good_members_step:
  fixes fcd :: "string \<Rightarrow> ('d \<times> string) option"
  assumes "\<And>r. length r < length s \<Longrightarrow> good json_ok r (parseValue fcd n r)"
    and "\<And>m r. json_ok (JObject m) \<Longrightarrow> length r < length s \<Longrightarrow> good json_ok r (parse_members fcd n m r)"
    and "json_ok (JObject mem)"
  shows "good json_ok s (parse_members fcd (Suc n) mem s)"
proof -
  have step: "good json_ok s (pbind (parseValue fcd n r2) (\<lambda>v r3.
      let acc' = AList.update key v mem; r = skipWhitespace r3 in
      if r = [] then PErr ''Unexpected end of object'' 0
      else if hd r = CHR '','' then parse_members fcd n acc' (skipWhitespace (tl r))
      else if hd r = CHR ''}'' then POk (JObject acc') (tl r)
      else PErr (''Expected '' @ [CHR 0x27] @ '','' @ [CHR 0x27] @ '' or '' @ [CHR 0x27] @ ''}'' @ [CHR 0x27]) (length r)))"
    if r2: "length r2 < length s" for key r2
  proof (rule good_bind [OF assms(1) [OF r2] less_imp_le [OF r2]])
    fix v :: "'d json" and r3 :: string assume "json_ok v" "length r3 < length r2"
    moreover from this have "json_ok (JObject (AList.update key v mem))" using alist_update_ok [of mem json_ok v key] assms(3) by simp
    ultimately show "good json_ok s (let acc' = AList.update key v mem; r = skipWhitespace r3 in
      if r = [] then PErr ''Unexpected end of object'' 0
      else if hd r = CHR '','' then parse_members fcd n acc' (skipWhitespace (tl r))
      else if hd r = CHR ''}'' then POk (JObject acc') (tl r)
      else PErr (''Expected '' @ [CHR 0x27] @ '','' @ [CHR 0x27] @ '' or '' @ [CHR 0x27] @ ''}'' @ [CHR 0x27]) (length r))"
      using assms(2) r2 unfolding Let_def [of "AList.update key v mem"] by (intro good_next) auto
  qed
  show ?thesis
    unfolding parse_members.simps by (intro good_if good_key step) auto
qed

lemma good_parse:
  "(2 * length s + 1 \<le> n \<longrightarrow> good json_ok s (parseValue fcd n s))
   \<and> (2 * length s + 2 \<le> n \<longrightarrow> list_all json_ok acc \<longrightarrow> good json_ok s (parse_elements fcd n acc s))
   \<and> (2 * length s + 2 \<le> n \<longrightarrow> json_ok (JObject mem) \<longrightarrow> good json_ok s (parse_members fcd n mem s))"
proof (induction n arbitrary: s acc mem)
  case 0
  then show ?case by simp
next
  case (Suc n)
  note val = Suc.IH [THEN conjunct1, rule_format]
    and els = Suc.IH [THEN conjunct2, THEN conjunct1, rule_format]
    and mem = Suc.IH [THEN conjunct2, THEN conjunct2, rule_format]
  show ?case
    by (intro conjI impI good_parseValue_step good_elements_step good_members_step val els mem) auto
qed

end
