(* ===== verification/Json_Round_Trip.thy ===== *)
theory Json_Round_Trip
  imports Json_Parser
begin

text \<open>
  The generator (\<^verbatim>\<open>json_generator.hpp\<close>) and the parser (\<^verbatim>\<open>json_parse.hpp\<close>) together: what the one
  prints the other reads. \<open>parses_as\<close> is the invariant of the proof, one lemma per kind of value; the
  theorems are the round trip, canonical sorted texts, totality of the parser and what the default
  mode does to strings.
\<close>

section \<open>Reading back what the generator writes\<close>

lemma string_loop_quote [simp]: "string_loop (CHR 0x22 # r) = POk [] r"
  by (subst string_loop.simps) (simp add: expect_def)

lemma string_loop_escape:
  "e \<noteq> CHR ''u'' \<Longrightarrow> simple_escape e = Some x \<Longrightarrow>
   string_loop (CHR 0x5C # e # r) = pbind (string_loop r) (\<lambda>y r''. POk (x # y) r'')"
  by (subst string_loop.simps) simp

lemma string_loop_plain:
  assumes "in_run c"
  shows "string_loop (c # t) = pbind (string_loop t) (\<lambda>y r''. POk (c # y) r'')"
proof (cases "t \<noteq> [] \<and> in_run (hd t)")
  case True
  then obtain d u where t: "t = d # u" "in_run d" by (cases t) auto
  have "string_loop t = pbind (string_loop (dropWhile in_run t)) (\<lambda>y r''. POk (takeWhile in_run t @ y) r'')"
    using t by (subst string_loop.simps) (simp add: in_run_def)
  moreover have "string_loop (c # t) = pbind (string_loop (dropWhile in_run t)) (\<lambda>y r''. POk (c # takeWhile in_run t @ y) r'')"
    using assms by (subst string_loop.simps) (simp add: in_run_def)
  ultimately show ?thesis by (cases "string_loop (dropWhile in_run t)") simp_all
next
  case False
  then have "dropWhile in_run t = t" "takeWhile in_run t = []" by (cases t; simp)+
  then show ?thesis using assms by (subst string_loop.simps) (simp add: in_run_def)
qed

lemma string_loop_escaped: "string_loop (concat (map escape_char s) @ CHR 0x22 # r) = POk s r"
proof (induction s)
  case (Cons c s)
  have "string_loop (escape_char c @ t) = pbind (string_loop t) (\<lambda>y r''. POk (c # y) r'')" for t
  proof (cases "replacement c")
    case None
    then have "in_run c" by (auto simp: replacement_def in_run_def split: if_splits)
    then show ?thesis using None by (simp add: escape_char_def string_loop_plain)
  next
    case (Some e)
    then show ?thesis
      by (auto simp: escape_char_def replacement_def string_loop_escape simple_escape_def split: if_splits)
  qed
  then show ?case using Cons by simp
qed simp

lemma parseStringContent_quoted: "parseStringContent (appendQuotedString s @ r) = POk s r"
  using string_loop_escaped [of s r] by (simp add: appendQuotedString_eq parseStringContent_def expect_def)

subsection \<open>Texts of values\<close>

text \<open>What may stand behind a number without becoming part of it.\<close>

definition stop :: "string \<Rightarrow> bool" where
  "stop r = (case r of [] \<Rightarrow> True | c # _ \<Rightarrow> \<not> isdigit c \<and> c \<noteq> CHR ''.'' \<and> c \<noteq> CHR ''e'' \<and> c \<noteq> CHR ''E'')"

lemma skipWhitespace_idem [simp]: "skipWhitespace (skipWhitespace s) = skipWhitespace s"
  by (simp add: skipWhitespace_def)

lemma skipWhitespace_append [simp]: "list_all isspace w \<Longrightarrow> skipWhitespace (w @ s) = skipWhitespace s"
  by (simp add: skipWhitespace_def list_all_iff dropWhile_append2)

lemma skipWhitespace_Cons [simp]: "\<not> isspace c \<Longrightarrow> skipWhitespace (c # s) = c # s"
  by (simp add: skipWhitespace_def)

lemma parseValue_skip [simp]: "parseValue fcd n (skipWhitespace s) = parseValue fcd n s"
  by (cases n) simp_all

text \<open>\<open>t\<close> is a text of \<open>v\<close>: with sufficient fuel it is read as \<open>v\<close>, whatever stops it.\<close>

definition parses_as :: "(string \<Rightarrow> ('d \<times> string) option) \<Rightarrow> string \<Rightarrow> 'd json \<Rightarrow> bool" where
  "parses_as fcd t v \<longleftrightarrow> (\<forall>n r. stop r \<longrightarrow> 2 * length (t @ r) + 1 \<le> n \<longrightarrow> parseValue fcd n (t @ r) = POk v r)"

lemma parses_asI:
  assumes "\<And>n r. stop r \<Longrightarrow> 2 * length (t @ r) \<le> n \<Longrightarrow> parseValue fcd (Suc n) (t @ r) = POk v r"
  shows "parses_as fcd t v"
  unfolding parses_as_def
proof (intro allI impI)
  fix n r assume "stop r" "2 * length (t @ r) + 1 \<le> n"
  then show "parseValue fcd n (t @ r) = POk v r" using assms by (cases n) auto
qed

lemma parses_asD: "parses_as fcd t v \<Longrightarrow> stop r \<Longrightarrow> 2 * length (t @ r) + 1 \<le> n \<Longrightarrow> parseValue fcd n (t @ r) = POk v r"
  by (simp add: parses_as_def)

lemma parses_as_ws:
  assumes "parses_as fcd t v" "stop r" "list_all isspace w" "2 * length (w @ t @ r) + 1 \<le> n"
  shows "parseValue fcd n (w @ t @ r) = POk v r"
  using parses_asD [OF assms(1,2), of n] assms(4) parseValue_skip [of fcd n "w @ t @ r"] parseValue_skip [of fcd n "t @ r"]
    skipWhitespace_append [OF assms(3), of "t @ r"] by simp

lemma stop_ws: "list_all isspace w \<Longrightarrow> stop r \<Longrightarrow> stop (w @ r)"
  by (cases w) (auto simp: stop_def isspace_def isdigit_def)

lemma parses_as_scalars:
  "parses_as fcd ''null'' JNull" "parses_as fcd ''true'' (JBool True)" "parses_as fcd ''false'' (JBool False)"
  "parses_as fcd (appendQuotedString s) (JString s)"
proof -
  have "hd (appendQuotedString s @ r) = CHR 0x22" "appendQuotedString s @ r \<noteq> []"
    "skipWhitespace (appendQuotedString s @ r) = appendQuotedString s @ r" for r
    by (simp_all add: appendQuotedString_def isspace_def)
  then show "parses_as fcd (appendQuotedString s) (JString s)"
    by (intro parses_asI) (simp add: parseStringContent_quoted Let_def)
qed (rule parses_asI; simp add: isspace_def parseNull_def parseBool_def expect_def)+

lemma number_start:
  assumes "isdigit c \<or> c = CHR ''-''"
  shows "\<not> isspace c" "c \<noteq> CHR ''n''" "c \<noteq> CHR ''t''" "c \<noteq> CHR ''f''" "c \<noteq> CHR 0x22" "c \<noteq> CHR ''[''" "c \<noteq> CHR ''{''"
  using assms by (auto simp: isdigit_def isspace_def)

lemma parseValue_number:
  assumes "t \<noteq> []" "isdigit (hd t) \<or> hd t = CHR ''-''"
  shows "parseValue fcd (Suc n) (t @ r) = parseNumber fcd (t @ r)"
  using assms number_start [OF assms(2)] by (cases t) (auto simp: parseDefault_def)

lemma parses_as_int:
  assumes "INT_MIN \<le> i" "i \<le> INT_MAX"
  shows "parses_as fcd (to_chars_int 10 i) (JInt i)"
proof (rule parses_asI)
  fix n r assume r: "stop r"
  define ds where "ds = to_digits 10 (nat \<bar>i\<bar>)"
  have ds: "list_all isdigit ds" "ds \<noteq> []" using list_all_to_digits [of 10 "nat \<bar>i\<bar>"] by (simp_all add: ds_def)
  then have hd: "isdigit (hd ds)" "hd ds \<noteq> CHR ''-''" "hd ds \<noteq> CHR ''+''" by (cases ds; auto simp: isdigit_def)+
  have t: "to_chars_int 10 i = (if i < 0 then CHR ''-'' # ds else ds)" by (simp add: to_chars_int_def ds_def)
  have sign: "skip_sign (to_chars_int 10 i @ r) = ds @ r"
    using hd ds(2) by (cases ds) (auto simp: t skip_sign_def)
  have drop: "dropWhile isdigit (ds @ r) = r"
    using takeWhile_digits_append(2) [OF ds(1), of r] r by (auto simp: stop_def split: list.splits)
  have fr: "skip_fraction r = (False, r)" "skip_exponent r = (False, r)"
    using r by (auto simp: stop_def skip_fraction_def skip_exponent_def split: list.splits)
  have "from_chars_int INT_MIN INT_MAX 10 (to_chars_int 10 i) = FC_Ok i []"
    using from_chars_to_chars [of 10 INT_MIN i INT_MAX "[]"] assms by (simp add: no_digit_next_def)
  then have "parseNumber fcd (to_chars_int 10 i @ r) = POk (JInt i) r"
    unfolding parseNumber_def Let_def sign drop fr split using ds(2) by simp
  moreover have "to_chars_int 10 i \<noteq> []" "isdigit (hd (to_chars_int 10 i)) \<or> hd (to_chars_int 10 i) = CHR ''-''"
    using ds(2) hd by (auto simp: t)
  ultimately show "parseValue fcd (Suc n) (to_chars_int 10 i @ r) = POk (JInt i) r" using parseValue_number by metis
qed

text \<open>The form of \<^verbatim>\<open>std::to_string(double)\<close> of a finite number.\<close>

definition fixed_notation :: "string \<Rightarrow> bool" where
  "fixed_notation t =
     (t \<noteq> [] \<and> (isdigit (hd t) \<or> hd t = CHR ''-'')
      \<and> (case dropWhile isdigit (skip_sign t) of c # ds \<Rightarrow> c = CHR ''.'' \<and> list_all isdigit ds | [] \<Rightarrow> False))"

lemma parses_as_double:
  assumes "fixed_notation t" "fcd t = Some (d, [])"
  shows "parses_as fcd t (JDouble d)"
proof (rule parses_asI)
  fix n r assume r: "stop r"
  from assms(1) obtain ds where ds: "dropWhile isdigit (skip_sign t) = CHR ''.'' # ds" "list_all isdigit ds"
    and t: "t \<noteq> []" "isdigit (hd t) \<or> hd t = CHR ''-''"
    by (auto simp: fixed_notation_def split: list.splits)
  have sign: "skip_sign (t @ r) = skip_sign t @ r" using t(1) by (cases t) (auto simp: skip_sign_def)
  have d1: "dropWhile isdigit (skip_sign t @ r) = CHR ''.'' # ds @ r"
  proof -
    have "skip_sign t = takeWhile isdigit (skip_sign t) @ CHR ''.'' # ds" using ds(1) takeWhile_dropWhile_id by metis
    moreover have "dropWhile isdigit (takeWhile isdigit (skip_sign t) @ CHR ''.'' # ds @ r) = CHR ''.'' # ds @ r"
      by (subst dropWhile_append2) (auto dest: set_takeWhileD simp: isdigit_def)
    ultimately show ?thesis by (metis append.assoc append_Cons)
  qed
  have fr: "skip_fraction (CHR ''.'' # ds @ r) = (True, r)"
    using takeWhile_digits_append(2) [OF ds(2), of r] r by (auto simp: skip_fraction_def stop_def split: list.splits)
  have ex: "skip_exponent r = (False, r)" using r by (auto simp: stop_def skip_exponent_def split: list.splits)
  have "parseNumber fcd (t @ r) = POk (JDouble d) r"
    unfolding parseNumber_def Let_def sign d1 fr split ex using assms(2) by simp
  then show "parseValue fcd (Suc n) (t @ r) = POk (JDouble d) r" using parseValue_number [OF t] by metis
qed

subsection \<open>Arrays and objects\<close>

lemma indent_ws [simp]: "list_all isspace (indent_if w l)" "list_all isspace (nl_if w)"
  by (auto simp: indent_if_def appendIndent_def nl_if_def list_all_iff isspace_def)

lemma not_space [simp]: "\<not> isspace (CHR 0x22)" "\<not> isspace (CHR '','')" "\<not> isspace (CHR '':'')"
  "\<not> isspace (CHR ''['')" "\<not> isspace (CHR '']'')" "\<not> isspace (CHR ''{'')" "\<not> isspace (CHR ''}'')"
  by (simp_all add: isspace_def)

lemma stop_simps [simp]: "stop (CHR '','' # r)" "stop (CHR '']'' # r)" "stop (CHR ''}'' # r)"
  by (simp_all add: stop_def isdigit_def)

lemma parse_elements_items:
  assumes "list_all2 (parses_as fcd) ts vs" "ts \<noteq> []" "list_all isspace ws"
    and "2 * length (append_items w l ts @ ws @ CHR '']'' # r) + 2 \<le> n"
  shows "parse_elements fcd n acc (skipWhitespace (append_items w l ts @ ws @ CHR '']'' # r)) = POk (JArray (acc @ vs)) r"
  using assms
proof (induction w l ts arbitrary: vs acc n rule: append_items.induct)
  case (2 w l t)
  then obtain v where v: "vs = [v]" "parses_as fcd t v" by (auto simp: list_all2_Cons1)
  obtain k where k: "n = Suc k" using 2(4) by (cases n) auto
  have "parseValue fcd k (t @ nl_if w @ ws @ CHR '']'' # r) = POk v (nl_if w @ ws @ CHR '']'' # r)"
    using 2(3,4) v(2) k by (intro parses_asD stop_ws) auto
  then show ?case using v(1) k 2(3) by simp
next
  case (3 w l t u us)
  then obtain v vs' where v: "vs = v # vs'" "parses_as fcd t v" "list_all2 (parses_as fcd) (u # us) vs'"
    by (auto simp: list_all2_Cons1)
  obtain k where k: "n = Suc k" using 3(5) by (cases n) auto
  let ?rest = "append_items w l (u # us) @ ws @ CHR '']'' # r"
  have "parseValue fcd k (t @ '','' @ nl_if w @ ?rest) = POk v ('','' @ nl_if w @ ?rest)"
    using 3(5) v(2) k by (intro parses_asD) auto
  moreover have "parse_elements fcd k (acc @ [v]) (skipWhitespace ?rest) = POk (JArray ((acc @ [v]) @ vs')) r"
    using 3(1) [OF v(3) _ 3(4), of k "acc @ [v]"] 3(5) k by simp
  ultimately show ?case using v(1) k by simp
qed simp

lemma update_new: "k \<notin> fst ` set m \<Longrightarrow> AList.update k v m = m @ [(k, v)]"
  by (induction m) auto

text \<open>A member: the key's text starts with a quote and is read back, then the colon, then the value.\<close>

lemma parse_member:
  assumes "parses_as fcd t v" "stop r" "2 * length (member_text w (key, t) @ r) + 1 \<le> n"
  obtains s' r1 r2 where "member_text w (key, t) @ r = CHR 0x22 # s'" "parseStringContent (CHR 0x22 # s') = POk key r1"
    "expect '':'' (skipWhitespace r1) = POk () r2" "parseValue fcd n r2 = POk v r"
proof -
  define sp where "sp = (if 0 < w then '' '' else [])"
  have sp: "(if 0 < w then '': '' else '':'') = '':'' @ sp" "list_all isspace sp" by (simp_all add: sp_def isspace_def)
  have m: "member_text w (key, t) @ r = appendQuotedString key @ '':'' @ sp @ t @ r"
    by (simp add: member_text_def sp(1))
  have "appendQuotedString key @ x = CHR 0x22 # tl (appendQuotedString key) @ x" for x by (simp add: appendQuotedString_def)
  then have s: "member_text w (key, t) @ r = CHR 0x22 # tl (appendQuotedString key) @ '':'' @ sp @ t @ r"
    using m by simp
  show thesis
  proof (rule that [OF s])
    show "parseStringContent (CHR 0x22 # tl (appendQuotedString key) @ '':'' @ sp @ t @ r) = POk key ('':'' @ sp @ t @ r)"
      unfolding s [symmetric] m by (rule parseStringContent_quoted)
    show "expect '':'' (skipWhitespace ('':'' @ sp @ t @ r)) = POk () (sp @ t @ r)" by (simp add: expect_def)
    show "parseValue fcd n (sp @ t @ r) = POk v r"
      using assms(3) m by (intro parses_as_ws [OF assms(1,2) sp(2)]) simp
  qed
qed

lemma parse_members_items:
  assumes "list_all2 (\<lambda>e f. fst e = fst f \<and> parses_as fcd (snd e) (snd f)) ts vs" "ts \<noteq> []" "list_all isspace ws"
    and "2 * length (append_items w l (map (member_text w) ts) @ ws @ CHR ''}'' # r) + 2 \<le> n"
    and "distinct (map fst (acc @ vs))"
  shows "parse_members fcd n acc (skipWhitespace (append_items w l (map (member_text w) ts) @ ws @ CHR ''}'' # r))
    = POk (JObject (acc @ vs)) r"
  using assms
proof (induction ts arbitrary: vs acc n)
  case (Cons e es)
  then obtain v vs' where v: "vs = (fst e, v) # vs'" "parses_as fcd (snd e) v"
      "list_all2 (\<lambda>e f. fst e = fst f \<and> parses_as fcd (snd e) (snd f)) es vs'"
    by (auto simp: list_all2_Cons1)
  obtain k where k: "n = Suc k" using Cons.prems(4) by (cases n) auto
  have new: "AList.update (fst e) v acc = acc @ [(fst e, v)]" using Cons.prems(5) v(1) by (intro update_new) auto
  show ?case
  proof (cases es)
    case Nil
    obtain s' r1 r2 where m: "member_text w (fst e, snd e) @ nl_if w @ ws @ CHR ''}'' # r = CHR 0x22 # s'"
        "parseStringContent (CHR 0x22 # s') = POk (fst e) r1" "expect '':'' (skipWhitespace r1) = POk () r2"
        "parseValue fcd k r2 = POk v (nl_if w @ ws @ CHR ''}'' # r)"
      by (rule parse_member [OF v(2), where w = w and key = "fst e" and n = k and r = "nl_if w @ ws @ CHR ''}'' # r"])
        (use Cons.prems(3,4) Nil k in \<open>auto intro!: stop_ws\<close>)
    then show ?thesis using Nil v(1,3) k Cons.prems(3) new by simp
  next
    case (Cons f fs)
    let ?rest = "append_items w l (map (member_text w) es) @ ws @ CHR ''}'' # r"
    obtain s' r1 r2 where m: "member_text w (fst e, snd e) @ '','' @ nl_if w @ ?rest = CHR 0x22 # s'"
        "parseStringContent (CHR 0x22 # s') = POk (fst e) r1" "expect '':'' (skipWhitespace r1) = POk () r2"
        "parseValue fcd k r2 = POk v ('','' @ nl_if w @ ?rest)"
      by (rule parse_member [OF v(2), where w = w and key = "fst e" and n = k and r = "'','' @ nl_if w @ ?rest"])
        (use Cons.prems(3,4) Cons k in auto)
    moreover have "parse_members fcd k (acc @ [(fst e, v)]) (skipWhitespace ?rest) = POk (JObject ((acc @ [(fst e, v)]) @ vs')) r"
      using Cons.IH [OF v(3) _ Cons.prems(3), of k "acc @ [(fst e, v)]"] Cons.prems(4,5) v(1) Cons k by simp
    ultimately show ?thesis using Cons v(1) k new by simp
  qed
qed simp

subsection \<open>The round trip\<close>

text \<open>The value that is read: the entries of every object in the order they were written.\<close>

fun as_written :: "bool \<Rightarrow> 'd json \<Rightarrow> 'd json" where
  "as_written sortKeys (JArray a) = JArray (map (as_written sortKeys) a)"
| "as_written sortKeys (JObject m) =
     (let es = map (\<lambda>e. (fst e, as_written sortKeys (snd e))) m in JObject (if sortKeys then sort_key fst es else es))"
| "as_written sortKeys v = v"

lemma insort_map_fst: "(\<And>e. fst (f e) = fst e) \<Longrightarrow> insort_key fst (f x) (map f xs) = map f (insort_key fst x xs)"
  by (induction xs) auto

lemma sort_map_fst: "(\<And>e. fst (f e) = fst e) \<Longrightarrow> sort_key fst (map f xs) = map f (sort_key fst xs)"
  by (induction xs) (simp_all add: insort_map_fst)

lemma parseValue_bracket: "parseValue fcd n (CHR '']'' # x) = (if n = 0 then PFuel else PErr ''Unexpected character'' (length x + 1))"
  by (cases n) (simp_all add: parseDefault_def isdigit_def)

lemma no_element_at_bracket: "parse_elements fcd n acc (CHR '']'' # x) \<noteq> POk v r"
  by (cases n) (simp_all add: parseValue_bracket)

lemma no_member_at_bracket: "parse_members fcd n acc (CHR ''}'' # x) \<noteq> POk v r"
  by (cases n) simp_all

lemma appendArray_parses:
  assumes "list_all2 (parses_as fcd) ts vs"
  shows "parses_as fcd (appendArray w l ts) (JArray vs)"
proof (rule parses_asI)
  fix n r assume n: "2 * length (appendArray w l ts @ r) \<le> n"
  show "parseValue fcd (Suc n) (appendArray w l ts @ r) = POk (JArray vs) r"
  proof (cases "ts = []")
    case True
    then show ?thesis using assms by (simp add: appendArray_def expect_def)
  next
    case False
    define body where "body = append_items w l ts @ indent_if w (l - 1) @ CHR '']'' # r"
    have t: "appendArray w l ts @ r = CHR ''['' # nl_if w @ body" using False by (simp add: appendArray_def body_def)
    have e: "parse_elements fcd n [] (skipWhitespace body) = POk (JArray ([] @ vs)) r"
      unfolding body_def using assms False n by (intro parse_elements_items) (auto simp: appendArray_def)
    have "\<not> (skipWhitespace body \<noteq> [] \<and> hd (skipWhitespace body) = CHR '']'')"
      using e by (cases "skipWhitespace body") (auto simp: no_element_at_bracket)
    then show ?thesis using e unfolding t by (auto simp: expect_def Let_def)
  qed
qed

lemma appendObject_parses:
  assumes "list_all2 (\<lambda>e f. fst e = fst f \<and> parses_as fcd (snd e) (snd f)) ts vs" "distinct (map fst vs)"
  shows "parses_as fcd (appendObject w l False ts) (JObject vs)"
proof (rule parses_asI)
  fix n r assume n: "2 * length (appendObject w l False ts @ r) \<le> n"
  show "parseValue fcd (Suc n) (appendObject w l False ts @ r) = POk (JObject vs) r"
  proof (cases "ts = []")
    case True
    then show ?thesis using assms by (simp add: appendObject_def expect_def)
  next
    case False
    define body where "body = append_items w l (map (member_text w) ts) @ indent_if w (l - 1) @ CHR ''}'' # r"
    have t: "appendObject w l False ts @ r = CHR ''{'' # nl_if w @ body" using False by (simp add: appendObject_def body_def)
    have e: "parse_members fcd n [] (skipWhitespace body) = POk (JObject ([] @ vs)) r"
      unfolding body_def using assms False n by (intro parse_members_items) (auto simp: appendObject_def)
    have "\<not> (skipWhitespace body \<noteq> [] \<and> hd (skipWhitespace body) = CHR ''}'')"
      using e by (cases "skipWhitespace body") (auto simp: no_member_at_bracket)
    then show ?thesis using e unfolding t by (auto simp: expect_def Let_def)
  qed
qed

lemma appendObject_sorted: "appendObject w l True ts = appendObject w l False (sort_key fst ts)"
proof -
  have "sort_key fst ts = [] \<longleftrightarrow> ts = []" by (metis length_0_conv length_sort)
  then show ?thesis by (simp add: appendObject_def)
qed

lemma appendInt_eq: "INT_MIN \<le> i \<Longrightarrow> i \<le> INT_MAX \<Longrightarrow> appendInt i = to_chars_int 10 i"
  by (simp add: appendInt_def Let_def)

lemma appendValue_parses:
  assumes "json_ok v" "\<And>d. d \<in> set_json v \<Longrightarrow> fixed_notation (ts d) \<and> fcd (ts d) = Some (d, [])"
  shows "parses_as fcd (appendValue ts w sortKeys l v) (as_written sortKeys v)"
  using assms
proof (induction v arbitrary: l)
  case (JArray a)
  have "list_all2 (parses_as fcd) (map (appendValue ts w sortKeys (l + 1)) a) (map (as_written sortKeys) a)"
    unfolding list_all2_map1 list_all2_map2
  proof (rule list_all2_all_nthI)
    fix i assume "i < length a"
    then have "a ! i \<in> set a" by simp
    then show "parses_as fcd (appendValue ts w sortKeys (l + 1) (a ! i)) (as_written sortKeys (a ! i))"
      using JArray.prems by (intro JArray.IH) (auto simp: list_all_iff)
  qed simp
  then show ?case by (simp add: appendArray_parses)
next
  case (JObject m)
  define f where "f = (\<lambda>e. (fst e :: string, appendValue ts w sortKeys (l + 1) (snd e :: 'a json)))"
  define g where "g = (\<lambda>e. (fst e :: string, as_written sortKeys (snd e :: 'a json)))"
  define es where "es = (if sortKeys then sort_key fst m else m)"
  have fg: "fst (f e) = fst e" "fst (g e) = fst e" for e by (simp_all add: f_def g_def)
  have set: "set es = set m" by (simp add: es_def)
  have "map fst (map g es) = map fst es" by (simp add: g_def)
  then have "distinct (map fst (map g es))"
    using JObject.prems(1) set by (simp only:) (simp add: es_def distinct_map distinct_sort)
  moreover have "list_all2 (\<lambda>e f. fst e = fst f \<and> parses_as fcd (snd e) (snd f)) (map f es) (map g es)"
    unfolding list_all2_map1 list_all2_map2
  proof (rule list_all2_all_nthI)
    fix i assume i: "i < length es"
    then have "es ! i \<in> set m" using set nth_mem by blast
    moreover from this have "json_ok (snd (es ! i))" "set_json (snd (es ! i)) \<subseteq> set_json (JObject m)"
      using JObject.prems(1) by (auto simp: list_all_iff prod_set_defs)
    ultimately show "fst (f (es ! i)) = fst (g (es ! i)) \<and> parses_as fcd (snd (f (es ! i))) (snd (g (es ! i)))"
      using JObject.IH [of "es ! i" "snd (es ! i)" "l + 1"] JObject.prems(2) by (simp add: f_def g_def prod_set_defs subset_iff)
  qed simp
  ultimately have p: "parses_as fcd (appendObject w (l + 1) False (map f es)) (JObject (map g es))"
    by (intro appendObject_parses)
  have "appendValue ts w sortKeys l (JObject m) = appendObject w (l + 1) False (map f es)"
    by (simp add: appendObject_sorted es_def sort_map_fst fg flip: f_def)
  moreover have "as_written sortKeys (JObject m) = JObject (map g es)"
    by (simp add: es_def Let_def sort_map_fst fg flip: g_def)
  ultimately show ?case using p by simp
qed (simp_all add: parses_as_scalars parses_as_int parses_as_double appendInt_eq)

lemma as_written_eq:
  assumes "\<And>d. deq d d"
  shows "json_ok v \<Longrightarrow> value_eq deq (as_written sortKeys v) v"
proof (induction v)
  case (JArray a)
  then show ?case by (auto simp: list_all2_conv_all_nth list_all_length)
next
  case (JObject m)
  have "case map_of m (fst e) of None \<Rightarrow> False | Some y \<Rightarrow> value_eq deq (as_written sortKeys (snd e)) y" if "e \<in> set m" for e
  proof -
    have "map_of m (fst e) = Some (snd e)" "json_ok (snd e)" "snd e \<in> Basic_BNFs.snds e"
      using that JObject.prems by (auto simp: list_all_iff prod_set_defs)
    then show ?thesis using JObject.IH [OF that, of "snd e"] by simp
  qed
  then show ?case by (fastforce simp: Let_def list_all_iff split: option.splits)
qed (simp_all add: assms)

subsection \<open>Sorted texts\<close>

lemma sort_entries_unique:
  assumes "distinct (map fst xs)" "distinct (map fst ys)" "set xs = set ys"
  shows "sort_key fst xs = sort_key fst ys"
proof (rule map_sorted_distinct_set_unique [where f = fst])
  show "inj_on fst (set (sort_key fst xs) \<union> set (sort_key fst ys))" using assms by (simp add: distinct_map)
  show "distinct (map fst (sort_key fst xs))" "distinct (map fst (sort_key fst ys))"
    using assms by (simp_all add: distinct_map distinct_sort)
qed (use assms in simp_all)

lemma sorted_text_of_equal:
  assumes "json_ok u" "json_ok v" "value_eq (=) u v"
  shows "appendValue ts w True l u = appendValue ts w True l v"
  using assms
proof (induction u arbitrary: v l)
  case (JArray a)
  then obtain b where b: "v = JArray b" "list_all2 (value_eq (=)) a b" by (auto split: json.splits)
  have "map (appendValue ts w True (l + 1)) a = map (appendValue ts w True (l + 1)) b"
  proof (rule nth_equalityI)
    fix i assume "i < length (map (appendValue ts w True (l + 1)) a)"
    then show "map (appendValue ts w True (l + 1)) a ! i = map (appendValue ts w True (l + 1)) b ! i"
      using JArray.IH [of "a ! i" "b ! i" "l + 1"] JArray.prems(1,2) b by (auto simp: list_all2_conv_all_nth list_all_length)
  qed (use b in \<open>simp add: list_all2_lengthD\<close>)
  then show ?case using b by simp
next
  case (JObject m)
  then obtain n where v: "v = JObject n" by (auto split: json.splits)
  define f where "f = (\<lambda>e. (fst e :: string, appendValue ts w True (l + 1) (snd e :: 'a json)))"
  have d: "distinct (map fst m)" "distinct (map fst n)" using JObject.prems v by simp_all
  have e: "fst ` set m = fst ` set n" "\<And>k x y. map_of m k = Some x \<Longrightarrow> map_of n k = Some y \<Longrightarrow> value_eq (=) x y"
    using JObject.prems(3) unfolding v object_eq_iff [OF d] by blast+
  have same: "appendValue ts w True (l + 1) x = appendValue ts w True (l + 1) y" if "(k, x) \<in> set m" "(k, y) \<in> set n" for k x y
  proof -
    have "json_ok x" "json_ok y" using that JObject.prems(1,2) v by (auto simp: list_all_iff)
    then show ?thesis using JObject.IH [OF that(1), of x y "l + 1"] e(2) [of k x y] that d by (simp add: prod_set_defs)
  qed
  have "set (map f m) = set (map f n)"
  proof (intro equalityI subsetI)
    fix p assume "p \<in> set (map f m)"
    then obtain k x where x: "(k, x) \<in> set m" "p = f (k, x)" by auto
    then obtain y where "(k, y) \<in> set n" using e(1) by force
    then show "p \<in> set (map f n)" using x same by (force simp: f_def)
  next
    fix p assume "p \<in> set (map f n)"
    then obtain k y where y: "(k, y) \<in> set n" "p = f (k, y)" by auto
    then obtain x where "(k, x) \<in> set m" using e(1) by (metis fst_conv image_iff prod.collapse)
    then show "p \<in> set (map f m)" using y same by (force simp: f_def)
  qed
  moreover have "map fst (map f x) = map fst x" for x by (simp add: f_def)
  ultimately have "sort_key fst (map f m) = sort_key fst (map f n)" using d by (intro sort_entries_unique) (simp_all only:)
  then show ?case by (simp add: v appendObject_sorted flip: f_def)
qed (auto split: json.splits)

lemma json_ToString_parses:
  assumes "json_ok v" "\<And>d. d \<in> set_json v \<Longrightarrow> fixed_notation (ts d) \<and> fcd (ts d) = Some (d, [])" "stop r"
  shows "json_parse fcd (json_ToString ts v need_indent indent sortKeys @ r) True = Parsed (as_written sortKeys v)"
proof -
  let ?t = "json_ToString ts v need_indent indent sortKeys"
  have "parseValue fcd (2 * length (?t @ r) + 2) (?t @ r) = POk (as_written sortKeys v) r"
    unfolding json_ToString_def generate_def
    by (rule parses_asD [OF appendValue_parses]) (use assms in auto)
  then show ?thesis by (simp add: json_parse_def run_parser_def)
qed

lemma as_written_ok: "json_ok v \<Longrightarrow> json_ok (as_written sortKeys v)"
proof (induction v)
  case (JObject m)
  define es where "es = map (\<lambda>e. (fst e, as_written sortKeys (snd e))) m"
  have "map fst es = map fst m" by (simp add: es_def)
  then have d: "distinct (map fst es)" using JObject.prems by simp
  have "json_ok (as_written sortKeys (snd e))" if "e \<in> set m" for e
    using that JObject.IH [OF that, of "snd e"] JObject.prems by (auto simp: list_all_iff prod_set_defs)
  then have "list_all (\<lambda>e. json_ok (snd e)) es" by (auto simp: es_def list_all_iff)
  then show ?case using d by (simp add: Let_def list_all_iff distinct_map distinct_sort flip: es_def)
qed (auto simp: list_all_iff)

section \<open>Properties\<close>


definition nat_to_string :: "nat \<Rightarrow> string" where
  "nat_to_string d = to_digits 10 d @ ''.000000''"

definition nat_from_chars :: "string \<Rightarrow> (nat \<times> string) option" where
  "nat_from_chars s = Some (digits_value 10 (takeWhile isdigit s), [])"




text \<open>C9. Parsing always ends, in both modes and for every input: the fuel of the model suffices, so the
  outcome is a well-formed value or an error whose position lies within the parsed text.\<close>

theorem json_parse_total:
  "case json_parse fcd str is_strict of
     Parsed v \<Rightarrow> json_ok v
   | ParseError message position \<Rightarrow>
       position \<le> length (if is_strict then str else removeComments (removeTailComma str))
   | NoFuel \<Rightarrow> False"
proof -
  have "case run_parser fcd s of Parsed v \<Rightarrow> json_ok v | ParseError m k \<Rightarrow> k \<le> length s | NoFuel \<Rightarrow> False" for s
    using good_parse [of s "2 * length s + 2" fcd "[]" "[]"]
    by (cases "parseValue fcd (2 * length s + 2) s") (simp_all add: run_parser_def)
  then show ?thesis by (simp add: json_parse_def)
qed

text \<open>The default mode is not the inverse of the generator: it drops the comma inside the second
  string of the array \<^verbatim>\<open>["\\", ",]"]\<close>, because an escaped backslash before a quote is taken for an
  escaped quote. Strict mode reads the same text correctly.\<close>

theorem default_mode_alters_strings:
  "let v = JArray [JString [CHR 0x5C], JString '',]''] :: nat json;
       t = json_ToString nat_to_string v False 0 False
   in json_parse nat_from_chars t True = Parsed v
      \<and> json_parse nat_from_chars t False = Parsed (JArray [JString [CHR 0x5C], JString '']''])"
  by code_simp

text \<open>Text behind the value is ignored, in both modes.\<close>

theorem trailing_text_ignored:
  assumes "json_ok v" "\<And>d. d \<in> set_json v \<Longrightarrow> fixed_notation (ts d) \<and> fcd (ts d) = Some (d, [])" "stop rest"
  shows "json_parse fcd (json_ToString ts v need_indent indent sortKeys @ rest) True
    = json_parse fcd (json_ToString ts v need_indent indent sortKeys) True"
  using json_ToString_parses [OF assms] json_ToString_parses [OF assms(1,2), where r = "[]"]
  by (simp add: stop_def)

theorem trailing_text_ignored_witness:
  "json_parse nat_from_chars (json_ToString nat_to_string (JBool True) False 0 False @ '' garbage'') True
   = json_parse nat_from_chars (json_ToString nat_to_string (JBool True) False 0 False) True"
  by (rule trailing_text_ignored) (simp_all add: stop_def isdigit_def)

end
