(* ===== verification/Os_Environment.thy ===== *)
theory Os_Environment
  imports Std_Map Cpp_Charconv
begin

text \<open>
  The process part of \<^verbatim>\<open>src/breutil/os.hpp\<close>: identifiers, paths, the arguments and the environment. The environment is the array \<^verbatim>\<open>environ\<close>, a list of
  \<^verbatim>\<open>NAME=value\<close> strings; \<^verbatim>\<open>getenv\<close>, \<^verbatim>\<open>setenv\<close> and \<^verbatim>\<open>unsetenv\<close> of the C library work on it. The operations are shown to implement a map from names
  to values, and \<^verbatim>\<open>Environ\<close> to read it.
\<close>

section \<open>C strings\<close>

definition c_str :: "string \<Rightarrow> string" where
  "c_str s = takeWhile (\<lambda>c. c \<noteq> CHR 0x00) s"

lemma c_str_id [simp]: "CHR 0x00 \<notin> set s \<Longrightarrow> c_str s = s"
  by (auto simp: c_str_def takeWhile_eq_all_conv)

lemma c_str_no_nul [simp]: "CHR 0x00 \<notin> set (c_str s)"
  unfolding c_str_def using set_takeWhileD by fastforce

section \<open>Identifiers and paths\<close>

text \<open>What the operating system answers.\<close>

record process_info =
  pid :: int
  ppid :: int
  real_uid :: u32
  real_gid :: u32
  cwd :: "string option"
  exe_link :: "string option"
  host :: string
  page_size :: int

definition GetPID :: "process_info \<Rightarrow> int" where
  "GetPID p = pid p"

definition GetPPID :: "process_info \<Rightarrow> int" where
  "GetPPID p = ppid p"

definition GetUID :: "process_info \<Rightarrow> int" where
  "GetUID p = sint (real_uid p)"

definition GetGID :: "process_info \<Rightarrow> int" where
  "GetGID p = sint (real_gid p)"

text \<open>On Windows: the parent in the snapshot of the processes (identifier, parent), none if there is no snapshot.\<close>

definition GetPPID_win :: "u32 \<Rightarrow> (u32 \<times> u32) list option \<Rightarrow> int" where
  "GetPPID_win self snapshot =
     (case snapshot of
        None \<Rightarrow> 0
      | Some ps \<Rightarrow> sint (case find (\<lambda>(p, _). p = self) ps of Some (_, parent) \<Rightarrow> parent | None \<Rightarrow> 0))"

abbreviation PATH_MAX :: nat where "PATH_MAX \<equiv> 4096"
abbreviation HOST_NAME_MAX :: nat where "HOST_NAME_MAX \<equiv> 64"

text \<open>\<^verbatim>\<open>getcwd\<close> and \<^verbatim>\<open>gethostname\<close> fail when the text and its NUL do not fit, \<^verbatim>\<open>readlink\<close> cuts the path to the size of the buffer.\<close>

definition Getwd :: "process_info \<Rightarrow> std_exn + string" where
  "Getwd p =
     (case cwd p of
        Some d \<Rightarrow> if length d + 1 \<le> PATH_MAX then Inr d else Inl (RuntimeError ''Getwd: getcwd failed'')
      | None \<Rightarrow> Inl (RuntimeError ''Getwd: getcwd failed''))"

definition Executable :: "process_info \<Rightarrow> std_exn + string" where
  "Executable p =
     (case exe_link p of
        None \<Rightarrow> Inl (RuntimeError ''Executable: readlink /proc/self/exe failed'')
      | Some l \<Rightarrow> Inr (c_str (take (PATH_MAX - 1) l)))"

definition Hostname :: "process_info \<Rightarrow> std_exn + string" where
  "Hostname p =
     (if length (host p) + 1 \<le> HOST_NAME_MAX then Inr (host p) else Inl (RuntimeError ''Hostname: gethostname failed''))"

definition Getpagesize :: "process_info \<Rightarrow> int" where
  "Getpagesize p = page_size p"

text \<open>The argument vector of \<^verbatim>\<open>main\<close>; reading past its end is undefined. A negative count leaves the list empty.\<close>

definition InitArgs :: "int \<Rightarrow> string list \<Rightarrow> string list cpp_result" where
  "InitArgs argc argv = (if int (length argv) < argc then UB else Ret (map c_str (take (nat argc) argv)))"

section \<open>The environment array\<close>

type_synonym environment = "string list"

definition entry_of :: "string \<Rightarrow> string \<Rightarrow> bool" where
  "entry_of name e = starts_with (name @ ''='') e"

definition libc_getenv :: "string \<Rightarrow> environment \<Rightarrow> string option" where
  "libc_getenv name env =
     (if name = [] then None else map_option (drop (length name + 1)) (find (entry_of name) env))"

fun put_entry :: "string \<Rightarrow> string \<Rightarrow> environment \<Rightarrow> environment" where
  "put_entry name v [] = [name @ ''='' @ v]"
| "put_entry name v (e # env) = (if entry_of name e then (name @ ''='' @ v) # env else e # put_entry name v env)"

definition bad_name :: "string \<Rightarrow> bool" where
  "bad_name name = (name = [] \<or> CHR ''='' \<in> set name)"

definition libc_setenv :: "string \<Rightarrow> string \<Rightarrow> environment \<Rightarrow> environment option" where
  "libc_setenv name v env = (if bad_name name then None else Some (put_entry name v env))"

definition libc_unsetenv :: "string \<Rightarrow> environment \<Rightarrow> environment option" where
  "libc_unsetenv name env = (if bad_name name then None else Some (filter (\<lambda>e. \<not> entry_of name e) env))"

section \<open>The operations\<close>

definition Getenv :: "string \<Rightarrow> environment \<Rightarrow> string" where
  "Getenv key env = (case libc_getenv (c_str key) env of Some v \<Rightarrow> v | None \<Rightarrow> [])"

text \<open>The value parameter is optional in the code; its new contents is the first component.\<close>

definition LookupEnv :: "string \<Rightarrow> environment \<Rightarrow> string \<times> bool" where
  "LookupEnv key env = (let v = Getenv key env in (v, v \<noteq> []))"

definition add_entry :: "(string, string) std_map \<Rightarrow> string \<Rightarrow> (string, string) std_map" where
  "add_entry m entry =
     (case find_index (\<lambda>c. c = CHR ''='') entry of
        Some eq \<Rightarrow> map_set (take eq entry) (drop (eq + 1) entry) m
      | None \<Rightarrow> m)"

definition Environ :: "environment \<Rightarrow> (string, string) std_map" where
  "Environ env = foldl add_entry [] env"

definition Setenv :: "string \<Rightarrow> string \<Rightarrow> environment \<Rightarrow> std_exn + environment" where
  "Setenv key v env =
     (case libc_setenv (c_str key) (c_str v) env of
        None \<Rightarrow> Inl (RuntimeError ''Setenv: setenv failed'')
      | Some env' \<Rightarrow> Inr env')"

definition Unsetenv :: "string \<Rightarrow> environment \<Rightarrow> std_exn + environment" where
  "Unsetenv key env =
     (case libc_unsetenv (c_str key) env of
        None \<Rightarrow> Inl (RuntimeError ''Unsetenv: unsetenv failed'')
      | Some env' \<Rightarrow> Inr env')"

definition TempDir :: "environment \<Rightarrow> string" where
  "TempDir env = (case libc_getenv ''TMPDIR'' env of
     Some dir \<Rightarrow> if dir \<noteq> [] then dir else ''/tmp/'' | None \<Rightarrow> ''/tmp/'')"

section \<open>Windows\<close>

text \<open>
  \<^verbatim>\<open>Setenv\<close> and \<^verbatim>\<open>Environ\<close> use the environment block of the process, \<^verbatim>\<open>Getenv\<close> the copy that the C run-time library made at start. The
  conversions of the encoding and the functions on the block are the system's.
\<close>

record 'w win_system =
  to_wide :: "string \<Rightarrow> 'w"
  from_wide :: "'w \<Rightarrow> string"
  set_variable :: "'w \<Rightarrow> 'w option \<Rightarrow> ('w \<times> 'w) list \<Rightarrow> ('w \<times> 'w) list option"

record 'w win_env =
  block :: "('w \<times> 'w) list"
  crt_copy :: "'w \<Rightarrow> 'w option"

definition Getenv_win :: "'w win_system \<Rightarrow> string \<Rightarrow> 'w win_env \<Rightarrow> string" where
  "Getenv_win sys key env = (case crt_copy env (to_wide sys key) of None \<Rightarrow> [] | Some v \<Rightarrow> from_wide sys v)"

definition Setenv_win :: "'w win_system \<Rightarrow> string \<Rightarrow> string \<Rightarrow> 'w win_env \<Rightarrow> std_exn + 'w win_env" where
  "Setenv_win sys key v env =
     (case set_variable sys (to_wide sys key) (Some (to_wide sys v)) (block env) of
        None \<Rightarrow> Inl (RuntimeError ''Setenv: SetEnvironmentVariable failed'')
      | Some b \<Rightarrow> Inr (env \<lparr>block := b\<rparr>))"

definition Unsetenv_win :: "'w win_system \<Rightarrow> string \<Rightarrow> 'w win_env \<Rightarrow> std_exn + 'w win_env" where
  "Unsetenv_win sys key env =
     (case set_variable sys (to_wide sys key) None (block env) of
        None \<Rightarrow> Inl (RuntimeError ''Unsetenv: SetEnvironmentVariable failed'')
      | Some b \<Rightarrow> Inr (env \<lparr>block := b\<rparr>))"

lemma win_setenv_not_seen: "Setenv_win sys key v env = Inr env' \<Longrightarrow> Getenv_win sys k env' = Getenv_win sys k env"
  by (auto simp: Setenv_win_def Getenv_win_def split: option.splits)

section \<open>The map that the array stands for\<close>

definition entry_name :: "string \<Rightarrow> string" where
  "entry_name e = takeWhile (\<lambda>c. c \<noteq> CHR ''='') e"

text \<open>An environment as \<^verbatim>\<open>setenv\<close> builds it: every entry is a C string with a name and an equals sign, and no name occurs twice.\<close>

definition env_ok :: "environment \<Rightarrow> bool" where
  "env_ok env \<longleftrightarrow> list_all (\<lambda>e. CHR ''='' \<in> set e \<and> entry_name e \<noteq> [] \<and> CHR 0x00 \<notin> set e) env \<and> distinct (map entry_name env)"

definition env_lookup :: "environment \<Rightarrow> string \<Rightarrow> string option" where
  "env_lookup env = map_of (map (\<lambda>e. (entry_name e, drop (length (entry_name e) + 1) e)) env)"

lemma entry_split:
  assumes "CHR ''='' \<in> set e"
  obtains n v where "e = n @ CHR ''='' # v" "CHR ''='' \<notin> set n" "entry_name e = n"
proof -
  from split_list_first [OF assms] obtain n v where "e = n @ CHR ''='' # v" "CHR ''='' \<notin> set n" by blast
  then have "entry_name e = n" by (auto simp: entry_name_def takeWhile_append2 takeWhile_tail)
  with \<open>e = _\<close> \<open>_ \<notin> set n\<close> show ?thesis by (rule that)
qed

lemma entry_name_entry [simp]: "CHR ''='' \<notin> set n \<Longrightarrow> entry_name (n @ CHR ''='' # v) = n"
  unfolding entry_name_def by (subst takeWhile_append2) auto

lemma entry_of_name: "CHR ''='' \<in> set e \<Longrightarrow> CHR ''='' \<notin> set k \<Longrightarrow> entry_of k e \<longleftrightarrow> entry_name e = k"
proof -
  assume e: "CHR ''='' \<in> set e" and k: "CHR ''='' \<notin> set k"
  from e obtain n v where s: "e = n @ CHR ''='' # v" "CHR ''='' \<notin> set n" "entry_name e = n" by (rule entry_split)
  have "entry_of k e \<longleftrightarrow> (\<exists>t. n @ CHR ''='' # v = k @ CHR ''='' # t)"
    unfolding entry_of_def starts_with_iff by (simp add: s(1))
  also have "\<dots> \<longleftrightarrow> n = k"
    using s(2) k by (metis entry_name_entry)
  finally show ?thesis by (simp add: s(3))
qed

lemma find_map_of:
  assumes "list_all (\<lambda>e. CHR ''='' \<in> set e) env" "CHR ''='' \<notin> set k"
  shows "map_option (drop (length k + 1)) (find (entry_of k) env) = env_lookup env k"
  using assms(1) by (induction env) (auto simp: env_lookup_def entry_of_name [OF _ assms(2)])

lemma libc_getenv_lookup: "env_ok env \<Longrightarrow> \<not> bad_name k \<Longrightarrow> libc_getenv k env = env_lookup env k"
  using find_map_of [of env k] by (auto simp: libc_getenv_def bad_name_def env_ok_def list_all_iff)

lemma names_put:
  "list_all (\<lambda>e. CHR ''='' \<in> set e) env \<Longrightarrow> CHR ''='' \<notin> set k \<Longrightarrow>
    map entry_name (put_entry k v env) = (if k \<in> entry_name ` set env then map entry_name env else map entry_name env @ [k])"
  by (induction env) (auto simp: entry_of_name)

lemma set_put_entry: "set (put_entry k v env) \<subseteq> insert (k @ ''='' @ v) (set env)"
  by (induction env) auto

lemma env_ok_put:
  assumes "env_ok env" "\<not> bad_name k" "CHR 0x00 \<notin> set k" "CHR 0x00 \<notin> set v"
  shows "env_ok (put_entry k v env)"
proof -
  have "list_all (\<lambda>e. CHR ''='' \<in> set e \<and> entry_name e \<noteq> [] \<and> CHR 0x00 \<notin> set e) (put_entry k v env)"
    using assms set_put_entry [of k v env] by (fastforce simp: list_all_iff env_ok_def bad_name_def)
  moreover have "distinct (map entry_name (put_entry k v env))"
    using assms by (subst names_put) (auto simp: list_all_iff env_ok_def bad_name_def)
  ultimately show ?thesis by (simp add: env_ok_def)
qed

lemma env_lookup_put:
  "list_all (\<lambda>e. CHR ''='' \<in> set e) env \<Longrightarrow> CHR ''='' \<notin> set k \<Longrightarrow> env_lookup (put_entry k v env) = (env_lookup env)(k \<mapsto> v)"
  by (induction env) (auto simp: env_lookup_def entry_of_name fun_eq_iff)

lemma env_ok_filter: "env_ok env \<Longrightarrow> env_ok (filter P env)"
  by (auto simp: env_ok_def list_all_iff distinct_map_filter)

lemma env_lookup_filter:
  "list_all (\<lambda>e. CHR ''='' \<in> set e) env \<Longrightarrow> CHR ''='' \<notin> set k \<Longrightarrow>
    env_lookup (filter (\<lambda>e. \<not> entry_of k e) env) = (env_lookup env)(k := None)"
  by (induction env) (auto simp: env_lookup_def entry_of_name fun_eq_iff)

lemma env_ok_eq: "env_ok env \<Longrightarrow> list_all (\<lambda>e. CHR ''='' \<in> set e) env"
  by (simp add: env_ok_def list_all_iff)

section \<open>\<^verbatim>\<open>Environ\<close> reads the map\<close>

lemma add_entry_name: "CHR ''='' \<in> set e \<Longrightarrow> add_entry m e = map_set (entry_name e) (drop (length (entry_name e) + 1) e) m"
proof (erule entry_split)
  fix n v assume "e = n @ CHR ''='' # v" "CHR ''='' \<notin> set n" "entry_name e = n"
  moreover from this(2) have "find_index (\<lambda>c. c = CHR ''='') (n @ CHR ''='' # v) = Some (length n)"
    by (intro find_index_append_first) auto
  ultimately show ?thesis by (simp add: add_entry_def)
qed

lemma Environ_map:
  assumes "list_all (\<lambda>e. CHR ''='' \<in> set e) env" "distinct (map entry_name env)"
  shows "map_of (foldl add_entry m env) = map_of m ++ env_lookup env \<and> (map_ok m \<longrightarrow> map_ok (foldl add_entry m env))"
  using assms
proof (induction env arbitrary: m)
  case (Cons e env)
  have n: "entry_name e \<notin> dom (env_lookup env)"
    using Cons.prems(2) by (simp add: env_lookup_def dom_map_of_conv_image_fst image_image)
  show ?case
    using Cons.IH [of "add_entry m e"] Cons.prems n
    by (auto simp: add_entry_name env_lookup_def map_add_upd_left fun_eq_iff map_add_def split: option.splits)
qed (simp add: env_lookup_def)

lemma Environ_lookup: "env_ok env \<Longrightarrow> map_of (Environ env) = env_lookup env"
  using Environ_map [of env "[]"] by (simp add: Environ_def env_ok_def list_all_iff)

lemma Environ_ok: "env_ok env \<Longrightarrow> map_ok (Environ env)"
  using Environ_map [of env "[]"] by (simp add: Environ_def env_ok_def list_all_iff)

lemma Setenv_ok:
  assumes "env_ok env" "Setenv k v env = Inr env'"
  shows "env_ok env'" "env_lookup env' = (env_lookup env)(c_str k \<mapsto> c_str v)" "\<not> bad_name (c_str k)"
  using assms env_ok_put [OF assms(1)] env_lookup_put [OF env_ok_eq [OF assms(1)]]
  by (auto simp: Setenv_def libc_setenv_def bad_name_def split: if_splits)

lemma Unsetenv_ok:
  assumes "env_ok env" "Unsetenv k env = Inr env'"
  shows "env_ok env'" "env_lookup env' = (env_lookup env)(c_str k := None)" "\<not> bad_name (c_str k)"
  using assms env_ok_filter [OF assms(1)] env_lookup_filter [OF env_ok_eq [OF assms(1)]]
  by (auto simp: Unsetenv_def libc_unsetenv_def bad_name_def split: if_splits)

lemma Getenv_lookup: "env_ok env \<Longrightarrow> \<not> bad_name (c_str k) \<Longrightarrow> Getenv k env = (case env_lookup env (c_str k) of Some v \<Rightarrow> v | None \<Rightarrow> [])"
  by (simp add: Getenv_def libc_getenv_lookup)

section \<open>The interface of a key-value store\<close>

text \<open>The names and the values that a C program can give to \<^verbatim>\<open>setenv\<close>.\<close>

typedef env_name = "{k :: string. \<not> bad_name k \<and> CHR 0x00 \<notin> set k}"
  by (intro exI [of _ "''A''"]) (simp add: bad_name_def)

typedef c_string = "{s :: string. CHR 0x00 \<notin> set s}"
  by (intro exI [of _ "[]"]) simp

setup_lifting type_definition_env_name
setup_lifting type_definition_c_string

lift_definition env_put :: "environment \<Rightarrow> env_name \<Rightarrow> c_string \<Rightarrow> environment" is
  "\<lambda>env k v. case Setenv k v env of Inr env' \<Rightarrow> env' | Inl _ \<Rightarrow> env" .

lift_definition env_drop :: "environment \<Rightarrow> env_name \<Rightarrow> environment" is
  "\<lambda>env k. case Unsetenv k env of Inr env' \<Rightarrow> env' | Inl _ \<Rightarrow> env" .

definition env_get :: "environment \<Rightarrow> env_name \<Rightarrow> c_string option" where
  "env_get env k = map_option Abs_c_string (env_lookup env (Rep_env_name k))"

lemma Setenv_name: "\<exists>env'. Setenv (Rep_env_name k) v env = Inr env'"
  using Rep_env_name [of k] by (simp add: Setenv_def libc_setenv_def)

lemma Unsetenv_name: "\<exists>env'. Unsetenv (Rep_env_name k) env = Inr env'"
  using Rep_env_name [of k] by (simp add: Unsetenv_def libc_unsetenv_def)

lemma c_str_Rep [simp]: "c_str (Rep_env_name k) = Rep_env_name k" "c_str (Rep_c_string v) = Rep_c_string v"
  using Rep_env_name [of k] Rep_c_string [of v] by simp_all

interpretation env_store: kv_store env_ok env_get env_put env_drop
proof
  fix env k v assume ok: "env_ok env"
  obtain env' where s: "Setenv (Rep_env_name k) (Rep_c_string v) env = Inr env'" using Setenv_name by blast
  show "env_ok (env_put env k v) \<and> env_get (env_put env k v) = (env_get env)(k \<mapsto> v)"
    using Setenv_ok [OF ok s] s
    by (auto simp: env_put.rep_eq env_get_def fun_eq_iff Rep_c_string_inverse Rep_env_name_inject)
next
  fix env k assume ok: "env_ok env"
  obtain env' where s: "Unsetenv (Rep_env_name k) env = Inr env'" using Unsetenv_name by blast
  show "env_ok (env_drop env k) \<and> env_get (env_drop env k) = (env_get env)(k := None)"
    using Unsetenv_ok [OF ok s] s by (auto simp: env_drop.rep_eq env_get_def fun_eq_iff Rep_env_name_inject)
qed

section \<open>Properties\<close>

text \<open>
  Any sequence of \<^verbatim>\<open>Setenv\<close> and \<^verbatim>\<open>Unsetenv\<close> calls keeps the environment well formed and acts on it as the same updates of a map; this map is what
  \<^verbatim>\<open>Environ\<close> returns.
\<close>

theorem environment_refines_map:
  assumes "env_ok env"
  shows "env_ok (kv_run env_put env_drop ops env) \<and> env_get (kv_run env_put env_drop ops env) = kv_spec ops (env_get env)"
  by (rule env_store.run_refines [OF assms])

theorem environment_refines_map_witness:
  "\<forall>k k2 v w. env_get (kv_run env_put env_drop [Kv_Set k v, Kv_Set k2 w, Kv_Remove k2] [''A=1'']) k = (if k = k2 then None else Some v)"
proof -
  have "env_ok [''A=1'']" by (simp add: env_ok_def entry_name_def)
  then have "env_get (kv_run env_put env_drop ops [''A=1'']) = kv_spec ops (env_get [''A=1''])" for ops
    using environment_refines_map by blast
  then show ?thesis by (simp only: kv_spec.simps) simp
qed

text \<open>C24. \<^verbatim>\<open>Setenv\<close> and \<^verbatim>\<open>Environ\<close>: after a successful \<^verbatim>\<open>Setenv\<close>, \<^verbatim>\<open>Environ\<close> returns the map that it returned before with this one entry set, and
  \<^verbatim>\<open>Getenv\<close> returns the value.
\<close>

theorem Setenv_Environ:
  assumes "env_ok env" "Setenv key v env = Inr env'"
  shows "Environ env' = map_set (c_str key) (c_str v) (Environ env) \<and> Getenv key env' = c_str v"
proof
  note s = Setenv_ok [OF assms]
  show "Environ env' = map_set (c_str key) (c_str v) (Environ env)"
    using s assms(1) by (intro map_ok_unique) (simp_all add: Environ_ok Environ_lookup)
  show "Getenv key env' = c_str v" using Getenv_lookup [OF s(1,3)] s(2) by simp
qed

theorem Setenv_Environ_witness:
  "Environ [''PATH=/bin'', ''A=1''] = map_set ''A'' ''1'' (Environ [''PATH=/bin'', ''A='']) \<and> Getenv ''A'' [''PATH=/bin'', ''A=1''] = ''1''"
proof -
  have "env_ok [''PATH=/bin'', ''A='']" by (simp add: env_ok_def entry_name_def)
  moreover have "Setenv ''A'' ''1'' [''PATH=/bin'', ''A=''] = Inr [''PATH=/bin'', ''A=1'']"
    by (simp add: Setenv_def libc_setenv_def bad_name_def entry_of_def starts_with_def)
  ultimately show ?thesis using Setenv_Environ [of "[''PATH=/bin'', ''A='']" "''A''" "''1''"] by simp
qed

lemma Unsetenv_Environ:
  assumes "env_ok env" "Unsetenv key env = Inr env'"
  shows "Environ env' = snd (map_erase (c_str key) (Environ env))" "Getenv key env' = []"
proof -
  note s = Unsetenv_ok [OF assms]
  show "Environ env' = snd (map_erase (c_str key) (Environ env))"
    using s assms(1) by (intro map_ok_unique) (simp_all add: Environ_ok Environ_lookup)
  show "Getenv key env' = []" using Getenv_lookup [OF s(1,3)] s(2) by simp
qed

text \<open>The two functions fail for exactly the names that the C library refuses.\<close>

lemma Setenv_fails: "(\<exists>e. Setenv key v env = Inl e) \<longleftrightarrow> bad_name (c_str key)"
  by (simp add: Setenv_def libc_setenv_def)

text \<open>A variable that is set to the empty text is reported as not set.\<close>

lemma LookupEnv_empty: "env_ok env \<Longrightarrow> Setenv key [] env = Inr env' \<Longrightarrow> \<not> snd (LookupEnv key env') \<and> map_of (Environ env') (c_str key) = Some []"
  using Setenv_ok [of env key "[]" env'] Getenv_lookup [of env' key]
  by (simp add: LookupEnv_def Let_def Environ_lookup c_str_def [of "[]"])

lemma TempDir_nonempty: "TempDir env \<noteq> []"
  by (simp add: TempDir_def split: option.split)

text \<open>A host name of the length that Linux allows does not fit into the buffer.\<close>

lemma Hostname_longest: "length (host p) = HOST_NAME_MAX \<Longrightarrow> Hostname p = Inl (RuntimeError ''Hostname: gethostname failed'')"
  by (simp add: Hostname_def)

end
