(* ===== verification/Json_Errors.thy ===== *)
theory Json_Errors
  imports Json_Round_Trip Os_Environment
begin

text \<open>
  The exceptions of the JSON parser: \<^verbatim>\<open>src/breutil/json/json_exception.hpp\<close> and \<^verbatim>\<open>throwException\<close> of \<^verbatim>\<open>json_parse.hpp\<close>. The models of the parser keep a message and
  a position; here is the text that a caller of \<^verbatim>\<open>what()\<close> sees.
\<close>

section \<open>The text\<close>

definition msg_long :: nat where "msg_long = 20"

definition escape_seq :: "string \<Rightarrow> string" where
  "escape_seq s = CHR 0x1B # s"

text \<open>The three parts of the excerpt: before the position, the character there, and what follows it.\<close>

definition startIndex :: "nat \<Rightarrow> nat" where
  "startIndex position = (if position > msg_long then position - msg_long else 0)"

definition endIndex :: "string \<Rightarrow> nat \<Rightarrow> nat" where
  "endIndex input position = (if position + msg_long < length input then position + msg_long else length input)"

definition current_char :: "string \<Rightarrow> nat \<Rightarrow> char" where
  "current_char input position = (if position < length input then input ! position else CHR 0x00)"

definition before_text :: "string \<Rightarrow> nat \<Rightarrow> string" where
  "before_text input position = substr input (startIndex position) (position - startIndex position)"

definition after_text :: "string \<Rightarrow> nat \<Rightarrow> string" where
  "after_text input position =
     (if position < length input then substr input (position + 1) (endIndex input position - position - 1) else [])"

definition exception_text :: "string \<Rightarrow> nat \<Rightarrow> string \<Rightarrow> string" where
  "exception_text input position message =
     (let current = current_char input position
      in message @ '': position = '' @ to_string_int (int position) @ '': '' @ [CHR 0x27, current, CHR 0x27] @ '' near: '' @ [CHR 0x22]
         @ before_text input position @ escape_seq ''[31m'' @ [current] @ escape_seq ''[0m'' @ after_text input position @ [CHR 0x22])"

text \<open>
  The constructor of the exception. \<open>location\<close> is the source location, file and line, which a build without \<^verbatim>\<open>NDEBUG\<close> puts in front. \<^verbatim>\<open>what()\<close> is a C string.
\<close>

record json_exception =
  exn_message :: string
  exn_type :: json_error_type

definition locationMsg :: "string \<times> nat \<Rightarrow> string" where
  "locationMsg location = fst location @ '':'' @ to_string_int (int (snd location)) @ '': ''"

definition make_exception :: "bool \<Rightarrow> string \<times> nat \<Rightarrow> string \<Rightarrow> json_error_type \<Rightarrow> json_exception" where
  "make_exception ndebug location message ty =
     \<lparr>exn_message = (if ndebug then message else locationMsg location @ [CHR 0x0A] @ message), exn_type = ty\<rparr>"

definition what :: "json_exception \<Rightarrow> string" where
  "what e = c_str (exn_message e)"

definition errorType :: "json_exception \<Rightarrow> json_error_type" where
  "errorType e = exn_type e"

definition new_SyntaxError :: "bool \<Rightarrow> string \<times> nat \<Rightarrow> string \<Rightarrow> json_exception" where
  "new_SyntaxError ndebug location details = make_exception ndebug location (''Syntax Error: '' @ details) SyntaxError"

definition new_TypeError :: "bool \<Rightarrow> string \<times> nat \<Rightarrow> string \<Rightarrow> json_exception" where
  "new_TypeError ndebug location details = make_exception ndebug location (''Type Error: '' @ details) TypeError"

definition new_ValueError :: "bool \<Rightarrow> string \<times> nat \<Rightarrow> string \<Rightarrow> json_exception" where
  "new_ValueError ndebug location details = make_exception ndebug location (''Value Error: '' @ details) ValueError"

definition new_KeyError :: "bool \<Rightarrow> string \<times> nat \<Rightarrow> string \<Rightarrow> json_exception" where
  "new_KeyError ndebug location details = make_exception ndebug location (''Key Error: '' @ details) KeyError"

definition throwException :: "bool \<Rightarrow> string \<times> nat \<Rightarrow> string \<Rightarrow> nat \<Rightarrow> string \<Rightarrow> json_exception" where
  "throwException ndebug location input position message =
     make_exception ndebug location (exception_text input position message) UnknownError"

section \<open>What the caller reads\<close>

lemma endIndex_after: "position < length input \<Longrightarrow> position < endIndex input position \<and> endIndex input position \<le> length input"
  by (simp add: endIndex_def msg_long_def)

lemma substr_join:
  assumes "a \<le> b" "b \<le> c"
  shows "substr s a (b - a) @ substr s b (c - b) = substr s a (c - a)"
proof -
  have "take (b - a) (drop a s) @ take (c - b) (drop (b - a) (drop a s)) = take (b - a + (c - b)) (drop a s)"
    by (simp only: take_add)
  then show ?thesis using assms by (simp add: substr_def)
qed

text \<open>Within the text the excerpt is contiguous: at most twenty characters before the position, the character there, and fewer than twenty after it.\<close>

lemma excerpt:
  assumes "position < length input"
  shows "before_text input position @ [current_char input position] @ after_text input position
    = substr input (startIndex position) (endIndex input position - startIndex position)"
proof -
  have c: "[current_char input position] = substr input position (Suc position - position)"
    using assms by (simp add: current_char_def substr_def take_Suc_conv_app_nth hd_drop_conv_nth take_Suc)
  have s: "startIndex position \<le> position" "Suc position \<le> endIndex input position"
    using endIndex_after [OF assms] by (simp_all add: startIndex_def)
  have "after_text input position = substr input (Suc position) (endIndex input position - Suc position)"
    using assms by (simp add: after_text_def)
  then show ?thesis
    unfolding before_text_def c using s by (simp only: append_assoc [symmetric] substr_join)
qed

lemma c_str_nul: "CHR 0x00 \<notin> set a \<Longrightarrow> c_str (a @ CHR 0x00 # b) = a"
  unfolding c_str_def by (subst takeWhile_append2) auto

lemma no_nul_number: "CHR 0x00 \<notin> set (to_string_int (int n))"
proof -
  have "list_all (is_base_digit 10) (to_digits 10 n)" by (rule list_all_to_digits) auto
  then show ?thesis by (auto simp: to_chars_int_def list_all_iff isdigit_def)
qed

text \<open>
  At the end of the text there is no character to show, and the NUL that stands for it ends the C string: \<^verbatim>\<open>what()\<close> has the message and the position, and
  stops in front of the excerpt.
\<close>

theorem what_at_end:
  assumes "length input \<le> position" "CHR 0x00 \<notin> set message"
  shows "what (throwException True location input position message)
    = message @ '': position = '' @ to_string_int (int position) @ '': '' @ [CHR 0x27]"
proof -
  let ?seen = "message @ '': position = '' @ to_string_int (int position) @ '': '' @ [CHR 0x27]"
  have "CHR 0x00 \<notin> set ?seen" using assms(2) no_nul_number [of position] by simp
  moreover have "\<exists>rest. exception_text input position message = ?seen @ CHR 0x00 # rest"
    using assms(1) by (simp add: exception_text_def current_char_def Let_def)
  ultimately show ?thesis using c_str_nul by (auto simp: what_def throwException_def make_exception_def simp del: append_assoc)
qed

theorem what_inside:
  assumes "position < length input" "CHR 0x00 \<notin> set message" "CHR 0x00 \<notin> set input"
  shows "what (throwException True location input position message) = exception_text input position message"
proof -
  have "set (substr input a n) \<subseteq> set input" for a n
    unfolding substr_def using set_take_subset set_drop_subset by fastforce
  then have "CHR 0x00 \<notin> set (before_text input position)" "CHR 0x00 \<notin> set (after_text input position)"
    using assms(3) by (auto simp: before_text_def after_text_def)
  moreover have "current_char input position \<noteq> CHR 0x00" using assms(1,3) by (metis current_char_def nth_mem)
  ultimately have "CHR 0x00 \<notin> set (exception_text input position message)"
    using assms(2) no_nul_number [of position] by (auto simp: exception_text_def Let_def escape_seq_def)
  then show ?thesis by (simp add: what_def throwException_def make_exception_def)
qed

end
