(* ===== verification/Flag_Parser.thy ===== *)
theory Flag_Parser
  imports Std_Map Cpp_Charconv
begin

text \<open>
  \<^verbatim>\<open>src/breutil/flag.hpp\<close>: the command line parser. Flags are shared between the vector \<^verbatim>\<open>_flags\<close> and the
  map \<^verbatim>\<open>_flag_map\<close>, so the map holds the position in the vector. \<open>double\<close> is the type parameter \<open>'d\<close>
  with its conversions and comparison in a record. Where the source prints and calls \<^verbatim>\<open>exit\<close>, the
  model returns \<open>Exit\<close> with the status and the texts written to the two output streams.
\<close>

section \<open>Flags\<close>

datatype flag_type = FBool | FInt | FDouble | FString

definition ToString_type :: "flag_type \<Rightarrow> string" where
  "ToString_type t = (case t of FBool \<Rightarrow> ''bool'' | FInt \<Rightarrow> ''int'' | FDouble \<Rightarrow> ''double'' | FString \<Rightarrow> ''string'')"

datatype 'd flag_value = VBool bool | VInt int | VDouble 'd | VString string

text \<open>\<^verbatim>\<open>std::stod\<close> (\<open>None\<close> when it throws), \<^verbatim>\<open>operator<<\<close> and \<^verbatim>\<open>operator==\<close> on \<^verbatim>\<open>double\<close>.\<close>

record 'd double_ops =
  stod :: "string \<Rightarrow> 'd option"
  dshow :: "'d \<Rightarrow> string"
  deq :: "'d \<Rightarrow> 'd \<Rightarrow> bool"

record 'd flag_info =
  f_name :: string
  f_help :: string
  f_type :: flag_type
  f_value :: "'d flag_value"
  f_defValue :: "'d flag_value"
  f_isRequired :: bool

definition FlagInfo :: "string \<Rightarrow> flag_type \<Rightarrow> string \<Rightarrow> 'd flag_value \<Rightarrow> 'd flag_value \<Rightarrow> bool \<Rightarrow> 'd flag_info" where
  "FlagInfo Name Type Help V Default IsRequired =
     \<lparr>f_name = Name, f_help = Help, f_type = Type, f_value = V, f_defValue = Default, f_isRequired = IsRequired\<rparr>"

definition FlagInfo_Set :: "'d flag_info \<Rightarrow> 'd flag_value \<Rightarrow> 'd flag_info" where
  "FlagInfo_Set f v = f\<lparr>f_value := v\<rparr>"

text \<open>\<^verbatim>\<open>oss << v\<close> prints a \<^verbatim>\<open>bool\<close> as a digit.\<close>

definition stream_value :: "'d double_ops \<Rightarrow> 'd flag_value \<Rightarrow> string" where
  "stream_value ops v = (case v of VBool b \<Rightarrow> if b then ''1'' else ''0'' | VInt i \<Rightarrow> to_chars_int 10 i
     | VDouble d \<Rightarrow> dshow ops d | VString s \<Rightarrow> s)"

definition FlagInfo_ToString :: "'d double_ops \<Rightarrow> 'd flag_info \<Rightarrow> string" where
  "FlagInfo_ToString ops f =
     ''Flag{name='' @ f_name f @ '', type='' @ ToString_type (f_type f) @ '', value='' @ stream_value ops (f_value f)
     @ '', default='' @ stream_value ops (f_defValue f) @ '', required='' @ (if f_isRequired f then ''true'' else ''false'') @ ''}''"

record 'd flag_set =
  argv :: "string list"
  program_name :: string
  description :: string
  is_parsed :: bool
  version :: string
  flags :: "'d flag_info list"
  flag_map :: "(string, nat) std_map"
  positional_args :: "string list"

datatype 'a exit_or = Continue 'a | Exit bool string string

definition Flag :: "string list \<Rightarrow> string \<Rightarrow> 'd flag_set" where
  "Flag args desc =
     \<lparr>argv = args, program_name = (case args of [] \<Rightarrow> [] | a # _ \<Rightarrow> a), description = desc, is_parsed = False,
      version = [], flags = [], flag_map = [], positional_args = []\<rparr>"

definition addFlag :: "'d flag_set \<Rightarrow> 'd flag_info \<Rightarrow> 'd flag_set" where
  "addFlag s f = s\<lparr>flags := flags s @ [f], flag_map := map_set (f_name f) (length (flags s)) (flag_map s)\<rparr>"

definition type_of :: "'d flag_value \<Rightarrow> flag_type" where
  "type_of v = (case v of VBool _ \<Rightarrow> FBool | VInt _ \<Rightarrow> FInt | VDouble _ \<Rightarrow> FDouble | VString _ \<Rightarrow> FString)"

text \<open>The branches of \<^verbatim>\<open>Add\<close> on the type of the default value are the constructors of \<open>v\<close>.\<close>

definition Add :: "'d flag_set \<Rightarrow> string \<Rightarrow> 'd flag_value \<Rightarrow> string \<Rightarrow> bool \<Rightarrow> 'd flag_set" where
  "Add s name v help required = addFlag s (FlagInfo name (type_of v) help v v required)"

definition SetVersion :: "'d flag_set \<Rightarrow> string \<Rightarrow> 'd flag_set" where
  "SetVersion s v = s\<lparr>version := v\<rparr>"

definition PrintVersion :: "'d flag_set \<Rightarrow> string" where
  "PrintVersion s =
     (if version s \<noteq> [] then program_name s @ '' version '' @ version s @ [CHR 0x0A]
      else program_name s @ '' (version not set)'' @ [CHR 0x0A])"

section \<open>Help text\<close>

definition name_len :: "'d flag_info \<Rightarrow> nat" where
  "name_len f = length (f_name f) + length (ToString_type (f_type f)) + 3"

definition max_name_len :: "'d flag_info list \<Rightarrow> nat" where
  "max_name_len fs = foldl (\<lambda>m f. if m < name_len f then name_len f else m) 0 fs"

definition flag_column :: "'d flag_info \<Rightarrow> string" where
  "flag_column f = ''  -'' @ f_name f @ '' <'' @ ToString_type (f_type f) @ ''>''"

definition print_value :: "'d double_ops \<Rightarrow> 'd flag_value \<Rightarrow> string" where
  "print_value ops v = (case v of VBool b \<Rightarrow> if b then ''true'' else ''false'' | _ \<Rightarrow> stream_value ops v)"

definition flag_line :: "'d double_ops \<Rightarrow> nat \<Rightarrow> 'd flag_info \<Rightarrow> string" where
  "flag_line ops width f =
     flag_column f @ replicate (size_sub (width + 5) (length (flag_column f))) (CHR '' '') @ f_help f
     @ (if f_isRequired f then '' [required]'' else '' (default: '' @ print_value ops (f_defValue f) @ '')'') @ [CHR 0x0A]"

definition PrintDefault :: "'d double_ops \<Rightarrow> 'd flag_set \<Rightarrow> string" where
  "PrintDefault ops s =
     (if description s \<noteq> [] then description s @ [CHR 0x0A, CHR 0x0A] else [])
     @ (if flags s = [] then []
        else ''Usage: '' @ program_name s @ '' [OPTIONS]'' @ [CHR 0x0A] @ [CHR 0x0A] @ ''Options:'' @ [CHR 0x0A]
             @ concat (map (flag_line ops (max_name_len (flags s))) (flags s)))"

section \<open>Parsing\<close>

definition stringToBool :: "string \<Rightarrow> bool" where
  "stringToBool val \<longleftrightarrow> val \<in> set [''1'', ''t'', ''T'', ''true'', ''TRUE'', ''True'']"

definition bool_words :: "string list" where
  "bool_words = [''1'', ''0'', ''t'', ''f'', ''T'', ''F'', ''true'', ''false'', ''TRUE'', ''FALSE'', ''True'', ''False'']"

definition judgeSuitableValue :: "'d double_ops \<Rightarrow> flag_type \<Rightarrow> string \<Rightarrow> bool" where
  "judgeSuitableValue ops t val =
     (if t = FString then True
      else if val = [] then False
      else if t = FBool \<and> val \<in> set bool_words then True
      else if t = FInt then (case stoll 10 val of Inr _ \<Rightarrow> True | Inl _ \<Rightarrow> False)
      else if t = FDouble then stod ops val \<noteq> None
      else False)"

text \<open>The value the \<^verbatim>\<open>switch\<close> on the type stores, for a text that \<^verbatim>\<open>judgeSuitableValue\<close> accepted.\<close>

definition convert :: "'d double_ops \<Rightarrow> flag_type \<Rightarrow> string \<Rightarrow> 'd flag_value" where
  "convert ops t val =
     (case t of
        FBool \<Rightarrow> VBool (stringToBool val)
      | FInt \<Rightarrow> VInt (case stoll 10 val of Inr i \<Rightarrow> i | Inl _ \<Rightarrow> 0)
      | FDouble \<Rightarrow> VDouble (the (stod ops val))
      | FString \<Rightarrow> VString val)"

text \<open>The name in an argument and the text behind the first equals sign.\<close>

definition prefix_pos :: "string \<Rightarrow> nat" where
  "prefix_pos arg = (if starts_with ''--'' arg then 2 else 1)"

definition split_arg :: "string \<Rightarrow> string \<times> string option" where
  "split_arg arg =
     (let p = prefix_pos arg in
      case find_char_from arg (CHR ''='') 0 of
        Some eq \<Rightarrow> (substr arg p (eq - p), Some (drop (eq + 1) arg))
      | None \<Rightarrow> (drop p arg, None))"

definition is_flag_arg :: "string \<Rightarrow> bool" where
  "is_flag_arg arg \<longleftrightarrow> starts_with ''-'' arg"

text \<open>The text of the value and the arguments that follow it; \<open>None\<close>: a value is missing.\<close>

definition take_value :: "'d double_ops \<Rightarrow> flag_type \<Rightarrow> string list \<Rightarrow> (string \<times> string list) option" where
  "take_value ops t rest =
     (if t = FBool then
        (case rest of
           [] \<Rightarrow> Some (''true'', rest)
         | next # rest' \<Rightarrow>
             if starts_with ''-'' next then Some (''true'', rest)
             else if judgeSuitableValue ops FBool next then Some (if stringToBool next then ''true'' else ''false'', rest')
             else Some (''true'', rest))
      else (case rest of [] \<Rightarrow> None | next # rest' \<Rightarrow> Some (next, rest')))"

lemma take_value_shorter: "take_value ops t rest = Some (v, rest') \<Longrightarrow> length rest' \<le> length rest"
  by (auto simp: take_value_def split: if_splits list.splits)

definition set_flag :: "'d double_ops \<Rightarrow> 'd flag_set \<Rightarrow> nat \<Rightarrow> string \<Rightarrow> 'd flag_set" where
  "set_flag ops s i val =
     s\<lparr>flags := (flags s)[i := FlagInfo_Set (flags s ! i) (convert ops (f_type (flags s ! i)) val)]\<rparr>"

definition fail :: "'d double_ops \<Rightarrow> 'd flag_set \<Rightarrow> string \<Rightarrow> 'a exit_or" where
  "fail ops s msg = Exit False (PrintDefault ops s) (msg @ [CHR 0x0A])"

function parse_loop :: "'d double_ops \<Rightarrow> 'd flag_set \<Rightarrow> string list \<Rightarrow> 'd flag_set exit_or" where
  "parse_loop ops s [] = Continue s"
| "parse_loop ops s (arg # rest) =
     (if arg = ''--help'' \<or> arg = ''-h'' then Exit True (PrintDefault ops s) []
      else if arg = ''--version'' \<or> arg = ''-v'' then Exit True (PrintVersion s) []
      else if \<not> is_flag_arg arg then parse_loop ops (s\<lparr>positional_args := positional_args s @ [arg]\<rparr>) rest
      else
        let (name, assigned) = split_arg arg in
        case map_of (flag_map s) name of
          None \<Rightarrow> fail ops s (''Unknown flag: -'' @ name)
        | Some i \<Rightarrow>
            let t = f_type (flags s ! i) in
            case (case assigned of Some v \<Rightarrow> Some (v, rest) | None \<Rightarrow> take_value ops t rest) of
              None \<Rightarrow> fail ops s (''Flag -'' @ name @ '' requires a value'')
            | Some (val, rest') \<Rightarrow>
                if \<not> judgeSuitableValue ops t val
                then fail ops s (''Invalid value '' @ [CHR 0x27] @ val @ [CHR 0x27] @ '' for flag -'' @ name)
                else parse_loop ops (set_flag ops s i val) rest')"
  by pat_completeness auto
termination
  by (relation "measure (\<lambda>(ops, s, args). length args)") (auto dest!: take_value_shorter split: option.splits)

definition flag_value_eq :: "'d double_ops \<Rightarrow> 'd flag_value \<Rightarrow> 'd flag_value \<Rightarrow> bool" where
  "flag_value_eq ops a b =
     (case (a, b) of (VBool x, VBool y) \<Rightarrow> x = y | (VInt x, VInt y) \<Rightarrow> x = y | (VDouble x, VDouble y) \<Rightarrow> deq ops x y
      | (VString x, VString y) \<Rightarrow> x = y | _ \<Rightarrow> False)"

definition is_default :: "'d double_ops \<Rightarrow> 'd flag_info \<Rightarrow> bool" where
  "is_default ops f = flag_value_eq ops (f_value f) (f_defValue f)"

fun check_required :: "'d double_ops \<Rightarrow> 'd flag_set \<Rightarrow> 'd flag_info list \<Rightarrow> 'd flag_set exit_or" where
  "check_required ops s [] = Continue s"
| "check_required ops s (f # fs) =
     (if f_isRequired f \<and> is_default ops f
      then fail ops s (''Error: Required flag -'' @ f_name f @ '' is missing'')
      else check_required ops s fs)"

definition Parse_args :: "'d double_ops \<Rightarrow> 'd flag_set \<Rightarrow> 'd flag_set exit_or" where
  "Parse_args ops s =
     (if is_parsed s then Continue s
      else case parse_loop ops s (drop 1 (argv s)) of
             Exit ok out err \<Rightarrow> Exit ok out err
           | Continue s' \<Rightarrow> let s'' = s'\<lparr>is_parsed := True\<rparr> in check_required ops s'' (flags s''))"

section \<open>Reading\<close>

text \<open>\<^verbatim>\<open>Get\<close> for the four kinds of target; \<^verbatim>\<open>std::get\<close> throws on another alternative. \<open>Inl True\<close> is the
  exit of an unknown flag, \<open>Inl False\<close> the exception.\<close>

definition find_flag :: "'d flag_set \<Rightarrow> string \<Rightarrow> 'd flag_info option" where
  "find_flag s name = map_option (\<lambda>i. flags s ! i) (map_of (flag_map s) name)"

definition get_with :: "'d flag_set \<Rightarrow> string \<Rightarrow> ('d flag_value \<Rightarrow> 'a option) \<Rightarrow> bool + 'a" where
  "get_with s name as =
     (case find_flag s name of
        None \<Rightarrow> Inl True
      | Some f \<Rightarrow> (case as (f_value f) of None \<Rightarrow> Inl False | Some x \<Rightarrow> Inr x))"

definition Get_bool :: "'d flag_set \<Rightarrow> string \<Rightarrow> bool + bool" where
  "Get_bool s name = get_with s name (\<lambda>v. case v of VBool b \<Rightarrow> Some b | _ \<Rightarrow> None)"

text \<open>\<^verbatim>\<open>static_cast\<close> to a signed or unsigned type of \<open>w\<close> bits.\<close>

definition cast_integral :: "bool \<Rightarrow> nat \<Rightarrow> int \<Rightarrow> int" where
  "cast_integral sgd w v = (if sgd then (v + 2 ^ (w - 1)) mod 2 ^ w - 2 ^ (w - 1) else v mod 2 ^ w)"

definition Get_integral :: "bool \<Rightarrow> nat \<Rightarrow> 'd flag_set \<Rightarrow> string \<Rightarrow> bool + int" where
  "Get_integral sgd w s name =
     get_with s name (\<lambda>v. case v of VInt i \<Rightarrow> Some (cast_integral sgd w i) | _ \<Rightarrow> None)"

definition Get_double :: "'d flag_set \<Rightarrow> string \<Rightarrow> bool + 'd" where
  "Get_double s name = get_with s name (\<lambda>v. case v of VDouble d \<Rightarrow> Some d | _ \<Rightarrow> None)"

definition Get_string :: "'d flag_set \<Rightarrow> string \<Rightarrow> bool + string" where
  "Get_string s name = get_with s name (\<lambda>v. case v of VString t \<Rightarrow> Some t | _ \<Rightarrow> None)"

text \<open>The positional arguments are collected again when there are none.\<close>

definition Narg :: "'d flag_set \<Rightarrow> nat \<times> 'd flag_set" where
  "Narg s =
     (let s' = (if positional_args s = [] then s\<lparr>positional_args := filter (\<lambda>a. \<not> is_flag_arg a) (drop 1 (argv s))\<rparr> else s)
      in (length (positional_args s'), s'))"

definition Nflag :: "'d flag_set \<Rightarrow> nat" where
  "Nflag s = length (flags s)"

definition Arg_at :: "'d flag_set \<Rightarrow> int \<Rightarrow> string \<times> 'd flag_set" where
  "Arg_at s i =
     (let s' = snd (Narg s)
      in (if 0 < i \<and> i \<le> int (length (positional_args s')) then positional_args s' ! (nat i - 1) else [], s'))"

definition Arg_all :: "'d flag_set \<Rightarrow> string list \<times> 'd flag_set" where
  "Arg_all s = (let s' = snd (Narg s) in (positional_args s', s'))"

section \<open>Well-formed registries\<close>

definition flags_ok :: "'d flag_set \<Rightarrow> bool" where
  "flags_ok s \<longleftrightarrow> map_ok (flag_map s)
     \<and> list_all (\<lambda>e. snd e < length (flags s) \<and> f_name (flags s ! snd e) = fst e) (flag_map s)
     \<and> list_all (\<lambda>f. type_of (f_value f) = f_type f \<and> type_of (f_defValue f) = f_type f) (flags s)"

text \<open>What parsing never changes: the names, types and defaults, and which name means which flag.\<close>

definition same_registry :: "'d flag_set \<Rightarrow> 'd flag_set \<Rightarrow> bool" where
  "same_registry s s' \<longleftrightarrow> flag_map s' = flag_map s \<and> argv s' = argv s \<and>
     map (\<lambda>f. f\<lparr>f_value := VBool False\<rparr>) (flags s') = map (\<lambda>f. f\<lparr>f_value := VBool False\<rparr>) (flags s)"

lemma flags_ok_index:
  "flags_ok s \<Longrightarrow> map_of (flag_map s) n = Some i \<Longrightarrow> i < length (flags s) \<and> f_name (flags s ! i) = n"
  by (auto simp: flags_ok_def list_all_iff dest!: map_of_SomeD)

lemma flags_ok_member:
  "flags_ok s \<Longrightarrow> i < length (flags s) \<Longrightarrow> type_of (f_value (flags s ! i)) = f_type (flags s ! i)
     \<and> type_of (f_defValue (flags s ! i)) = f_type (flags s ! i)"
  by (simp add: flags_ok_def list_all_length)

lemma type_of_convert [simp]: "type_of (convert ops t v) = t"
  by (cases t) (simp_all add: convert_def type_of_def)

lemma flags_ok_Flag: "flags_ok (Flag a d)"
  by (simp add: flags_ok_def Flag_def)

lemma flags_ok_addFlag:
  assumes "flags_ok s" "type_of (f_value f) = f_type f" "type_of (f_defValue f) = f_type f"
  shows "flags_ok (addFlag s f)"
proof -
  have "snd e < length (flags s @ [f]) \<and> f_name ((flags s @ [f]) ! snd e) = fst e"
    if "e \<in> set (map_set (f_name f) (length (flags s)) (flag_map s))" for e
    using map_set_entries [OF that] assms(1) by (auto simp: flags_ok_def list_all_iff nth_append)
  then show ?thesis using assms by (auto simp: flags_ok_def addFlag_def list_all_iff)
qed

lemma set_flag_ok:
  assumes "flags_ok s" "map_of (flag_map s) n = Some i"
  shows "flags_ok (set_flag ops s i v) \<and> same_registry s (set_flag ops s i v)"
proof -
  have i: "i < length (flags s)" using flags_ok_index [OF assms] by simp
  have upd: "map g ((flags s)[i := f]) = map g (flags s)" if "g f = g (flags s ! i)" for g :: "'a flag_info \<Rightarrow> 'b" and f
    using that i by (metis map_update list_update_id map_update nth_map length_map)
  have "f_name ((flags s)[i := FlagInfo_Set (flags s ! i) w] ! j) = f_name (flags s ! j)" for w j
    using i by (cases "j = i") (simp_all add: FlagInfo_Set_def)
  moreover have "list_all (\<lambda>f. type_of (f_value f) = f_type f \<and> type_of (f_defValue f) = f_type f)
      ((flags s)[i := FlagInfo_Set (flags s ! i) (convert ops (f_type (flags s ! i)) v)])"
    using assms(1) i flags_ok_member [OF assms(1) i] unfolding list_all_length
    by (auto simp: FlagInfo_Set_def flags_ok_member nth_list_update)
  ultimately have "flags_ok (set_flag ops s i v)" using assms(1) by (simp add: flags_ok_def set_flag_def)
  moreover have "same_registry s (set_flag ops s i v)"
    unfolding same_registry_def set_flag_def by (simp add: upd FlagInfo_Set_def)
  ultimately show ?thesis by blast
qed

lemma same_registry_trans: "same_registry s t \<Longrightarrow> same_registry t u \<Longrightarrow> same_registry s u"
  by (simp add: same_registry_def)

lemma parse_loop_ok:
  "flags_ok s \<Longrightarrow> parse_loop ops s args = Continue s' \<Longrightarrow> flags_ok s' \<and> same_registry s s' \<and> is_parsed s' = is_parsed s"
proof (induction ops s args rule: parse_loop.induct)
  case (1 ops s)
  then show ?case by (simp add: same_registry_def)
next
  case (2 ops s arg rest)
  show ?case
  proof (cases "is_flag_arg arg")
    case False
    have "flags_ok (s\<lparr>positional_args := positional_args s @ [arg]\<rparr>)" using 2(3) by (simp add: flags_ok_def)
    then show ?thesis using 2(1) 2(4) False by (auto simp: same_registry_def fail_def split: if_splits)
  next
    case True
    obtain name assigned where sp: "split_arg arg = (name, assigned)" by fastforce
    from 2(4) True sp obtain i val rest' where i: "map_of (flag_map s) name = Some i"
      and v: "(case assigned of Some v \<Rightarrow> Some (v, rest) | None \<Rightarrow> take_value ops (f_type (flags s ! i)) rest) = Some (val, rest')"
      and j: "judgeSuitableValue ops (f_type (flags s ! i)) val"
      and p: "parse_loop ops (set_flag ops s i val) rest' = Continue s'"
      and h: "\<not> (arg = ''--help'' \<or> arg = ''-h'')" "\<not> (arg = ''--version'' \<or> arg = ''-v'')"
      by (auto simp: fail_def Let_def split: if_splits option.splits)
    note ok = set_flag_ok [OF 2(3) i, of ops val]
    have "is_parsed (set_flag ops s i val) = is_parsed s" by (simp add: set_flag_def)
    then show ?thesis
      using 2(2) [OF h _ sp [symmetric] refl i refl v refl _ _ p] True j ok same_registry_trans by auto
  qed
qed

lemma check_required_Continue: "check_required ops s fs = Continue s' \<Longrightarrow> s' = s"
  by (induction fs) (auto simp: fail_def split: if_splits)

section \<open>Command lines\<close>

text \<open>The forms an argument may take: a positional argument, a flag with its value behind an equals
  sign or in the next argument, and a switch without a value; \<open>dd\<close> asks for two dashes.\<close>

datatype cmd_item = Pos string | Eq bool string string | Sep bool string string | Switch bool string

definition dashes :: "bool \<Rightarrow> string" where
  "dashes dd = (if dd then ''--'' else ''-'')"

fun render :: "cmd_item \<Rightarrow> string list" where
  "render (Pos t) = [t]"
| "render (Eq dd n v) = [dashes dd @ n @ ''='' @ v]"
| "render (Sep dd n v) = [dashes dd @ n, v]"
| "render (Switch dd n) = [dashes dd @ n]"

definition name_ok :: "bool \<Rightarrow> string \<Rightarrow> bool" where
  "name_ok dd n \<longleftrightarrow> CHR ''='' \<notin> set n \<and> (\<not> dd \<longrightarrow> \<not> starts_with ''-'' n)
     \<and> dashes dd @ n \<notin> set [''--help'', ''-h'', ''--version'', ''-v'']"

definition no_bool_next :: "string list \<Rightarrow> bool" where
  "no_bool_next args = (case args of [] \<Rightarrow> True | a # _ \<Rightarrow> starts_with ''-'' a \<or> a \<notin> set bool_words)"

fun items_ok :: "'d double_ops \<Rightarrow> (string \<Rightarrow> flag_type option) \<Rightarrow> cmd_item list \<Rightarrow> bool" where
  "items_ok ops ty [] = True"
| "items_ok ops ty (Pos t # is) = (\<not> is_flag_arg t \<and> items_ok ops ty is)"
| "items_ok ops ty (Eq dd n v # is) =
     (name_ok dd n \<and> (case ty n of None \<Rightarrow> False | Some t \<Rightarrow> judgeSuitableValue ops t v) \<and> items_ok ops ty is)"
| "items_ok ops ty (Sep dd n v # is) =
     (name_ok dd n \<and> (case ty n of None \<Rightarrow> False | Some t \<Rightarrow> judgeSuitableValue ops t v) \<and> items_ok ops ty is)"
| "items_ok ops ty (Switch dd n # is) =
     (name_ok dd n \<and> ty n = Some FBool \<and> no_bool_next (concat (map render is)) \<and> items_ok ops ty is)"

text \<open>The text a command line gives to a flag: the last one wins.\<close>

fun last_text :: "string \<Rightarrow> cmd_item list \<Rightarrow> string option" where
  "last_text n [] = None"
| "last_text n (i # is) =
     (case last_text n is of
        Some v \<Rightarrow> Some v
      | None \<Rightarrow> (case i of Eq _ m v \<Rightarrow> if m = n then Some v else None
                | Sep _ m v \<Rightarrow> if m = n then Some v else None
                | Switch _ m \<Rightarrow> if m = n then Some ''true'' else None
                | Pos _ \<Rightarrow> None))"

fun positionals :: "cmd_item list \<Rightarrow> string list" where
  "positionals [] = []"
| "positionals (Pos t # is) = t # positionals is"
| "positionals (_ # is) = positionals is"

definition flag_types :: "'d flag_set \<Rightarrow> string \<Rightarrow> flag_type option" where
  "flag_types s n = map_option f_type (find_flag s n)"

lemma find_flag_set_flag:
  assumes "flags_ok s" "map_of (flag_map s) n = Some i"
  shows "find_flag (set_flag ops s i v) m =
    (if m = n then map_option (\<lambda>f. FlagInfo_Set f (convert ops (f_type f) v)) (find_flag s m) else find_flag s m)"
proof (cases "map_of (flag_map s) m")
  case None
  then show ?thesis by (auto simp: find_flag_def set_flag_def)
next
  case (Some j)
  have i: "i < length (flags s)" "f_name (flags s ! i) = n" using flags_ok_index [OF assms] by simp_all
  have j: "f_name (flags s ! j) = m" using flags_ok_index [OF assms(1) Some] by simp
  show ?thesis
  proof (cases "m = n")
    case True
    then show ?thesis using assms(2) i(1) by (simp add: find_flag_def set_flag_def)
  next
    case False
    then have "j \<noteq> i" using i(2) j by blast
    then show ?thesis using Some False by (simp add: find_flag_def set_flag_def)
  qed
qed

lemma flag_types_set_flag:
  assumes "flags_ok s" "map_of (flag_map s) n = Some i"
  shows "flag_types (set_flag ops s i v) = flag_types s"
  unfolding flag_types_def find_flag_set_flag [OF assms] by (auto simp: fun_eq_iff FlagInfo_Set_def option.map_comp o_def)

lemma flag_types_index:
  "flag_types s n = Some t \<Longrightarrow> \<exists>i. map_of (flag_map s) n = Some i \<and> f_type (flags s ! i) = t"
  by (auto simp: flag_types_def find_flag_def)

lemma prefix_pos_dashes:
  "(\<not> dd \<longrightarrow> \<not> starts_with ''-'' (n @ t)) \<Longrightarrow> prefix_pos (dashes dd @ n @ t) = length (dashes dd)"
  by (auto simp: prefix_pos_def dashes_def starts_with_iff Cons_eq_append_conv)

lemma starts_with_dash_append: "n \<noteq> [] \<Longrightarrow> starts_with ''-'' (n @ t) = starts_with ''-'' n"
  by (cases n) (simp_all add: starts_with_def)

lemma split_arg_eq:
  assumes "name_ok dd n"
  shows "split_arg (dashes dd @ n @ ''='' @ v) = (n, Some v)"
proof -
  have p: "prefix_pos (dashes dd @ n @ ''='' @ v) = length (dashes dd)"
    using assms by (intro prefix_pos_dashes) (cases n; auto simp: name_ok_def starts_with_def)
  have "CHR ''='' \<notin> set (dashes dd @ n)" using assms by (simp add: name_ok_def dashes_def)
  then have "find_index (\<lambda>x. x = CHR ''='') ((dashes dd @ n) @ CHR ''='' # v) = Some (length (dashes dd @ n))"
    by (intro find_index_append_first) auto
  then have "find_char_from (dashes dd @ n @ ''='' @ v) (CHR ''='') 0 = Some (length (dashes dd @ n))"
    by (simp add: find_char_from_def)
  then show ?thesis unfolding split_arg_def p by (simp add: substr_def)
qed

lemma split_arg_plain:
  assumes "name_ok dd n"
  shows "split_arg (dashes dd @ n) = (n, None)"
proof -
  have p: "prefix_pos (dashes dd @ n) = length (dashes dd)"
    using assms prefix_pos_dashes [of dd n "[]"] by (simp add: name_ok_def)
  have "find_char_from (dashes dd @ n) (CHR ''='') 0 = None"
    using assms by (auto simp: find_char_from_def name_ok_def dashes_def)
  then show ?thesis unfolding split_arg_def p by simp
qed

lemma render_is_flag: "name_ok dd n \<Longrightarrow> is_flag_arg (dashes dd @ n @ t)"
  by (simp add: is_flag_arg_def starts_with_def dashes_def)

lemma render_not_special:
  assumes "name_ok dd n"
  shows "dashes dd @ n \<noteq> ''--help''" "dashes dd @ n \<noteq> ''-h''" "dashes dd @ n \<noteq> ''--version''" "dashes dd @ n \<noteq> ''-v''"
    "dashes dd @ n @ ''='' @ v \<noteq> ''--help''" "dashes dd @ n @ ''='' @ v \<noteq> ''-h''"
    "dashes dd @ n @ ''='' @ v \<noteq> ''--version''" "dashes dd @ n @ ''='' @ v \<noteq> ''-v''"
proof -
  have neq: "x \<noteq> y" if "CHR ''='' \<in> set x" "CHR ''='' \<notin> set y" for x y :: string using that by blast
  show "dashes dd @ n @ ''='' @ v \<noteq> ''--help''" "dashes dd @ n @ ''='' @ v \<noteq> ''-h''"
    "dashes dd @ n @ ''='' @ v \<noteq> ''--version''" "dashes dd @ n @ ''='' @ v \<noteq> ''-v''"
    by (rule neq; simp)+
qed (use assms in \<open>simp_all add: name_ok_def\<close>)

text \<open>Reading one item off the command line.\<close>

lemma parse_eq:
  assumes "name_ok dd n" "map_of (flag_map s) n = Some i" "judgeSuitableValue ops (f_type (flags s ! i)) v"
  shows "parse_loop ops s (render (Eq dd n v) @ rest) = parse_loop ops (set_flag ops s i v) rest"
  using assms render_not_special [OF assms(1)] render_is_flag [OF assms(1), of "''='' @ v"] split_arg_eq [OF assms(1), of v]
  by simp

lemma parse_sep:
  assumes "name_ok dd n" "map_of (flag_map s) n = Some i"
    "take_value ops (f_type (flags s ! i)) rest = Some (v, rest')" "judgeSuitableValue ops (f_type (flags s ! i)) v"
  shows "parse_loop ops s ((dashes dd @ n) # rest) = parse_loop ops (set_flag ops s i v) rest'"
  using assms render_not_special [OF assms(1)] render_is_flag [OF assms(1), of "[]"] split_arg_plain [OF assms(1)]
  by simp

lemma bool_word_no_dash: "judgeSuitableValue ops FBool v \<Longrightarrow> \<not> starts_with ''-'' v"
  by (auto simp: judgeSuitableValue_def bool_words_def starts_with_def split: if_splits)

lemma take_value_sep:
  "judgeSuitableValue ops t v \<Longrightarrow>
   \<exists>v'. take_value ops t (v # rest) = Some (v', rest) \<and> judgeSuitableValue ops t v' \<and> convert ops t v' = convert ops t v"
proof (cases "t = FBool")
  case True
  assume j: "judgeSuitableValue ops t v"
  let ?w = "if stringToBool v then ''true'' else ''false''"
  have "take_value ops t (v # rest) = Some (?w, rest)" using j True bool_word_no_dash [of ops v] by (simp add: take_value_def)
  moreover have "judgeSuitableValue ops t ?w" "convert ops t ?w = convert ops t v"
    using True by (simp_all add: judgeSuitableValue_def bool_words_def convert_def stringToBool_def)
  ultimately show ?thesis by blast
next
  case False
  assume "judgeSuitableValue ops t v"
  then show ?thesis using False by (simp add: take_value_def)
qed

lemma take_value_switch: "no_bool_next rest \<Longrightarrow> take_value ops FBool rest = Some (''true'', rest)"
  by (auto simp: take_value_def no_bool_next_def judgeSuitableValue_def split: list.splits)

lemma set_flag_convert:
  "convert ops (f_type (flags s ! i)) v' = convert ops (f_type (flags s ! i)) v \<Longrightarrow> set_flag ops s i v' = set_flag ops s i v"
  by (simp add: set_flag_def)

lemma parse_assign:
  assumes "flags_ok s" "name_ok dd n" "flag_types s n = Some t"
    and "item = Eq dd n v \<or> item = Sep dd n v" "judgeSuitableValue ops t v"
  obtains i where "map_of (flag_map s) n = Some i"
    "parse_loop ops s (render item @ rest) = parse_loop ops (set_flag ops s i v) rest"
proof -
  obtain i where i: "map_of (flag_map s) n = Some i" "f_type (flags s ! i) = t"
    using flag_types_index [OF assms(3)] by blast
  obtain v' where v': "take_value ops t (v # rest) = Some (v', rest)" "judgeSuitableValue ops t v'" "convert ops t v' = convert ops t v"
    using take_value_sep [OF assms(5)] by blast
  have "set_flag ops s i v' = set_flag ops s i v" using v'(3) i(2) by (intro set_flag_convert) simp
  then have "parse_loop ops s (render item @ rest) = parse_loop ops (set_flag ops s i v) rest"
    using assms(4) parse_eq [OF assms(2) i(1), of ops v rest] parse_sep [OF assms(2) i(1), of ops "v # rest" v' rest] v' i(2) assms(5)
    by auto
  then show thesis using that i(1) by blast
qed

text \<open>The effect of a command line on the flags and the positional arguments.\<close>

definition assigned_by :: "'d double_ops \<Rightarrow> cmd_item list \<Rightarrow> 'd flag_set \<Rightarrow> 'd flag_set \<Rightarrow> bool" where
  "assigned_by ops items s s' \<longleftrightarrow>
     (\<forall>n. find_flag s' n = map_option (\<lambda>f. case last_text n items of None \<Rightarrow> f
            | Some v \<Rightarrow> FlagInfo_Set f (convert ops (f_type f) v)) (find_flag s n))
     \<and> positional_args s' = positional_args s @ positionals items"

lemma assigned_by_set_flag:
  assumes "flags_ok s" "map_of (flag_map s) n = Some i" "assigned_by ops is (set_flag ops s i v) s'"
    and "\<And>m. last_text m (item # is) = (case last_text m is of Some w \<Rightarrow> Some w | None \<Rightarrow> if n = m then Some v else None)"
    and "positionals (item # is) = positionals is"
  shows "assigned_by ops (item # is) s s'"
proof -
  have "find_flag s' m = map_option (\<lambda>f. case last_text m (item # is) of None \<Rightarrow> f
      | Some v \<Rightarrow> FlagInfo_Set f (convert ops (f_type f) v)) (find_flag s m)" for m
    using assms(3) unfolding assigned_by_def find_flag_set_flag [OF assms(1,2)] assms(4)
    by (auto simp: FlagInfo_Set_def option.map_comp o_def split: option.splits)
  then show ?thesis using assms(3,5) by (simp add: assigned_by_def set_flag_def)
qed

lemma parse_items:
  assumes "flags_ok s" "items_ok ops (flag_types s) items"
  shows "\<exists>s'. parse_loop ops s (concat (map render items)) = Continue s' \<and> assigned_by ops items s s'"
  using assms
proof (induction items arbitrary: s)
  case Nil
  then show ?case by (simp add: assigned_by_def option.map_ident)
next
  case (Cons item its)
  have step: "\<exists>s'. parse_loop ops s (concat (map render (item # its))) = Continue s' \<and> assigned_by ops (item # its) s s'"
    if a: "map_of (flag_map s) n = Some i" "items_ok ops (flag_types s) its"
      "parse_loop ops s (render item @ concat (map render its)) = parse_loop ops (set_flag ops s i v) (concat (map render its))"
      "\<And>m. last_text m (item # its) = (case last_text m its of Some w \<Rightarrow> Some w | None \<Rightarrow> if n = m then Some v else None)"
      "positionals (item # its) = positionals its" for n i v
  proof -
    have "flags_ok (set_flag ops s i v)" using set_flag_ok [OF Cons.prems(1) a(1)] by blast
    then obtain s' where "parse_loop ops (set_flag ops s i v) (concat (map render its)) = Continue s'"
        "assigned_by ops its (set_flag ops s i v) s'"
      using Cons.IH [of "set_flag ops s i v"] a(2) flag_types_set_flag [OF Cons.prems(1) a(1)] by auto
    then show ?thesis using a(3) assigned_by_set_flag [OF Cons.prems(1) a(1) _ a(4,5)] by auto
  qed
  show ?case
  proof (cases item)
    case (Pos t)
    let ?s = "s\<lparr>positional_args := positional_args s @ [t]\<rparr>"
    have ft: "flag_types ?s = flag_types s" "find_flag ?s = find_flag s" by (auto simp: flag_types_def find_flag_def fun_eq_iff)
    have ok: "flags_ok ?s" using Cons.prems by (simp add: flags_ok_def)
    have t: "\<not> is_flag_arg t" "t \<noteq> ''--help''" "t \<noteq> ''-h''" "t \<noteq> ''--version''" "t \<noteq> ''-v''"
      using Cons.prems(2) Pos by (auto simp: is_flag_arg_def starts_with_def)
    obtain s' where "parse_loop ops ?s (concat (map render its)) = Continue s'" "assigned_by ops its ?s s'"
      using Cons.IH [OF ok] Cons.prems(2) Pos ft by auto
    then show ?thesis using Pos t ft(2) by (auto simp: assigned_by_def split: option.split)
  next
    case (Eq dd n v)
    then obtain t where t: "name_ok dd n" "flag_types s n = Some t" "judgeSuitableValue ops t v" "items_ok ops (flag_types s) its"
      using Cons.prems(2) by (auto split: option.splits)
    from Eq have e: "item = Eq dd n v \<or> item = Sep dd n v" by simp
    show ?thesis
      by (rule parse_assign [OF Cons.prems(1) t(1,2) e t(3), of "concat (map render its)"], rule step [of n _ v])
        (use t(4) Eq in \<open>auto split: option.split\<close>)
  next
    case (Sep dd n v)
    then obtain t where t: "name_ok dd n" "flag_types s n = Some t" "judgeSuitableValue ops t v" "items_ok ops (flag_types s) its"
      using Cons.prems(2) by (auto split: option.splits)
    from Sep have e: "item = Eq dd n v \<or> item = Sep dd n v" by simp
    show ?thesis
      by (rule parse_assign [OF Cons.prems(1) t(1,2) e t(3), of "concat (map render its)"], rule step [of n _ v])
        (use t(4) Sep in \<open>auto split: option.split\<close>)
  next
    case (Switch dd n)
    then have t: "name_ok dd n" "flag_types s n = Some FBool" "no_bool_next (concat (map render its))" "items_ok ops (flag_types s) its"
      using Cons.prems(2) by auto
    obtain i where i: "map_of (flag_map s) n = Some i" "f_type (flags s ! i) = FBool" using flag_types_index [OF t(2)] by blast
    have "judgeSuitableValue ops FBool ''true''" by (simp add: judgeSuitableValue_def bool_words_def)
    then have "parse_loop ops s ((dashes dd @ n) # concat (map render its)) = parse_loop ops (set_flag ops s i ''true'') (concat (map render its))"
      using take_value_switch [OF t(3)] i(2) by (intro parse_sep [OF t(1) i(1)]) simp_all
    then show ?thesis using Switch by (intro step [OF i(1) t(4), of "''true''"]) (auto split: option.split)
  qed
qed

section \<open>Properties\<close>


definition nat_ops :: "nat double_ops" where
  "nat_ops = \<lparr>stod = (\<lambda>s. if s \<noteq> [] \<and> list_all isdigit s then Some (digits_value 10 s) else None),
     dshow = to_digits 10, deq = (=)\<rparr>"

definition sample_flags :: "string list \<Rightarrow> nat flag_set" where
  "sample_flags args =
     Add (Add (Add (Flag args ''demo'') ''verbose'' (VBool False) ''log'' False) ''port'' (VInt 8080) ''port'' False)
       ''config'' (VString ''a.json'') ''file'' False"

lemma sample_flags_ok: "flags_ok (sample_flags args)"
  by (simp add: sample_flags_def Add_def FlagInfo_def flags_ok_addFlag flags_ok_Flag)


text \<open>C40. Types are respected: every value and default has the type of its flag after construction,
  \<^verbatim>\<open>Add\<close> and \<^verbatim>\<open>Parse\<close>; parsing changes values only, and reading a flag at its own type never
  throws.\<close>

theorem flag_type_safety:
  "flags_ok (Flag args desc)
   \<and> (flags_ok s \<longrightarrow> flags_ok (Add s name v help required))
   \<and> (flags_ok s \<longrightarrow> Parse_args ops s = Continue s' \<longrightarrow> flags_ok s' \<and> same_registry s s')
   \<and> (flags_ok s \<longrightarrow> find_flag s name = Some f \<longrightarrow>
        (case f_type f of
           FBool \<Rightarrow> \<exists>b. Get_bool s name = Inr b
         | FInt \<Rightarrow> \<exists>i. Get_integral True 64 s name = Inr i
         | FDouble \<Rightarrow> \<exists>d. Get_double s name = Inr d
         | FString \<Rightarrow> \<exists>t. Get_string s name = Inr t))"
proof (intro conjI impI)
  show "flags_ok (Flag args desc)" by (rule flags_ok_Flag)
  show "flags_ok (Add s name v help required)" if "flags_ok s"
    using that by (simp add: Add_def FlagInfo_def flags_ok_addFlag)
  {
    assume ok: "flags_ok s" and p: "Parse_args ops s = Continue s'"
    consider "s' = s" | t where "parse_loop ops s (drop 1 (argv s)) = Continue t" "s' = t\<lparr>is_parsed := True\<rparr>"
      using p by (auto simp: Parse_args_def Let_def dest!: check_required_Continue split: if_splits exit_or.splits)
    then have "flags_ok s' \<and> same_registry s s'"
    proof cases
      case 2
      have "flags_ok s' = flags_ok t" "same_registry s s' = same_registry s t" by (simp_all add: 2(2) flags_ok_def same_registry_def)
      then show ?thesis using parse_loop_ok [OF ok 2(1)] by simp
    qed (simp add: ok same_registry_def)
    then show "flags_ok s'" "same_registry s s'" by blast+
  }
  assume ok: "flags_ok s" and f: "find_flag s name = Some f"
  then obtain i where "map_of (flag_map s) name = Some i" "f = flags s ! i" by (auto simp: find_flag_def)
  then have "type_of (f_value f) = f_type f" using flags_ok_index [OF ok] flags_ok_member [OF ok] by blast
  then show "case f_type f of
           FBool \<Rightarrow> \<exists>b. Get_bool s name = Inr b
         | FInt \<Rightarrow> \<exists>i. Get_integral True 64 s name = Inr i
         | FDouble \<Rightarrow> \<exists>d. Get_double s name = Inr d
         | FString \<Rightarrow> \<exists>t. Get_string s name = Inr t"
    using f by (cases "f_value f")
      (auto simp: type_of_def Get_bool_def Get_integral_def Get_double_def Get_string_def get_with_def)
qed

theorem flag_type_safety_witness:
  "flags_ok (Add (sample_flags []) ''x'' (VInt 1) [] True)"
  using flag_type_safety [of "[]" "[]" "sample_flags []" "''x''" "VInt 1"] sample_flags_ok by blast

text \<open>Two surprises. A required flag that is given its default value explicitly counts as missing.
  After parsing a command line without positional arguments, the first question for them scans
  the arguments again and reports the value of a flag as a positional argument.\<close>

theorem flag_surprises:
  "(\<exists>out err. Parse_args nat_ops (Add (Flag [''prog'', ''-port'', ''80''] []) ''port'' (VInt 80) [] True) = Exit False out err)
   \<and> (\<exists>s. Parse_args nat_ops (sample_flags [''prog'', ''-config'', ''b.json'']) = Continue s
        \<and> positional_args s = [] \<and> fst (Narg s) = 1 \<and> fst (Arg_at s 1) = ''b.json'')"
proof -
  have "case Parse_args nat_ops (Add (Flag [''prog'', ''-port'', ''80''] []) ''port'' (VInt 80) [] True) of
      Exit ok _ _ \<Rightarrow> \<not> ok | Continue _ \<Rightarrow> False"
    by code_simp
  moreover have "case Parse_args nat_ops (sample_flags [''prog'', ''-config'', ''b.json'']) of
      Exit _ _ _ \<Rightarrow> False | Continue s \<Rightarrow> positional_args s = [] \<and> fst (Narg s) = 1 \<and> fst (Arg_at s 1) = ''b.json''"
    by code_simp
  ultimately show ?thesis by (auto split: exit_or.splits)
qed

text \<open>The lines of the help text are aligned: behind the name and type every help text starts in the
  same column, and the padding never wraps around.\<close>

lemma max_name_len_bound: "f \<in> set fs \<Longrightarrow> name_len f \<le> max_name_len fs"
proof -
  have "m \<le> foldl (\<lambda>m f. if m < name_len f then name_len f else m) m fs
      \<and> (\<forall>f\<in>set fs. name_len f \<le> foldl (\<lambda>m f. if m < name_len f then name_len f else m) m fs)" for m
  proof (induction fs arbitrary: m)
    case (Cons g fs)
    show ?case using Cons [of "if m < name_len g then name_len g else m"] by (auto split: if_splits)
  qed simp
  then show "f \<in> set fs \<Longrightarrow> name_len f \<le> max_name_len fs" by (simp add: max_name_len_def)
qed

theorem help_aligned:
  assumes "f \<in> set fs"
  shows "\<exists>pad. 2 \<le> pad \<and> flag_line ops (max_name_len fs) f = flag_column f @ replicate pad (CHR '' '') @ f_help f
      @ (if f_isRequired f then '' [required]'' else '' (default: '' @ print_value ops (f_defValue f) @ '')'') @ [CHR 0x0A]
    \<and> length (flag_column f) + pad = max_name_len fs + 5"
proof -
  have "length (flag_column f) + 2 \<le> max_name_len fs + 5"
    using max_name_len_bound [OF assms] by (simp add: flag_column_def name_len_def)
  then show ?thesis by (intro exI [of _ "max_name_len fs + 5 - length (flag_column f)"]) (simp add: flag_line_def)
qed

end
