(* ===== verification/Config_Tree.thy ===== *)
theory Config_Tree
  imports Std_Map String_Util Json_Parser
begin

text \<open>
  \<^verbatim>\<open>src/breutil/config.hpp\<close> (class \<^verbatim>\<open>Config\<close>): typed settings in a tree addressed by dotted keys, with
  validators, change callbacks and JSON import and export. \<^verbatim>\<open>std::any\<close> is the datatype \<open>any\<close> (\<open>None\<close>
  when empty); a value of a type without a JSON form is its type name and an identity. Callbacks
  are numbers, and \<^verbatim>\<open>Set\<close> returns the calls it makes. An operation that can throw returns the tree
  as well, because what it changed before the exception stays. The mutex serialises the operations and
  is left out, as are the warnings printed to the error stream.
\<close>

section \<open>Values and types\<close>

datatype 'd any = AInt int | ABool bool | ADouble 'd | AString string | AOther string nat

datatype any_type = AT_Int | AT_Bool | AT_Double | AT_String | AT_Other string

text \<open>The types \<open>T\<close> the templates are used with.\<close>

datatype cfg_type = CInt | CBool | CDouble | CString | CChars | CEnum string | CShared string | CUser string

fun any_type_of :: "'d any \<Rightarrow> any_type" where
  "any_type_of (AInt _) = AT_Int"
| "any_type_of (ABool _) = AT_Bool"
| "any_type_of (ADouble _) = AT_Double"
| "any_type_of (AString _) = AT_String"
| "any_type_of (AOther t _) = AT_Other t"

fun normalize_type :: "cfg_type \<Rightarrow> any_type" where
  "normalize_type CInt = AT_Int"
| "normalize_type CBool = AT_Bool"
| "normalize_type CDouble = AT_Double"
| "normalize_type CString = AT_String"
| "normalize_type CChars = AT_String"
| "normalize_type (CEnum _) = AT_Int"
| "normalize_type (CShared t) = AT_Other t"
| "normalize_type (CUser t) = AT_Other t"

definition is_non_serializable :: "cfg_type \<Rightarrow> bool" where
  "is_non_serializable T = (case T of CShared _ \<Rightarrow> True | _ \<Rightarrow> False)"

text \<open>An argument as the caller passes it, and its normal form; a null \<^verbatim>\<open>const char*\<close> is the empty string.\<close>

datatype 'd raw = RInt int | RBool bool | RDouble 'd | RString string | RChars "string option" | REnum string int
  | RShared string nat | RUser string nat

fun raw_type :: "'d raw \<Rightarrow> cfg_type" where
  "raw_type (RInt _) = CInt"
| "raw_type (RBool _) = CBool"
| "raw_type (RDouble _) = CDouble"
| "raw_type (RString _) = CString"
| "raw_type (RChars _) = CChars"
| "raw_type (REnum t _) = CEnum t"
| "raw_type (RShared t _) = CShared t"
| "raw_type (RUser t _) = CUser t"

fun normalize_value :: "'d raw \<Rightarrow> 'd any" where
  "normalize_value (RInt i) = AInt i"
| "normalize_value (RBool b) = ABool b"
| "normalize_value (RDouble d) = ADouble d"
| "normalize_value (RString s) = AString s"
| "normalize_value (RChars p) = AString (case p of None \<Rightarrow> [] | Some s \<Rightarrow> s)"
| "normalize_value (REnum t i) = AInt i"
| "normalize_value (RShared t n) = AOther t n"
| "normalize_value (RUser t n) = AOther t n"

definition any_cast :: "any_type \<Rightarrow> 'd any option \<Rightarrow> std_exn + 'd any" where
  "any_cast t a = (case a of None \<Rightarrow> Inl BadAnyCast | Some x \<Rightarrow> if any_type_of x = t then Inr x else Inl BadAnyCast)"

section \<open>The tree\<close>

type_synonym 'd validator = "bool \<Rightarrow> 'd any option \<Rightarrow> std_exn + 'd any option"

datatype 'd node = Node
  (children: "(string \<times> 'd node) list option")
  (validator: "'d validator option")
  (callbacks: "nat list")
  (val: "'d any option")
  (non_serializable: bool)

type_synonym 'd tree = "(string, 'd node) std_map"

definition empty_node :: "'d node" where
  "empty_node = Node None None [] None False"

definition kids :: "'d node \<Rightarrow> 'd tree" where
  "kids n = (case children n of None \<Rightarrow> [] | Some c \<Rightarrow> c)"

definition node_at :: "'d tree \<Rightarrow> string \<Rightarrow> 'd node" where
  "node_at m k = (case map_of m k of None \<Rightarrow> empty_node | Some n \<Rightarrow> n)"

definition set_children :: "'d tree option \<Rightarrow> 'd node \<Rightarrow> 'd node" where
  "set_children c n = Node c (validator n) (callbacks n) (val n) (non_serializable n)"

definition set_val :: "'d any option \<Rightarrow> 'd node \<Rightarrow> 'd node" where
  "set_val v n = Node (children n) (validator n) (callbacks n) v (non_serializable n)"

lemma node_simps [simp]:
  "children (set_val v n) = children n" "val (set_val v n) = v" "validator (set_val v n) = validator n"
  "callbacks (set_val v n) = callbacks n" "non_serializable (set_val v n) = non_serializable n"
  "children (set_children c n) = c" "val (set_children c n) = val n" "validator (set_children c n) = validator n"
  "callbacks (set_children c n) = callbacks n" "non_serializable (set_children c n) = non_serializable n"
  by (simp_all add: set_val_def set_children_def)

section \<open>Registration\<close>

definition bad_part :: "string \<Rightarrow> bool" where
  "bad_part k \<longleftrightarrow> k = [] \<or> CHR '' '' \<in> set k \<or> starts_with ''__'' k"

text \<open>The lambda that \<^verbatim>\<open>Register\<close> stores. The validator of the user works on normal forms; \<open>d\<close> is \<open>T()\<close>.\<close>

definition wrap_validator :: "any_type \<Rightarrow> 'd any \<Rightarrow> (bool \<Rightarrow> 'd any \<Rightarrow> std_exn + 'd any) option \<Rightarrow> 'd validator" where
  "wrap_validator nt d user is_set a =
     (case user of
        None \<Rightarrow> Inr a
      | Some f \<Rightarrow>
          if \<not> is_set then map_sum id Some (f False d)
          else bind_sum (any_cast nt a) (\<lambda>v. map_sum id Some (f True v)))"

text \<open>Walk down to the last part, creating nodes and maps on the way.\<close>

fun insert_at :: "string list \<Rightarrow> ('d node \<Rightarrow> 'd node) \<Rightarrow> 'd tree \<Rightarrow> 'd tree" where
  "insert_at [] f m = m"
| "insert_at [k] f m = map_set k (f (node_at m k)) m"
| "insert_at (k # k2 # ks) f m =
     (let n = node_at m k in map_set k (set_children (Some (insert_at (k2 # ks) f (kids n))) n) m)"

definition registered_node :: "bool \<Rightarrow> 'd validator \<Rightarrow> std_exn + 'd any option \<Rightarrow> 'd node \<Rightarrow> 'd node" where
  "registered_node nonser w default_val n =
     Node (Some (kids n)) (Some w) (callbacks n) (case default_val of Inr a \<Rightarrow> a | Inl _ \<Rightarrow> val n) (nonser \<or> non_serializable n)"

definition Register :: "cfg_type \<Rightarrow> 'd any \<Rightarrow> (bool \<Rightarrow> 'd any \<Rightarrow> std_exn + 'd any) option \<Rightarrow> string \<Rightarrow> 'd tree
    \<Rightarrow> (std_exn + unit) \<times> 'd tree" where
  "Register T d user keys t =
     (let key_parts = Split keys (CHR ''.'') in
      case find bad_part key_parts of
        Some k \<Rightarrow> (Inl (InvalidArgument (''Invalid key part: '' @ (if k = [] then ''<empty>'' else k))), t)
      | None \<Rightarrow>
          let w = wrap_validator (normalize_type T) d user;
              default_val = w False (Some d);
              t' = insert_at key_parts (registered_node (is_non_serializable T) w default_val) t
          in (map_sum id (\<lambda>_. ()) default_val, t'))"

definition Register_value :: "'d raw \<Rightarrow> 'd any \<Rightarrow> string \<Rightarrow> 'd tree \<Rightarrow> (std_exn + unit) \<times> 'd tree" where
  "Register_value value d key t =
     (let v = normalize_value value
      in Register (raw_type value) d (Some (\<lambda>is_set x. Inr (if \<not> is_set then v else x))) key t)"

section \<open>Access\<close>

fun lookup_node :: "string list \<Rightarrow> 'd tree \<Rightarrow> 'd node option" where
  "lookup_node [] m = None"
| "lookup_node [k] m = map_of m k"
| "lookup_node (k # k2 # ks) m =
     (case map_of m k of
        None \<Rightarrow> None
      | Some n \<Rightarrow> (case children n of None \<Rightarrow> None | Some c \<Rightarrow> lookup_node (k2 # ks) c))"

fun update_node :: "string list \<Rightarrow> ('d node \<Rightarrow> 'd node) \<Rightarrow> 'd tree \<Rightarrow> 'd tree" where
  "update_node [] f m = m"
| "update_node [k] f m = (case map_of m k of None \<Rightarrow> m | Some n \<Rightarrow> map_set k (f n) m)"
| "update_node (k # k2 # ks) f m =
     (case map_of m k of
        None \<Rightarrow> m
      | Some n \<Rightarrow>
          (case children n of
             None \<Rightarrow> m
           | Some c \<Rightarrow> map_set k (set_children (Some (update_node (k2 # ks) f c)) n) m))"

fun set_error :: "string \<Rightarrow> string list \<Rightarrow> 'd tree option \<Rightarrow> std_exn option" where
  "set_error key [] m = None"
| "set_error key (k # ks) None = Some (InvalidArgument (''Key not registered: '' @ key))"
| "set_error key (k # ks) (Some m) =
     (case map_of m k of
        None \<Rightarrow> Some (InvalidArgument (''Key not registered: '' @ k @ '' in '' @ key))
      | Some n \<Rightarrow> if ks = [] then None else set_error key ks (children n))"

text \<open>At the node: the validated value and the old one.\<close>

definition set_value :: "any_type \<Rightarrow> 'd any \<Rightarrow> 'd node \<Rightarrow> std_exn + ('d any option \<times> 'd any)" where
  "set_value nt x n =
     bind_sum (case validator n of None \<Rightarrow> Inr x | Some w \<Rightarrow> bind_sum (w True (Some x)) (any_cast nt)) (\<lambda>final.
     bind_sum (case val n of
                 Some a \<Rightarrow> if non_serializable n then Inr None else map_sum id Some (any_cast nt (Some a))
               | None \<Rightarrow> Inr None) (\<lambda>old. Inr (old, final)))"

definition Set_key :: "'d raw \<Rightarrow> string \<Rightarrow> 'd tree \<Rightarrow> (std_exn + ('d any option \<times> (nat \<times> 'd any) list)) \<times> 'd tree" where
  "Set_key value key t =
     (let key_parts = Split key (CHR ''.''); nt = normalize_type (raw_type value); x = normalize_value value in
      case set_error key key_parts (Some t) of
        Some e \<Rightarrow> (Inl e, t)
      | None \<Rightarrow>
          (case lookup_node key_parts t of
             None \<Rightarrow> (Inr (None, []), t)
           | Some n \<Rightarrow>
               (case set_value nt x n of
                  Inl e \<Rightarrow> (Inl e, t)
                | Inr (old, final) \<Rightarrow>
                    (Inr (old, map (\<lambda>c. (c, final)) (callbacks n)), update_node key_parts (set_val (Some final)) t))))"

definition Get_key :: "cfg_type \<Rightarrow> string \<Rightarrow> 'd tree \<Rightarrow> std_exn + 'd any option" where
  "Get_key T key t =
     (case lookup_node (Split key (CHR ''.'')) t of
        None \<Rightarrow> Inr None
      | Some n \<Rightarrow>
          (case val n of
             None \<Rightarrow>
               (case validator n of
                  None \<Rightarrow> Inr None
                | Some w \<Rightarrow> bind_sum (w False None) (\<lambda>a. map_sum id Some (any_cast (normalize_type T) a)))
           | Some a \<Rightarrow>
               (case any_cast (normalize_type T) (Some a) of
                  Inr v \<Rightarrow> Inr (Some v)
                | Inl _ \<Rightarrow> Inl (RuntimeError (''Type mismatch when getting key '' @ [CHR 0x27] @ key @ [CHR 0x27] @ '': bad any_cast'')))))"

definition Has :: "string \<Rightarrow> 'd tree \<Rightarrow> bool" where
  "Has key t \<longleftrightarrow> lookup_node (Split key (CHR ''.'')) t \<noteq> None"

fun notify_error :: "string list \<Rightarrow> 'd tree \<Rightarrow> std_exn option" where
  "notify_error [] m = None"
| "notify_error (k # ks) m =
     (case map_of m k of
        None \<Rightarrow> Some (InvalidArgument (''Key not registered: '' @ k))
      | Some n \<Rightarrow>
          if ks = [] then None
          else (case children n of
                  None \<Rightarrow> Some (InvalidArgument (''Key not registered: '' @ k))
                | Some c \<Rightarrow> notify_error ks c))"

definition add_callback :: "nat \<Rightarrow> 'd node \<Rightarrow> 'd node" where
  "add_callback c n = Node (children n) (validator n) (callbacks n @ [c]) (val n) (non_serializable n)"

definition NotifyChange :: "string \<Rightarrow> nat \<Rightarrow> 'd tree \<Rightarrow> (std_exn + unit) \<times> 'd tree" where
  "NotifyChange key c t =
     (let key_parts = Split key (CHR ''.'') in
      case notify_error key_parts t of
        Some e \<Rightarrow> (Inl e, t)
      | None \<Rightarrow> (Inr (), update_node key_parts (add_callback c) t))"

section \<open>Traversal\<close>

fun collect_keys :: "string \<Rightarrow> 'd tree \<Rightarrow> string list" where
  "collect_keys prefix [] = []"
| "collect_keys prefix ((k, Node ch w cb v ns) # m) =
     (let full_key = (if prefix = [] then k else prefix @ ''.'' @ k)
      in full_key # (case ch of None \<Rightarrow> [] | Some c \<Rightarrow> collect_keys full_key c) @ collect_keys prefix m)"

definition GetAllKeys :: "'d tree \<Rightarrow> string list" where
  "GetAllKeys t = collect_keys [] t"

text \<open>The children are reset before the node; an exception of a validator stops the traversal.\<close>

fun to_default :: "'d tree \<Rightarrow> std_exn option \<times> 'd tree" where
  "to_default [] = (None, [])"
| "to_default ((k, Node ch w cb v ns) # m) =
     (case (case ch of None \<Rightarrow> (None, None) | Some c \<Rightarrow> (case to_default c of (e, c') \<Rightarrow> (e, Some c'))) of
        (Some e, ch') \<Rightarrow> (Some e, (k, Node ch' w cb v ns) # m)
      | (None, ch') \<Rightarrow>
          (case (case w of None \<Rightarrow> Inr None | Some f \<Rightarrow> f False None) of
             Inl e \<Rightarrow> (Some e, (k, Node ch' w cb v ns) # m)
           | Inr a \<Rightarrow> (case to_default m of (e, m') \<Rightarrow> (e, (k, Node ch' w cb a ns) # m'))))"

definition Reset_all :: "'d tree \<Rightarrow> std_exn option \<times> 'd tree" where
  "Reset_all t = to_default t"

section \<open>JSON\<close>

text \<open>\<open>trunc\<close> is the conversion of \<^verbatim>\<open>double\<close> to \<^verbatim>\<open>int\<close>, \<open>tname\<close> the name \<^verbatim>\<open>type_info::name\<close> gives. The
  constructors of \<^verbatim>\<open>Value\<close> from \<^verbatim>\<open>bool\<close> and \<^verbatim>\<open>double\<close> are explicit, the one from \<^verbatim>\<open>int\<close> is not: where the
  source assigns a \<^verbatim>\<open>bool\<close> or \<^verbatim>\<open>double\<close> to a \<^verbatim>\<open>Value\<close>, the constructor from \<^verbatim>\<open>int\<close> runs.\<close>

record 'd json_ops =
  trunc :: "'d \<Rightarrow> int"
  tname :: "string \<Rightarrow> string"

fun nested_value :: "'d json_ops \<Rightarrow> 'd any \<Rightarrow> 'd json" where
  "nested_value ops (AString s) = JString s"
| "nested_value ops (AInt i) = JInt i"
| "nested_value ops (ABool b) = JInt (if b then 1 else 0)"
| "nested_value ops (ADouble d) = JDouble d"
| "nested_value ops (AOther t n) = JString (''Unsupported type: '' @ tname ops t)"

fun leaf_value :: "'d json_ops \<Rightarrow> 'd any \<Rightarrow> 'd json" where
  "leaf_value ops (AString s) = JString s"
| "leaf_value ops (AInt i) = JInt i"
| "leaf_value ops (ABool b) = JBool b"
| "leaf_value ops (ADouble d) = JInt (trunc ops d)"
| "leaf_value ops (AOther t n) = JString (''Unsupported enum type: '' @ tname ops t)"

text \<open>\<^verbatim>\<open>json[key] = x\<close> on a null value or an object.\<close>

definition put_json :: "'d json \<Rightarrow> string \<Rightarrow> 'd json \<Rightarrow> 'd json" where
  "put_json j k x = (case key_set j k x of Inr w \<Rightarrow> w | Inl _ \<Rightarrow> j)"

definition non_serializable_text :: "'d json" where
  "non_serializable_text = JString ''this is a non-serializable object''"

fun build_json :: "'d json_ops \<Rightarrow> 'd tree \<Rightarrow> 'd json \<Rightarrow> 'd json"
  and node_json :: "'d json_ops \<Rightarrow> 'd node \<Rightarrow> 'd json" where
  "build_json ops [] j = j"
| "build_json ops ((k, n) # m) j = build_json ops m (put_json j k (node_json ops n))"
| "node_json ops (Node ch w cb v ns) =
     (case ch of
        Some (e # es) \<Rightarrow>
          (let cj = build_json ops (e # es) (JObject []) in
           if ns then put_json cj ''__non_serializable'' non_serializable_text
           else case v of None \<Rightarrow> cj | Some a \<Rightarrow> put_json cj ''__value'' (nested_value ops a))
      | _ \<Rightarrow>
          if ns then put_json (JObject []) ''__non_serializable'' non_serializable_text
          else case v of None \<Rightarrow> JNull | Some a \<Rightarrow> leaf_value ops a)"

definition ToJson :: "'d json_ops \<Rightarrow> ('d \<Rightarrow> string) \<Rightarrow> bool \<Rightarrow> 'd tree \<Rightarrow> string" where
  "ToJson ops ts indent t = json_ToString ts (build_json ops t JNull) indent 2 True"

datatype cfg_error = C_std std_exn | C_json json_exn | C_parse string nat

fun json_scalar :: "'d json \<Rightarrow> 'd any option" where
  "json_scalar (JString s) = Some (AString s)"
| "json_scalar (JInt i) = Some (AInt i)"
| "json_scalar (JBool b) = Some (ABool b)"
| "json_scalar (JDouble d) = Some (ADouble d)"
| "json_scalar _ = None"

text \<open>The value of an object's \<^verbatim>\<open>__value\<close> member is stored without validation.\<close>

definition take_value_member :: "(string \<times> 'd json) list \<Rightarrow> 'd node \<Rightarrow> 'd node" where
  "take_value_member m n =
     (case map_of m ''__value'' of
        None \<Rightarrow> n
      | Some j \<Rightarrow> (case json_scalar j of None \<Rightarrow> n | Some a \<Rightarrow> set_val (Some a) n))"

fun build_config :: "(string \<times> 'd json) list \<Rightarrow> 'd tree \<Rightarrow> cfg_error option \<times> 'd tree" where
  "build_config [] t = (None, t)"
| "build_config ((k, v) # es) t =
     (let n = node_at t k in
      if non_serializable n then build_config es (map_set k n t)
      else case v of
        JObject m \<Rightarrow>
          (case build_config m (kids n) of
             (e, c) \<Rightarrow>
               (let t' = map_set k (set_children (Some c) (take_value_member m n)) t
                in case e of Some x \<Rightarrow> (Some x, t') | None \<Rightarrow> build_config es t'))
      | _ \<Rightarrow>
          (case json_scalar v of
             None \<Rightarrow> (Some (C_std (InvalidArgument (''Unsupported JSON value type for key: '' @ k))), map_set k n t)
           | Some input \<Rightarrow>
               (case (case validator n of None \<Rightarrow> Inr (Some input) | Some w \<Rightarrow> w True (Some input)) of
                  Inl e \<Rightarrow> (Some (C_std e), map_set k n t)
                | Inr a \<Rightarrow> build_config es (map_set k (set_val a n) t))))"

definition FromJson :: "(string \<Rightarrow> ('d \<times> string) option) \<Rightarrow> string \<Rightarrow> 'd tree \<Rightarrow> cfg_error option \<times> 'd tree" where
  "FromJson fcd json_str t =
     (case json_parse fcd json_str False of
        Parsed (JObject m) \<Rightarrow> build_config m t
      | Parsed _ \<Rightarrow> (Some (C_json type_error), t)
      | ParseError message position \<Rightarrow> (Some (C_parse message position), t)
      | NoFuel \<Rightarrow> (None, t))"

section \<open>Lookups\<close>

lemma lookup_node_Nil_tree [simp]: "lookup_node p [] = None"
  by (induction p "[] :: 'd tree" rule: lookup_node.induct) simp_all

lemma lookup_node_Cons:
  "lookup_node (k # ks) m = (case map_of m k of None \<Rightarrow> None | Some n \<Rightarrow> if ks = [] then Some n else lookup_node ks (kids n))"
  by (cases ks) (auto simp: kids_def split: option.split)

declare lookup_node.simps(2,3) [simp del]
lemmas lookup_simps = lookup_node.simps(1) lookup_node_Cons

text \<open>A node without its children: all that reading a key looks at.\<close>

definition bare :: "'d node \<Rightarrow> 'd node" where
  "bare n = set_children None n"

lemma kids_simps [simp]: "kids (set_children c n) = (case c of None \<Rightarrow> [] | Some x \<Rightarrow> x)" "kids (set_val v n) = kids n"
  "kids (add_callback i n) = kids n" "kids (registered_node ns w d n) = kids n" "kids empty_node = []"
  by (simp_all add: kids_def add_callback_def registered_node_def empty_node_def)

lemma bare_set_children [simp]: "bare (set_children c n) = bare n"
  by (simp add: bare_def set_children_def)

lemma lookup_update_same: "lookup_node p t = Some n \<Longrightarrow> lookup_node p (update_node p f t) = Some (f n)"
proof (induction p f t arbitrary: n rule: update_node.induct)
  case (3 k k2 ks f m)
  then obtain n1 c where n1: "map_of m k = Some n1" "children n1 = Some c" "lookup_node (k2 # ks) c = Some n"
    by (auto simp: lookup_simps(2) [of k] kids_def split: option.splits)
  then show ?case using 3(1) [OF n1(1,2,3)] by (simp add: lookup_simps(2) [of k])
qed (auto simp: lookup_simps split: option.splits)

lemma lookup_update_other:
  assumes "\<And>n. kids (f n) = kids n"
  shows "p \<noteq> q \<Longrightarrow> map_option bare (lookup_node p (update_node q f t)) = map_option bare (lookup_node p t)"
  using assms
proof (induction q f t arbitrary: p rule: update_node.induct)
  case (2 k f m)
  then show ?case by (cases p) (auto simp: lookup_simps split: option.splits)
next
  case (3 k k2 ks f m)
  show ?case
  proof (cases "map_of m k")
    case (Some n)
    note n = this
    show ?thesis
    proof (cases "children n")
      case (Some c)
      have k: "kids n = c" using Some by (simp add: kids_def)
      show ?thesis
      proof (cases p)
        case (Cons j js)
        have "map_option bare (lookup_node js (update_node (k2 # ks) f c)) = map_option bare (lookup_node js c)" if "j = k"
          using 3(1) [OF n Some, of js] 3(2,3) Cons that by simp
        then show ?thesis using n Some Cons k by (auto simp: lookup_simps)
      qed (simp add: lookup_simps)
    qed (simp add: n)
  qed simp
qed simp

lemma lookup_insert_same: "p \<noteq> [] \<Longrightarrow> \<exists>n. lookup_node p (insert_at p f t) = Some (f n) \<and> (case lookup_node p t of None \<Rightarrow> n = empty_node | Some n' \<Rightarrow> n = n')"
proof (induction p f t rule: insert_at.induct)
  case (3 k k2 ks f m)
  then show ?case by (auto simp: lookup_simps(2) [of k] node_at_def Let_def split: option.splits)
qed (auto simp: lookup_simps node_at_def split: option.split)

lemma lookup_insert_other:
  assumes "\<And>n. kids (f n) = kids n"
  shows "p \<noteq> q \<Longrightarrow> p \<noteq> [] \<Longrightarrow> map_option bare (lookup_node p (insert_at q f t)) =
    (case lookup_node p t of Some n \<Rightarrow> Some (bare n) | None \<Rightarrow> if starts_with p q then Some (bare empty_node) else None)"
  using assms
proof (induction q f t arbitrary: p rule: insert_at.induct)
  case (1 f m)
  then show ?case by (auto simp: starts_with_def split: option.split)
next
  case (2 k f m)
  then obtain j js where p: "p = j # js" by (cases p) auto
  show ?case using 2 unfolding p by (auto simp: lookup_simps starts_with_def node_at_def split: option.splits)
next
  case (3 k k2 ks f m)
  obtain j js where p: "p = j # js" using 3(3) by (cases p) auto
  show ?case
  proof (cases "j = k \<and> js \<noteq> []")
    case True
    have "map_option bare (lookup_node js (insert_at (k2 # ks) f (kids (node_at m k)))) =
      (case lookup_node js (kids (node_at m k)) of Some n \<Rightarrow> Some (bare n) | None \<Rightarrow> if starts_with js (k2 # ks) then Some (bare empty_node) else None)"
      using 3(1) [OF refl, of js] 3(2,4) True p by simp
    then show ?thesis using True p
      by (auto simp: lookup_simps Let_def node_at_def starts_with_def split: option.splits)
  next
    case False
    then show ?thesis using p by (auto simp: lookup_simps Let_def node_at_def starts_with_def split: option.splits)
  qed
qed

lemma bare_eqD: "bare n = bare n' \<Longrightarrow> val n = val n' \<and> validator n = validator n'"
  by (simp add: bare_def set_children_def)

lemma Get_key_bare:
  assumes "map_option bare (lookup_node (Split key (CHR ''.'')) t) = map_option bare (lookup_node (Split key (CHR ''.'')) t')"
  shows "Get_key T key t = Get_key T key t'"
proof (cases "lookup_node (Split key (CHR ''.'')) t")
  case None
  then show ?thesis using assms by (simp add: Get_key_def)
next
  case (Some n)
  then obtain n' where n': "lookup_node (Split key (CHR ''.'')) t' = Some n'" "bare n = bare n'"
    using assms by (cases "lookup_node (Split key (CHR ''.'')) t'") auto
  have e: "val n = val n'" "validator n = validator n'" using bare_eqD [OF n'(2)] by simp_all
  show ?thesis unfolding Get_key_def Some n'(1) option.case e ..
qed

lemma Split_inject: "Split s d = Split s' d \<longleftrightarrow> s = s'"
  unfolding Split_pieces by (metis Join_pieces)

lemma Split_nonempty [simp]: "Split s d \<noteq> []"
  by (simp add: Split_pieces)

lemma set_error_None: "p \<noteq> [] \<Longrightarrow> set_error key p (Some t) = None \<longleftrightarrow> lookup_node p t \<noteq> None"
proof (induction p arbitrary: t)
  case (Cons k ks)
  have "set_error key ks None \<noteq> None" if "ks \<noteq> []" using that by (cases ks) auto
  then show ?case using Cons
    by (cases "map_of t k"; cases ks) (auto simp: lookup_simps(2) [of k] kids_def split: option.splits)
qed simp

lemma notify_error_None: "p \<noteq> [] \<Longrightarrow> notify_error p t = None \<longleftrightarrow> lookup_node p t \<noteq> None"
proof (induction p arbitrary: t)
  case (Cons k ks)
  then show ?case
    by (cases "map_of t k"; cases ks) (auto simp: lookup_simps(2) [of k] kids_def split: option.splits)
qed simp

section \<open>Keys\<close>

fun tree_ok :: "'d tree \<Rightarrow> bool" where
  "tree_ok [] = True"
| "tree_ok ((k, Node ch w cb v ns) # m) =
     (list_all (\<lambda>e. k < fst e) m \<and> (case ch of None \<Rightarrow> True | Some c \<Rightarrow> tree_ok c) \<and> tree_ok m)"

fun parts_ok :: "'d tree \<Rightarrow> bool" where
  "parts_ok [] = True"
| "parts_ok ((k, Node ch w cb v ns) # m) =
     (k \<noteq> [] \<and> CHR ''.'' \<notin> set k \<and> (case ch of None \<Rightarrow> True | Some c \<Rightarrow> parts_ok c) \<and> parts_ok m)"

fun paths :: "'d tree \<Rightarrow> string list list" where
  "paths [] = []"
| "paths ((k, Node ch w cb v ns) # m) =
     [k] # map ((#) k) (case ch of None \<Rightarrow> [] | Some c \<Rightarrow> paths c) @ paths m"

lemma tree_ok_Cons: "tree_ok ((k, n) # m) \<longleftrightarrow> list_all (\<lambda>e. k < fst e) m \<and> tree_ok (kids n) \<and> tree_ok m"
  by (cases n) (auto simp: kids_def split: option.split)

lemma parts_ok_Cons: "parts_ok ((k, n) # m) \<longleftrightarrow> k \<noteq> [] \<and> CHR ''.'' \<notin> set k \<and> parts_ok (kids n) \<and> parts_ok m"
  by (cases n) (auto simp: kids_def split: option.split)

lemma paths_Cons: "paths ((k, n) # m) = [k] # map ((#) k) (paths (kids n)) @ paths m"
  by (cases n) (auto simp: kids_def split: option.split)

lemma tree_induct [case_names Nil Cons]:
  assumes "P []" "\<And>k n m. P (kids n) \<Longrightarrow> P m \<Longrightarrow> P ((k, n) # m)"
  shows "P t"
proof (induction t rule: paths.induct)
  case (2 k ch w cb v ns m)
  have "P (kids (Node ch w cb v ns))" using 2(1) assms(1) by (cases ch) (simp_all add: kids_def)
  then show ?case using 2(2) assms(2) by blast
qed (rule assms(1))

lemma paths_nonempty: "p \<in> set (paths t) \<Longrightarrow> p \<noteq> []"
  by (induction t rule: tree_induct) (auto simp: paths_Cons)

lemma set_paths: "tree_ok t \<Longrightarrow> p \<in> set (paths t) \<longleftrightarrow> lookup_node p t \<noteq> None"
proof (induction t arbitrary: p rule: tree_induct)
  case (Cons k n m)
  have m: "map_of m k = None" using Cons.prems by (auto simp: tree_ok_Cons list_all_iff map_of_eq_None_iff)
  show ?case
  proof (cases p)
    case (Cons j js)
    have "[] \<notin> set (paths (kids n))" using paths_nonempty by blast
    moreover have "(k # js) \<notin> set (paths m)" using Cons.IH(2) [of "k # js"] Cons.prems m by (simp add: tree_ok_Cons lookup_simps)
    ultimately show ?thesis using Cons.IH Cons.prems Cons
      by (cases "j = k") (auto simp: paths_Cons tree_ok_Cons lookup_simps)
  qed (use paths_nonempty in \<open>force simp: lookup_simps\<close>)
qed simp

lemma distinct_paths: "tree_ok t \<Longrightarrow> distinct (paths t)"
proof (induction t rule: tree_induct)
  case (Cons k n m)
  have m: "map_of m k = None" using Cons.prems by (auto simp: tree_ok_Cons list_all_iff map_of_eq_None_iff)
  then have "k # js \<notin> set (paths m)" for js
    using set_paths [of m "k # js"] Cons.prems by (simp add: tree_ok_Cons lookup_simps)
  moreover have "[] \<notin> set (paths (kids n))" using paths_nonempty by blast
  ultimately show ?case using Cons by (auto simp: paths_Cons tree_ok_Cons distinct_map)
qed simp

lemma Join_path_Cons: "xs \<noteq> [] \<Longrightarrow> Join (x # xs) sep = x @ sep @ Join xs sep"
  by (cases xs) (simp_all add: Join_def Join_loop_acc)

lemma collect_keys_paths:
  "parts_ok t \<Longrightarrow> collect_keys pre t = map (\<lambda>p. if pre = [] then Join p ''.'' else pre @ ''.'' @ Join p ''.'') (paths t)"
proof (induction t arbitrary: pre rule: tree_induct)
  case (Cons k n m)
  let ?full = "if pre = [] then k else pre @ ''.'' @ k"
  have c: "collect_keys pre ((k, n) # m) = ?full # collect_keys ?full (kids n) @ collect_keys pre m"
    by (cases n) (simp add: kids_def Let_def split: option.split)
  have ne: "?full \<noteq> []" using Cons.prems by (simp add: parts_ok_Cons)
  have "collect_keys ?full (kids n) = map (\<lambda>p. ?full @ ''.'' @ Join p ''.'') (paths (kids n))"
    using Cons.IH(1) [of ?full] Cons.prems ne by (simp add: parts_ok_Cons)
  also have "\<dots> = map (\<lambda>p. if pre = [] then Join (k # p) ''.'' else pre @ ''.'' @ Join (k # p) ''.'') (paths (kids n))"
  proof (rule map_cong [OF refl])
    fix p assume "p \<in> set (paths (kids n))"
    then have "p \<noteq> []" by (rule paths_nonempty)
    then show "?full @ ''.'' @ Join p ''.'' = (if pre = [] then Join (k # p) ''.'' else pre @ ''.'' @ Join (k # p) ''.'')"
      by (simp add: Join_path_Cons)
  qed
  finally show ?case using Cons.IH(2) [of pre] Cons.prems unfolding c by (simp add: parts_ok_Cons paths_Cons Join_def)
qed simp

lemma paths_no_dot: "parts_ok t \<Longrightarrow> p \<in> set (paths t) \<Longrightarrow> x \<in> set p \<Longrightarrow> CHR ''.'' \<notin> set x"
  by (induction t arbitrary: p x rule: tree_induct) (auto simp: paths_Cons parts_ok_Cons)

lemma Split_of_path: "parts_ok t \<Longrightarrow> p \<in> set (paths t) \<Longrightarrow> Split (Join p ''.'') (CHR ''.'') = p"
  unfolding Split_pieces by (rule pieces_Join) (use paths_nonempty paths_no_dot in blast)+

section \<open>The invariant\<close>

lemma tree_ok_iff: "tree_ok t \<longleftrightarrow> map_ok t \<and> (\<forall>e\<in>set t. tree_ok (kids (snd e)))"
  by (induction t rule: tree_induct) (auto simp: tree_ok_Cons map_ok_def list_all_iff)

lemma parts_ok_iff: "parts_ok t \<longleftrightarrow> (\<forall>e\<in>set t. fst e \<noteq> [] \<and> CHR ''.'' \<notin> set (fst e) \<and> parts_ok (kids (snd e)))"
  by (induction t rule: tree_induct) (auto simp: parts_ok_Cons)

lemma tree_ok_map_set:
  assumes "tree_ok t" "tree_ok (kids n)"
  shows "tree_ok (map_set k n t)"
proof -
  have "tree_ok (kids (snd e))" if "e \<in> set (map_set k n t)" for e
    using map_set_entries [OF that] assms(2) assms(1) [unfolded tree_ok_iff [of t]] by (elim disjE) (simp_all only: snd_conv)
  then show ?thesis using assms(1) unfolding tree_ok_iff [of t] tree_ok_iff [of "map_set k n t"] by (simp only: map_ok_set ball_simps) blast
qed

lemma parts_ok_map_set:
  assumes "parts_ok t" "parts_ok (kids n)" "k \<noteq> []" "CHR ''.'' \<notin> set k"
  shows "parts_ok (map_set k n t)"
  unfolding parts_ok_iff [of "map_set k n t"]
proof
  fix e assume "e \<in> set (map_set k n t)"
  from map_set_entries [OF this] show "fst e \<noteq> [] \<and> CHR ''.'' \<notin> set (fst e) \<and> parts_ok (kids (snd e))"
  proof
    assume "e \<in> set t"
    then show ?thesis using assms(1) unfolding parts_ok_iff [of t] by blast
  qed (use assms in simp)
qed

lemma node_at_ok: "tree_ok t \<Longrightarrow> tree_ok (kids (node_at t k))" "parts_ok t \<Longrightarrow> parts_ok (kids (node_at t k))"
  using map_of_SomeD [of t k] unfolding tree_ok_iff [of t] parts_ok_iff [of t] node_at_def
  by (fastforce split: option.splits)+

lemma insert_at_ok:
  assumes "\<And>n. kids (f n) = kids n"
  shows "tree_ok t \<Longrightarrow> tree_ok (insert_at p f t)"
    and "parts_ok t \<Longrightarrow> (\<And>x. x \<in> set p \<Longrightarrow> x \<noteq> [] \<and> CHR ''.'' \<notin> set x) \<Longrightarrow> parts_ok (insert_at p f t)"
  using assms
  by (induction p f t rule: insert_at.induct)
    (auto simp: Let_def node_at_ok intro!: tree_ok_map_set parts_ok_map_set)

lemma update_node_ok:
  assumes "\<And>n. kids (f n) = kids n"
  shows "tree_ok t \<Longrightarrow> tree_ok (update_node p f t)" and "parts_ok t \<Longrightarrow> parts_ok (update_node p f t)"
proof -
  have sub: "tree_ok (kids n)" if "tree_ok m" "map_of m k = Some n" for m k and n :: "'a node"
    using that map_of_SomeD by (force simp: tree_ok_iff [of m])
  have subp: "parts_ok (kids n) \<and> k \<noteq> [] \<and> CHR ''.'' \<notin> set k" if "parts_ok m" "map_of m k = Some n" for m k and n :: "'a node"
    using that map_of_SomeD by (force simp: parts_ok_iff [of m])
  have kc: "kids n = c" if "children n = Some c" for n :: "'a node" and c using that by (simp add: kids_def)
  show "tree_ok t \<Longrightarrow> tree_ok (update_node p f t)"
    using assms by (induction p f t rule: update_node.induct)
      (auto simp: kc intro!: tree_ok_map_set dest: sub split: option.split)
  show "parts_ok t \<Longrightarrow> parts_ok (update_node p f t)"
    using assms by (induction p f t rule: update_node.induct)
      (auto simp: kc intro!: parts_ok_map_set dest: subp split: option.split)
qed

section \<open>Operations\<close>

lemma Register_cases:
  obtains (bad) k where "k \<in> set (Split keys (CHR ''.''))" "bad_part k" "Register T d user keys t
      = (Inl (InvalidArgument (''Invalid key part: '' @ (if k = [] then ''<empty>'' else k))), t)"
  | (good) "\<forall>k\<in>set (Split keys (CHR ''.'')). \<not> bad_part k"
      "Register T d user keys t = (map_sum id (\<lambda>_. ()) (wrap_validator (normalize_type T) d user False (Some d)),
         insert_at (Split keys (CHR ''.'')) (registered_node (is_non_serializable T) (wrap_validator (normalize_type T) d user)
           (wrap_validator (normalize_type T) d user False (Some d))) t)"
proof (cases "find bad_part (Split keys (CHR ''.''))")
  case None
  then have "\<forall>k\<in>set (Split keys (CHR ''.'')). \<not> bad_part k" by (auto simp: find_None_iff)
  then show ?thesis by (rule good) (simp add: Register_def Let_def None)
next
  case (Some k)
  then have "k \<in> set (Split keys (CHR ''.''))" "bad_part k" by (auto simp: find_Some_iff)
  then show ?thesis by (rule bad) (simp add: Register_def Some)
qed

lemma Set_key_cases:
  obtains (error) e where "Set_key x key t = (Inl e, t)"
  | (stored) n old final where "lookup_node (Split key (CHR ''.'')) t = Some n"
      "set_value (normalize_type (raw_type x)) (normalize_value x) n = Inr (old, final)"
      "Set_key x key t = (Inr (old, map (\<lambda>c. (c, final)) (callbacks n)), update_node (Split key (CHR ''.'')) (set_val (Some final)) t)"
proof (cases "set_error key (Split key (CHR ''.'')) (Some t)")
  case (Some e)
  then show ?thesis using error by (simp add: Set_key_def)
next
  case None
  then obtain n where n: "lookup_node (Split key (CHR ''.'')) t = Some n" using set_error_None [OF Split_nonempty] by blast
  show ?thesis
  proof (cases "set_value (normalize_type (raw_type x)) (normalize_value x) n")
    case (Inl e)
    then show ?thesis using None n error by (simp add: Set_key_def)
  next
    case (Inr r)
    then show ?thesis using None n stored [of n "fst r" "snd r"] by (simp add: Set_key_def split: prod.split)
  qed
qed

lemma any_type_normalize [simp]: "any_type_of (normalize_value x) = normalize_type (raw_type x)"
  by (cases x) simp_all

lemma any_cast_InrD: "any_cast nt a = Inr v \<Longrightarrow> any_type_of v = nt"
  by (auto simp: any_cast_def split: option.splits if_splits)

lemma set_value_type:
  assumes "set_value (normalize_type (raw_type x)) (normalize_value x) n = Inr (old, final)"
  shows "any_type_of final = normalize_type (raw_type x)"
proof (cases "validator n")
  case None
  then show ?thesis using assms by (auto simp: set_value_def bind_sum_Inr_iff)
next
  case (Some w)
  then show ?thesis using assms by (auto simp: set_value_def bind_sum_Inr_iff dest: any_cast_InrD)
qed

lemma Get_key_of: "lookup_node (Split key (CHR ''.'')) t = Some n \<Longrightarrow> val n = Some a \<Longrightarrow> any_type_of a = normalize_type T
  \<Longrightarrow> Get_key T key t = Inr (Some a)"
  by (simp add: Get_key_def any_cast_def)

section \<open>Properties\<close>



text \<open>Registering a key: a key with an empty part, a blank or a part that starts with two underscores
  is refused and nothing changes. Otherwise the key and its ancestors are present, no other key
  appears, other keys read as before, and a default of the right type is read back.\<close>

theorem config_Register_Get:
  "(\<exists>k\<in>set (Split keys (CHR ''.'')). bad_part k \<and> (\<exists>m. Register T d user keys t = (Inl (InvalidArgument m), t)))
   \<or> (\<exists>t' r. Register T d user keys t = (r, t') \<and> list_all (\<lambda>k. \<not> bad_part k) (Split keys (CHR ''.''))
        \<and> (\<forall>key. Has key t' \<longleftrightarrow> Has key t \<or> starts_with (Split key (CHR ''.'')) (Split keys (CHR ''.'')))
        \<and> (\<forall>T' key. key \<noteq> keys \<longrightarrow> Get_key T' key t' = Get_key T' key t)
        \<and> (\<forall>f a. user = Some f \<longrightarrow> f False d = Inr a \<longrightarrow> any_type_of a = normalize_type T \<longrightarrow> Get_key T keys t' = Inr (Some a)))"
proof (cases rule: Register_cases [of keys T d user t])
  case (bad k)
  then show ?thesis by blast
next
  case good
  define w where "w = wrap_validator (normalize_type T) d user"
  define g where "g = registered_node (is_non_serializable T) w (w False (Some d))"
  define t' where "t' = insert_at (Split keys (CHR ''.'')) g t"
  have g: "kids (g n) = kids n" for n by (simp add: g_def)
  obtain n where n: "lookup_node (Split keys (CHR ''.'')) t' = Some (g n)"
    using lookup_insert_same [OF Split_nonempty, of keys "CHR ''.''" g t] unfolding t'_def by blast
  note other = lookup_insert_other [of g, OF g]
  have has: "Has key t' \<longleftrightarrow> Has key t \<or> starts_with (Split key (CHR ''.'')) (Split keys (CHR ''.''))" for key
  proof (cases "key = keys")
    case True
    then show ?thesis using n by (simp add: Has_def starts_with_def)
  next
    case False
    then show ?thesis
      using arg_cong [OF other [of "Split key (CHR ''.'')" "Split keys (CHR ''.'')" t], of "\<lambda>x. x \<noteq> None"]
      by (auto simp: Has_def Split_inject t'_def split: option.splits if_splits)
  qed
  have get: "Get_key T' key t' = Get_key T' key t" if "key \<noteq> keys" for T' key
  proof (cases "lookup_node (Split key (CHR ''.'')) t")
    case (Some n)
    then show ?thesis using that other [of "Split key (CHR ''.'')" "Split keys (CHR ''.'')" t]
      by (intro Get_key_bare) (simp add: Split_inject t'_def)
  next
    case None
    then show ?thesis using that other [of "Split key (CHR ''.'')" "Split keys (CHR ''.'')" t]
      by (auto simp: Get_key_def Split_inject t'_def bare_def set_children_def empty_node_def split: if_splits option.splits)
  qed
  have "Get_key T keys t' = Inr (Some a)" if "user = Some f" "f False d = Inr a" "any_type_of a = normalize_type T" for f a
    using that by (intro Get_key_of [OF n]) (simp_all add: g_def registered_node_def w_def wrap_validator_def)
  moreover have "list_all (\<lambda>k. \<not> bad_part k) (Split keys (CHR ''.''))" using good(1) by (simp add: list_all_iff)
  ultimately show ?thesis using good(2) has get unfolding w_def [symmetric] g_def [symmetric] t'_def [symmetric] by blast
qed

theorem config_Register_Get_witness:
  "Get_key CInt ''video.fps'' (snd (Register_value (RInt 30) (AInt 0) ''video.fps'' ([] :: nat tree))) = Inr (Some (AInt 30))"
proof -
  have "\<not> (\<exists>k\<in>set (Split ''video.fps'' (CHR ''.'')). bad_part k)" by code_simp
  with config_Register_Get [of "''video.fps''" CInt "AInt 0" "Some (\<lambda>is_set x. Inr (if \<not> is_set then AInt 30 else x))" "[] :: nat tree"]
  show ?thesis by (auto simp: Register_value_def)
qed

text \<open>The keys of the tree.\<close>

lemma Register_ok:
  assumes "tree_ok t" "parts_ok t"
  shows "tree_ok (snd (Register T d user keys t)) \<and> parts_ok (snd (Register T d user keys t))"
proof (cases rule: Register_cases [of keys T d user t])
  case good
  have "x \<noteq> [] \<and> CHR ''.'' \<notin> set x" if "x \<in> set (Split keys (CHR ''.''))" for x
    using that good(1) pieces_char_free [of x "CHR ''.''" keys] by (auto simp: bad_part_def Split_pieces)
  then show ?thesis unfolding good(2) snd_conv using assms by (auto intro!: insert_at_ok)
qed (use assms in simp)

lemma Set_key_ok: "tree_ok t \<and> parts_ok t \<Longrightarrow> tree_ok (snd (Set_key x key t)) \<and> parts_ok (snd (Set_key x key t))"
  by (cases rule: Set_key_cases [of x key t]) (auto intro!: update_node_ok)

lemma NotifyChange_ok: "tree_ok t \<and> parts_ok t \<Longrightarrow> tree_ok (snd (NotifyChange key c t)) \<and> parts_ok (snd (NotifyChange key c t))"
  by (auto simp: NotifyChange_def Let_def intro!: update_node_ok split: option.split)

text \<open>Resetting: one node, and the whole tree.\<close>

definition default_of :: "'d node \<Rightarrow> std_exn + 'd any option" where
  "default_of n = (case validator n of None \<Rightarrow> Inr None | Some f \<Rightarrow> f False None)"

lemma to_default_Cons:
  "to_default ((k, n) # m) =
     (case to_default (kids n) of
        (Some e, c) \<Rightarrow> (Some e, (k, set_children (map_option (\<lambda>_. c) (children n)) n) # m)
      | (None, c) \<Rightarrow>
          (case default_of n of
             Inl e \<Rightarrow> (Some e, (k, set_children (map_option (\<lambda>_. c) (children n)) n) # m)
           | Inr a \<Rightarrow> (case to_default m of (e, m') \<Rightarrow> (e, (k, set_val a (set_children (map_option (\<lambda>_. c) (children n)) n)) # m'))))"
  by (cases n) (auto simp: kids_def default_of_def set_children_def set_val_def split: option.split prod.split sum.split)

lemma kids_reset: "to_default (kids n) = (e, c) \<Longrightarrow> kids (set_children (map_option (\<lambda>_. c) (children n)) n) = c"
  by (cases "children n") (auto simp: kids_def)

lemma to_default_keys: "to_default t = (e, t') \<Longrightarrow> map fst t' = map fst t"
  by (induction t arbitrary: e t' rule: tree_induct) (auto simp: to_default_Cons split: prod.splits option.splits sum.splits)

lemma to_default_ok:
  "to_default t = (e, t') \<Longrightarrow> (tree_ok t \<longrightarrow> tree_ok t') \<and> (parts_ok t \<longrightarrow> parts_ok t')"
proof (induction t arbitrary: e t' rule: tree_induct)
  case (Cons k n m)
  obtain e1 c where c: "to_default (kids n) = (e1, c)" by fastforce
  obtain e2 m' where m': "to_default m = (e2, m')" by fastforce
  have keys: "list_all (\<lambda>e. k < fst e) m' = list_all (\<lambda>e. k < fst e) m"
  proof -
    have "list_all (\<lambda>e. k < fst e) xs = list_all ((<) k) (map fst xs)" for xs :: "'a tree" by (simp add: list_all_iff)
    then show ?thesis using to_default_keys [OF m'] by simp
  qed
  note k = kids_reset [OF c]
  have "t' = (k, set_children (map_option (\<lambda>_. c) (children n)) n) # m
      \<or> (\<exists>a. t' = (k, set_val a (set_children (map_option (\<lambda>_. c) (children n)) n)) # m')"
    using Cons.prems c m' by (auto simp: to_default_Cons split: option.splits sum.splits)
  then show ?case
  proof
    assume "t' = (k, set_children (map_option (\<lambda>_. c) (children n)) n) # m"
    then show ?thesis using Cons.IH(1) [OF c] by (simp only: tree_ok_Cons parts_ok_Cons k) blast
  next
    assume "\<exists>a. t' = (k, set_val a (set_children (map_option (\<lambda>_. c) (children n)) n)) # m'"
    then obtain a where "t' = (k, set_val a (set_children (map_option (\<lambda>_. c) (children n)) n)) # m'" by blast
    then show ?thesis
      using Cons.IH(1) [OF c] Cons.IH(2) [OF m'] by (simp only: tree_ok_Cons parts_ok_Cons kids_simps(2) k keys) blast
  qed
qed simp

lemma to_default_lookup:
  "to_default t = (None, t') \<Longrightarrow> lookup_node p t = Some n \<Longrightarrow>
   \<exists>n'. lookup_node p t' = Some n' \<and> validator n' = validator n \<and> callbacks n' = callbacks n \<and> default_of n = Inr (val n')"
proof (induction t arbitrary: t' p rule: tree_induct)
  case (Cons k n0 m)
  obtain c a m' where c: "to_default (kids n0) = (None, c)" "default_of n0 = Inr a" "to_default m = (None, m')"
      "t' = (k, set_val a (set_children (map_option (\<lambda>_. c) (children n0)) n0)) # m'"
    using Cons.prems(1) by (auto simp: to_default_Cons split: prod.splits option.splits sum.splits)
  obtain j js where p: "p = j # js" using Cons.prems(2) by (cases p) auto
  show ?case
  proof (cases "j = k")
    case True
    then show ?thesis
      using Cons.IH(1) [OF c(1), of js] Cons.prems(2) c(2,4) p kids_reset [OF c(1)]
      by (cases "js = []") (auto simp: lookup_simps default_of_def simp del: kids_simps(1))
  next
    case False
    then show ?thesis using Cons.IH(2) [OF c(3), of p] Cons.prems(2) c(4) p by (simp add: lookup_simps)
  qed
qed simp

lemma GetAllKeys_Has:
  assumes "tree_ok t" "parts_ok t"
  shows "set (GetAllKeys t) = {key. Has key t}" "distinct (GetAllKeys t)"
proof -
  have g: "GetAllKeys t = map (\<lambda>p. Join p ''.'') (paths t)" by (simp add: GetAllKeys_def collect_keys_paths [OF assms(2)])
  have inv: "Split (Join p ''.'') (CHR ''.'') = p" if "p \<in> set (paths t)" for p by (rule Split_of_path [OF assms(2) that])
  have "key \<in> set (GetAllKeys t) \<longleftrightarrow> Has key t" for key
  proof
    assume "key \<in> set (GetAllKeys t)"
    then obtain p where "p \<in> set (paths t)" "key = Join p ''.''" by (auto simp: g)
    then show "Has key t" using inv [of p] set_paths [OF assms(1), of p] by (simp add: Has_def)
  next
    assume "Has key t"
    then have "Split key (CHR ''.'') \<in> set (paths t)" using set_paths [OF assms(1)] by (simp add: Has_def)
    moreover have "key = Join (Split key (CHR ''.'')) ''.''" by (simp add: Split_pieces Join_pieces)
    ultimately show "key \<in> set (GetAllKeys t)" unfolding g set_map by (rule rev_image_eqI)
  qed
  then show "set (GetAllKeys t) = {key. Has key t}" by blast
  show "distinct (GetAllKeys t)"
    unfolding g distinct_map using distinct_paths [OF assms(1)] by (intro conjI inj_onI) (simp_all only:, metis inv)
qed

text \<open>The tree stays sorted with well-formed key parts under every operation, and \<^verbatim>\<open>GetAllKeys\<close>
  lists exactly the keys that \<^verbatim>\<open>Has\<close> finds, each once.\<close>

theorem config_keys:
  assumes "tree_ok t" "parts_ok t"
  shows "list_all (\<lambda>t'. tree_ok t' \<and> parts_ok t')
      [snd (Register T d user keys t), snd (Set_key x keys t), snd (NotifyChange keys c t), snd (Reset_all t)]
    \<and> set (GetAllKeys t) = {key. Has key t} \<and> distinct (GetAllKeys t)"
proof -
  have "tree_ok (snd (Reset_all t)) \<and> parts_ok (snd (Reset_all t))"
    using to_default_ok [of t] assms by (cases "to_default t") (simp add: Reset_all_def)
  then show ?thesis using Register_ok [OF assms] Set_key_ok [of t] NotifyChange_ok [of t] GetAllKeys_Has [OF assms] assms by simp
qed

theorem config_keys_witness:
  "tree_ok (snd (NotifyChange ''a'' 0 ([] :: nat tree))) \<and> GetAllKeys ([] :: nat tree) = []"
  using config_keys [of "[] :: nat tree" _ _ _ "''a''" _ 0] by (simp add: Has_def)

text \<open>\<^verbatim>\<open>Reset\<close>, when no validator throws, gives every node back the default of its validator (no
  value where there is none) and keeps validators and callbacks; a key registered with a default
  value reads that value again, whatever was set before.\<close>

theorem config_Reset:
  assumes "Reset_all t = (None, t')" "lookup_node (Split key (CHR ''.'')) t = Some n"
  shows "\<exists>n'. lookup_node (Split key (CHR ''.'')) t' = Some n' \<and> validator n' = validator n \<and> callbacks n' = callbacks n
      \<and> default_of n = Inr (val n')
      \<and> (\<forall>T d f a. validator n = Some (wrap_validator (normalize_type T) d (Some f)) \<longrightarrow> f False d = Inr a \<longrightarrow>
            any_type_of a = normalize_type T \<longrightarrow> Get_key T key t' = Inr (Some a))"
proof -
  obtain n' where n': "lookup_node (Split key (CHR ''.'')) t' = Some n'" "validator n' = validator n" "callbacks n' = callbacks n"
      "default_of n = Inr (val n')"
    using to_default_lookup assms unfolding Reset_all_def by blast
  moreover have "Get_key T key t' = Inr (Some a)"
    if "validator n = Some (wrap_validator (normalize_type T) d (Some f))" "f False d = Inr a" "any_type_of a = normalize_type T" for T d f a
    using that n'(4) by (intro Get_key_of [OF n'(1)]) (simp_all add: default_of_def wrap_validator_def)
  ultimately show ?thesis by blast
qed

definition sample_config :: "nat tree" where
  "sample_config = snd (Register_value (RBool True) (ABool False) ''video''
     (snd (Register_value (RDouble 3) (ADouble 0) ''video.gain'' (snd (Register_value (RInt 30) (AInt 0) ''video.fps'' [])))))"

theorem config_Reset_witness:
  "Get_key CInt ''a'' (snd (Reset_all (snd (Set_key (RInt 5) ''a'' (snd (Register_value (RInt 30) (AInt 0) ''a'' ([] :: nat tree)))))))
   = Inr (Some (AInt 30))"
proof -
  let ?f = "\<lambda>is_set x. Inr (if \<not> is_set then AInt 30 else x) :: std_exn + nat any"
  let ?w = "wrap_validator (normalize_type CInt) (AInt 0) (Some ?f)"
  let ?t = "[(''a'', Node (Some []) (Some ?w) [] (Some (AInt 5)) False)] :: nat tree"
  have s: "Split ''a'' (CHR ''.'') = [''a'']" by code_simp
  have t: "snd (Set_key (RInt 5) ''a'' (snd (Register_value (RInt 30) (AInt 0) ''a'' ([] :: nat tree)))) = ?t"
    by (simp add: Register_value_def Register_def s Let_def bad_part_def starts_with_def registered_node_def node_at_def empty_node_def
        kids_def wrap_validator_def is_non_serializable_def Set_key_def set_value_def any_cast_def set_val_def lookup_simps)
  have "Reset_all ?t = (None, snd (Reset_all ?t))" by (simp add: Reset_all_def wrap_validator_def)
  moreover have "lookup_node (Split ''a'' (CHR ''.'')) ?t = Some (Node (Some []) (Some ?w) [] (Some (AInt 5)) False)"
    by (simp add: s lookup_simps)
  ultimately have all: "\<And>T d f a. validator (Node (Some []) (Some ?w) [] (Some (AInt 5)) False) = Some (wrap_validator (normalize_type T) d (Some f))
      \<Longrightarrow> f False d = Inr a \<Longrightarrow> any_type_of a = normalize_type T \<Longrightarrow> Get_key T ''a'' (snd (Reset_all ?t)) = Inr (Some a)"
    using config_Reset by blast
  have "Get_key CInt ''a'' (snd (Reset_all ?t)) = Inr (Some (AInt 30))" by (rule all [where f = ?f and d = "AInt 0"]) simp_all
  then show ?thesis unfolding t .
qed

definition nat_to_digits :: "nat \<Rightarrow> string" where
  "nat_to_digits = to_digits 10"

definition throws :: "std_exn + 'a \<Rightarrow> bool" where
  "throws r = (case r of Inl (RuntimeError _) \<Rightarrow> True | _ \<Rightarrow> False)"

text \<open>Importing the exported text does not restore the settings. A \<^verbatim>\<open>double\<close> without children is
  exported as an integer, which its validator rejects on import with an exception; a \<^verbatim>\<open>bool\<close> with
  children is exported as a number, so that after the import reading it as a \<^verbatim>\<open>bool\<close> throws; and the
  import creates keys that were never registered, here one for the marker \<^verbatim>\<open>__value\<close>.\<close>

theorem config_json_defects:
  "let ops = \<lparr>trunc = int, tname = (\<lambda>t. t)\<rparr>;
       r = FromJson (\<lambda>_. None) (ToJson ops nat_to_digits False sample_config) sample_config
   in Get_key CDouble ''video.gain'' sample_config = Inr (Some (ADouble 3))
      \<and> fst r = Some (C_std BadAnyCast)
      \<and> Get_key CBool ''video'' sample_config = Inr (Some (ABool True)) \<and> throws (Get_key CBool ''video'' (snd r))
      \<and> \<not> Has ''video.__value'' sample_config \<and> Has ''video.__value'' (snd r)"
  by code_simp

end
