(* ===== verification/Tcp_Framing.thy ===== *)
theory Tcp_Framing
  imports Net_Header
begin

text \<open>
  The message framing that both implementations of \<^verbatim>\<open>TCPSession\<close> share: \<^verbatim>\<open>Send\<close> puts a header with the
  size before the payload, and the reader alternates between a header of fixed size and a payload of
  the announced size. The interface \<open>message_receiver\<close> states what a reader does with one frame; its lemma
  is the behaviour on a whole stream.
\<close>

section \<open>Frames\<close>

definition header_bytes :: "bool \<Rightarrow> nat \<Rightarrow> byte list" where
  "header_bytes big n = fst (GetHeaderData big NetHeader (word_of_nat n))"

text \<open>The buffer that \<^verbatim>\<open>Send\<close> builds.\<close>

definition frame :: "bool \<Rightarrow> byte list \<Rightarrow> byte list" where
  "frame big data = header_bytes big (length data) @ data"

lemma header_ok_NetHeader: "header_ok NetHeader"
  by (simp add: header_ok_def NetHeader_def HeaderSize_def)

lemma length_header_bytes [simp]: "length (header_bytes big n) = HeaderSize"
  by (simp add: header_bytes_def GetHeaderData_def NetHeader_def HeaderSize_def Let_def)

lemma Parse_header_bytes:
  assumes "n < 2 ^ 32"
  shows "fst (Parse big h (header_bytes big n))" "unat (FileSize (snd (Parse big h (header_bytes big n)))) = n"
proof -
  note P = Parse_header_data [OF header_ok_NetHeader, of big h "word_of_nat n"]
  show "fst (Parse big h (header_bytes big n))" using P(1) by (simp add: header_bytes_def)
  have "unat (ucast (word_of_nat n :: u64) :: u32) = n"
    using assms by (simp add: unsigned_ucast_eq unsigned_of_nat take_bit_nat_eq_self take_bit_eq_mod)
  then show "unat (FileSize (snd (Parse big h (header_bytes big n)))) = n" using P(2) by (simp add: header_bytes_def)
qed

lemma take_frame: "take HeaderSize (frame big m @ r) = header_bytes big (length m)"
  by (simp add: frame_def)

lemma drop_frame: "drop HeaderSize (frame big m @ r) = m @ r"
  by (simp add: frame_def)

lemma length_frame: "length (frame big m) = HeaderSize + length m"
  by (simp add: frame_def)

lemma HeaderSize_pos [simp]: "HeaderSize \<noteq> 0" "0 < HeaderSize"
  by (simp_all add: HeaderSize_def)

section \<open>What sessions observe and report\<close>

text \<open>An error code of asio, with the text of its \<^verbatim>\<open>message()\<close>.\<close>

datatype error_code = Ok | Eof string | Aborted string | Failed string

definition ec_message :: "error_code \<Rightarrow> string" where
  "ec_message ec = (case ec of Ok \<Rightarrow> [] | Eof m \<Rightarrow> m | Aborted m \<Rightarrow> m | Failed m \<Rightarrow> m)"

definition is_eof :: "error_code \<Rightarrow> bool" where
  "is_eof ec = (case ec of Eof _ \<Rightarrow> True | _ \<Rightarrow> False)"

definition is_aborted :: "error_code \<Rightarrow> bool" where
  "is_aborted ec = (case ec of Aborted _ \<Rightarrow> True | _ \<Rightarrow> False)"

lemma error_code_simps [simp]:
  "\<not> is_aborted Ok" "\<not> is_aborted (Eof m)" "is_aborted (Aborted m)" "\<not> is_aborted (Failed m)"
  "\<not> is_eof Ok" "is_eof (Eof m)" "\<not> is_eof (Aborted m)" "\<not> is_eof (Failed m)"
  by (simp_all add: is_aborted_def is_eof_def)

text \<open>The calls of the three callbacks, and what is written to \<^verbatim>\<open>std::cout\<close>.\<close>

datatype session_event = Message "byte list" | Disconnected u64 | Error u64 string | Printed string

definition is_disconnect :: "session_event \<Rightarrow> bool" where
  "is_disconnect e = (case e of Disconnected _ \<Rightarrow> True | _ \<Rightarrow> False)"

definition messages_of :: "session_event list \<Rightarrow> byte list list" where
  "messages_of es = concat (map (\<lambda>e. case e of Message m \<Rightarrow> [m] | _ \<Rightarrow> []) es)"

lemma messages_of_append [simp]: "messages_of (a @ b) = messages_of a @ messages_of b"
  by (simp add: messages_of_def)

section \<open>Receivers\<close>

text \<open>
  A receiver asks for \<open>want s\<close> bytes, if it is reading at all, and \<open>recv\<close> completes the read. The bytes of a stream
  as they become available: outstanding reads complete while there is enough.
\<close>

function feed :: "('s \<Rightarrow> nat option) \<Rightarrow> (byte list \<Rightarrow> 's \<Rightarrow> 's) \<Rightarrow> 's \<Rightarrow> byte list \<Rightarrow> 's \<times> byte list" where
  "feed want recv s stream =
     (case want s of
        None \<Rightarrow> (s, stream)
      | Some n \<Rightarrow> if length stream < n \<or> n = 0 then (s, stream) else feed want recv (recv (take n stream) s) (drop n stream))"
  by pat_completeness auto
termination
  by (relation "measure (\<lambda>(want, recv, s, stream). length stream)") auto

declare feed.simps [simp del]

lemma feed_wait: "want s = None \<or> length a < the (want s) \<or> want s = Some 0 \<Longrightarrow> feed want recv s a = (s, a)"
  by (subst feed.simps) (auto split: option.split)

lemma feed_read: "want s = Some n \<Longrightarrow> n \<noteq> 0 \<Longrightarrow> length a = n \<Longrightarrow> feed want recv s (a @ b) = feed want recv (recv a s) b"
  by (subst feed.simps) simp

text \<open>TCP may cut the stream anywhere: what is left over waits for the next segment.\<close>

lemma feed_append: "feed want recv s (a @ b) = (case feed want recv s a of (s', r) \<Rightarrow> feed want recv s' (r @ b))"
proof (induction want recv s a rule: feed.induct)
  case (1 want recv s a)
  show ?case
  proof (cases "want s = None \<or> length a < the (want s) \<or> want s = Some 0")
    case True
    then show ?thesis using feed_wait [of want s a recv] by simp
  next
    case False
    then show ?thesis using 1 by (auto simp: feed.simps [of want recv s "a @ b"] feed.simps [of want recv s a])
  qed
qed

lemma feed_stop: "feed want recv s a = (s', r) \<Longrightarrow> feed want recv s' r = (s', r)"
proof (induction want recv s a rule: feed.induct)
  case (1 want recv s a)
  show ?case
  proof (cases "want s = None \<or> length a < the (want s) \<or> want s = Some 0")
    case True
    then show ?thesis using 1(2) feed_wait [of want s a recv] by simp
  next
    case False
    then show ?thesis using 1 by (auto simp: feed.simps [of want recv s a])
  qed
qed

fun feed_segments :: "('s \<Rightarrow> nat option) \<Rightarrow> (byte list \<Rightarrow> 's \<Rightarrow> 's) \<Rightarrow> 's \<Rightarrow> byte list \<Rightarrow> byte list list \<Rightarrow> 's \<times> byte list" where
  "feed_segments want recv s r [] = (s, r)"
| "feed_segments want recv s r (seg # segs) = (case feed want recv s (r @ seg) of (s', r') \<Rightarrow> feed_segments want recv s' r' segs)"

lemma feed_segments_concat:
  "feed want recv s r = (s, r) \<Longrightarrow> feed_segments want recv s r segs = feed want recv s (r @ concat segs)"
proof (induction segs arbitrary: s r)
  case (Cons seg segs)
  obtain s' r' where f: "feed want recv s (r @ seg) = (s', r')" by fastforce
  show ?case using Cons.IH [OF feed_stop [OF f]] f feed_append [of want recv s "r @ seg" "concat segs"] by simp
qed simp

text \<open>What a session promises: when ready it asks for a header, and after a header for the announced payload.\<close>

locale message_receiver =
  fixes big :: bool and ready :: "'s \<Rightarrow> bool" and want :: "'s \<Rightarrow> nat option" and recv :: "byte list \<Rightarrow> 's \<Rightarrow> 's"
    and messages :: "'s \<Rightarrow> byte list list"
  assumes ready_want: "ready s \<Longrightarrow> want s = Some HeaderSize"
    and recv_empty: "ready s \<Longrightarrow> ready (recv (header_bytes big 0) s) \<and> messages (recv (header_bytes big 0) s) = messages s"
    and recv_header: "ready s \<Longrightarrow> 0 < n \<Longrightarrow> n < 2 ^ 32 \<Longrightarrow> want (recv (header_bytes big n) s) = Some n"
    and recv_data: "ready s \<Longrightarrow> m \<noteq> [] \<Longrightarrow> length m < 2 ^ 32 \<Longrightarrow>
      ready (recv m (recv (header_bytes big (length m)) s)) \<and> messages (recv m (recv (header_bytes big (length m)) s)) = messages s @ [m]"
begin

lemma feed_frame:
  assumes "ready s" "length m < 2 ^ 32"
  shows "\<exists>s'. feed want recv s (frame big m @ rest) = feed want recv s' rest \<and> ready s'
    \<and> messages s' = messages s @ (if m = [] then [] else [m])"
proof -
  have h: "feed want recv s (frame big m @ rest) = feed want recv (recv (header_bytes big (length m)) s) (m @ rest)"
    using feed_read [of want s HeaderSize "header_bytes big (length m)" recv "m @ rest"] ready_want [OF assms(1)] by (simp add: frame_def)
  show ?thesis
  proof (cases "m = []")
    case True
    then show ?thesis using h recv_empty [OF assms(1)] by auto
  next
    case False
    then show ?thesis using h recv_data [OF assms(1) False assms(2)] recv_header [OF assms(1) _ assms(2)]
        feed_read [of want "recv (header_bytes big (length m)) s" "length m" m recv rest] by auto
  qed
qed

lemma feed_frames:
  assumes "ready s" "list_all (\<lambda>m. length m < 2 ^ 32) ms" "length r < HeaderSize"
  shows "\<exists>s'. feed want recv s (concat (map (frame big) ms) @ r) = (s', r) \<and> ready s' \<and> messages s' = messages s @ filter (\<lambda>m. m \<noteq> []) ms"
  using assms
proof (induction ms arbitrary: s)
  case Nil
  then show ?case using feed_wait [of want s r recv] ready_want by auto
next
  case (Cons m ms)
  obtain s1 where s1: "feed want recv s (frame big m @ concat (map (frame big) ms) @ r) = feed want recv s1 (concat (map (frame big) ms) @ r)"
      "ready s1" "messages s1 = messages s @ (if m = [] then [] else [m])"
    using feed_frame [OF Cons.prems(1)] Cons.prems(2) by fastforce
  obtain s' where "feed want recv s1 (concat (map (frame big) ms) @ r) = (s', r)" "ready s'"
      "messages s' = messages s1 @ filter (\<lambda>m. m \<noteq> []) ms"
    using Cons.IH [OF s1(2)] Cons.prems(2,3) by auto
  then show ?case using s1 by auto
qed

text \<open>Whatever the segmentation.\<close>

lemma feed_segments_frames:
  assumes "ready s" "list_all (\<lambda>m. length m < 2 ^ 32) ms" "concat segs = concat (map (frame big) ms)"
  shows "\<exists>s'. feed_segments want recv s [] segs = (s', []) \<and> ready s' \<and> messages s' = messages s @ filter (\<lambda>m. m \<noteq> []) ms"
  using feed_frames [OF assms(1,2), of "[]"] assms(3) feed_segments_concat [of want recv s "[]" segs]
    feed_wait [of want s "[]" recv] ready_want [OF assms(1)] by auto

end

end
