(* ===== verification/Tcp_Session.thy ===== *)
theory Tcp_Session
  imports Tcp_Framing Cpp_Charconv
begin

text \<open>
  \<^verbatim>\<open>src/breutil/net/tcp/tcp_session_impl_v1.hpp\<close>: the callback implementation of \<^verbatim>\<open>TCPSession\<close>. The asio
  operations are the environment: the record keeps which asynchronous read and which writes are outstanding (all of them, in the order they were started),
  whether the timers are armed and what was posted to the strand, and an event of the environment
  runs the completion handler. A completed read delivers exactly the bytes asked for, or an error
  code, and may have completed before the session was closed; \<^verbatim>\<open>operation_aborted\<close> is what an operation
  ends with when the socket was closed under it. The calls of the user's callbacks and what goes to \<^verbatim>\<open>std::cout\<close>
  are the list \<open>events\<close>; what a callback does to the session is a later event.
\<close>

section \<open>State\<close>

datatype read_op = ReadHeader | ReadData nat

fun op_size :: "read_op \<Rightarrow> nat" where
  "op_size ReadHeader = HeaderSize"
| "op_size (ReadData n) = n"

record session =
  session_id :: u64
  is_init_socket :: bool
  is_closed :: bool
  is_started :: bool
  is_writing :: bool
  header_reader :: net_header
  has_message_callback :: bool
  has_disconnect_callback :: bool
  has_error_callback :: bool
  write_queue :: "byte list list"
  read_timeout :: int
  write_timeout :: int
  pending_read :: "read_op option"
  pending_writes :: "byte list list"
  read_timer :: bool
  write_timer :: bool
  posted :: "byte list list"
  events :: "session_event list"

text \<open>The identifier is the value of a global counter before its increment.\<close>

definition generate_session_id :: "u64 \<Rightarrow> u64 \<times> u64" where
  "generate_session_id counter = (counter, counter + 1)"

definition TCPSession :: "u64 \<Rightarrow> session" where
  "TCPSession id0 =
     \<lparr>session_id = id0, is_init_socket = False, is_closed = False, is_started = False, is_writing = False,
      header_reader = NetHeader, has_message_callback = False, has_disconnect_callback = False, has_error_callback = False,
      write_queue = [], read_timeout = 30, write_timeout = 30, pending_read = None, pending_writes = [],
      read_timer = False, write_timer = False, posted = [], events = []\<rparr>"

definition SetInitSocket :: "bool \<Rightarrow> session \<Rightarrow> session" where
  "SetInitSocket v s = s\<lparr>is_init_socket := v\<rparr>"

definition SetCallbacks :: "bool \<Rightarrow> bool \<Rightarrow> bool \<Rightarrow> session \<Rightarrow> session" where
  "SetCallbacks m d e s = s\<lparr>has_message_callback := m, has_disconnect_callback := d, has_error_callback := e\<rparr>"

definition SetTimeouts :: "int \<Rightarrow> int \<Rightarrow> session \<Rightarrow> session" where
  "SetTimeouts r w s = s\<lparr>read_timeout := r, write_timeout := w\<rparr>"

definition IsClosed :: "session \<Rightarrow> bool" where
  "IsClosed s = is_closed s"

section \<open>Operations\<close>

definition say :: "string \<Rightarrow> session \<Rightarrow> session" where
  "say msg s = s\<lparr>events := events s @ [Printed (''Session '' @ to_chars_int 10 (uint (session_id s)) @ msg)]\<rparr>"

definition handle_error :: "string \<Rightarrow> session \<Rightarrow> session" where
  "handle_error msg s =
     (if has_error_callback s then s\<lparr>events := events s @ [Error (session_id s) msg]\<rparr> else say ('' error: '' @ msg) s)"

definition Stop :: "session \<Rightarrow> session" where
  "Stop s =
     (if is_closed s then s
      else s\<lparr>is_closed := True, is_init_socket := False, read_timer := False, write_timer := False,
             events := events s @ (if has_disconnect_callback s then [Disconnected (session_id s)] else [])\<rparr>)"

definition reset_read_timer :: "session \<Rightarrow> session" where
  "reset_read_timer s = (if read_timeout s = 0 then s else s\<lparr>read_timer := True\<rparr>)"

definition async_read_header :: "session \<Rightarrow> session" where
  "async_read_header s = s\<lparr>pending_read := Some ReadHeader\<rparr>"

definition async_read_data :: "nat \<Rightarrow> session \<Rightarrow> session" where
  "async_read_data n s = (if n = 0 then async_read_header s else s\<lparr>pending_read := Some (ReadData n)\<rparr>)"

definition Start :: "session \<Rightarrow> session" where
  "Start s =
     (if \<not> is_init_socket s then say '' socket not initialized, cannot start'' s
      else if is_closed s then s
      else if is_started s then s
      else async_read_header (reset_read_timer (s\<lparr>is_started := True\<rparr>)))"

definition Send :: "bool \<Rightarrow> byte list \<Rightarrow> session \<Rightarrow> session" where
  "Send big data s =
     (if is_closed s then say '' is closed, you need keep the session live longer'' s
      else s\<lparr>posted := posted s @ [frame big data]\<rparr>)"

definition do_write :: "session \<Rightarrow> session" where
  "do_write s =
     (case write_queue s of
        [] \<Rightarrow> s\<lparr>is_writing := False\<rparr>
      | payload # _ \<Rightarrow> s\<lparr>write_timer := (0 < write_timeout s \<or> write_timer s), pending_writes := pending_writes s @ [payload]\<rparr>)"

definition enqueue_write :: "byte list \<Rightarrow> session \<Rightarrow> session" where
  "enqueue_write buf s =
     (let s1 = s\<lparr>write_queue := write_queue s @ [buf]\<rparr>
      in if is_writing s1 then s1 else do_write (s1\<lparr>is_writing := True\<rparr>))"

section \<open>Completion handlers\<close>

definition on_header :: "bool \<Rightarrow> error_code \<Rightarrow> byte list \<Rightarrow> session \<Rightarrow> session" where
  "on_header big ec data s =
     (if ec \<noteq> Ok then
        if \<not> is_aborted ec then
          Stop (if \<not> is_eof ec then handle_error (''Read header failed: '' @ ec_message ec) s else s)
        else s
      else
        let s1 = reset_read_timer s; (parsed, h) = Parse big (header_reader s1) data; s2 = s1\<lparr>header_reader := h\<rparr>
        in if \<not> parsed then Stop (handle_error ''Parse header failed'' s2)
           else async_read_data (unat (FileSize h)) s2)"

definition on_data :: "error_code \<Rightarrow> byte list \<Rightarrow> session \<Rightarrow> session" where
  "on_data ec data s =
     (if ec \<noteq> Ok then
        if \<not> is_aborted ec then Stop (handle_error (''Read data failed: '' @ ec_message ec) s) else s
      else
        let s1 = reset_read_timer s;
            s2 = (if has_message_callback s1 then s1\<lparr>events := events s1 @ [Message data]\<rparr> else s1)
        in async_read_header s2)"

definition on_write :: "error_code \<Rightarrow> session \<Rightarrow> session" where
  "on_write ec s =
     (let s1 = s\<lparr>write_timer := False\<rparr> in
      if ec \<noteq> Ok then
        if \<not> is_aborted ec then Stop ((handle_error (''Write failed: '' @ ec_message ec) s1)\<lparr>is_writing := False\<rparr>) else s1
      else do_write (s1\<lparr>write_queue := tl (write_queue s1)\<rparr>))"

definition on_read_timer :: "session \<Rightarrow> session" where
  "on_read_timer s = Stop (handle_error ''Read timeout'' s)"

definition on_write_timer :: "session \<Rightarrow> session" where
  "on_write_timer s = Stop (handle_error ''Write timeout'' s)"

section \<open>The session in its environment\<close>

datatype input =
    In_Start
  | In_Stop
  | In_Send "byte list"
  | In_Posted
  | In_Read error_code "byte list"
  | In_Write nat error_code
  | In_Read_Timer
  | In_Write_Timer

definition read_done :: "bool \<Rightarrow> error_code \<Rightarrow> byte list \<Rightarrow> session \<Rightarrow> session" where
  "read_done big ec data s =
     (case pending_read s of
        None \<Rightarrow> s
      | Some ReadHeader \<Rightarrow> on_header big ec data (s\<lparr>pending_read := None\<rparr>)
      | Some (ReadData n) \<Rightarrow> on_data ec data (s\<lparr>pending_read := None\<rparr>))"

text \<open>\<open>None\<close>: the environment cannot do this now.\<close>

definition session_step :: "bool \<Rightarrow> input \<Rightarrow> session \<Rightarrow> session option" where
  "session_step big i s =
     (case i of
        In_Start \<Rightarrow> Some (Start s)
      | In_Stop \<Rightarrow> Some (Stop s)
      | In_Send data \<Rightarrow> Some (Send big data s)
      | In_Posted \<Rightarrow> (case posted s of [] \<Rightarrow> None | b # bs \<Rightarrow> Some (enqueue_write b (s\<lparr>posted := bs\<rparr>)))
      | In_Read ec data \<Rightarrow>
          (case pending_read s of
             None \<Rightarrow> None
           | Some op \<Rightarrow> if ec = Ok \<and> length data \<noteq> op_size op \<or> is_aborted ec \<and> \<not> is_closed s
                         then None else Some (read_done big ec data s))
      | In_Write k ec \<Rightarrow>
          if length (pending_writes s) \<le> k \<or> is_aborted ec \<and> \<not> is_closed s then None
          else Some (on_write ec (s\<lparr>pending_writes := take k (pending_writes s) @ drop (Suc k) (pending_writes s)\<rparr>))
      | In_Read_Timer \<Rightarrow> if read_timer s then Some (on_read_timer (s\<lparr>read_timer := False\<rparr>)) else None
      | In_Write_Timer \<Rightarrow> if write_timer s then Some (on_write_timer (s\<lparr>write_timer := False\<rparr>)) else None)"

text \<open>A run with the frames that were accepted and those that were written to the socket.\<close>

fun session_run :: "bool \<Rightarrow> input list \<Rightarrow> session \<Rightarrow> (byte list list \<times> byte list list \<times> session) option" where
  "session_run big [] s = Some ([], [], s)"
| "session_run big (i # is) s =
     (case session_step big i s of
        None \<Rightarrow> None
      | Some s' \<Rightarrow>
          (case session_run big is s' of
             None \<Rightarrow> None
           | Some (acc, wrt, t) \<Rightarrow>
               Some ((case i of In_Send data \<Rightarrow> if is_closed s then [] else [data] | _ \<Rightarrow> []) @ acc,
                     (case i of In_Write k ec \<Rightarrow> if ec = Ok then [pending_writes s ! k] else [] | _ \<Rightarrow> []) @ wrt, t)))"

section \<open>Invariant\<close>

text \<open>At most one write is outstanding, of the first frame of the queue; an open session has one whenever
  the queue is not empty; the disconnect callback has run exactly once if the session is closed.\<close>

definition session_ok :: "session \<Rightarrow> bool" where
  "session_ok s \<longleftrightarrow>
     (pending_writes s \<noteq> [] \<longrightarrow> is_writing s \<and> write_queue s \<noteq> [] \<and> pending_writes s = [hd (write_queue s)])
     \<and> (\<not> is_closed s \<longrightarrow> is_writing s = (pending_writes s \<noteq> []) \<and> (is_writing s \<or> write_queue s = []))
     \<and> length (filter is_disconnect (events s)) = (if is_closed s \<and> has_disconnect_callback s then 1 else 0)
     \<and> (is_closed s \<longrightarrow> \<not> is_init_socket s)
     \<and> (\<not> is_started s \<longrightarrow> pending_read s = None)"

lemma session_ok_new: "session_ok (TCPSession n)"
  by (simp add: session_ok_def TCPSession_def)

lemma session_ok_SetCallbacks: "session_ok s \<Longrightarrow> \<not> is_closed s \<Longrightarrow> session_ok (SetCallbacks m d e s)"
  by (auto simp: session_ok_def SetCallbacks_def)

lemma session_ok_say: "session_ok s \<Longrightarrow> session_ok (say m s)"
  by (auto simp: session_ok_def say_def is_disconnect_def)

lemma session_ok_handle_error: "session_ok s \<Longrightarrow> session_ok (handle_error m s)"
  using session_ok_say [of s] unfolding handle_error_def by (cases "has_error_callback s") (simp_all, auto simp: session_ok_def is_disconnect_def)

lemma session_ok_Stop: "session_ok s \<Longrightarrow> session_ok (Stop s)"
  by (auto simp: session_ok_def Stop_def is_disconnect_def)

lemma session_ok_Start: "session_ok s \<Longrightarrow> session_ok (Start s)"
  using session_ok_say [of s] unfolding Start_def
  by (cases "is_init_socket s") (simp_all, auto simp: session_ok_def async_read_header_def reset_read_timer_def)

lemma session_ok_Send: "session_ok s \<Longrightarrow> session_ok (Send big data s)"
  using session_ok_say [of s] unfolding Send_def by (cases "is_closed s") (simp_all, auto simp: session_ok_def)

lemma session_ok_enqueue_write: "session_ok s \<Longrightarrow> session_ok (enqueue_write b (s\<lparr>posted := bs\<rparr>))"
  by (cases "write_queue s") (auto simp: session_ok_def enqueue_write_def do_write_def Let_def)

lemma session_ok_reading:
  "session_ok s \<Longrightarrow> session_ok (s\<lparr>pending_read := None\<rparr>)"
  "session_ok s \<Longrightarrow> session_ok (s\<lparr>header_reader := h\<rparr>)"
  "session_ok s \<Longrightarrow> session_ok (s\<lparr>read_timer := y\<rparr>)"
  "session_ok s \<Longrightarrow> session_ok (s\<lparr>write_timer := y\<rparr>)"
  "session_ok s \<Longrightarrow> session_ok (s\<lparr>events := events s @ [Message m]\<rparr>)"
  "session_ok s \<Longrightarrow> session_ok (reset_read_timer s)"
  "session_ok s \<Longrightarrow> is_started s \<Longrightarrow> session_ok (async_read_header s)"
  "session_ok s \<Longrightarrow> is_started s \<Longrightarrow> session_ok (async_read_data n s)"
  by (auto simp: session_ok_def reset_read_timer_def async_read_header_def async_read_data_def is_disconnect_def)

lemma is_started_reset [simp]: "is_started (reset_read_timer s) = is_started s"
  by (simp add: reset_read_timer_def)

lemma session_ok_on_header: "session_ok s \<Longrightarrow> is_started s \<Longrightarrow> session_ok (on_header big ec data (s\<lparr>pending_read := None\<rparr>))"
  by (simp add: on_header_def session_ok_Stop session_ok_handle_error session_ok_reading Let_def split: prod.split)

lemma session_ok_on_data: "session_ok s \<Longrightarrow> is_started s \<Longrightarrow> session_ok (on_data ec data (s\<lparr>pending_read := None\<rparr>))"
  by (simp add: on_data_def session_ok_Stop session_ok_handle_error session_ok_reading Let_def)

lemma session_ok_on_write:
  assumes "session_ok s" "pending_writes s \<noteq> []" "is_aborted ec \<longrightarrow> is_closed s"
  shows "session_ok (on_write ec (s\<lparr>pending_writes := []\<rparr>))"
proof -
  obtain p q where p: "is_writing s" "write_queue s = p # q"
    using assms(1,2) by (cases "write_queue s") (auto simp: session_ok_def)
  show ?thesis using assms p
    by (cases q; cases "is_closed s")
      (auto simp: session_ok_def on_write_def Let_def Stop_def handle_error_def say_def is_disconnect_def do_write_def)
qed

lemma session_ok_timers:
  "session_ok s \<Longrightarrow> session_ok (on_read_timer (s\<lparr>read_timer := False\<rparr>))"
  "session_ok s \<Longrightarrow> session_ok (on_write_timer (s\<lparr>write_timer := False\<rparr>))"
  by (simp_all add: on_read_timer_def on_write_timer_def session_ok_Stop session_ok_handle_error session_ok_reading)

text \<open>Only the first frame of the queue can be outstanding.\<close>

lemma written_first:
  assumes "session_ok s" "k < length (pending_writes s)"
  shows "k = 0" "pending_writes s = [hd (write_queue s)]" "write_queue s \<noteq> []" "is_writing s"
proof -
  have *: "pending_writes s \<noteq> []" using assms(2) by auto
  then show "pending_writes s = [hd (write_queue s)]" "write_queue s \<noteq> []" "is_writing s"
    using assms(1) by (simp_all add: session_ok_def)
  then show "k = 0" using assms(2) by simp
qed

lemma session_step_ok: "session_ok s \<Longrightarrow> session_step big i s = Some s' \<Longrightarrow> session_ok s'"
proof (cases i)
  case (In_Read ec data)
  assume ok: "session_ok s" and st: "session_step big i s = Some s'"
  then obtain op where op: "pending_read s = Some op" "s' = read_done big ec data s"
    using In_Read by (auto simp: session_step_def split: option.splits if_splits)
  have "is_started s" using ok op(1) by (auto simp: session_ok_def)
  then show ?thesis
    using session_ok_on_header [OF ok] session_ok_on_data [OF ok] op by (cases op) (simp_all add: read_done_def)
next
  case (In_Write k ec)
  assume ok: "session_ok s" and st: "session_step big i s = Some s'"
  then have "s' = on_write ec (s\<lparr>pending_writes := []\<rparr>)" "pending_writes s \<noteq> []" "is_aborted ec \<longrightarrow> is_closed s"
    using In_Write written_first [OF ok, of k] by (auto simp: session_step_def split: if_splits)
  then show ?thesis using session_ok_on_write [OF ok] by simp
qed (auto simp: session_step_def session_ok_Start session_ok_Stop session_ok_Send session_ok_enqueue_write session_ok_timers
    split: list.splits if_splits)

section \<open>Sending\<close>

lemma queue_simps [simp]:
  "write_queue (Stop s) = write_queue s" "posted (Stop s) = posted s"
  "write_queue (say m s) = write_queue s" "posted (say m s) = posted s"
  "write_queue (handle_error m s) = write_queue s" "posted (handle_error m s) = posted s"
  "write_queue (Start s) = write_queue s" "posted (Start s) = posted s"
  "write_queue (do_write s) = write_queue s" "posted (do_write s) = posted s"
  "write_queue (reset_read_timer s) = write_queue s" "posted (reset_read_timer s) = posted s"
  "write_queue (async_read_header s) = write_queue s" "posted (async_read_header s) = posted s"
  "write_queue (async_read_data n s) = write_queue s" "posted (async_read_data n s) = posted s"
  by (simp_all add: Stop_def say_def handle_error_def Start_def do_write_def reset_read_timer_def async_read_header_def
      async_read_data_def split: list.split)

lemma queue_read_done [simp]: "write_queue (read_done big ec data s) = write_queue s" "posted (read_done big ec data s) = posted s"
  by (simp_all add: read_done_def on_header_def on_data_def Let_def split: option.split read_op.split prod.split)

text \<open>Each step moves frames along: accepted by \<^verbatim>\<open>Send\<close>, posted, queued, written.\<close>

lemma session_step_frames:
  assumes "session_ok s" "session_step big i s = Some s'"
  shows "(case i of In_Write k ec \<Rightarrow> if ec = Ok then [pending_writes s ! k] else [] | _ \<Rightarrow> []) @ write_queue s' @ posted s'
    = write_queue s @ posted s @ (case i of In_Send data \<Rightarrow> if is_closed s then [] else [frame big data] | _ \<Rightarrow> [])"
proof (cases i)
  case (In_Write k ec)
  then have k: "k < length (pending_writes s)" using assms(2) by (simp add: session_step_def split: if_splits)
  note f = written_first [OF assms(1) k]
  have "s' = on_write ec (s\<lparr>pending_writes := []\<rparr>)"
    using In_Write assms(2) f(1,2) by (auto simp: session_step_def split: if_splits)
  then show ?thesis using In_Write f by (cases "write_queue s") (simp_all add: on_write_def Let_def)
next
  case In_Posted
  then show ?thesis using assms(2) by (auto simp: session_step_def enqueue_write_def Let_def split: list.splits)
qed (use assms(2) in \<open>auto simp: session_step_def Send_def on_read_timer_def on_write_timer_def split: option.splits if_splits\<close>)

lemma session_run_frames:
  assumes "session_ok s" "session_run big ins s = Some (acc, wrt, t)"
  shows "session_ok t \<and> write_queue s @ posted s @ map (frame big) acc = wrt @ write_queue t @ posted t"
  using assms
proof (induction ins arbitrary: s acc wrt)
  case (Cons i ins)
  then obtain s' acc' wrt' where s': "session_step big i s = Some s'" "session_run big ins s' = Some (acc', wrt', t)"
    "acc = (case i of In_Send data \<Rightarrow> if is_closed s then [] else [data] | _ \<Rightarrow> []) @ acc'"
    "wrt = (case i of In_Write k ec \<Rightarrow> if ec = Ok then [pending_writes s ! k] else [] | _ \<Rightarrow> []) @ wrt'"
    by (auto split: option.splits)
  have ok: "session_ok s'" by (rule session_step_ok [OF Cons.prems(1) s'(1)])
  have "map (frame big) (case i of In_Send data \<Rightarrow> if is_closed s then [] else [data] | _ \<Rightarrow> [])
      = (case i of In_Send data \<Rightarrow> if is_closed s then [] else [frame big data] | _ \<Rightarrow> [])"
    by (simp split: input.split)
  then show ?case
    using Cons.IH [OF ok s'(2)] session_step_frames [OF Cons.prems(1) s'(1)] unfolding s'(3,4)
    by (metis append.assoc map_append)
qed simp

section \<open>Receiving\<close>

definition messages :: "session \<Rightarrow> byte list list" where
  "messages s = messages_of (events s)"

text \<open>The session waits for the next header.\<close>

definition ready :: "session \<Rightarrow> bool" where
  "ready s \<longleftrightarrow> \<not> is_closed s \<and> has_message_callback s \<and> pending_read s = Some ReadHeader"

lemma reset_read_timer_keeps [simp]:
  "is_closed (reset_read_timer s) = is_closed s" "has_message_callback (reset_read_timer s) = has_message_callback s"
  "header_reader (reset_read_timer s) = header_reader s" "events (reset_read_timer s) = events s"
  by (simp_all add: reset_read_timer_def)

text \<open>The bytes of the outstanding read, on an open socket, and its completion.\<close>

definition want :: "session \<Rightarrow> nat option" where
  "want s = (if is_closed s then None else map_option op_size (pending_read s))"

definition recv :: "bool \<Rightarrow> byte list \<Rightarrow> session \<Rightarrow> session" where
  "recv big data s = read_done big Ok data s"

lemma recv_header_bytes:
  assumes "ready s" "n < 2 ^ 32"
  shows "\<not> is_closed (recv big (header_bytes big n) s)" "has_message_callback (recv big (header_bytes big n) s)"
    "events (recv big (header_bytes big n) s) = events s"
    "pending_read (recv big (header_bytes big n) s) = Some (if n = 0 then ReadHeader else ReadData n)"
proof -
  note P = Parse_header_bytes [OF assms(2), of big "header_reader s"]
  have eq: "recv big (header_bytes big n) s = async_read_data n (reset_read_timer (s\<lparr>pending_read := None\<rparr>)\<lparr>header_reader := h\<rparr>)"
    if "h = snd (Parse big (header_reader s) (header_bytes big n))" for h
    using assms(1) P by (simp add: that recv_def read_done_def ready_def on_header_def Let_def case_prod_beta)
  show "\<not> is_closed (recv big (header_bytes big n) s)" "has_message_callback (recv big (header_bytes big n) s)"
    "events (recv big (header_bytes big n) s) = events s"
    "pending_read (recv big (header_bytes big n) s) = Some (if n = 0 then ReadHeader else ReadData n)"
    unfolding eq [OF refl] using assms(1) by (simp_all add: ready_def async_read_data_def async_read_header_def)
qed

interpretation v1: message_receiver big ready want "recv big" messages for big
proof
  fix s
  assume "ready s"
  then show "want s = Some HeaderSize" by (simp add: ready_def want_def)
next
  fix s
  assume "ready s"
  then show "ready (recv big (header_bytes big 0) s) \<and> messages (recv big (header_bytes big 0) s) = messages s"
    using recv_header_bytes [of s 0 big] by (simp add: ready_def messages_def)
next
  fix s and n :: nat
  assume "ready s" "0 < n" "n < 2 ^ 32"
  then show "want (recv big (header_bytes big n) s) = Some n" using recv_header_bytes [of s n big] by (simp add: want_def)
next
  fix s and m :: "byte list"
  assume "ready s" "m \<noteq> []" "length m < 2 ^ 32"
  note h = recv_header_bytes [OF this(1,3), of big]
  have "recv big m t = on_data Ok m (t\<lparr>pending_read := None\<rparr>)" if "pending_read t = Some (ReadData n)" for n t
    using that by (simp add: recv_def read_done_def)
  then show "ready (recv big m (recv big (header_bytes big (length m)) s))
      \<and> messages (recv big m (recv big (header_bytes big (length m)) s)) = messages s @ [m]"
    using h \<open>m \<noteq> []\<close> by (simp add: on_data_def Let_def ready_def async_read_header_def messages_def messages_of_def)
qed

section \<open>Draining\<close>

text \<open>Posting everything and completing every write empties the queues.\<close>

lemma drain_posted:
  assumes "session_ok s" "\<not> is_closed s" "posted s = ps"
  shows "\<exists>t. session_run big (replicate (length ps) In_Posted) s = Some ([], [], t) \<and> session_ok t \<and> \<not> is_closed t
    \<and> posted t = [] \<and> write_queue t = write_queue s @ ps"
  using assms
proof (induction ps arbitrary: s)
  case (Cons b bs)
  let ?t = "enqueue_write b (s\<lparr>posted := bs\<rparr>)"
  have st: "session_step big In_Posted s = Some ?t" using Cons.prems(3) by (simp add: session_step_def)
  have "\<not> is_closed ?t" "posted ?t = bs" "write_queue ?t = write_queue s @ [b]"
    using Cons.prems(2) by (simp_all add: enqueue_write_def do_write_def Let_def split: list.split)
  then show ?case using Cons.IH [OF session_step_ok [OF Cons.prems(1) st]] st by auto
qed simp

lemma drain_queue:
  assumes "session_ok s" "\<not> is_closed s" "posted s = []" "write_queue s = q"
  shows "\<exists>t. session_run big (replicate (length q) (In_Write 0 Ok)) s = Some ([], q, t) \<and> session_ok t \<and> \<not> is_closed t
    \<and> posted t = [] \<and> write_queue t = []"
  using assms
proof (induction q arbitrary: s)
  case (Cons p q)
  let ?t = "on_write Ok (s\<lparr>pending_writes := []\<rparr>)"
  have pw: "pending_writes s = [p]" using Cons.prems by (auto simp: session_ok_def)
  then have st: "session_step big (In_Write 0 Ok) s = Some ?t" by (simp add: session_step_def)
  have "\<not> is_closed ?t" "posted ?t = []" "write_queue ?t = q"
    using Cons.prems(2-4) by (simp_all add: on_write_def do_write_def Let_def split: list.split)
  then obtain t where "session_run big (replicate (length q) (In_Write 0 Ok)) ?t = Some ([], q, t)" "session_ok t" "\<not> is_closed t"
      "posted t = []" "write_queue t = []"
    using Cons.IH [OF session_step_ok [OF Cons.prems(1) st]] by blast
  then show ?case using st pw by auto
qed simp

lemma session_run_append:
  "session_run big (a @ b) s = (case session_run big a s of None \<Rightarrow> None | Some (acc, wrt, t) \<Rightarrow>
     (case session_run big b t of None \<Rightarrow> None | Some (acc', wrt', u) \<Rightarrow> Some (acc @ acc', wrt @ wrt', u)))"
  by (induction a arbitrary: s) (auto split: option.splits)

lemma drain_session:
  assumes "session_ok s" "\<not> is_closed s"
  shows "\<exists>more u. session_run big more s = Some ([], write_queue s @ posted s, u) \<and> \<not> is_closed u \<and> write_queue u = [] \<and> posted u = []"
proof -
  obtain t where t: "session_run big (replicate (length (posted s)) In_Posted) s = Some ([], [], t)" "session_ok t" "\<not> is_closed t"
      "posted t = []" "write_queue t = write_queue s @ posted s"
    using drain_posted [OF assms refl] by blast
  obtain u where u: "session_run big (replicate (length (write_queue t)) (In_Write 0 Ok)) t = Some ([], write_queue t, u)" "\<not> is_closed u"
      "posted u = []" "write_queue u = []"
    using drain_queue [OF t(2-4) refl] by blast
  have "session_run big (replicate (length (posted s)) In_Posted @ replicate (length (write_queue t)) (In_Write 0 Ok)) s
      = Some ([], write_queue s @ posted s, u)"
    using t u by (simp add: session_run_append)
  then show ?thesis using u by blast
qed

lemma has_disconnect_callback_keeps [simp]:
  "has_disconnect_callback (say m s) = has_disconnect_callback s"
  "has_disconnect_callback (handle_error m s) = has_disconnect_callback s"
  "has_disconnect_callback (Stop s) = has_disconnect_callback s"
  "has_disconnect_callback (reset_read_timer s) = has_disconnect_callback s"
  "has_disconnect_callback (async_read_header s) = has_disconnect_callback s"
  "has_disconnect_callback (async_read_data n s) = has_disconnect_callback s"
  "has_disconnect_callback (do_write s) = has_disconnect_callback s"
  by (simp_all add: say_def handle_error_def Stop_def reset_read_timer_def async_read_header_def async_read_data_def do_write_def
      split: list.split)

lemma session_step_has_disconnect_callback: "session_step big i s = Some t \<Longrightarrow> has_disconnect_callback t = has_disconnect_callback s"
  by (auto simp: session_step_def Start_def Send_def enqueue_write_def read_done_def on_header_def on_data_def on_write_def
      on_read_timer_def on_write_timer_def Let_def case_prod_beta split: input.splits option.splits if_splits list.splits read_op.splits)

lemma session_run_has_disconnect_callback:
  "session_run big ins s = Some (acc, wrt, t) \<Longrightarrow> has_disconnect_callback t = has_disconnect_callback s"
  by (induction ins arbitrary: s acc wrt)
    (simp, fastforce dest: session_step_has_disconnect_callback split: option.splits)

section \<open>Properties\<close>

definition open_session :: "u64 \<Rightarrow> bool \<Rightarrow> bool \<Rightarrow> bool \<Rightarrow> session" where
  "open_session n m d e = SetInitSocket True (SetCallbacks m d e (TCPSession n))"

lemma session_ok_open_session: "session_ok (open_session n m d e)"
  by (simp add: open_session_def SetInitSocket_def SetCallbacks_def TCPSession_def session_ok_def)

lemma run_open_session:
  assumes "session_run big ins (open_session n m d e) = Some (acc, wrt, t)"
  shows "session_ok t \<and> map (frame big) acc = wrt @ write_queue t @ posted t"
  using session_run_frames [OF session_ok_open_session assms]
  by (simp add: open_session_def SetInitSocket_def SetCallbacks_def TCPSession_def)

text \<open>C7. Whatever the order of sends, posted handlers, completions, timeouts and stops, the
  frames written to the socket are those of the accepted messages, in the order of the calls of \<^verbatim>\<open>Send\<close>, none
  twice and none skipped, and never are two writes outstanding at once, which would mix their bytes on the stream; and an open session whose outstanding work is carried out has written them all.
\<close>

theorem session_send_order:
  assumes "session_run big ins (open_session n m d e) = Some (acc, wrt, t)"
  shows "wrt = map (frame big) (take (length wrt) acc) \<and> length (pending_writes t) \<le> 1
    \<and> (\<not> is_closed t \<longrightarrow> (\<exists>more u. session_run big more t = Some ([], map (frame big) (drop (length wrt) acc), u)
           \<and> \<not> is_closed u \<and> write_queue u = [] \<and> posted u = []))"
proof -
  have ok: "session_ok t" and fr: "map (frame big) acc = wrt @ write_queue t @ posted t" using run_open_session [OF assms] by auto
  have wrt: "wrt = map (frame big) (take (length wrt) acc)" using arg_cong [OF fr, of "take (length wrt)"] by (simp add: take_map)
  have rest: "write_queue t @ posted t = map (frame big) (drop (length wrt) acc)"
    using arg_cong [OF fr, of "drop (length wrt)"] by (simp add: drop_map)
  have "length (pending_writes t) \<le> 1" using written_first(2) [OF ok, of 0] by (cases "pending_writes t") simp_all
  then show ?thesis using wrt drain_session [OF ok, of big] unfolding rest by blast
qed

text \<open>A message sent, posted and written on a fresh session.\<close>

definition sample_inputs :: "input list" where
  "sample_inputs = [In_Start, In_Send [7, 8], In_Send [], In_Posted, In_Write 0 Ok, In_Posted]"

definition sample_session :: session where
  "sample_session = (open_session 1 True True True)\<lparr>is_started := True, is_writing := True, write_queue := [frame False []],
     pending_read := Some ReadHeader, pending_writes := [frame False []], read_timer := True, write_timer := True\<rparr>"

lemmas session_operations = Start_def Stop_def Send_def say_def handle_error_def enqueue_write_def do_write_def read_done_def on_header_def
  on_data_def on_write_def on_read_timer_def on_write_timer_def reset_read_timer_def async_read_header_def async_read_data_def
  open_session_def SetInitSocket_def SetCallbacks_def TCPSession_def

lemma sample_run:
  "session_run False sample_inputs (open_session 1 True True True) = Some ([[7, 8], []], [frame False [7, 8]], sample_session)"
  by (simp add: sample_inputs_def sample_session_def session_step_def session_operations)

theorem session_send_order_witness:
  "session_run False sample_inputs (open_session 1 True True True) = Some ([[7, 8], []], [frame False [7, 8]], sample_session)
   \<and> \<not> is_closed sample_session
   \<and> (\<exists>more u. session_run False more sample_session = Some ([], [frame False []], u) \<and> write_queue u = [])"
proof -
  have "\<not> is_closed sample_session" by (simp add: sample_session_def session_operations)
  then show ?thesis using session_send_order [OF sample_run] sample_run by auto
qed

text \<open>C16. A closed session has called its disconnect callback exactly once, and an open one never,
  however many stops, failed operations and timeouts there were. An unstarted session reads nothing.
\<close>

theorem session_disconnects_once:
  assumes "session_run big ins (open_session n m True e) = Some (acc, wrt, t)"
  shows "length (filter is_disconnect (events t)) = (if IsClosed t then 1 else 0)"
  using run_open_session [OF assms] session_run_has_disconnect_callback [OF assms]
  by (simp add: session_ok_def IsClosed_def open_session_def SetInitSocket_def SetCallbacks_def)

theorem session_disconnects_once_witness:
  "\<exists>t. session_run False [In_Start, In_Stop, In_Stop] (open_session 1 True True True) = Some ([], [], t)
     \<and> IsClosed t \<and> length (filter is_disconnect (events t)) = 1"
proof -
  obtain t where t: "session_run False [In_Start, In_Stop, In_Stop] (open_session 1 True True True) = Some ([], [], t)" "IsClosed t"
    by (simp add: session_step_def session_operations IsClosed_def)
  then show ?thesis using session_disconnects_once [OF t(1)] by auto
qed

text \<open>C8. Sender, network and receiver together. The receiver gets exactly the nonempty messages
  among those the sender has written, in order and unchanged, however the network cuts the stream into segments,
  and keeps waiting for the next header with nothing left over.
\<close>

theorem session_delivers:
  assumes "session_run big ins (open_session n m d e) = Some (acc, wrt, t)"
    and "list_all (\<lambda>x. length x < 2 ^ 32) acc"
    and "ready r" and "concat segs = concat wrt"
  shows "\<exists>r'. feed_segments want (recv big) r [] segs = (r', []) \<and> ready r'
     \<and> messages r' = messages r @ filter (\<lambda>x. x \<noteq> []) (take (length wrt) acc)"
proof -
  have "map (frame big) acc = wrt @ write_queue t @ posted t" using run_open_session [OF assms(1)] by blast
  then have wrt: "wrt = map (frame big) (take (length wrt) acc)"
    by (metis append_eq_conv_conj take_map)
  have "list_all (\<lambda>x. length x < 2 ^ 32) (take (length wrt) acc)"
    using assms(2) by (auto simp: list_all_iff dest: in_set_takeD)
  then show ?thesis using v1.feed_segments_frames [OF assms(3), of "take (length wrt) acc" segs big] wrt assms(4) by metis
qed

theorem session_delivers_witness:
  "\<exists>segs r'. length segs = 2 \<and> feed_segments want (recv False) (Start (open_session 2 True False False)) [] segs = (r', []) \<and> messages r' = [[7, 8]]"
proof -
  let ?segs = "[take 5 (frame False [7, 8]), drop 5 (frame False [7, 8])]"
  let ?r = "Start (open_session 2 True False False)"
  have "ready ?r" "messages ?r = []" by (simp_all add: ready_def messages_def messages_of_def session_operations)
  moreover have "concat ?segs = concat [frame False [7, 8]]" by simp
  ultimately obtain r' where "feed_segments want (recv False) ?r [] ?segs = (r', [])" "messages r' = [[7, 8]]"
    using session_delivers [OF sample_run, of ?r ?segs] by auto
  then show ?thesis by (intro exI [of _ ?segs] exI [of _ r']) simp
qed

text \<open>
  After a read has failed. The session is closed with no read outstanding and no read timer, and no step changes that; what can still be
  reported concerns the writes that were under way, or is a line on \<^verbatim>\<open>std::cout\<close>.
\<close>

definition read_over :: "session \<Rightarrow> bool" where
  "read_over s \<longleftrightarrow> is_closed s \<and> \<not> is_init_socket s \<and> pending_read s = None \<and> \<not> read_timer s"

definition about_writing :: "u64 \<Rightarrow> session_event \<Rightarrow> bool" where
  "about_writing n e =
     (case e of Printed _ \<Rightarrow> True
      | Error k msg \<Rightarrow> k = n \<and> (msg = ''Write timeout'' \<or> take 14 msg = ''Write failed: '')
      | _ \<Rightarrow> False)"

definition is_failure :: "session_event \<Rightarrow> bool" where
  "is_failure e = (case e of Error _ _ \<Rightarrow> True | Disconnected _ \<Rightarrow> True | _ \<Rightarrow> False)"

lemma read_over_step:
  assumes "read_over s" "session_step big i s = Some t"
  shows "read_over t \<and> session_id t = session_id s \<and> (\<exists>new. events t = events s @ new \<and> list_all (about_writing (session_id s)) new)"
proof (cases i)
  case In_Posted
  then obtain b bs where "t = enqueue_write b (s\<lparr>posted := bs\<rparr>)" using assms(2) by (auto simp: session_step_def split: list.splits)
  then show ?thesis using assms(1) by (auto simp: read_over_def enqueue_write_def do_write_def Let_def split: list.split)
next
  case (In_Write k ec)
  then have t: "t = on_write ec (s\<lparr>pending_writes := take k (pending_writes s) @ drop (Suc k) (pending_writes s)\<rparr>)"
    using assms(2) by (simp add: session_step_def split: if_splits)
  show ?thesis using assms(1) unfolding t read_over_def
    by (auto simp: on_write_def Let_def Stop_def handle_error_def say_def do_write_def about_writing_def split: list.split)
next
  case In_Write_Timer
  then have "t = on_write_timer (s\<lparr>write_timer := False\<rparr>)" using assms(2) by (simp add: session_step_def split: if_splits)
  then show ?thesis using assms(1) by (auto simp: read_over_def on_write_timer_def Stop_def handle_error_def say_def about_writing_def)
qed (use assms in \<open>auto simp: session_step_def read_over_def Start_def Stop_def Send_def say_def about_writing_def\<close>)

lemma read_over_run:
  assumes "read_over s" "session_run big ins s = Some (acc, wrt, t)"
  shows "read_over t \<and> acc = [] \<and> (\<exists>new. events t = events s @ new \<and> list_all (about_writing (session_id s)) new)"
  using assms
proof (induction ins arbitrary: s acc wrt)
  case (Cons i ins)
  obtain s' acc' wrt' where s': "session_step big i s = Some s'" "session_run big ins s' = Some (acc', wrt', t)"
    "acc = (case i of In_Send data \<Rightarrow> if is_closed s then [] else [data] | _ \<Rightarrow> []) @ acc'"
    using Cons.prems(2) by (auto split: option.splits)
  obtain new where n: "read_over s'" "session_id s' = session_id s" "events s' = events s @ new" "list_all (about_writing (session_id s)) new"
    using read_over_step [OF Cons.prems(1) s'(1)] by blast
  obtain new' where n': "read_over t" "acc' = []" "events t = events s' @ new'" "list_all (about_writing (session_id s)) new'"
    using Cons.IH [OF n(1) s'(2)] n(2) by auto
  have "acc = []" using s'(3) n'(2) Cons.prems(1) by (simp add: read_over_def split: input.split)
  then show ?case using n n' by (intro conjI exI [of _ "new @ new'"]) simp_all
qed simp

text \<open>An open session has reported no failure, and its identifier and its callbacks never change.\<close>

lemma open_step_quiet:
  assumes "session_step big i s = Some t" "is_closed s \<or> list_all (\<lambda>e. \<not> is_failure e) (events s)"
  shows "is_closed t \<or> list_all (\<lambda>e. \<not> is_failure e) (events t)"
proof (cases "is_closed t")
  case False
  then show ?thesis using assms
    by (auto simp: session_step_def Start_def Stop_def Send_def say_def enqueue_write_def read_done_def on_header_def on_data_def on_write_def
      do_write_def on_read_timer_def on_write_timer_def handle_error_def reset_read_timer_def async_read_header_def async_read_data_def
      is_failure_def Let_def case_prod_beta
      split: input.splits option.splits if_splits list.splits read_op.splits)
qed simp

lemma open_run_quiet:
  "session_run big ins s = Some (acc, wrt, t) \<Longrightarrow> is_closed s \<or> list_all (\<lambda>e. \<not> is_failure e) (events s)
    \<Longrightarrow> is_closed t \<or> list_all (\<lambda>e. \<not> is_failure e) (events t)"
  by (induction ins arbitrary: s acc wrt) (simp, fastforce dest: open_step_quiet split: option.splits)

lemma session_step_identity:
  "session_step big i s = Some t \<Longrightarrow> session_id t = session_id s \<and> has_error_callback t = has_error_callback s"
  by (auto simp: session_step_def Start_def Stop_def Send_def say_def enqueue_write_def read_done_def on_header_def on_data_def on_write_def
      do_write_def on_read_timer_def on_write_timer_def handle_error_def reset_read_timer_def async_read_header_def async_read_data_def
      Let_def case_prod_beta split: input.splits option.splits if_splits list.splits read_op.splits)

lemma session_run_identity:
  "session_run big ins s = Some (acc, wrt, t) \<Longrightarrow> session_id t = session_id s \<and> has_error_callback t = has_error_callback s"
  by (induction ins arbitrary: s acc wrt) (simp, fastforce dest: session_step_identity split: option.splits)

lemma failed_read_step:
  assumes "pending_read s = Some op" "\<not> is_closed s" "ec \<noteq> Ok" "has_error_callback s" "has_disconnect_callback s"
    and "session_step big (In_Read ec data) s = Some u"
  shows "read_over u \<and> session_id u = session_id s \<and> events u = events s
        @ (case op of ReadHeader \<Rightarrow> if is_eof ec then [] else [Error (session_id s) (''Read header failed: '' @ ec_message ec)]
                    | ReadData _ \<Rightarrow> [Error (session_id s) (''Read data failed: '' @ ec_message ec)])
        @ [Disconnected (session_id s)]"
  using assms by (cases op) (auto simp: session_step_def read_done_def on_header_def on_data_def Stop_def handle_error_def read_over_def
      split: if_splits)



section \<open>Options, and the other forms of \<^verbatim>\<open>Send\<close>\<close>

datatype socket_option = Keep_Alive bool | No_Delay bool | Receive_Buffer int | Send_Buffer int

text \<open>The options that are set on the socket, in order; errors of the calls are dropped.\<close>

definition SetOptions :: "bool \<Rightarrow> bool \<Rightarrow> int \<Rightarrow> session \<Rightarrow> socket_option list" where
  "SetOptions keep_alive no_delay buffer_size s =
     (if is_closed s then []
      else [Keep_Alive keep_alive, No_Delay no_delay] @ (if 0 < buffer_size then [Receive_Buffer buffer_size, Send_Buffer buffer_size] else []))"

definition Send_string :: "bool \<Rightarrow> string \<Rightarrow> session \<Rightarrow> session" where
  "Send_string big data s = Send big (map byte_of_char data) s"

text \<open>A shared pointer is dereferenced unchecked.\<close>

definition Send_shared :: "bool \<Rightarrow> byte list option \<Rightarrow> session \<Rightarrow> session cpp_result" where
  "Send_shared big data s = (case data of None \<Rightarrow> UB | Some d \<Rightarrow> Ret (Send big d s))"

text \<open>The destructor stops the session.\<close>

definition TCPSession_destroy :: "session \<Rightarrow> session" where
  "TCPSession_destroy s = Stop s"

end
