(* ===== verification/Tcp_Server.thy ===== *)
theory Tcp_Server
  imports Tcp_Session Std_Map
begin

text \<open>
  \<^verbatim>\<open>src/breutil/net/tcp/tcp_server.hpp\<close> and the configuration of \<^verbatim>\<open>tcp_config.hpp\<close>: the server accepts connections, keeps the open sessions in a map and removes each in
  the disconnect callback it gives the session. The session objects live in a store addressed by their
  identifier, since a session outlives its entry of the map; each operation on a session runs the operation of
  \<^verbatim>\<open>Tcp_Session\<close> and then the server's callbacks on the events that it added. The user's callbacks are the list \<open>log\<close>.
\<close>

section \<open>Configuration\<close>

record server_config =
  port :: u16
  io_threads :: int
  max_connections :: int
  timeout :: int
  enable_keepalive :: bool
  enable_nodelay :: bool
  buffer_size :: u64

definition TCPServerConfig :: "int \<Rightarrow> server_config" where
  "TCPServerConfig hardware_concurrency =
     \<lparr>port = 8080, io_threads = hardware_concurrency, max_connections = 10000, timeout = 30, enable_keepalive = True,
      enable_nodelay = True, buffer_size = 8192\<rparr>"

definition Validate :: "server_config \<Rightarrow> bool" where
  "Validate c \<longleftrightarrow> 0 < port c \<and> 0 < io_threads c \<and> 0 < max_connections c \<and> 0 < buffer_size c"

section \<open>State\<close>

record event_callbacks =
  on_message :: bool
  on_connected :: bool
  on_disconnect :: bool
  on_error :: bool

datatype server_event = On_Message u64 "byte list" | On_Connected u64 | On_Disconnect u64 | On_Error u64 string | Output string

record server =
  config :: server_config
  callbacks :: event_callbacks
  is_running :: bool
  acceptor_open :: bool
  io_stopped :: bool
  pending_accept :: "u64 option"
  accept_refused :: bool
  sessions :: "(u64, u64) std_map"
  objects :: "u64 \<Rightarrow> session option"
  session_id_counter :: u64
  log :: "server_event list"

definition TCPServer :: "server_config \<Rightarrow> event_callbacks \<Rightarrow> server" where
  "TCPServer c cb =
     \<lparr>config = c, callbacks = cb, is_running = False, acceptor_open = True, io_stopped = False, pending_accept = None, accept_refused = False,
      sessions = [], objects = (\<lambda>_. None), session_id_counter = 1, log = []\<rparr>"

definition report :: "server_event list \<Rightarrow> server \<Rightarrow> server" where
  "report es sv = sv\<lparr>log := log sv @ es\<rparr>"

definition guarded :: "bool \<Rightarrow> 'a \<Rightarrow> 'a list" where
  "guarded b x = (if b then [x] else [])"

section \<open>Callbacks of the sessions\<close>

definition on_session_disconnect :: "u64 \<Rightarrow> server \<Rightarrow> server" where
  "on_session_disconnect sid sv =
     (if map_of (sessions sv) sid \<noteq> None
      then report (guarded (on_disconnect (callbacks sv)) (On_Disconnect sid)) (sv\<lparr>sessions := snd (map_erase sid (sessions sv))\<rparr>)
      else sv)"

definition on_session_error :: "u64 \<Rightarrow> string \<Rightarrow> server \<Rightarrow> server" where
  "on_session_error sid msg sv =
     report (guarded (on_error (callbacks sv)) (On_Error sid msg)
       @ [Output (''Session '' @ to_chars_int 10 (uint sid) @ '' error: '' @ msg)]) sv"

text \<open>The reaction to what the session with identifier \<open>n\<close> reports.\<close>

definition on_session_event :: "u64 \<Rightarrow> session_event \<Rightarrow> server \<Rightarrow> server" where
  "on_session_event n e sv =
     (case e of
        Message m \<Rightarrow> report [On_Message n m] sv
      | Disconnected sid \<Rightarrow> on_session_disconnect sid sv
      | Error sid msg \<Rightarrow> on_session_error sid msg sv
      | Printed msg \<Rightarrow> report [Output msg] sv)"

definition put_session :: "u64 \<Rightarrow> session \<Rightarrow> session \<Rightarrow> server \<Rightarrow> server" where
  "put_session n s s' sv =
     fold (on_session_event n) (drop (length (events s)) (events s')) (sv\<lparr>objects := (objects sv)(n \<mapsto> s')\<rparr>)"

definition with_session :: "u64 \<Rightarrow> (session \<Rightarrow> session) \<Rightarrow> server \<Rightarrow> server" where
  "with_session n f sv = (case objects sv n of None \<Rightarrow> sv | Some s \<Rightarrow> put_session n s (f s) sv)"

section \<open>Operations\<close>

definition setup_session_callbacks :: "server \<Rightarrow> session \<Rightarrow> session" where
  "setup_session_callbacks sv s = SetCallbacks (on_message (callbacks sv)) True True s"

definition start_accept :: "server \<Rightarrow> server" where
  "start_accept sv =
     (let (n, counter) = generate_session_id (session_id_counter sv);
          s = setup_session_callbacks sv (SetTimeouts (timeout (config sv)) (timeout (config sv)) (TCPSession n))
      in sv\<lparr>session_id_counter := counter, objects := (objects sv)(n \<mapsto> s), pending_accept := Some n, accept_refused := \<not> acceptor_open sv\<rparr>)"

definition handle_accept :: "u64 \<Rightarrow> error_code \<Rightarrow> server \<Rightarrow> server" where
  "handle_accept n ec sv =
     (let sv1 =
        (if ec = Ok then
           report (guarded (on_connected (callbacks sv)) (On_Connected n))
             (with_session n (\<lambda>s. Tcp_Session.Start (SetInitSocket True s)) (sv\<lparr>sessions := map_set n n (sessions sv)\<rparr>))
         else if \<not> is_aborted ec then report [Output (''Accept failed: '' @ ec_message ec)] sv
         else sv)
      in if is_running sv1 then start_accept sv1 else sv1)"

definition Start :: "server \<Rightarrow> server" where
  "Start sv =
     (if is_running sv then report [Output (''Server already running'' @ [CHR 0x0A])] sv
      else report [Output (''TCPServer started on port '' @ to_chars_int 10 (uint (port (config sv))) @ [CHR 0x0A])]
             (start_accept (sv\<lparr>is_running := True\<rparr>)))"

definition GetSession :: "u64 \<Rightarrow> server \<Rightarrow> u64 option" where
  "GetSession n sv = map_of (sessions sv) n"

definition GetSessionIds :: "server \<Rightarrow> u64 list" where
  "GetSessionIds sv = map fst (sessions sv)"

definition GetSessionCount :: "server \<Rightarrow> nat" where
  "GetSessionCount sv = length (sessions sv)"

definition DisconnectSession :: "u64 \<Rightarrow> server \<Rightarrow> server" where
  "DisconnectSession n sv = (case GetSession n sv of Some p \<Rightarrow> with_session p Tcp_Session.Stop sv | None \<Rightarrow> sv)"

definition Stop :: "server \<Rightarrow> server" where
  "Stop sv =
     (if \<not> is_running sv then sv
      else
        let sv1 = sv\<lparr>is_running := False, acceptor_open := False\<rparr>;
            sv2 = fold DisconnectSession (GetSessionIds sv1) sv1
        in sv2\<lparr>sessions := [], io_stopped := True\<rparr>)"

definition Send :: "bool \<Rightarrow> u64 \<Rightarrow> byte list \<Rightarrow> server \<Rightarrow> server" where
  "Send big n data sv =
     (case GetSession n sv of
        Some p \<Rightarrow> with_session p (Tcp_Session.Send big data) sv
      | None \<Rightarrow> report [Output (''Session '' @ to_chars_int 10 (uint n) @ '' not found'')] sv)"

definition Broadcast :: "bool \<Rightarrow> byte list \<Rightarrow> server \<Rightarrow> server" where
  "Broadcast big data sv = fold (\<lambda>(_, p). with_session p (Tcp_Session.Send big data)) (sessions sv) sv"

section \<open>The server in its environment\<close>

datatype server_input =
    Sv_Start
  | Sv_Stop
  | Sv_Send u64 "byte list"
  | Sv_Broadcast "byte list"
  | Sv_Disconnect u64
  | Sv_Accept error_code
  | Sv_Session u64 input

text \<open>
  An accept that was started on an open acceptor can succeed, also when its handler runs after the acceptor has been closed; one that was
  started on a closed acceptor fails. Handlers of accepts run only while the server's event loop is not stopped. \<^verbatim>\<open>Sv_Stop\<close> is a call of
  \<^verbatim>\<open>Stop\<close> that nothing disturbs; the section on stopping below interleaves it with other events. The identifiers are
  not exhausted: no run creates as many sessions as there are numbers of 64 bits.
\<close>

definition server_step :: "bool \<Rightarrow> server_input \<Rightarrow> server \<Rightarrow> server option" where
  "server_step big i sv =
     (case i of
        Sv_Start \<Rightarrow> if session_id_counter sv = - 1 then None else Some (Start sv)
      | Sv_Stop \<Rightarrow> Some (Stop sv)
      | Sv_Send n data \<Rightarrow> Some (Send big n data sv)
      | Sv_Broadcast data \<Rightarrow> Some (Broadcast big data sv)
      | Sv_Disconnect n \<Rightarrow> Some (DisconnectSession n sv)
      | Sv_Accept ec \<Rightarrow>
          (case pending_accept sv of
             None \<Rightarrow> None
           | Some n \<Rightarrow>
               if io_stopped sv \<or> ec = Ok \<and> accept_refused sv \<or> session_id_counter sv = - 1 then None
               else Some (handle_accept n ec (sv\<lparr>pending_accept := None\<rparr>)))
      | Sv_Session n j \<Rightarrow>
          if pending_accept sv = Some n then None
          else (case objects sv n of
             None \<Rightarrow> None
           | Some s \<Rightarrow> (case session_step big j s of None \<Rightarrow> None | Some s' \<Rightarrow> Some (put_session n s s' sv))))"

fun server_run :: "bool \<Rightarrow> server_input list \<Rightarrow> server \<Rightarrow> server option" where
  "server_run big [] sv = Some sv"
| "server_run big (i # ins) sv = (case server_step big i sv of None \<Rightarrow> None | Some sv' \<Rightarrow> server_run big ins sv')"

section \<open>What an operation of a session may do\<close>

text \<open>It keeps the identity of the session and its invariant, and only appends to what it reports.\<close>

definition extends :: "session \<Rightarrow> session \<Rightarrow> bool" where
  "extends s s' \<longleftrightarrow>
     session_id s' = session_id s \<and> (is_closed s \<longrightarrow> is_closed s')
     \<and> (\<exists>new. events s' = events s @ new \<and> list_all (\<lambda>e. is_disconnect e \<longrightarrow> e = Disconnected (session_id s)) new)"

lemma extends_refl: "extends s s"
  by (simp add: extends_def)

lemma extends_trans:
  assumes "extends s t" "extends t u"
  shows "extends s u"
proof -
  obtain n1 n2 where n: "events t = events s @ n1" "list_all (\<lambda>e. is_disconnect e \<longrightarrow> e = Disconnected (session_id s)) n1"
      "events u = events t @ n2" "list_all (\<lambda>e. is_disconnect e \<longrightarrow> e = Disconnected (session_id t)) n2"
    using assms unfolding extends_def by blast
  then show ?thesis using assms by (auto simp: extends_def intro!: exI [of _ "n1 @ n2"])
qed

lemma extends_same: "session_id t = session_id s \<Longrightarrow> is_closed t = is_closed s \<Longrightarrow> events t = events s \<Longrightarrow> extends s t"
  by (simp add: extends_def)

lemma extends_say: "extends s (say m s)" "extends s (handle_error m s)" "extends s (Tcp_Session.Stop s)"
  by (simp_all add: extends_def say_def handle_error_def Tcp_Session.Stop_def is_disconnect_def)

lemma extends_Stop_error: "extends s t \<Longrightarrow> extends s (Tcp_Session.Stop (handle_error m t))"
  by (meson extends_say extends_trans)

lemma extends_do_write: "extends s (do_write s)"
  by (rule extends_same) (simp_all add: do_write_def split: list.split)

lemma extends_read_done: "extends s (read_done big ec data s)"
proof -
  have r: "extends s (reset_read_timer s)" for s by (rule extends_same) (simp_all add: reset_read_timer_def)
  have a: "extends s (async_read_header s)" "extends s (async_read_data n s)" for s n
    by (rule extends_same; simp add: async_read_header_def async_read_data_def)+
  have u: "extends s t \<Longrightarrow> extends s (t\<lparr>header_reader := h\<rparr>)" for s t h by (simp add: extends_def)
  have m: "extends s t \<Longrightarrow> extends s (t\<lparr>events := events t @ [Message x]\<rparr>)" for s t x by (auto simp: extends_def is_disconnect_def)
  have h: "extends s (on_header big ec data s)" for s
    using extends_trans [OF u [OF r] a(2)] by (auto simp: on_header_def Let_def case_prod_beta intro!: extends_Stop_error extends_say extends_refl u r)
  have d: "extends s (on_data ec data s)" for s
    using extends_trans [OF m [OF r] a(1)] extends_trans [OF r a(1)]
    by (auto simp: on_data_def Let_def intro!: extends_Stop_error extends_refl)
  have p: "extends s (s\<lparr>pending_read := None\<rparr>)" by (simp add: extends_def)
  show ?thesis using extends_trans [OF p h] extends_trans [OF p d] extends_refl
    by (auto simp: read_done_def split: option.split read_op.split)
qed

lemma extends_on_write: "extends s (on_write ec (s\<lparr>pending_writes := ws\<rparr>))"
proof -
  have "extends s (s\<lparr>pending_writes := ws, write_timer := False, write_queue := q\<rparr>)" "extends s (s\<lparr>pending_writes := ws, write_timer := False\<rparr>)" for q
    by (simp_all add: extends_def)
  moreover have "extends s t \<Longrightarrow> extends s ((handle_error m t)\<lparr>is_writing := False\<rparr>)" for m t
    using extends_trans [OF _ extends_say(2), of s t m] by (simp add: extends_def)
  ultimately show ?thesis using extends_trans [OF _ extends_do_write] extends_trans [OF _ extends_say(3)] by (simp add: on_write_def Let_def)
qed

lemma extends_step: "session_step big i s = Some s' \<Longrightarrow> extends s s'"
proof (cases i)
  case In_Posted
  assume "session_step big i s = Some s'"
  then obtain b bs where "s' = enqueue_write b (s\<lparr>posted := bs\<rparr>)" using In_Posted by (auto simp: session_step_def split: list.splits)
  then show ?thesis by (auto simp: enqueue_write_def do_write_def extends_def Let_def split: list.split)
next
  case In_Start
  assume "session_step big i s = Some s'"
  moreover have "extends s (Tcp_Session.Start s)"
    by (simp add: Tcp_Session.Start_def extends_say extends_refl) (simp add: extends_def async_read_header_def reset_read_timer_def)
  ultimately show ?thesis using In_Start by (simp add: session_step_def)
next
  case (In_Send data)
  assume "session_step big i s = Some s'"
  then show ?thesis using In_Send extends_say(1) by (auto simp: session_step_def Tcp_Session.Send_def) (simp add: extends_def)
next
  case In_Read_Timer
  assume "session_step big i s = Some s'"
  then show ?thesis using In_Read_Timer extends_Stop_error [of s "s\<lparr>read_timer := False\<rparr>"]
    by (simp add: session_step_def on_read_timer_def extends_same split: if_splits) (metis)
next
  case In_Write_Timer
  assume "session_step big i s = Some s'"
  then show ?thesis using In_Write_Timer extends_Stop_error [of s "s\<lparr>write_timer := False\<rparr>"]
    by (simp add: session_step_def on_write_timer_def extends_same split: if_splits) (metis)
qed (auto simp: session_step_def extends_say extends_read_done extends_on_write split: option.splits if_splits)

text \<open>A move of an open session closes it exactly if it reports the disconnect.\<close>

definition session_move :: "session \<Rightarrow> session \<Rightarrow> bool" where
  "session_move s s' \<longleftrightarrow> session_ok s \<and> session_ok s' \<and> has_disconnect_callback s \<and> has_disconnect_callback s' \<and> extends s s'"

lemma session_move_new:
  assumes "session_move s s'"
  shows "(\<exists>e\<in>set (drop (length (events s)) (events s')). is_disconnect e) \<longleftrightarrow> is_closed s' \<and> \<not> is_closed s"
    and "list_all (\<lambda>e. is_disconnect e \<longrightarrow> e = Disconnected (session_id s)) (drop (length (events s)) (events s'))"
proof -
  obtain new where new: "events s' = events s @ new" "list_all (\<lambda>e. is_disconnect e \<longrightarrow> e = Disconnected (session_id s)) new"
    "is_closed s \<longrightarrow> is_closed s'"
    using assms by (auto simp: session_move_def extends_def)
  have "length (filter is_disconnect new) = (if is_closed s' \<and> \<not> is_closed s then 1 else 0)"
    using assms new(1,3) by (auto simp: session_move_def session_ok_def)
  then have "filter is_disconnect new \<noteq> [] \<longleftrightarrow> is_closed s' \<and> \<not> is_closed s" by (metis length_0_conv zero_neq_one)
  then show "(\<exists>e\<in>set (drop (length (events s)) (events s')). is_disconnect e) \<longleftrightarrow> is_closed s' \<and> \<not> is_closed s"
    using new(1) by (auto simp: filter_empty_conv)
  show "list_all (\<lambda>e. is_disconnect e \<longrightarrow> e = Disconnected (session_id s)) (drop (length (events s)) (events s'))" using new by simp
qed

lemma session_move_step:
  "session_ok s \<Longrightarrow> has_disconnect_callback s \<Longrightarrow> session_step big i s = Some s' \<Longrightarrow> session_move s s'"
  using session_step_ok extends_step session_step_has_disconnect_callback by (simp add: session_move_def)

lemma session_move_Stop: "session_ok s \<Longrightarrow> has_disconnect_callback s \<Longrightarrow> session_move s (Tcp_Session.Stop s)"
  using session_move_step [of s False In_Stop] by (simp add: session_step_def)

lemma session_move_Send: "session_ok s \<Longrightarrow> has_disconnect_callback s \<Longrightarrow> session_move s (Tcp_Session.Send big data s)"
  using session_move_step [of s big "In_Send data"] by (simp add: session_step_def)

lemma session_move_Start:
  assumes "session_ok s" "has_disconnect_callback s" "\<not> is_closed s"
  shows "session_move s (Tcp_Session.Start (SetInitSocket True s))" "\<not> is_closed (Tcp_Session.Start (SetInitSocket True s))"
proof -
  have "session_ok (SetInitSocket True s)" using assms by (auto simp: session_ok_def SetInitSocket_def)
  then have "session_move (SetInitSocket True s) (Tcp_Session.Start (SetInitSocket True s))"
    using session_move_step [of "SetInitSocket True s" False In_Start] assms(2) by (simp add: session_step_def SetInitSocket_def)
  moreover have "extends s (SetInitSocket True s)" by (rule extends_same) (simp_all add: SetInitSocket_def)
  ultimately show "session_move s (Tcp_Session.Start (SetInitSocket True s))" using assms extends_trans by (auto simp: session_move_def)
  show "\<not> is_closed (Tcp_Session.Start (SetInitSocket True s))"
    using assms(3) by (simp add: Tcp_Session.Start_def SetInitSocket_def async_read_header_def reset_read_timer_def)
qed

section \<open>Invariant\<close>

lemma report_keeps [simp]:
  "acceptor_open (report es sv) = acceptor_open sv" "io_stopped (report es sv) = io_stopped sv"
  "sessions (report es sv) = sessions sv" "objects (report es sv) = objects sv" "pending_accept (report es sv) = pending_accept sv"
  "session_id_counter (report es sv) = session_id_counter sv" "callbacks (report es sv) = callbacks sv" "is_running (report es sv) = is_running sv"
  "config (report es sv) = config sv" "log (report es sv) = log sv @ es"
  by (simp_all add: report_def)

text \<open>What the reaction to the events of a session leaves alone.\<close>

definition same_frame :: "server \<Rightarrow> server \<Rightarrow> bool" where
  "same_frame sv sv' \<longleftrightarrow>
     objects sv' = objects sv \<and> pending_accept sv' = pending_accept sv \<and> session_id_counter sv' = session_id_counter sv
     \<and> callbacks sv' = callbacks sv \<and> is_running sv' = is_running sv \<and> config sv' = config sv
     \<and> acceptor_open sv' = acceptor_open sv \<and> io_stopped sv' = io_stopped sv"

definition occurrences :: "server_event \<Rightarrow> server \<Rightarrow> nat" where
  "occurrences e sv = length (filter (\<lambda>x. x = e) (log sv))"

definition registered :: "u64 \<Rightarrow> server \<Rightarrow> bool" where
  "registered n sv \<longleftrightarrow> map_of (sessions sv) n \<noteq> None"

text \<open>Every reported connection is either still registered or reported disconnected.\<close>

definition disconnects :: "u64 \<Rightarrow> server \<Rightarrow> nat" where
  "disconnects n sv = occurrences (On_Disconnect n) sv + (if registered n sv then 1 else 0)"

lemma on_session_event_frame:
  "same_frame sv (on_session_event n e sv)"
  "map_ok (sessions sv) \<Longrightarrow> map_ok (sessions (on_session_event n e sv))"
  "on_disconnect (callbacks sv) \<Longrightarrow> disconnects k (on_session_event n e sv) = disconnects k sv"
  "occurrences (On_Connected k) (on_session_event n e sv) = occurrences (On_Connected k) sv"
  "map_of (sessions (on_session_event n e sv)) = (case e of Disconnected sid \<Rightarrow> (map_of (sessions sv))(sid := None) | _ \<Rightarrow> map_of (sessions sv))"
  by (auto simp: on_session_event_def on_session_disconnect_def on_session_error_def same_frame_def disconnects_def registered_def
      occurrences_def guarded_def fun_upd_idem split: session_event.split)

lemma fold_session_events:
  "same_frame sv (fold (on_session_event n) es sv)"
  "map_ok (sessions sv) \<Longrightarrow> map_ok (sessions (fold (on_session_event n) es sv))"
  "occurrences (On_Connected k) (fold (on_session_event n) es sv) = occurrences (On_Connected k) sv"
proof -
  show "same_frame sv (fold (on_session_event n) es sv)"
  proof (induction es arbitrary: sv)
    case (Cons e es)
    then show ?case using Cons.IH [of "on_session_event n e sv"] on_session_event_frame(1) [of sv n e] unfolding same_frame_def by auto
  qed (simp add: same_frame_def)
  show "map_ok (sessions sv) \<Longrightarrow> map_ok (sessions (fold (on_session_event n) es sv))"
    by (induction es arbitrary: sv) (auto simp: on_session_event_frame(2))
  show "occurrences (On_Connected k) (fold (on_session_event n) es sv) = occurrences (On_Connected k) sv"
    by (induction es arbitrary: sv) (simp_all add: on_session_event_frame(4))
qed

lemma fold_session_events_disconnects:
  "on_disconnect (callbacks sv) \<Longrightarrow> disconnects k (fold (on_session_event n) es sv) = disconnects k sv"
proof (induction es arbitrary: sv)
  case (Cons e es)
  then show ?case using on_session_event_frame(1) [of sv n e] by (simp add: on_session_event_frame(3) same_frame_def)
qed simp

lemma fold_session_events_map:
  "list_all (\<lambda>e. is_disconnect e \<longrightarrow> e = Disconnected n) es \<Longrightarrow> map_of (sessions (fold (on_session_event n) es sv))
     = (if \<exists>e\<in>set es. is_disconnect e then (map_of (sessions sv))(n := None) else map_of (sessions sv))"
proof (induction es arbitrary: sv)
  case (Cons e es)
  have "map_of (sessions (on_session_event n e sv)) = (if is_disconnect e then (map_of (sessions sv))(n := None) else map_of (sessions sv))"
    using Cons.prems by (cases e) (auto simp: is_disconnect_def on_session_event_frame(5))
  then show ?case using Cons.IH [of "on_session_event n e sv"] Cons.prems by auto
qed simp

text \<open>
  Registered sessions are open; every object has its own identifier, below the counter; the session of the outstanding accept is open and
  not yet registered; connections and disconnects are reported in balance, but for the sessions of the set \<open>L\<close>, which a call of
  \<^verbatim>\<open>Stop\<close> has dropped from the registry without stopping them. It is empty as long as \<^verbatim>\<open>Stop\<close> runs undisturbed.
\<close>

definition object_ok :: "u64 \<Rightarrow> session \<Rightarrow> bool" where
  "object_ok n s \<longleftrightarrow> session_ok s \<and> session_id s = n \<and> has_disconnect_callback s"

definition server_ok :: "u64 set \<Rightarrow> server \<Rightarrow> bool" where
  "server_ok L sv \<longleftrightarrow>
     map_ok (sessions sv)
     \<and> (\<forall>n s. objects sv n = Some s \<longrightarrow> object_ok n s \<and> n < session_id_counter sv)
     \<and> (\<forall>n p. map_of (sessions sv) n = Some p \<longrightarrow> p = n \<and> (\<exists>s. objects sv n = Some s \<and> \<not> is_closed s))
     \<and> (\<forall>n. pending_accept sv = Some n \<longrightarrow>
          (\<exists>s. objects sv n = Some s \<and> \<not> is_closed s) \<and> \<not> registered n sv \<and> occurrences (On_Connected n) sv = 0)
     \<and> (\<forall>n\<in>L. \<not> registered n sv \<and> n < session_id_counter sv \<and> pending_accept sv \<noteq> Some n)
     \<and> (\<forall>n. session_id_counter sv \<le> n \<longrightarrow> occurrences (On_Connected n) sv = 0)
     \<and> (on_connected (callbacks sv) \<and> on_disconnect (callbacks sv) \<longrightarrow>
          (\<forall>n. disconnects n sv + of_bool (n \<in> L) = occurrences (On_Connected n) sv \<and> occurrences (On_Connected n) sv \<le> 1))"

lemma server_okD:
  assumes "server_ok L sv"
  shows "map_ok (sessions sv)" "objects sv n = Some s \<Longrightarrow> object_ok n s" "objects sv n = Some s \<Longrightarrow> n < session_id_counter sv"
    "map_of (sessions sv) n = Some p \<Longrightarrow> p = n" "map_of (sessions sv) n = Some p \<Longrightarrow> \<exists>s. objects sv n = Some s \<and> \<not> is_closed s"
    "pending_accept sv = Some n \<Longrightarrow> \<exists>s. objects sv n = Some s \<and> \<not> is_closed s"
    "pending_accept sv = Some n \<Longrightarrow> \<not> registered n sv" "pending_accept sv = Some n \<Longrightarrow> occurrences (On_Connected n) sv = 0"
    "session_id_counter sv \<le> n \<Longrightarrow> occurrences (On_Connected n) sv = 0"
    "on_connected (callbacks sv) \<Longrightarrow> on_disconnect (callbacks sv) \<Longrightarrow> disconnects n sv + of_bool (n \<in> L) = occurrences (On_Connected n) sv"
    "on_connected (callbacks sv) \<Longrightarrow> on_disconnect (callbacks sv) \<Longrightarrow> occurrences (On_Connected n) sv \<le> 1"
    "n \<in> L \<Longrightarrow> \<not> registered n sv" "n \<in> L \<Longrightarrow> n < session_id_counter sv" "n \<in> L \<Longrightarrow> pending_accept sv \<noteq> Some n"
  using assms unfolding server_ok_def by blast+

lemma server_ok_put_session:
  assumes ok: "server_ok L sv" and obj: "objects sv n = Some s" and mv: "session_move s s'" and np: "pending_accept sv \<noteq> Some n"
  shows "server_ok L (put_session n s s' sv)"
    "map_of (sessions (put_session n s s' sv)) = (if is_closed s' \<and> \<not> is_closed s then (map_of (sessions sv))(n := None) else map_of (sessions sv))"
proof -
  let ?es = "drop (length (events s)) (events s')" and ?sv1 = "sv\<lparr>objects := (objects sv)(n \<mapsto> s')\<rparr>"
  let ?sv = "put_session n s s' sv"
  note D = server_okD [OF ok]
  have id: "session_id s = n" using D(2) [OF obj] by (simp add: object_ok_def)
  note new = session_move_new [OF mv, unfolded id]
  show m: "map_of (sessions ?sv) = (if is_closed s' \<and> \<not> is_closed s then (map_of (sessions sv))(n := None) else map_of (sessions sv))"
    using fold_session_events_map [OF new(2), of ?sv1] new(1) by (simp add: put_session_def)
  have fr: "same_frame ?sv1 ?sv" unfolding put_session_def by (rule fold_session_events(1))
  then have o: "objects ?sv = (objects sv)(n \<mapsto> s')" "pending_accept ?sv = pending_accept sv" "session_id_counter ?sv = session_id_counter sv"
    "callbacks ?sv = callbacks sv" by (simp_all add: same_frame_def)
  have con: "occurrences (On_Connected k) ?sv = occurrences (On_Connected k) sv" for k
    using fold_session_events(3) [of k n ?es ?sv1] by (simp add: put_session_def occurrences_def)
  have dis: "disconnects k ?sv = disconnects k sv" if "on_disconnect (callbacks sv)" for k
    using fold_session_events_disconnects [of ?sv1 k n ?es] that by (simp add: put_session_def disconnects_def occurrences_def registered_def)
  have cl: "is_closed s \<longrightarrow> is_closed s'" and s': "object_ok n s'" using mv id by (auto simp: session_move_def extends_def object_ok_def)
  show "server_ok L ?sv" unfolding server_ok_def
  proof (intro conjI allI ballI impI)
    show "map_ok (sessions ?sv)" using fold_session_events(2) [of ?sv1 n ?es] D(1) by (simp add: put_session_def)
    fix k t assume "objects ?sv k = Some t"
    then show "object_ok k t" "k < session_id_counter ?sv" using o s' D(2,3) obj by (auto split: if_splits)
  next
    fix k p assume k: "map_of (sessions ?sv) k = Some p"
    then show "p = k" using m D(4) by (auto split: if_splits)
    have "map_of (sessions sv) k = Some p" "k = n \<longrightarrow> \<not> (is_closed s' \<and> \<not> is_closed s)" using k m by (auto split: if_splits)
    then show "\<exists>s. objects ?sv k = Some s \<and> \<not> is_closed s" using o D(5) [of k p] obj by (cases "k = n") auto
  next
    fix k assume k: "pending_accept ?sv = Some k"
    then show "\<exists>s. objects ?sv k = Some s \<and> \<not> is_closed s" using o D(6) [of k] np by (auto)
    show "\<not> registered k ?sv" using k o D(7) [of k] m by (auto simp: registered_def split: if_splits)
    show "occurrences (On_Connected k) ?sv = 0" using k o D(8) con by simp
  next
    fix k assume k: "k \<in> L"
    show "\<not> registered k ?sv" using D(12) [OF k] m by (auto simp: registered_def)
    show "k < session_id_counter ?sv" "pending_accept ?sv \<noteq> Some k" using D(13,14) [OF k] o by simp_all
  qed (use o con dis D(9-11) in auto)
qed

lemma server_ok_with_session:
  assumes "server_ok L sv" "pending_accept sv \<noteq> Some n" "\<And>s. session_ok s \<Longrightarrow> has_disconnect_callback s \<Longrightarrow> session_move s (f s)"
  shows "server_ok L (with_session n f sv)"
  using assms(1,2) server_okD(2) [OF assms(1), of n] server_ok_put_session(1) [OF assms(1)] assms(3)
  by (auto simp: with_session_def object_ok_def split: option.split)

lemma server_ok_cong:
  assumes "server_ok L sv" "sessions sv' = sessions sv" "objects sv' = objects sv" "pending_accept sv' = pending_accept sv \<or> pending_accept sv' = None"
    "session_id_counter sv' = session_id_counter sv" "callbacks sv' = callbacks sv"
    "\<And>n. occurrences (On_Connected n) sv' = occurrences (On_Connected n) sv" "\<And>n. occurrences (On_Disconnect n) sv' = occurrences (On_Disconnect n) sv"
  shows "server_ok L sv'"
  using assms(1,4) unfolding server_ok_def disconnects_def registered_def assms(2,3,5-8) by auto

lemma server_ok_report: "server_ok L sv \<Longrightarrow> server_ok L (report [Output x] sv)"
  by (erule server_ok_cong) (simp_all add: occurrences_def)

lemma pending_not_registered: "server_ok L sv \<Longrightarrow> map_of (sessions sv) n = Some p \<Longrightarrow> pending_accept sv \<noteq> Some p"
  using server_okD(4,7) by (fastforce simp: registered_def)

lemma server_ok_start_accept:
  assumes ok: "server_ok L sv" and c: "session_id_counter sv \<noteq> - 1"
  shows "server_ok L (start_accept sv)"
proof -
  let ?n = "session_id_counter sv"
  note D = server_okD [OF ok]
  let ?s = "setup_session_callbacks sv (SetTimeouts (timeout (config sv)) (timeout (config sv)) (TCPSession ?n))"
  have eq: "start_accept sv = sv\<lparr>session_id_counter := ?n + 1, objects := (objects sv)(?n \<mapsto> ?s), pending_accept := Some ?n,
      accept_refused := \<not> acceptor_open sv\<rparr>"
    by (simp add: start_accept_def generate_session_id_def)
  have s: "object_ok ?n ?s" "\<not> is_closed ?s"
    by (simp_all add: object_ok_def session_ok_def setup_session_callbacks_def SetCallbacks_def SetTimeouts_def TCPSession_def)
  have "1 + ?n \<noteq> 0" using c by (metis add.commute add_eq_0_iff)
  then have lt: "?n < ?n + 1" using unatSuc [of ?n] by (simp add: word_less_nat_alt add.commute)
  have below: "k < ?n \<Longrightarrow> k < ?n + 1" "?n + 1 \<le> k \<Longrightarrow> ?n \<le> k" for k using lt by (auto intro: less_trans less_imp_le less_le_trans)
  have new: "?n \<notin> L" using D(13) by auto
  have none: "map_of (sessions sv) ?n = None" using D(3,5) by (metis less_irrefl option.exhaust)
  show ?thesis unfolding server_ok_def eq
    using D none s lt below new by (auto simp: occurrences_def registered_def disconnects_def)
qed

lemma Start_events: "\<not> is_closed s \<Longrightarrow> events (Tcp_Session.Start (SetInitSocket True s)) = events s"
  by (simp add: Tcp_Session.Start_def SetInitSocket_def async_read_header_def reset_read_timer_def)

lemma server_ok_accepted:
  assumes ok: "server_ok L sv" and pa: "pending_accept sv = Some n"
  shows "server_ok L (report (guarded (on_connected (callbacks sv)) (On_Connected n))
    (with_session n (\<lambda>s. Tcp_Session.Start (SetInitSocket True s)) (sv\<lparr>pending_accept := None, sessions := map_set n n (sessions sv)\<rparr>)))"
    (is "server_ok L ?sv")
proof -
  note D = server_okD [OF ok]
  obtain s where s: "objects sv n = Some s" "\<not> is_closed s" using D(6) [OF pa] by blast
  let ?t = "Tcp_Session.Start (SetInitSocket True s)"
  have ob: "object_ok n s" using D(2) s(1) by blast
  then have mv: "session_move s ?t" "\<not> is_closed ?t" using session_move_Start [OF _ _ s(2)] by (simp_all add: object_ok_def)
  have t: "object_ok n ?t" using mv(1) ob by (simp add: session_move_def object_ok_def extends_def)
  have eq: "?sv = report (guarded (on_connected (callbacks sv)) (On_Connected n))
      (sv\<lparr>pending_accept := None, sessions := map_set n n (sessions sv), objects := (objects sv)(n \<mapsto> ?t)\<rparr>)"
    using s by (simp add: with_session_def put_session_def Start_events)
  have nr: "map_of (sessions sv) n = None" using D(7) [OF pa] by (simp add: registered_def)
  have occ: "occurrences (On_Connected k) ?sv = occurrences (On_Connected k) sv + (if k = n \<and> on_connected (callbacks sv) then 1 else 0)"
    "occurrences (On_Disconnect k) ?sv = occurrences (On_Disconnect k) sv" for k
    unfolding eq by (auto simp: occurrences_def guarded_def)
  have f: "sessions ?sv = map_set n n (sessions sv)" "objects ?sv = (objects sv)(n \<mapsto> ?t)" "pending_accept ?sv = None"
    "session_id_counter ?sv = session_id_counter sv" "callbacks ?sv = callbacks sv"
    unfolding eq by simp_all
  show ?thesis unfolding server_ok_def f
  proof (intro conjI allI ballI impI)
    fix k assume "session_id_counter sv \<le> k"
    moreover have "k \<noteq> n" using D(3) [OF s(1)] calculation by auto
    ultimately show "occurrences (On_Connected k) ?sv = 0" using D(9) by (simp add: occ)
  next
    fix k assume "on_connected (callbacks sv) \<and> on_disconnect (callbacks sv)"
    then have cb: "on_connected (callbacks sv)" "on_disconnect (callbacks sv)" by simp_all
    show "disconnects k ?sv + of_bool (k \<in> L) = occurrences (On_Connected k) ?sv" "occurrences (On_Connected k) ?sv \<le> 1"
      using D(8) [OF pa] D(10,11) [OF cb, of k] D(14) [of n] pa cb nr unfolding disconnects_def occ registered_def f by auto
  next
    fix k assume k: "k \<in> L"
    then have "k \<noteq> n" using D(14) pa by auto
    then show "\<not> registered k ?sv" using D(12) [OF k] unfolding registered_def f by simp
  qed (use D t mv s nr in \<open>auto split: if_splits\<close>)
qed

lemma server_ok_handle_accept:
  assumes "server_ok L sv" "pending_accept sv = Some n" "session_id_counter sv \<noteq> - 1"
  shows "server_ok L (handle_accept n ec (sv\<lparr>pending_accept := None\<rparr>))"
proof -
  have c: "session_id_counter (with_session k f sv1) = session_id_counter sv1" for k f sv1
    using fold_session_events(1) by (simp add: with_session_def put_session_def same_frame_def split: option.split)
  have "server_ok L (sv\<lparr>pending_accept := None\<rparr>)" by (rule server_ok_cong [OF assms(1)]) (simp_all add: occurrences_def)
  then show ?thesis using server_ok_accepted [OF assms(1,2)] assms(3) c server_ok_report
    by (auto simp: handle_accept_def Let_def intro!: server_ok_start_accept)
qed

lemma server_ok_DisconnectSession:
  assumes ok: "server_ok L sv"
  shows "server_ok L (DisconnectSession n sv)" "map_of (sessions (DisconnectSession n sv)) = (map_of (sessions sv))(n := None)"
proof -
  note D = server_okD [OF ok]
  show "server_ok L (DisconnectSession n sv)"
    using pending_not_registered [OF ok, of n] ok
    by (auto simp: DisconnectSession_def GetSession_def intro!: server_ok_with_session session_move_Stop split: option.split)
  show "map_of (sessions (DisconnectSession n sv)) = (map_of (sessions sv))(n := None)"
  proof (cases "map_of (sessions sv) n")
    case (Some p)
    obtain s where s: "p = n" "objects sv n = Some s" "\<not> is_closed s" using D(4,5) [OF Some] by blast
    have "session_move s (Tcp_Session.Stop s)" using D(2) [OF s(2)] by (simp add: object_ok_def session_move_Stop)
    then show ?thesis using server_ok_put_session(2) [OF ok s(2)] pending_not_registered [OF ok Some] s Some
      by (simp add: DisconnectSession_def GetSession_def with_session_def Tcp_Session.Stop_def)
  qed (simp add: DisconnectSession_def GetSession_def fun_upd_idem)
qed

lemma server_ok_disconnect_all:
  "server_ok L sv \<Longrightarrow> server_ok L (fold DisconnectSession ids sv)
     \<and> map_of (sessions (fold DisconnectSession ids sv)) = (\<lambda>k. if k \<in> set ids then None else map_of (sessions sv) k)"
  by (induction ids arbitrary: sv) (auto simp: server_ok_DisconnectSession fun_eq_iff)

lemma server_Stop:
  assumes "server_ok L sv"
  shows "server_ok L (Stop sv)" "is_running sv \<Longrightarrow> sessions (Stop sv) = []"
proof -
  let ?sv1 = "sv\<lparr>is_running := False, acceptor_open := False\<rparr>"
  let ?sv2 = "fold DisconnectSession (GetSessionIds ?sv1) ?sv1"
  have "server_ok L ?sv1" by (rule server_ok_cong [OF assms]) (simp_all add: occurrences_def)
  note F = server_ok_disconnect_all [OF this, of "GetSessionIds ?sv1"]
  have "map_of (sessions ?sv2) = Map.empty"
    unfolding F [THEN conjunct2] by (auto simp: GetSessionIds_def fun_eq_iff map_of_eq_None_iff)
  then have e: "sessions ?sv2 = []" by simp
  have "server_ok L (?sv2\<lparr>sessions := [], io_stopped := True\<rparr>)"
    by (rule server_ok_cong [OF F [THEN conjunct1]]) (simp_all add: e occurrences_def)
  then show "server_ok L (Stop sv)" using assms by (simp add: Stop_def Let_def)
  show "is_running sv \<Longrightarrow> sessions (Stop sv) = []" by (simp add: Stop_def Let_def)
qed

lemma frame_put_session [simp]:
  "pending_accept (put_session n s s' sv) = pending_accept sv" "session_id_counter (put_session n s s' sv) = session_id_counter sv"
  "callbacks (put_session n s s' sv) = callbacks sv" "is_running (put_session n s s' sv) = is_running sv"
  "acceptor_open (put_session n s s' sv) = acceptor_open sv" "io_stopped (put_session n s s' sv) = io_stopped sv"
  using fold_session_events(1) by (simp_all add: put_session_def same_frame_def)

lemma frame_with_session [simp]:
  "pending_accept (with_session n f sv) = pending_accept sv" "session_id_counter (with_session n f sv) = session_id_counter sv"
  "callbacks (with_session n f sv) = callbacks sv" "is_running (with_session n f sv) = is_running sv"
  "acceptor_open (with_session n f sv) = acceptor_open sv" "io_stopped (with_session n f sv) = io_stopped sv"
  by (simp_all add: with_session_def split: option.split)

lemma frame_DisconnectSession [simp]:
  "pending_accept (DisconnectSession n sv) = pending_accept sv" "session_id_counter (DisconnectSession n sv) = session_id_counter sv"
  "callbacks (DisconnectSession n sv) = callbacks sv" "is_running (DisconnectSession n sv) = is_running sv"
  "acceptor_open (DisconnectSession n sv) = acceptor_open sv" "io_stopped (DisconnectSession n sv) = io_stopped sv"
  by (simp_all add: DisconnectSession_def split: option.split)

lemma server_ok_Broadcast:
  assumes "server_ok L sv"
  shows "server_ok L (Broadcast big data sv)"
proof -
  have "server_ok L (fold (\<lambda>(_, p). with_session p (Tcp_Session.Send big data)) ps sv1)"
    if "server_ok L sv1" "\<forall>e\<in>set ps. pending_accept sv1 \<noteq> Some (snd e)" for sv1 and ps :: "(u64 \<times> u64) list"
    using that by (induction ps arbitrary: sv1) (auto simp: server_ok_with_session session_move_Send)
  moreover have "\<forall>e\<in>set (sessions sv). pending_accept sv \<noteq> Some (snd e)"
    using pending_not_registered [OF assms] map_ok_distinct [OF server_okD(1) [OF assms]] by (metis map_of_is_SomeI prod.collapse)
  ultimately show ?thesis using assms by (simp add: Broadcast_def)
qed

lemma server_ok_Send: "server_ok L sv \<Longrightarrow> server_ok L (Send big n data sv)"
  using pending_not_registered [of L sv n]
  by (auto simp: Send_def GetSession_def server_ok_report intro!: server_ok_with_session session_move_Send split: option.split)

lemma server_ok_Start:
  assumes "server_ok L sv" "session_id_counter sv \<noteq> - 1"
  shows "server_ok L (Start sv)"
proof -
  have "server_ok L (sv\<lparr>is_running := True\<rparr>)" by (rule server_ok_cong [OF assms(1)]) (simp_all add: occurrences_def)
  then show ?thesis using assms by (auto simp: Start_def intro!: server_ok_report server_ok_start_accept)
qed

lemma server_ok_session_step:
  assumes ok: "server_ok L sv" and st: "server_step big (Sv_Session n j) sv = Some sv'"
  shows "server_ok L sv'"
proof -
  obtain s s' where s: "objects sv n = Some s" "session_step big j s = Some s'" "sv' = put_session n s s' sv" "pending_accept sv \<noteq> Some n"
    using st by (auto simp: server_step_def split: option.splits if_splits)
  have "session_move s s'" using server_okD(2) [OF ok s(1)] session_move_step [OF _ _ s(2)] by (simp add: object_ok_def)
  then show ?thesis using server_ok_put_session(1) [OF ok s(1) _ s(4)] s(3) by simp
qed

lemma server_step_ok: "server_ok L sv \<Longrightarrow> server_step big i sv = Some sv' \<Longrightarrow> server_ok L sv'"
proof (cases i)
  case (Sv_Session n j)
  assume "server_ok L sv" "server_step big i sv = Some sv'"
  then show ?thesis using server_ok_session_step Sv_Session by blast
qed (auto simp: server_step_def server_ok_Start server_Stop server_ok_Send server_ok_Broadcast server_ok_DisconnectSession
    server_ok_handle_accept split: if_splits option.splits)

lemma server_run_ok: "server_ok L sv \<Longrightarrow> server_run big ins sv = Some sv' \<Longrightarrow> server_ok L sv'"
  by (induction ins arbitrary: sv) (auto dest: server_step_ok split: option.splits)

lemma server_ok_new: "server_ok {} (TCPServer c cb)"
  by (simp add: server_ok_def TCPServer_def occurrences_def disconnects_def registered_def)

lemma server_run_new: "server_run big ins (TCPServer c cb) = Some sv \<Longrightarrow> server_ok {} sv"
  by (rule server_run_ok [OF server_ok_new])

text \<open>The callbacks are never changed.\<close>

lemma callbacks_fold: "(\<And>x sv. callbacks (f x sv) = callbacks sv) \<Longrightarrow> callbacks (fold f xs sv) = callbacks sv"
  by (induction xs arbitrary: sv) simp_all

lemma callbacks_start_accept [simp]: "callbacks (start_accept sv) = callbacks sv"
  by (simp add: start_accept_def case_prod_beta)

lemma server_step_callbacks: "server_step big i sv = Some sv' \<Longrightarrow> callbacks sv' = callbacks sv"
  by (cases i) (auto simp: server_step_def Start_def Stop_def Send_def Broadcast_def handle_accept_def Let_def callbacks_fold case_prod_beta
      split: if_splits option.splits)

lemma server_run_callbacks: "server_run big ins sv = Some sv' \<Longrightarrow> callbacks sv' = callbacks sv"
  by (induction ins arbitrary: sv) (auto dest: server_step_callbacks split: option.splits)

section \<open>Broadcast\<close>

definition post_frame :: "bool \<Rightarrow> byte list \<Rightarrow> session \<Rightarrow> session" where
  "post_frame big data s = s\<lparr>posted := posted s @ [frame big data]\<rparr>"

lemma with_session_Send:
  "objects sv p = Some s \<Longrightarrow> \<not> is_closed s \<Longrightarrow>
    with_session p (Tcp_Session.Send big data) sv = sv\<lparr>objects := (objects sv)(p \<mapsto> post_frame big data s)\<rparr>"
  by (simp add: with_session_def put_session_def Tcp_Session.Send_def post_frame_def)

lemma fold_Send:
  assumes "distinct (map snd es)" "\<forall>e\<in>set es. \<exists>s. objects sv (snd e) = Some s \<and> \<not> is_closed s"
  shows "fold (\<lambda>(_, p). with_session p (Tcp_Session.Send big data)) (es :: (u64 \<times> u64) list) sv
    = sv\<lparr>objects := (\<lambda>n. if n \<in> snd ` set es then map_option (post_frame big data) (objects sv n) else objects sv n)\<rparr>"
  using assms
proof (induction es arbitrary: sv)
  case (Cons e es)
  obtain k p where e: "e = (k, p)" by fastforce
  obtain s where s: "objects sv p = Some s" "\<not> is_closed s" using Cons.prems(2) e by auto
  let ?sv = "sv\<lparr>objects := (objects sv)(p \<mapsto> post_frame big data s)\<rparr>"
  have p: "p \<notin> snd ` set es" using Cons.prems(1) e by auto
  then have "fold (\<lambda>(_, p). with_session p (Tcp_Session.Send big data)) es ?sv
      = ?sv\<lparr>objects := (\<lambda>n. if n \<in> snd ` set es then map_option (post_frame big data) (objects ?sv n) else objects ?sv n)\<rparr>"
    using Cons.prems by (intro Cons.IH) auto
  also have "\<dots> = sv\<lparr>objects := (\<lambda>n. if n \<in> snd ` set (e # es) then map_option (post_frame big data) (objects sv n) else objects sv n)\<rparr>"
    using p s e by (auto simp: fun_eq_iff intro!: arg_cong [of _ _ "\<lambda>f. sv\<lparr>objects := f\<rparr>"])
  finally show ?case using e with_session_Send [OF s] by simp
qed simp

section \<open>Stopping while the server works\<close>

text \<open>
  \<^verbatim>\<open>Stop\<close> takes the mutex several times and other threads run in between: the handler of an accept on the io thread, the sessions on theirs,
  and users of the server. These are its sections; the loop over the identifiers is the state \<open>At_Disconnect\<close> with those that are left.
\<close>

datatype stop_pc = At_Close | At_Snapshot | At_Disconnect "u64 list" | At_Clear | At_Io_Stop | Stop_Returned

definition stop_call :: "server \<Rightarrow> stop_pc \<times> server" where
  "stop_call sv = (if \<not> is_running sv then (Stop_Returned, sv) else (At_Close, sv\<lparr>is_running := False\<rparr>))"

fun stop_section :: "stop_pc \<Rightarrow> server \<Rightarrow> stop_pc \<times> server" where
  "stop_section At_Close sv = (At_Snapshot, sv\<lparr>acceptor_open := False\<rparr>)"
| "stop_section At_Snapshot sv = (At_Disconnect (GetSessionIds sv), sv)"
| "stop_section (At_Disconnect []) sv = (At_Clear, sv)"
| "stop_section (At_Disconnect (n # ns)) sv = (At_Disconnect ns, DisconnectSession n sv)"
| "stop_section At_Clear sv = (At_Io_Stop, sv\<lparr>sessions := []\<rparr>)"
| "stop_section At_Io_Stop sv = (Stop_Returned, sv\<lparr>io_stopped := True\<rparr>)"
| "stop_section Stop_Returned sv = (Stop_Returned, sv)"

text \<open>
  A call of \<^verbatim>\<open>Stop\<close> among other events, with the sessions that it drops from the registry without having stopped them.
\<close>

datatype stop_event = By_Stop | By_Other server_input

fun stop_run :: "bool \<Rightarrow> stop_event list \<Rightarrow> stop_pc \<times> server \<Rightarrow> (u64 list \<times> stop_pc \<times> server) option" where
  "stop_run big [] st = Some ([], st)"
| "stop_run big (By_Stop # es) (pc, sv) =
     map_option (\<lambda>(lost, fin). ((if pc = At_Clear then GetSessionIds sv else []) @ lost, fin)) (stop_run big es (stop_section pc sv))"
| "stop_run big (By_Other i # es) (pc, sv) =
     (case server_step big i sv of None \<Rightarrow> None | Some sv' \<Rightarrow> stop_run big es (pc, sv'))"

lemma stop_loop_undisturbed:
  "stop_run big (replicate (length ns) By_Stop @ es) (At_Disconnect ns, sv) = stop_run big es (At_Disconnect [], fold DisconnectSession ns sv)"
proof (induction ns arbitrary: sv)
  case (Cons n ns)
  have "map_option (\<lambda>(lost, fin). (lost, fin)) x = x" for x :: "(u64 list \<times> stop_pc \<times> server) option" by (cases x) auto
  then show ?case using Cons by simp
qed simp

text \<open>Undisturbed, the sections are the operation \<open>Stop\<close>.\<close>

lemma stop_undisturbed:
  assumes "is_running sv"
  shows "\<exists>k lost. stop_run big (replicate k By_Stop) (stop_call sv) = Some (lost, Stop_Returned, Stop sv)"
proof -
  let ?ids = "GetSessionIds sv"
  have "GetSessionIds (sv\<lparr>is_running := False, acceptor_open := False\<rparr>) = ?ids" by (simp add: GetSessionIds_def)
  then have "\<exists>lost. stop_run big ([By_Stop, By_Stop] @ (replicate (length ?ids) By_Stop @ [By_Stop, By_Stop, By_Stop])) (stop_call sv)
      = Some (lost, Stop_Returned, Stop sv)"
    using assms stop_loop_undisturbed [of big ?ids] by (simp add: stop_call_def Stop_def Let_def)
  moreover have "[By_Stop, By_Stop] @ (replicate (length ?ids) By_Stop @ [By_Stop, By_Stop, By_Stop]) = replicate (2 + (length ?ids + 3)) By_Stop"
    by (simp only: replicate_add) (simp add: numeral_eq_Suc)
  ultimately show ?thesis by metis
qed

text \<open>Only the handler of a successful accept adds to the registry; what was reported stays reported.\<close>

lemma registered_put_session:
  assumes "server_ok L sv" "objects sv n = Some s" "session_move s s'" "pending_accept sv \<noteq> Some n"
  shows "registered k (put_session n s s' sv) \<Longrightarrow> registered k sv"
  using server_ok_put_session(2) [OF assms] by (auto simp: registered_def split: if_splits)

lemma registered_with_session:
  assumes "server_ok L sv" "pending_accept sv \<noteq> Some n" "\<And>s. session_ok s \<Longrightarrow> has_disconnect_callback s \<Longrightarrow> session_move s (f s)"
  shows "registered k (with_session n f sv) \<Longrightarrow> registered k sv"
  using registered_put_session [OF assms(1) _ _ assms(2)] server_okD(2) [OF assms(1), of n] assms(3)
  by (auto simp: with_session_def object_ok_def split: option.splits)

lemma registered_DisconnectSession: "server_ok L sv \<Longrightarrow> registered k (DisconnectSession n sv) \<longleftrightarrow> registered k sv \<and> k \<noteq> n"
  by (simp add: registered_def server_ok_DisconnectSession(2))

lemma sessions_start_accept [simp]: "sessions (start_accept sv) = sessions sv"
  by (simp add: start_accept_def case_prod_beta)

lemma registered_start_accept [simp]: "registered k (start_accept sv) = registered k sv"
  by (simp add: start_accept_def registered_def case_prod_beta)

lemma registered_report [simp]: "registered k (report es sv) = registered k sv"
  by (simp add: registered_def)

lemma registered_Stop: "server_ok L sv \<Longrightarrow> registered k (Stop sv) \<Longrightarrow> registered k sv"
  using server_Stop(2) [of L sv] by (cases "is_running sv") (auto simp: registered_def Stop_def)

lemma registered_Broadcast:
  assumes "server_ok L sv" "registered k (Broadcast big data sv)"
  shows "registered k sv"
proof -
  have "registered k sv1" if "server_ok L sv1" "\<forall>e\<in>set ps. pending_accept sv1 \<noteq> Some (snd e)"
    "registered k (fold (\<lambda>(_, p). with_session p (Tcp_Session.Send big data)) ps sv1)" for sv1 and ps :: "(u64 \<times> u64) list"
    using that
  proof (induction ps arbitrary: sv1)
    case (Cons e ps)
    obtain n p where e: "e = (n, p)" by fastforce
    let ?sv = "with_session p (Tcp_Session.Send big data) sv1"
    have "server_ok L ?sv" using Cons.prems(1,2) e by (auto intro: server_ok_with_session session_move_Send)
    then have "registered k ?sv" using Cons e by auto
    then show ?case using registered_with_session [OF Cons.prems(1) _ session_move_Send] Cons.prems(2) e by auto
  qed simp
  moreover have "\<forall>e\<in>set (sessions sv). pending_accept sv \<noteq> Some (snd e)"
    using pending_not_registered [OF assms(1)] map_ok_distinct [OF server_okD(1) [OF assms(1)]] by (metis map_of_is_SomeI prod.collapse)
  ultimately show ?thesis using assms by (simp add: Broadcast_def)
qed

lemma registered_handle_accept:
  assumes ok: "server_ok L sv" and pa: "pending_accept sv = Some n" and reg: "registered k (handle_accept n ec (sv\<lparr>pending_accept := None\<rparr>))"
  shows "registered k sv \<or> ec = Ok \<and> k = n"
proof (cases "ec = Ok")
  case True
  obtain s where s: "objects sv n = Some s" "\<not> is_closed s" using server_okD(6) [OF ok pa] by blast
  then show ?thesis using reg True
    by (auto simp: handle_accept_def Let_def with_session_def put_session_def Start_events registered_def split: if_splits)
qed (use reg in \<open>auto simp: handle_accept_def Let_def registered_def split: if_splits\<close>)

lemma registered_step:
  assumes ok: "server_ok L sv" and st: "server_step big i sv = Some sv'" and reg: "registered k sv'"
  shows "registered k sv \<or> i = Sv_Accept Ok \<and> pending_accept sv = Some k"
proof (cases i)
  case (Sv_Accept ec)
  then obtain n where n: "pending_accept sv = Some n" "sv' = handle_accept n ec (sv\<lparr>pending_accept := None\<rparr>)"
    using st by (auto simp: server_step_def split: option.splits if_splits)
  then show ?thesis using registered_handle_accept [OF ok n(1)] reg Sv_Accept by blast
next
  case (Sv_Session n j)
  then obtain s s' where s: "objects sv n = Some s" "session_step big j s = Some s'" "sv' = put_session n s s' sv" "pending_accept sv \<noteq> Some n"
    using st by (auto simp: server_step_def split: option.splits if_splits)
  have "session_move s s'" using server_okD(2) [OF ok s(1)] session_move_step [OF _ _ s(2)] by (simp add: object_ok_def)
  then show ?thesis using registered_put_session [OF ok s(1) _ s(4)] reg s(3) by blast
next
  case Sv_Start
  then show ?thesis using st reg by (auto simp: server_step_def Start_def registered_def split: if_splits)
next
  case Sv_Stop
  then show ?thesis using st reg registered_Stop [OF ok] by (simp add: server_step_def)
next
  case (Sv_Broadcast data)
  then show ?thesis using st reg registered_Broadcast [OF ok] by (auto simp: server_step_def)
next
  case (Sv_Disconnect n)
  then show ?thesis using st reg registered_DisconnectSession [OF ok] by (auto simp: server_step_def)
next
  case (Sv_Send n data)
  then have sv': "sv' = Send big n data sv" using st by (simp add: server_step_def)
  show ?thesis
  proof (cases "map_of (sessions sv) n")
    case None
    then show ?thesis using reg sv' by (simp add: Send_def GetSession_def)
  next
    case (Some p)
    then show ?thesis using registered_with_session [OF ok pending_not_registered [OF ok Some] session_move_Send] reg sv'
      by (simp add: Send_def GetSession_def)
  qed
qed

text \<open>The event loop stays stopped and the acceptor closed. The identifiers that later accepts can use are the outstanding one and those not given out.\<close>

lemma frame_folds [simp]:
  "pending_accept (fold DisconnectSession ns sv) = pending_accept sv" "session_id_counter (fold DisconnectSession ns sv) = session_id_counter sv"
  "acceptor_open (fold DisconnectSession ns sv) = acceptor_open sv" "io_stopped (fold DisconnectSession ns sv) = io_stopped sv"
  "pending_accept (Broadcast big data sv) = pending_accept sv" "session_id_counter (Broadcast big data sv) = session_id_counter sv"
  "acceptor_open (Broadcast big data sv) = acceptor_open sv" "io_stopped (Broadcast big data sv) = io_stopped sv"
proof -
  show "pending_accept (fold DisconnectSession ns sv) = pending_accept sv" "session_id_counter (fold DisconnectSession ns sv) = session_id_counter sv"
    "acceptor_open (fold DisconnectSession ns sv) = acceptor_open sv" "io_stopped (fold DisconnectSession ns sv) = io_stopped sv"
    by (induction ns arbitrary: sv) simp_all
  have "pending_accept (fold (\<lambda>(_, p). with_session p f) es sv) = pending_accept sv
      \<and> session_id_counter (fold (\<lambda>(_, p). with_session p f) es sv) = session_id_counter sv
      \<and> acceptor_open (fold (\<lambda>(_, p). with_session p f) es sv) = acceptor_open sv
      \<and> io_stopped (fold (\<lambda>(_, p). with_session p f) es sv) = io_stopped sv" for f and es :: "(u64 \<times> u64) list"
    by (induction es arbitrary: sv) (simp_all add: case_prod_beta)
  then show "pending_accept (Broadcast big data sv) = pending_accept sv" "session_id_counter (Broadcast big data sv) = session_id_counter sv"
    "acceptor_open (Broadcast big data sv) = acceptor_open sv" "io_stopped (Broadcast big data sv) = io_stopped sv"
    by (simp_all add: Broadcast_def)
qed

definition fresh_ids :: "u64 set \<Rightarrow> server \<Rightarrow> bool" where
  "fresh_ids A sv \<longleftrightarrow> (\<forall>k. pending_accept sv = Some k \<longrightarrow> k \<in> A) \<and> (\<forall>k. session_id_counter sv \<le> k \<longrightarrow> k \<in> A)"

lemma fresh_ids_simps [simp]:
  "fresh_ids A (report es sv) = fresh_ids A sv" "fresh_ids A (with_session n f sv) = fresh_ids A sv"
  "fresh_ids A (put_session n s s' sv) = fresh_ids A sv" "fresh_ids A (Broadcast big data sv) = fresh_ids A sv"
  "fresh_ids A (DisconnectSession n sv) = fresh_ids A sv" "fresh_ids A (fold DisconnectSession ns sv) = fresh_ids A sv"
  "fresh_ids A (sv\<lparr>sessions := m\<rparr>) = fresh_ids A sv" "fresh_ids A (sv\<lparr>is_running := b\<rparr>) = fresh_ids A sv"
  "fresh_ids A (sv\<lparr>acceptor_open := b\<rparr>) = fresh_ids A sv" "fresh_ids A (sv\<lparr>io_stopped := b\<rparr>) = fresh_ids A sv"
  by (simp_all add: fresh_ids_def)

lemma fresh_ids_handler: "fresh_ids A sv \<Longrightarrow> fresh_ids A (sv\<lparr>pending_accept := None\<rparr>)"
  by (simp add: fresh_ids_def)

lemma start_accept_frame:
  "acceptor_open (start_accept sv) = acceptor_open sv" "io_stopped (start_accept sv) = io_stopped sv"
  "fresh_ids A sv \<Longrightarrow> session_id_counter sv \<noteq> - 1 \<Longrightarrow> fresh_ids A (start_accept sv)"
proof -
  have "session_id_counter sv + 1 \<le> k \<Longrightarrow> session_id_counter sv \<noteq> - 1 \<Longrightarrow> session_id_counter sv \<le> k" for k
    using unatSuc [of "session_id_counter sv"] by (fastforce simp: word_le_nat_alt add.commute add_eq_0_iff)
  then show "fresh_ids A sv \<Longrightarrow> session_id_counter sv \<noteq> - 1 \<Longrightarrow> fresh_ids A (start_accept sv)"
    by (auto simp: fresh_ids_def start_accept_def generate_session_id_def)
qed (simp_all add: start_accept_def case_prod_beta)

lemma handle_accept_frame:
  "acceptor_open (handle_accept n ec sv) = acceptor_open sv" "io_stopped (handle_accept n ec sv) = io_stopped sv"
  "fresh_ids A sv \<Longrightarrow> session_id_counter sv \<noteq> - 1 \<Longrightarrow> fresh_ids A (handle_accept n ec sv)"
  by (simp_all add: handle_accept_def Let_def start_accept_frame)

lemma Start_frame:
  "acceptor_open (Start sv) = acceptor_open sv" "io_stopped (Start sv) = io_stopped sv"
  "fresh_ids A sv \<Longrightarrow> session_id_counter sv \<noteq> - 1 \<Longrightarrow> fresh_ids A (Start sv)"
  by (simp_all add: Start_def start_accept_frame)

lemma Send_frame:
  "acceptor_open (Send big n data sv) = acceptor_open sv" "io_stopped (Send big n data sv) = io_stopped sv"
  "fresh_ids A (Send big n data sv) = fresh_ids A sv"
  by (simp_all add: Send_def split: option.split)

lemma Stop_frame:
  "\<not> acceptor_open sv \<Longrightarrow> \<not> acceptor_open (Stop sv)" "io_stopped sv \<Longrightarrow> io_stopped (Stop sv)" "fresh_ids A (Stop sv) = fresh_ids A sv"
  by (simp_all add: Stop_def Let_def)

lemma server_step_frame:
  assumes "server_step big i sv = Some sv'"
  shows "io_stopped sv \<Longrightarrow> io_stopped sv'" "\<not> acceptor_open sv \<Longrightarrow> \<not> acceptor_open sv'" "fresh_ids A sv \<Longrightarrow> fresh_ids A sv'"
  using assms
  by (cases i; auto simp: server_step_def Start_frame Send_frame Stop_frame handle_accept_frame fresh_ids_handler split: option.splits if_splits)+

text \<open>
  What holds between the sections. Once the identifiers have been copied, the registry holds only what is still to be stopped and what was
  accepted since, a session with an identifier of \<open>A\<close>.
\<close>

fun stop_inv :: "u64 set \<Rightarrow> stop_pc \<Rightarrow> server \<Rightarrow> bool" where
  "stop_inv A At_Close sv \<longleftrightarrow> True"
| "stop_inv A At_Snapshot sv \<longleftrightarrow> \<not> acceptor_open sv"
| "stop_inv A (At_Disconnect ns) sv \<longleftrightarrow> \<not> acceptor_open sv \<and> (\<forall>k. registered k sv \<longrightarrow> k \<in> A \<or> k \<in> set ns)"
| "stop_inv A At_Clear sv \<longleftrightarrow> \<not> acceptor_open sv \<and> (\<forall>k. registered k sv \<longrightarrow> k \<in> A)"
| "stop_inv A At_Io_Stop sv \<longleftrightarrow> \<not> acceptor_open sv \<and> (\<forall>k. registered k sv \<longrightarrow> k \<in> A)"
| "stop_inv A Stop_Returned sv \<longleftrightarrow> \<not> acceptor_open sv \<and> io_stopped sv \<and> (\<forall>k. registered k sv \<longrightarrow> k \<in> A)"

lemma stop_inv_step:
  assumes "server_ok L sv" "stop_inv A pc sv" "server_step big i sv = Some sv'" "fresh_ids A sv \<or> i \<noteq> Sv_Accept Ok"
  shows "stop_inv A pc sv'"
proof -
  have "registered k sv' \<Longrightarrow> registered k sv \<or> k \<in> A" for k
    using registered_step [OF assms(1,3), of k] assms(4) by (auto simp: fresh_ids_def)
  then show ?thesis using assms(2) server_step_frame(1,2) [OF assms(3)] by (cases pc) auto
qed

lemma GetSessionIds_registered: "k \<in> set (GetSessionIds sv) \<longleftrightarrow> registered k sv"
  by (simp add: registered_def GetSessionIds_def map_of_eq_None_iff)

lemma server_ok_clear:
  assumes "server_ok L sv"
  shows "server_ok (L \<union> set (GetSessionIds sv)) (sv\<lparr>sessions := []\<rparr>)"
proof -
  note D = server_okD [OF assms]
  let ?sv = "sv\<lparr>sessions := []\<rparr>"
  have reg: "n < session_id_counter sv" "pending_accept sv \<noteq> Some n" "n \<notin> L" if "registered n sv" for n
    using that D(3,5) [of n] D(7,12) [of n] by (auto simp: registered_def)
  have empty: "\<not> registered n ?sv" for n by (simp add: registered_def)
  have occ: "occurrences e ?sv = occurrences e sv" for e by (simp add: occurrences_def)
  have bal: "disconnects n ?sv + of_bool (n \<in> L \<union> set (GetSessionIds sv)) = disconnects n sv + of_bool (n \<in> L)" for n
    using reg(3) [of n] by (auto simp: disconnects_def occ empty GetSessionIds_registered)
  have "\<forall>n\<in>L \<union> set (GetSessionIds sv). n < session_id_counter sv \<and> pending_accept sv \<noteq> Some n"
    using D(13,14) reg(1,2) GetSessionIds_registered [of _ sv] by (metis UnE)
  then show ?thesis unfolding server_ok_def bal occ using D(2,3,6,8-11) by (simp add: empty)
qed

lemma stop_section_ok:
  assumes "server_ok L sv" "stop_inv A pc sv" "stop_section pc sv = (pc', sv')"
  shows "server_ok (L \<union> (if pc = At_Clear then set (GetSessionIds sv) else {})) sv'" (is "server_ok ?L sv'")
    and "stop_inv A pc' sv'" "fresh_ids A sv \<Longrightarrow> fresh_ids A sv'"
proof -
  show "server_ok ?L sv'"
  proof (cases pc)
    case (At_Disconnect ns)
    then have "sv' = sv \<or> (\<exists>n. sv' = DisconnectSession n sv)" using assms(3) by (cases ns) auto
    then have "server_ok L sv'" using assms(1) server_ok_DisconnectSession(1) [OF assms(1)] by (elim disjE exE) simp_all
    then show ?thesis using At_Disconnect by simp
  next
    case At_Clear
    then show ?thesis using assms(3) server_ok_clear [OF assms(1)] by simp
  next
    case At_Close
    have "server_ok L (sv\<lparr>acceptor_open := False\<rparr>)" by (rule server_ok_cong [OF assms(1)]) (simp_all add: occurrences_def)
    then show ?thesis using assms(3) At_Close by auto
  next
    case At_Io_Stop
    have "server_ok L (sv\<lparr>io_stopped := True\<rparr>)" by (rule server_ok_cong [OF assms(1)]) (simp_all add: occurrences_def)
    then show ?thesis using assms(3) At_Io_Stop by auto
  qed (use assms(1,3) in simp_all)
  show "stop_inv A pc' sv'"
  proof (cases pc)
    case (At_Disconnect ns)
    then show ?thesis using assms(2,3) registered_DisconnectSession [OF assms(1)] by (cases ns) auto
  next
    case At_Snapshot
    then show ?thesis using assms(2,3) GetSessionIds_registered [of _ sv] by auto
  next
    case At_Clear
    then show ?thesis using assms(2,3) by (auto simp: registered_def)
  next
    case At_Io_Stop
    then show ?thesis using assms(2,3) by (auto simp: registered_def)
  qed (use assms(2,3) in auto)
  show "fresh_ids A sv \<Longrightarrow> fresh_ids A sv'" using assms(3) by (cases "(pc, sv)" rule: stop_section.cases) auto
qed

lemma stop_run_ok:
  assumes "server_ok L sv" "stop_inv A pc sv" "fresh_ids A sv \<or> By_Other (Sv_Accept Ok) \<notin> set es"
    and "stop_run big es (pc, sv) = Some (lost, pc', sv')"
  shows "server_ok (L \<union> set lost) sv' \<and> stop_inv A pc' sv' \<and> set lost \<subseteq> A \<and> callbacks sv' = callbacks sv"
  using assms
proof (induction es arbitrary: L pc sv lost)
  case (Cons e es)
  show ?case
  proof (cases e)
    case By_Stop
    obtain pc1 sv1 where s1: "stop_section pc sv = (pc1, sv1)" by fastforce
    then obtain lost1 where lost: "lost = (if pc = At_Clear then GetSessionIds sv else []) @ lost1" "stop_run big es (pc1, sv1) = Some (lost1, pc', sv')"
      using Cons.prems(4) By_Stop by auto
    note k = stop_section_ok [OF Cons.prems(1,2) s1]
    have "callbacks sv1 = callbacks sv" using s1 by (cases "(pc, sv)" rule: stop_section.cases) auto
    moreover have "pc = At_Clear \<Longrightarrow> set (GetSessionIds sv) \<subseteq> A" using Cons.prems(2) by (auto simp: GetSessionIds_registered)
    ultimately show ?thesis using Cons.IH [OF k(1,2) _ lost(2)] k(3) Cons.prems(3) lost(1) by (cases "pc = At_Clear") (auto simp: Un_assoc)
  next
    case (By_Other i)
    then obtain sv1 where s1: "server_step big i sv = Some sv1" "stop_run big es (pc, sv1) = Some (lost, pc', sv')"
      using Cons.prems(4) by (auto split: option.splits)
    have "fresh_ids A sv \<or> i \<noteq> Sv_Accept Ok" using Cons.prems(3) By_Other by auto
    note inv = stop_inv_step [OF Cons.prems(1,2) s1(1) this]
    show ?thesis using Cons.IH [OF server_step_ok [OF Cons.prems(1) s1(1)] inv _ s1(2)] server_step_frame(3) [OF s1(1)] Cons.prems(3)
        server_step_callbacks [OF s1(1)] by auto
  qed
qed simp

section \<open>Properties\<close>


text \<open>Two clients connect and the first one is disconnected.\<close>

definition all_callbacks :: event_callbacks where
  "all_callbacks = \<lparr>on_message = True, on_connected = True, on_disconnect = True, on_error = True\<rparr>"

definition sample_server :: server where
  "sample_server = DisconnectSession 1 (handle_accept 2 Ok ((handle_accept 1 Ok ((Start (TCPServer (TCPServerConfig 4) all_callbacks))
     \<lparr>pending_accept := None\<rparr>))\<lparr>pending_accept := None\<rparr>))"

lemmas server_operations = Start_def start_accept_def handle_accept_def DisconnectSession_def GetSession_def GetSessionIds_def with_session_def
  put_session_def report_def guarded_def setup_session_callbacks_def on_session_event_def on_session_disconnect_def map_erase_def
  TCPServer_def TCPServerConfig_def generate_session_id_def SetTimeouts_def all_callbacks_def

lemma sample_server_run:
  "server_run False [Sv_Start, Sv_Accept Ok, Sv_Accept Ok, Sv_Disconnect 1] (TCPServer (TCPServerConfig 4) all_callbacks) = Some sample_server"
  "is_running sample_server" "GetSessionIds sample_server = [2]" "on_connected all_callbacks" "on_disconnect all_callbacks"
  by (simp_all add: sample_server_def server_step_def server_operations session_operations)




text \<open>A connection accepted between the copy of the identifiers and the clearing of the registry is reported, and its disconnect never is.\<close>

lemma stop_loses_connection:
  "\<exists>sv' s. stop_run False [By_Stop, By_Stop, By_Other (Sv_Accept Ok), By_Stop, By_Stop, By_Stop, By_Stop] (stop_call sample_server)
       = Some ([3], Stop_Returned, sv')
     \<and> occurrences (On_Connected 3) sv' = 1 \<and> GetSessionIds sv' = [] \<and> objects sv' 3 = Some s \<and> \<not> IsClosed s
     \<and> (\<exists>sv''. server_step False (Sv_Session 3 In_Stop) sv' = Some sv'' \<and> occurrences (On_Disconnect 3) sv'' = 0)"
  by (simp add: sample_server_def stop_call_def server_step_def server_operations session_step_def session_operations occurrences_def IsClosed_def)

text \<open>A broadcast posts the frame of the message once to every listed session and to no other, and changes
  nothing else.
\<close>

theorem server_broadcast:
  assumes "server_run big ins (TCPServer c cb) = Some sv"
  shows "Broadcast big data sv
    = sv\<lparr>objects := (\<lambda>n. if n \<in> set (GetSessionIds sv) then map_option (post_frame big data) (objects sv n) else objects sv n)\<rparr>"
proof -
  have ok: "server_ok {} sv" by (rule server_run_new [OF assms])
  note D = server_okD [OF ok]
  have e: "snd e = fst e \<and> (\<exists>s. objects sv (fst e) = Some s \<and> \<not> is_closed s)" if "e \<in> set (sessions sv)" for e
    using that D(4,5) map_of_is_SomeI [OF map_ok_distinct [OF D(1)]] by (metis prod.collapse)
  then have ms: "map snd (sessions sv) = GetSessionIds sv" by (simp add: GetSessionIds_def)
  have "distinct (map snd (sessions sv))" unfolding ms using map_ok_distinct [OF D(1)] by (simp add: GetSessionIds_def)
  moreover have "snd ` set (sessions sv) = set (GetSessionIds sv)" using ms by (metis list.set_map)
  ultimately show ?thesis using fold_Send [of "sessions sv" sv big data] e by (simp add: Broadcast_def)
qed

theorem server_broadcast_witness:
  "objects (Broadcast False [7] sample_server) 2 = map_option (post_frame False [7]) (objects sample_server 2)
   \<and> objects (Broadcast False [7] sample_server) 1 = objects sample_server 1"
  using server_broadcast [OF sample_server_run(1), of "[7]"] sample_server_run(3) by simp

section \<open>Running and observers\<close>

text \<open>\<^verbatim>\<open>Run\<close> starts the server if it is not running; the event loop that it then enters is the environment.\<close>

definition Run :: "server \<Rightarrow> server" where
  "Run sv = (if \<not> is_running sv then Start sv else sv)"

definition SessionCount :: "server \<Rightarrow> nat" where
  "SessionCount sv = length (sessions sv)"

definition GetConfig :: "server \<Rightarrow> server_config" where
  "GetConfig sv = config sv"

lemma SessionCount_ids: "SessionCount sv = length (GetSessionIds sv)"
  by (simp add: SessionCount_def GetSessionIds_def)

end
