(* ===== verification/Tcp_Client.thy ===== *)
theory Tcp_Client
  imports Tcp_Session
begin

text \<open>
  \<^verbatim>\<open>src/breutil/net/tcp/tcp_client.hpp\<close> with \<^verbatim>\<open>TCPClientConfig\<close>: the validated construction and the synchronous \<^verbatim>\<open>Connect\<close>. What
  the resolver and the connect call return are arguments. The asynchronous variant is a state machine over the completions of its
  operations; a completion that reads locals of a function that has returned is undefined.
\<close>

section \<open>Configuration\<close>

record client_config =
  host :: string
  port :: u16
  connect_timeout :: int
  config_read_timeout :: int
  config_write_timeout :: int
  enable_keepalive :: bool
  enable_nodelay :: bool
  buffer_size :: int
  reconnect_max_attempts :: int
  reconnect_delay :: int

definition TCPClientConfig :: client_config where
  "TCPClientConfig =
     \<lparr>host = ''127.0.0.1'', port = 8080, connect_timeout = 10, config_read_timeout = 30, config_write_timeout = 30, enable_keepalive = True,
      enable_nodelay = True, buffer_size = 8192, reconnect_max_attempts = 3, reconnect_delay = 1000\<rparr>"

definition Validate :: "client_config \<Rightarrow> bool" where
  "Validate c \<longleftrightarrow> host c \<noteq> [] \<and> 0 < port c \<and> 0 < buffer_size c \<and> 0 \<le> reconnect_max_attempts c"

text \<open>The constructor; \<open>None\<close> is \<^verbatim>\<open>std::invalid_argument\<close>.\<close>

definition TCPClient :: "client_config \<Rightarrow> client_config option" where
  "TCPClient c = (if Validate c then Some c else None)"

section \<open>Connecting\<close>

record client_callbacks =
  on_message :: bool
  on_connected :: bool
  on_disconnect :: bool
  on_failed :: bool

datatype client_event = Client_Connected u64 | Client_Failed u64 string | Client_Printed string

definition handle_connect_error :: "client_callbacks \<Rightarrow> string \<Rightarrow> client_event" where
  "handle_connect_error cb msg = (if on_failed cb then Client_Failed 0 msg else Client_Printed (''handle_connect_error: '' @ msg @ [CHR 0x0A]))"

text \<open>The error callback is always set; it forwards to \<^verbatim>\<open>on_failed\<close> if there is one.\<close>

definition init_callbacks :: "client_config \<Rightarrow> client_callbacks \<Rightarrow> session \<Rightarrow> session" where
  "init_callbacks c cb s =
     SetCallbacks (on_message cb) (on_disconnect cb) True (SetTimeouts (config_read_timeout c) (config_write_timeout c) s)"

definition start_connect :: "client_config \<Rightarrow> client_callbacks \<Rightarrow> error_code \<Rightarrow> session \<Rightarrow> session \<times> client_event list" where
  "start_connect c cb ec s =
     (if ec \<noteq> Ok then (s, [handle_connect_error cb (''Connect failed: '' @ ec_message ec)])
      else (Start (SetInitSocket True s),
            [Client_Printed (''Connected to '' @ host c @ '':'' @ to_chars_int 10 (uint (port c)))]
            @ (if on_connected cb then [Client_Connected (session_id s)] else [])))"

text \<open>\<open>resolved\<close> and \<open>connected\<close> are the results of the two calls; the last component is the counter of session identifiers.\<close>

definition Connect ::
    "client_config \<Rightarrow> client_callbacks \<Rightarrow> error_code \<Rightarrow> error_code \<Rightarrow> u64 \<Rightarrow> session option \<times> client_event list \<times> u64" where
  "Connect c cb resolved connected counter =
     (let (n, counter') = generate_session_id counter; s = init_callbacks c cb (TCPSession n)
      in if resolved \<noteq> Ok then (None, [handle_connect_error cb (''Resolve failed: '' @ ec_message resolved)], counter')
         else (case start_connect c cb connected s of (s', es) \<Rightarrow> (Some s', es, counter')))"

section \<open>Properties\<close>

text \<open>The session that \<^verbatim>\<open>Connect\<close> prepares.\<close>

definition prepared :: "client_config \<Rightarrow> client_callbacks \<Rightarrow> u64 \<Rightarrow> session" where
  "prepared c cb n = init_callbacks c cb (TCPSession n)"

lemma prepared_simps [simp]:
  "is_closed (prepared c cb n) = False" "is_init_socket (prepared c cb n) = False" "is_started (prepared c cb n) = False"
  "pending_read (prepared c cb n) = None" "session_id (prepared c cb n) = n" "has_message_callback (prepared c cb n) = on_message cb"
  by (simp_all add: prepared_def init_callbacks_def SetCallbacks_def SetTimeouts_def TCPSession_def)

lemma session_ok_prepared: "session_ok (prepared c cb n)" "session_ok (SetInitSocket True (prepared c cb n))"
  by (simp_all add: prepared_def init_callbacks_def SetCallbacks_def SetTimeouts_def TCPSession_def SetInitSocket_def session_ok_def)

lemma Start_prepared:
  "pending_read (Start (prepared c cb n)) = None" "ready (Start (SetInitSocket True (prepared c cb n))) = on_message cb"
  "session_id (Start (SetInitSocket True (prepared c cb n))) = n"
  by (simp_all add: Start_def say_def SetInitSocket_def async_read_header_def reset_read_timer_def ready_def)

lemma Connect_cases:
  "resolved \<noteq> Ok \<Longrightarrow> Connect c cb resolved connected n = (None, [handle_connect_error cb (''Resolve failed: '' @ ec_message resolved)], n + 1)"
  "connected \<noteq> Ok \<Longrightarrow> Connect c cb Ok connected n = (Some (prepared c cb n), [handle_connect_error cb (''Connect failed: '' @ ec_message connected)], n + 1)"
  "Connect c cb Ok Ok n = (Some (Start (SetInitSocket True (prepared c cb n))),
     [Client_Printed (''Connected to '' @ host c @ '':'' @ to_chars_int 10 (uint (port c)))] @ (if on_connected cb then [Client_Connected n] else []), n + 1)"
  using prepared_simps(5) [of c cb n] by (simp_all add: Connect_def generate_session_id_def start_connect_def prepared_def [symmetric])

text \<open>
  \<^verbatim>\<open>Connect\<close> returns a session that satisfies the session invariant and waits for the first header exactly if
  resolving and connecting succeed; otherwise it reports the failure once. A failed connection still returns a session object, which
  was never started and refuses to start.
\<close>

theorem client_connect:
  assumes "Connect c cb resolved connected counter = (r, es, counter')" and "on_failed cb" and "on_connected cb"
  shows "(resolved \<noteq> Ok \<longrightarrow> r = None \<and> es = [Client_Failed 0 (''Resolve failed: '' @ ec_message resolved)])
    \<and> (resolved = Ok \<and> connected \<noteq> Ok \<longrightarrow>
        es = [Client_Failed 0 (''Connect failed: '' @ ec_message connected)]
        \<and> (\<exists>s. r = Some s \<and> session_ok s \<and> pending_read s = None \<and> pending_read (Start s) = None))
    \<and> (resolved = Ok \<and> connected = Ok \<longrightarrow>
        (\<exists>s. r = Some s \<and> session_ok s \<and> session_id s = counter \<and> ready s = on_message cb
           \<and> Client_Connected counter \<in> set es))"
proof (cases "resolved = Ok")
  case True
  then show ?thesis using assms session_ok_prepared session_ok_Start [OF session_ok_prepared(2)]
    by (cases "connected = Ok") (auto simp: Connect_cases Start_prepared handle_connect_error_def)
qed (use assms in \<open>auto simp: Connect_cases handle_connect_error_def\<close>)

theorem client_connect_witness:
  "\<exists>s es n. Connect TCPClientConfig \<lparr>on_message = True, on_connected = True, on_disconnect = True, on_failed = True\<rparr> Ok Ok 7 = (Some s, es, n) \<and> ready s"
proof -
  let ?cb = "\<lparr>on_message = True, on_connected = True, on_disconnect = True, on_failed = True\<rparr>"
  obtain r es n where r: "Connect TCPClientConfig ?cb Ok Ok 7 = (r, es, n)" by (metis prod_cases3)
  show ?thesis using client_connect [OF r] r by auto
qed

section \<open>Connecting asynchronously\<close>

datatype async_phase = Async_Resolving | Async_Connecting | Async_Done

text \<open>\<open>timer_pending\<close>: the timer waits. Its handler is then the only owner of the session, as that of the connect call has a reference to a local pointer.\<close>

record async_connect =
  phase :: async_phase
  timer_pending :: bool
  async_session :: session
  async_events :: "client_event list"

definition ConnectAync :: "client_config \<Rightarrow> u64 \<Rightarrow> async_connect" where
  "ConnectAync c n = \<lparr>phase = Async_Resolving, timer_pending = False, async_session = TCPSession n, async_events = []\<rparr>"

definition start_connect_async :: "client_config \<Rightarrow> client_callbacks \<Rightarrow> async_connect \<Rightarrow> async_connect" where
  "start_connect_async c cb a =
     a\<lparr>phase := Async_Connecting, async_session := init_callbacks c cb (async_session a), timer_pending := 0 < connect_timeout c\<rparr>"

definition on_resolved :: "client_config \<Rightarrow> client_callbacks \<Rightarrow> error_code \<Rightarrow> async_connect \<Rightarrow> async_connect" where
  "on_resolved c cb ec a =
     (if ec \<noteq> Ok then a\<lparr>phase := Async_Done, async_events := async_events a @ [handle_connect_error cb (''Resolve failed: '' @ ec_message ec)]\<rparr>
      else start_connect_async c cb a)"

definition on_connect_timer :: "client_callbacks \<Rightarrow> error_code \<Rightarrow> async_connect \<Rightarrow> async_connect" where
  "on_connect_timer cb ec a =
     (let a1 = a\<lparr>timer_pending := False\<rparr>
      in if ec \<noteq> Ok then a1
         else a1\<lparr>async_session := Stop (async_session a1), async_events := async_events a1 @ [handle_connect_error cb ''Connect timeout'']\<rparr>)"

text \<open>The handler of the connect call: all that it does but for an aborted call is through dangling references.\<close>

definition on_async_connected :: "error_code \<Rightarrow> async_connect \<Rightarrow> async_connect cpp_result" where
  "on_async_connected ec a = (if is_aborted ec then Ret (a\<lparr>phase := Async_Done\<rparr>) else UB)"

datatype async_input = A_Resolved error_code | A_Timer error_code | A_Connected error_code

text \<open>
  \<open>None\<close>: the environment cannot do this now. A connect call is aborted once the session, and with it the socket, is stopped or gone; the timer is aborted only when it is cancelled.
\<close>

definition async_step :: "client_config \<Rightarrow> client_callbacks \<Rightarrow> async_input \<Rightarrow> async_connect \<Rightarrow> async_connect cpp_result option" where
  "async_step c cb i a =
     (case i of
        A_Resolved ec \<Rightarrow> if phase a = Async_Resolving then Some (Ret (on_resolved c cb ec a)) else None
      | A_Timer ec \<Rightarrow>
          if timer_pending a \<and> (ec \<noteq> Ok \<longrightarrow> is_aborted ec \<and> phase a = Async_Done) then Some (Ret (on_connect_timer cb ec a)) else None
      | A_Connected ec \<Rightarrow>
          if phase a = Async_Connecting \<and> (\<not> timer_pending a \<longrightarrow> is_aborted ec) then Some (on_async_connected ec a) else None)"

fun async_run :: "client_config \<Rightarrow> client_callbacks \<Rightarrow> async_input list \<Rightarrow> async_connect \<Rightarrow> async_connect cpp_result option" where
  "async_run c cb [] a = Some (Ret a)"
| "async_run c cb (i # ins) a =
     (case async_step c cb i a of
        None \<Rightarrow> None
      | Some UB \<Rightarrow> Some UB
      | Some (Ret a') \<Rightarrow> async_run c cb ins a')"

definition is_connected_event :: "client_event \<Rightarrow> bool" where
  "is_connected_event e = (case e of Client_Connected _ \<Rightarrow> True | _ \<Rightarrow> False)"

lemma error_not_connected [simp]: "\<not> is_connected_event (handle_connect_error cb m)"
  by (simp add: handle_connect_error_def is_connected_event_def)

definition never_connected :: "async_connect \<Rightarrow> bool" where
  "never_connected a \<longleftrightarrow> \<not> list_ex is_connected_event (async_events a) \<and> \<not> is_started (async_session a)"

lemma never_connected_step: "async_step c cb i a = Some (Ret a') \<Longrightarrow> never_connected a \<Longrightarrow> never_connected a'"
  by (cases i) (auto simp: async_step_def on_resolved_def start_connect_async_def on_connect_timer_def on_async_connected_def never_connected_def
      init_callbacks_def SetCallbacks_def SetTimeouts_def Stop_def Let_def split: if_splits)

text \<open>
  The asynchronous connect never works: in a run that stays defined the client is never told of a connection and the session is never started, and a connect call
  that succeeds is undefined.
\<close>

theorem async_connect_never_works:
  "async_run c cb ins (ConnectAync c n) = Some (Ret a) \<Longrightarrow> never_connected a \<and> async_step c cb (A_Connected Ok) a \<in> {None, Some UB}"
proof -
  have "async_run c cb ins b = Some (Ret a) \<Longrightarrow> never_connected b \<Longrightarrow> never_connected a" for b
    by (induction ins arbitrary: b) (auto dest: never_connected_step split: option.splits cpp_result.splits)
  moreover have "never_connected (ConnectAync c n)" by (simp add: never_connected_def ConnectAync_def TCPSession_def)
  ultimately show "async_run c cb ins (ConnectAync c n) = Some (Ret a) \<Longrightarrow> ?thesis" by (simp add: async_step_def on_async_connected_def)
qed

text \<open>Without a time limit nobody owns the session: the call is aborted, and the client hears nothing at all.\<close>

lemma async_connect_silent:
  assumes "connect_timeout c \<le> 0"
  shows "async_run c cb [A_Resolved Ok, A_Connected (Aborted m)] (ConnectAync c n)
    = Some (Ret \<lparr>phase = Async_Done, timer_pending = False, async_session = init_callbacks c cb (TCPSession n), async_events = []\<rparr>)"
  using assms by (simp add: async_step_def on_resolved_def start_connect_async_def on_async_connected_def ConnectAync_def)

end
