(* ===== verification/Tcp_System.thy ===== *)
theory Tcp_System
  imports Tcp_Server Tcp_Client
begin

text \<open>
  A client and a server together: what the client's session has written to its socket is read by the session that the server keeps for
  the connection, and reaches the user of the server through its message callback.
\<close>

section \<open>Reading on the server\<close>

lemma recv_events:
  assumes "pending_read s = Some (ReadData (length m))" "has_message_callback s"
  shows "events (recv big m s) = events s @ [Message m]"
  using assms by (simp add: recv_def read_done_def on_data_def Let_def async_read_header_def reset_read_timer_def)

text \<open>A completed read of the session \<open>n\<close>, seen from the server.\<close>

definition read_input :: "u64 \<Rightarrow> byte list \<Rightarrow> server_input" where
  "read_input n data = Sv_Session n (In_Read Ok data)"

lemma server_read:
  assumes "objects sv n = Some s" "pending_accept sv \<noteq> Some n" "pending_read s = Some op" "length data = op_size op"
  shows "server_step big (read_input n data) sv = Some (put_session n s (recv big data s) sv)"
  using assms by (simp add: server_step_def read_input_def session_step_def recv_def)

lemma put_session_quiet: "events s' = events s \<Longrightarrow> put_session n s s' sv = sv\<lparr>objects := (objects sv)(n \<mapsto> s')\<rparr>"
  by (simp add: put_session_def)

lemma put_session_message:
  "events s' = events s @ [Message m] \<Longrightarrow> put_session n s s' sv = report [On_Message n m] (sv\<lparr>objects := (objects sv)(n \<mapsto> s')\<rparr>)"
  by (simp add: put_session_def on_session_event_def)

text \<open>One frame: the header, and the payload if there is one.\<close>

lemma server_reads_frame:
  assumes "objects sv n = Some s" "pending_accept sv \<noteq> Some n" "ready s" "length m < 2 ^ 32"
  shows "\<exists>reads sv' s'. server_run big (map (read_input n) reads) sv = Some sv' \<and> concat reads = frame big m
    \<and> objects sv' n = Some s' \<and> ready s' \<and> pending_accept sv' = pending_accept sv
    \<and> log sv' = log sv @ (if m = [] then [] else [On_Message n m])"
proof -
  let ?h = "header_bytes big (length m)" and ?s1 = "recv big (header_bytes big (length m)) s"
  let ?sv1 = "sv\<lparr>objects := (objects sv)(n \<mapsto> ?s1)\<rparr>"
  note h = recv_header_bytes [OF assms(3,4), of big]
  have st1: "server_step big (read_input n ?h) sv = Some ?sv1"
    using server_read [OF assms(1,2), of ReadHeader ?h big] assms(3) put_session_quiet [OF h(3), of n sv] by (simp add: ready_def)
  show ?thesis
  proof (cases "m = []")
    case True
    then show ?thesis using st1 h
      by (intro exI [of _ "[?h]"] exI [of _ ?sv1] exI [of _ ?s1]) (simp add: frame_def ready_def)
  next
    case False
    let ?s2 = "recv big m ?s1"
    let ?sv2 = "report [On_Message n m] (?sv1\<lparr>objects := (objects ?sv1)(n \<mapsto> ?s2)\<rparr>)"
    have p: "pending_read ?s1 = Some (ReadData (length m))" using h(4) False by simp
    have st2: "server_step big (read_input n m) ?sv1 = Some ?sv2"
      using server_read [where sv = ?sv1 and n = n and s = ?s1 and op = "ReadData (length m)" and data = m and big = big] assms(2) p put_session_message [OF recv_events [OF p h(2), of big], of n ?sv1]
      by simp
    have "ready ?s2" using v1.recv_data [OF assms(3) False assms(4)] by blast
    then show ?thesis using st1 st2 False
      by (intro exI [of _ "[?h, m]"] exI [of _ ?sv2] exI [of _ ?s2]) (simp add: frame_def)
  qed
qed

lemma server_run_append: "server_run big (a @ b) sv = (case server_run big a sv of None \<Rightarrow> None | Some sv' \<Rightarrow> server_run big b sv')"
  by (induction a arbitrary: sv) (simp_all split: option.split)

lemma server_reads_frames:
  assumes "objects sv n = Some s" "pending_accept sv \<noteq> Some n" "ready s" "list_all (\<lambda>m. length m < 2 ^ 32) ms"
  shows "\<exists>reads sv'. server_run big (map (read_input n) reads) sv = Some sv' \<and> concat reads = concat (map (frame big) ms)
    \<and> log sv' = log sv @ map (On_Message n) (filter (\<lambda>m. m \<noteq> []) ms)"
  using assms
proof (induction ms arbitrary: sv s)
  case Nil
  then show ?case by (intro exI [of _ "[]"] exI [of _ sv]) simp
next
  case (Cons m ms)
  obtain reads sv1 s1 where 1: "server_run big (map (read_input n) reads) sv = Some sv1" "concat reads = frame big m"
      "objects sv1 n = Some s1" "ready s1" "pending_accept sv1 = pending_accept sv" "log sv1 = log sv @ (if m = [] then [] else [On_Message n m])"
    using server_reads_frame [OF Cons.prems(1-3), of m big] Cons.prems(4) by auto
  obtain reads' sv2 where 2: "server_run big (map (read_input n) reads') sv1 = Some sv2" "concat reads' = concat (map (frame big) ms)"
      "log sv2 = log sv1 @ map (On_Message n) (filter (\<lambda>m. m \<noteq> []) ms)"
    using Cons.IH [OF 1(3) _ 1(4)] 1(5) Cons.prems(2,4) by auto
  show ?case using 1 2 by (intro exI [of _ "reads @ reads'"] exI [of _ sv2]) (simp add: server_run_append)
qed

section \<open>Property\<close>

text \<open>C2. From the client's \<^verbatim>\<open>Send\<close> to the server's \<^verbatim>\<open>on_message\<close>. Let a client connect, send any messages and have any part of
  them written, and let the server list the session of that connection, waiting for a header. Then the session completes its
  reads on exactly the bytes that the client wrote, and the server calls its message callback with exactly the nonempty
  messages among those written, in order.
\<close>

theorem client_to_server:
  assumes "server_run big ins (TCPServer c cb) = Some sv"
    and "n \<in> set (GetSessionIds sv)" and "objects sv n = Some r" and "ready r"
    and "Connect cc ccb Ok Ok k = (Some s, es, k')"
    and "session_run big cins s = Some (acc, wrt, t)" and "list_all (\<lambda>m. length m < 2 ^ 32) acc"
  shows "\<exists>reads sv'. server_run big (map (read_input n) reads) sv = Some sv' \<and> concat reads = concat wrt
    \<and> log sv' = log sv @ map (On_Message n) (filter (\<lambda>m. m \<noteq> []) (take (length wrt) acc))"
proof -
  have ok: "server_ok {} sv" by (rule server_run_new [OF assms(1)])
  have "map_of (sessions sv) n \<noteq> None" using assms(2) by (simp add: GetSessionIds_def map_of_eq_None_iff)
  then have np: "pending_accept sv \<noteq> Some n" using pending_not_registered [OF ok] server_okD(4) [OF ok] by (metis option.exhaust)
  have s: "s = Tcp_Session.Start (SetInitSocket True (prepared cc ccb k))" using assms(5) by (simp add: Connect_cases)
  have "session_ok s" unfolding s by (rule session_ok_Start [OF session_ok_prepared(2)])
  moreover have "write_queue s = []" "posted s = []"
    by (simp_all add: s prepared_def init_callbacks_def SetCallbacks_def SetTimeouts_def TCPSession_def SetInitSocket_def)
  ultimately have "map (frame big) acc = wrt @ write_queue t @ posted t" using session_run_frames [OF _ assms(6)] by simp
  then have wrt: "wrt = map (frame big) (take (length wrt) acc)" by (metis append_eq_conv_conj take_map)
  have "list_all (\<lambda>m. length m < 2 ^ 32) (take (length wrt) acc)" using assms(7) by (auto simp: list_all_iff dest: in_set_takeD)
  then show ?thesis using server_reads_frames [OF assms(3) np assms(4), of "take (length wrt) acc" big] wrt by metis
qed

text \<open>A server with one connection, and a client that has written one of its two messages.\<close>

definition connected_server :: server where
  "connected_server = handle_accept 1 Ok ((Tcp_Server.Start (TCPServer (TCPServerConfig 4) all_callbacks))\<lparr>pending_accept := None\<rparr>)"

definition sample_client :: session where
  "sample_client = Tcp_Session.Start (SetInitSocket True (prepared TCPClientConfig
     \<lparr>on_message = True, on_connected = True, on_disconnect = True, on_failed = True\<rparr> 9))"

theorem client_to_server_witness:
  "\<exists>reads sv'. server_run False (map (read_input 1) reads) connected_server = Some sv'
     \<and> log sv' = log connected_server @ [On_Message 1 [7, 8]]"
proof -
  have run: "server_run False [Sv_Start, Sv_Accept Ok] (TCPServer (TCPServerConfig 4) all_callbacks) = Some connected_server"
    by (simp add: connected_server_def server_step_def server_operations session_operations)
  have reg: "1 \<in> set (GetSessionIds connected_server)" "\<exists>r. objects connected_server 1 = Some r \<and> ready r"
    by (simp_all add: connected_server_def server_operations session_operations ready_def)
  obtain r where r: "objects connected_server 1 = Some r" "ready r" using reg(2) by blast
  obtain es k' where con: "Connect TCPClientConfig \<lparr>on_message = True, on_connected = True, on_disconnect = True, on_failed = True\<rparr> Ok Ok 9
      = (Some sample_client, es, k')"
    by (simp add: Connect_cases sample_client_def)
  obtain t where t: "session_run False [In_Send [7, 8], In_Send [5], In_Posted, In_Write 0 Ok] sample_client = Some ([[7, 8], [5]], [frame False [7, 8]], t)"
    by (simp add: sample_client_def prepared_def init_callbacks_def TCPClientConfig_def SetTimeouts_def session_step_def session_operations)
  show ?thesis using client_to_server [OF run reg(1) r con t] by auto
qed

end
