(* ===== verification/Tcp_Session_V2.thy ===== *)
theory Tcp_Session_V2
  imports Tcp_Framing Cpp_Charconv
begin

text \<open>
  \<^verbatim>\<open>src/breutil/net/tcp/tcp_session_impl_v2.hpp\<close>: the coroutine implementation of \<^verbatim>\<open>TCPSession\<close>. A read loop
  and a write loop run on the strand; the state keeps at which \<^verbatim>\<open>co_await\<close> each is suspended, and an event
  of the environment resumes one of them up to its next suspension. \<^verbatim>\<open>Stop\<close> of another thread falls between
  such resumptions. The timers of this implementation are set and cancelled but never awaited, so no timeout is an event.
\<close>

section \<open>State\<close>

datatype read_pc = R_None | R_Spawned | R_Header | R_Data nat | R_Ended

datatype write_pc = W_None | W_Spawned | W_Wait nat | W_Writing "byte list" | W_Ended

record session =
  session_id :: u64
  is_init_socket :: bool
  is_closed :: bool
  is_started :: bool
  header_reader :: net_header
  has_message_callback :: bool
  has_disconnect_callback :: bool
  has_error_callback :: bool
  write_queue :: "byte list list"
  read_timeout :: int
  write_timeout :: int
  read_loop :: read_pc
  write_loop :: write_pc
  posted :: "byte list list"
  events :: "session_event list"

definition TCPSession :: "u64 \<Rightarrow> session" where
  "TCPSession id0 =
     \<lparr>session_id = id0, is_init_socket = False, is_closed = False, is_started = False, header_reader = NetHeader,
      has_message_callback = False, has_disconnect_callback = False, has_error_callback = False, write_queue = [],
      read_timeout = 30, write_timeout = 30, read_loop = R_None, write_loop = W_None, posted = [], events = []\<rparr>"

definition SetInitSocket :: "bool \<Rightarrow> session \<Rightarrow> session" where
  "SetInitSocket v s = s\<lparr>is_init_socket := v\<rparr>"

definition SetCallbacks :: "bool \<Rightarrow> bool \<Rightarrow> bool \<Rightarrow> session \<Rightarrow> session" where
  "SetCallbacks m d e s = s\<lparr>has_message_callback := m, has_disconnect_callback := d, has_error_callback := e\<rparr>"

definition SetTimeouts :: "int \<Rightarrow> int \<Rightarrow> session \<Rightarrow> session" where
  "SetTimeouts r w s = s\<lparr>read_timeout := r, write_timeout := w\<rparr>"

definition IsClosed :: "session \<Rightarrow> bool" where
  "IsClosed s = is_closed s"

section \<open>Operations\<close>

definition say :: "string \<Rightarrow> session \<Rightarrow> session" where
  "say msg s = s\<lparr>events := events s @ [Printed (''Session '' @ to_chars_int 10 (uint (session_id s)) @ msg)]\<rparr>"

definition handle_error :: "string \<Rightarrow> session \<Rightarrow> session" where
  "handle_error msg s =
     (if has_error_callback s then s\<lparr>events := events s @ [Error (session_id s) msg]\<rparr> else say ('' error: '' @ msg) s)"

definition Stop :: "session \<Rightarrow> session" where
  "Stop s =
     (if is_closed s then s
      else s\<lparr>is_closed := True, is_init_socket := False,
             events := events s @ (if has_disconnect_callback s then [Disconnected (session_id s)] else [])\<rparr>)"

definition Start :: "session \<Rightarrow> session" where
  "Start s =
     (if \<not> is_init_socket s then say '' socket not initialized, cannot start'' s
      else if is_closed s then s
      else if is_started s then s
      else s\<lparr>is_started := True, read_loop := R_Spawned, write_loop := W_Spawned\<rparr>)"

definition Send :: "bool \<Rightarrow> byte list \<Rightarrow> session \<Rightarrow> session" where
  "Send big data s =
     (if is_closed s then say '' is closed, you need keep the session live longer'' s
      else s\<lparr>posted := posted s @ [frame big data]\<rparr>)"

section \<open>The read loop\<close>

text \<open>The head of the loop, up to the read of a header.\<close>

definition read_head :: "session \<Rightarrow> session" where
  "read_head s = s\<lparr>read_loop := (if is_closed s then R_Ended else R_Header)\<rparr>"

text \<open>The catch clause. \<open>what\<close> is the text of the exception that the failed read throws.\<close>

definition read_exception :: "string \<Rightarrow> session \<Rightarrow> session" where
  "read_exception what s =
     (if \<not> is_closed s then Stop (handle_error (''Read exception: '' @ what) s) else s)\<lparr>read_loop := R_Ended\<rparr>"

text \<open>The delivery, and back to the head of the loop.\<close>

definition deliver :: "byte list \<Rightarrow> session \<Rightarrow> session" where
  "deliver data s = read_head (if \<not> is_closed s \<and> has_message_callback s then s\<lparr>events := events s @ [Message data]\<rparr> else s)"

definition header_read :: "bool \<Rightarrow> error_code \<Rightarrow> string \<Rightarrow> byte list \<Rightarrow> session \<Rightarrow> session" where
  "header_read big ec what header_buf s =
     (if ec \<noteq> Ok then read_exception what s
      else if is_closed s then s\<lparr>read_loop := R_Ended\<rparr>
      else
        let (parsed, h) = Parse big (header_reader s) header_buf; s1 = s\<lparr>header_reader := h\<rparr>
        in if \<not> parsed then (Stop (handle_error ''Parse header failed'' s1))\<lparr>read_loop := R_Ended\<rparr>
           else if 0 < unat (FileSize h) then s1\<lparr>read_loop := R_Data (unat (FileSize h))\<rparr>
           else read_head s1)"

definition data_read :: "error_code \<Rightarrow> byte list \<Rightarrow> session \<Rightarrow> session" where
  "data_read ec data_buffer s =
     (if ec \<noteq> Ok \<and> \<not> is_aborted ec then
        (Stop (handle_error (''Read data failed: '' @ ec_message ec) s))\<lparr>read_loop := R_Ended\<rparr>
      else deliver data_buffer s)"

definition read_resume :: "bool \<Rightarrow> error_code \<Rightarrow> string \<Rightarrow> byte list \<Rightarrow> session \<Rightarrow> session" where
  "read_resume big ec what data s =
     (case read_loop s of
        R_Spawned \<Rightarrow> read_head s
      | R_Header \<Rightarrow> header_read big ec what data s
      | R_Data n \<Rightarrow> data_read ec data s
      | _ \<Rightarrow> s)"

section \<open>The write loop\<close>

text \<open>One round of the polling loop, with \<open>retry\<close> the number of rounds before it.\<close>

definition poll_queue :: "nat \<Rightarrow> session \<Rightarrow> session" where
  "poll_queue retry s =
     (case write_queue s of
        [] \<Rightarrow> s\<lparr>write_loop := W_Wait retry\<rparr>
      | write_data # q \<Rightarrow> s\<lparr>write_queue := q, write_loop := W_Writing write_data\<rparr>)"

definition write_head :: "session \<Rightarrow> session" where
  "write_head s = (if is_closed s then s\<lparr>write_loop := W_Ended\<rparr> else poll_queue 0 s)"

text \<open>After ten rounds without data the outer loop starts the next ten.\<close>

definition wait_over :: "nat \<Rightarrow> session \<Rightarrow> session" where
  "wait_over retry s = (if retry + 1 < 10 \<and> \<not> is_closed s then poll_queue (retry + 1) s else write_head s)"

definition write_done :: "error_code \<Rightarrow> session \<Rightarrow> session" where
  "write_done ec s =
     (if ec \<noteq> Ok \<and> \<not> is_aborted ec then
        (Stop (handle_error (''Write failed: '' @ ec_message ec) s))\<lparr>write_loop := W_Ended\<rparr>
      else write_head s)"

definition write_resume :: "error_code \<Rightarrow> session \<Rightarrow> session" where
  "write_resume ec s =
     (case write_loop s of
        W_Spawned \<Rightarrow> write_head s
      | W_Wait retry \<Rightarrow> wait_over retry s
      | W_Writing _ \<Rightarrow> write_done ec s
      | _ \<Rightarrow> s)"

section \<open>The session in its environment\<close>

datatype input =
    In_Start
  | In_Stop
  | In_Send "byte list"
  | In_Posted
  | In_Read error_code string "byte list"
  | In_Write error_code

definition want :: "session \<Rightarrow> nat option" where
  "want s =
     (if is_closed s then None
      else case read_loop s of R_Header \<Rightarrow> Some HeaderSize | R_Data n \<Rightarrow> Some n | _ \<Rightarrow> None)"

definition recv :: "bool \<Rightarrow> byte list \<Rightarrow> session \<Rightarrow> session" where
  "recv big data s = read_resume big Ok [] data s"

text \<open>\<open>None\<close>: the environment cannot do this now.\<close>

definition session_step :: "bool \<Rightarrow> input \<Rightarrow> session \<Rightarrow> session option" where
  "session_step big i s =
     (case i of
        In_Start \<Rightarrow> Some (Start s)
      | In_Stop \<Rightarrow> Some (Stop s)
      | In_Send data \<Rightarrow> Some (Send big data s)
      | In_Posted \<Rightarrow> (case posted s of [] \<Rightarrow> None | b # bs \<Rightarrow> Some (s\<lparr>posted := bs, write_queue := write_queue s @ [b]\<rparr>))
      | In_Read ec what data \<Rightarrow>
          if read_loop s \<in> {R_None, R_Ended} \<or> is_aborted ec \<and> \<not> is_closed s
             \<or> ec = Ok \<and> (case want s of None \<Rightarrow> False | Some n \<Rightarrow> length data \<noteq> n) then None
          else Some (read_resume big ec what data s)
      | In_Write ec \<Rightarrow>
          if write_loop s \<in> {W_None, W_Ended} \<or> is_aborted ec \<and> \<not> is_closed s then None
          else Some (write_resume ec s))"

text \<open>The frame that is being written.\<close>

definition in_flight :: "session \<Rightarrow> byte list list" where
  "in_flight s = (case write_loop s of W_Writing b \<Rightarrow> [b] | _ \<Rightarrow> [])"

definition accepted :: "input \<Rightarrow> session \<Rightarrow> byte list list" where
  "accepted i s = (case i of In_Send data \<Rightarrow> if is_closed s then [] else [data] | _ \<Rightarrow> [])"

definition written :: "input \<Rightarrow> session \<Rightarrow> byte list list" where
  "written i s = (case i of In_Write ec \<Rightarrow> if ec = Ok then in_flight s else [] | _ \<Rightarrow> [])"

fun session_run :: "bool \<Rightarrow> input list \<Rightarrow> session \<Rightarrow> (byte list list \<times> byte list list \<times> session) option" where
  "session_run big [] s = Some ([], [], s)"
| "session_run big (i # ins) s =
     (case session_step big i s of
        None \<Rightarrow> None
      | Some s' \<Rightarrow>
          (case session_run big ins s' of
             None \<Rightarrow> None
           | Some (acc, wrt, t) \<Rightarrow> Some (accepted i s @ acc, written i s @ wrt, t)))"

section \<open>Receiving\<close>

definition messages :: "session \<Rightarrow> byte list list" where
  "messages s = messages_of (events s)"

definition ready :: "session \<Rightarrow> bool" where
  "ready s \<longleftrightarrow> \<not> is_closed s \<and> has_message_callback s \<and> read_loop s = R_Header"

lemma coro_recv_header_bytes:
  assumes "ready s" "n < 2 ^ 32"
  shows "\<not> is_closed (recv big (header_bytes big n) s)" "has_message_callback (recv big (header_bytes big n) s)"
    "events (recv big (header_bytes big n) s) = events s"
    "read_loop (recv big (header_bytes big n) s) = (if n = 0 then R_Header else R_Data n)"
  using assms(1) Parse_header_bytes [OF assms(2), of big "header_reader s"]
  by (simp_all add: recv_def read_resume_def header_read_def ready_def read_head_def Let_def case_prod_beta)

interpretation v2: message_receiver big ready want "recv big" messages for big
proof
  fix s
  assume "ready s"
  then show "want s = Some HeaderSize" by (simp add: ready_def want_def)
next
  fix s
  assume "ready s"
  then show "ready (recv big (header_bytes big 0) s) \<and> messages (recv big (header_bytes big 0) s) = messages s"
    using coro_recv_header_bytes [of s 0 big] by (simp add: ready_def messages_def)
next
  fix s and n :: nat
  assume "ready s" "0 < n" "n < 2 ^ 32"
  then show "want (recv big (header_bytes big n) s) = Some n" using coro_recv_header_bytes [of s n big] by (simp add: want_def)
next
  fix s and m :: "byte list"
  assume "ready s" "m \<noteq> []" "length m < 2 ^ 32"
  note h = coro_recv_header_bytes [OF this(1,3), of big]
  have "recv big m t = deliver m t" if "read_loop t = R_Data n" for n t
    using that by (simp add: recv_def read_resume_def data_read_def)
  then show "ready (recv big m (recv big (header_bytes big (length m)) s))
      \<and> messages (recv big m (recv big (header_bytes big (length m)) s)) = messages s @ [m]"
    using h \<open>m \<noteq> []\<close> by (simp add: deliver_def ready_def read_head_def messages_def messages_of_def)
qed

section \<open>Invariant\<close>

text \<open>
  The loops run exactly while the session is started, and end only when it is closed; the disconnect callback has run exactly
  once if the session is closed.
\<close>

definition session_ok :: "session \<Rightarrow> bool" where
  "session_ok s \<longleftrightarrow>
     (write_loop s = W_None) = (\<not> is_started s) \<and> (read_loop s = R_None) = (\<not> is_started s)
     \<and> (read_loop s = R_Ended \<or> write_loop s = W_Ended \<longrightarrow> is_closed s)
     \<and> (\<forall>r. write_loop s = W_Wait r \<longrightarrow> r < 10)
     \<and> (is_closed s \<longrightarrow> \<not> is_init_socket s)
     \<and> length (filter is_disconnect (events s)) = (if is_closed s \<and> has_disconnect_callback s then 1 else 0)"

lemma coro_session_ok_handle_error: "session_ok s \<Longrightarrow> session_ok (handle_error m s)"
  by (auto simp: session_ok_def handle_error_def say_def is_disconnect_def)

lemma coro_session_ok_Stop: "session_ok s \<Longrightarrow> session_ok (Stop s)"
  by (auto simp: session_ok_def Stop_def is_disconnect_def)

lemma closed_Stop [simp]: "is_closed (Stop s)"
  by (simp add: Stop_def)

lemma started_keeps [simp]: "is_started (Stop s) = is_started s" "is_started (handle_error m s) = is_started s"
  by (simp_all add: Stop_def handle_error_def say_def)

lemma session_ok_end:
  "session_ok s \<Longrightarrow> is_closed s \<Longrightarrow> is_started s \<Longrightarrow> session_ok (s\<lparr>read_loop := R_Ended\<rparr>)"
  "session_ok s \<Longrightarrow> is_closed s \<Longrightarrow> is_started s \<Longrightarrow> session_ok (s\<lparr>write_loop := W_Ended\<rparr>)"
  by (auto simp: session_ok_def)

lemma session_ok_read_head: "session_ok s \<Longrightarrow> is_started s \<Longrightarrow> session_ok (read_head s)"
  by (auto simp: session_ok_def read_head_def)

lemma session_ok_deliver: "session_ok s \<Longrightarrow> is_started s \<Longrightarrow> session_ok (deliver data s)"
  unfolding deliver_def by (rule session_ok_read_head) (auto simp: session_ok_def is_disconnect_def)

lemma session_ok_header_read:
  assumes "session_ok s" "is_started s"
  shows "session_ok (header_read big ec what data s)"
proof -
  have "session_ok (s\<lparr>header_reader := h\<rparr>)" "session_ok (s\<lparr>header_reader := h, read_loop := R_Data n\<rparr>)" for h n
    using assms by (auto simp: session_ok_def)
  then show ?thesis using assms
    by (auto simp: header_read_def read_exception_def Let_def case_prod_beta
        intro!: session_ok_end coro_session_ok_Stop coro_session_ok_handle_error session_ok_read_head)
qed

lemma session_ok_data_read: "session_ok s \<Longrightarrow> is_started s \<Longrightarrow> session_ok (data_read ec data s)"
  by (auto simp: data_read_def intro!: session_ok_end coro_session_ok_Stop coro_session_ok_handle_error session_ok_deliver)

lemma session_ok_poll: "session_ok s \<Longrightarrow> is_started s \<Longrightarrow> r < 10 \<Longrightarrow> session_ok (poll_queue r s)"
  by (auto simp: session_ok_def poll_queue_def split: list.split)

lemma session_ok_write_head: "session_ok s \<Longrightarrow> is_started s \<Longrightarrow> session_ok (write_head s)"
  by (simp add: write_head_def session_ok_poll session_ok_end)

lemma session_ok_write_resume: "session_ok s \<Longrightarrow> is_started s \<Longrightarrow> session_ok (write_resume ec s)"
  by (auto simp: write_resume_def wait_over_def write_done_def session_ok_write_head session_ok_poll
      intro!: session_ok_end coro_session_ok_Stop coro_session_ok_handle_error split: write_pc.split)

lemma coro_session_ok_Start: "session_ok s \<Longrightarrow> session_ok (Start s)"
  by (auto simp: Start_def say_def session_ok_def is_disconnect_def)

lemma coro_session_ok_Send: "session_ok s \<Longrightarrow> session_ok (Send big data s)"
  by (auto simp: Send_def say_def session_ok_def is_disconnect_def)

lemma session_ok_posted: "session_ok s \<Longrightarrow> session_ok (s\<lparr>posted := bs, write_queue := q\<rparr>)"
  by (cases s) (auto simp: session_ok_def)

lemma session_ok_read_resume: "session_ok s \<Longrightarrow> is_started s \<Longrightarrow> session_ok (read_resume big ec what data s)"
  by (simp add: read_resume_def session_ok_read_head session_ok_header_read session_ok_data_read split: read_pc.split)

lemma coro_session_step_ok:
  assumes ok: "session_ok s" and st: "session_step big i s = Some s'"
  shows "session_ok s'"
proof -
  have started: "read_loop s \<noteq> R_None \<or> write_loop s \<noteq> W_None \<Longrightarrow> is_started s" using ok unfolding session_ok_def by blast
  show ?thesis
  proof (cases i)
    case In_Posted
    then obtain b bs where "s' = s\<lparr>posted := bs, write_queue := write_queue s @ [b]\<rparr>"
      using st by (auto simp: session_step_def split: list.splits)
    then show ?thesis using session_ok_posted [OF ok] by simp
  next
    case (In_Read ec what data)
    then have "s' = read_resume big ec what data s" "read_loop s \<noteq> R_None" using st by (auto simp: session_step_def split: if_splits)
    then show ?thesis using session_ok_read_resume [OF ok started] by simp
  next
    case (In_Write ec)
    then have "s' = write_resume ec s" "write_loop s \<noteq> W_None" using st by (auto simp: session_step_def split: if_splits)
    then show ?thesis using session_ok_write_resume [OF ok started] by simp
  qed (use st coro_session_ok_Start [OF ok] coro_session_ok_Stop [OF ok] coro_session_ok_Send [OF ok] in \<open>auto simp: session_step_def\<close>)
qed

section \<open>Sending\<close>

text \<open>The frames that have been accepted and not yet written.\<close>

definition backlog :: "session \<Rightarrow> byte list list" where
  "backlog s = in_flight s @ write_queue s @ posted s"

lemma backlog_simps [simp]:
  "backlog (say m s) = backlog s" "backlog (handle_error m s) = backlog s" "backlog (Stop s) = backlog s"
  "backlog (read_head s) = backlog s" "backlog (s\<lparr>read_loop := r\<rparr>) = backlog s"
  "backlog (s\<lparr>header_reader := h\<rparr>) = backlog s" "backlog (s\<lparr>events := e\<rparr>) = backlog s"
  by (simp_all add: backlog_def in_flight_def say_def handle_error_def Stop_def read_head_def)

lemma backlog_read_resume [simp]: "backlog (read_resume big ec what data s) = backlog s"
  by (simp add: read_resume_def header_read_def read_exception_def data_read_def deliver_def Let_def case_prod_beta split: read_pc.split)

lemma backlog_Start: "session_ok s \<Longrightarrow> backlog (Start s) = backlog s"
  by (auto simp: Start_def backlog_def in_flight_def say_def session_ok_def split: write_pc.splits)

lemma backlog_poll: "in_flight s = [] \<Longrightarrow> backlog (poll_queue r s) = backlog s"
  by (simp add: poll_queue_def backlog_def in_flight_def split: list.splits)

text \<open>A resumption of the write loop writes the frame in flight or leaves the backlog as it is, unless the loop ends.\<close>

lemma backlog_write_resume:
  assumes "write_loop (write_resume ec s) \<noteq> W_Ended" "is_aborted ec \<longrightarrow> is_closed s"
  shows "(if ec = Ok then in_flight s else []) @ backlog (write_resume ec s) = backlog s"
proof (cases "write_loop s")
  case (W_Writing b)
  have "backlog (poll_queue 0 s) = write_queue s @ posted s"
    by (simp add: poll_queue_def backlog_def in_flight_def split: list.split)
  then show ?thesis using assms W_Writing
    by (auto simp: write_resume_def write_done_def write_head_def in_flight_def backlog_def split: if_splits)
qed (use assms in \<open>auto simp: write_resume_def wait_over_def write_head_def in_flight_def backlog_poll split: if_splits\<close>)

lemma coro_session_step_frames:
  assumes "session_ok s" "session_step big i s = Some s'" "write_loop s' \<noteq> W_Ended"
  shows "written i s @ backlog s' = backlog s @ map (frame big) (accepted i s)"
proof (cases i)
  case (In_Write ec)
  then have "s' = write_resume ec s" "is_aborted ec \<longrightarrow> is_closed s" using assms(2) by (auto simp: session_step_def split: if_splits)
  then show ?thesis using backlog_write_resume [of ec s] assms(3) In_Write by (simp add: written_def accepted_def)
next
  case In_Start
  then show ?thesis using assms(2) backlog_Start [OF assms(1)] by (auto simp: session_step_def written_def accepted_def)
next
  case (In_Send data)
  then show ?thesis using assms(2) by (auto simp: session_step_def Send_def written_def accepted_def) (simp add: backlog_def in_flight_def)
next
  case In_Posted
  then show ?thesis using assms(2) by (auto simp: session_step_def written_def accepted_def backlog_def in_flight_def split: list.splits)
qed (use assms(2) in \<open>auto simp: session_step_def written_def accepted_def split: if_splits\<close>)

lemma session_step_ended:
  assumes "session_ok s" "session_step big i s = Some s'" "write_loop s = W_Ended"
  shows "written i s = [] \<and> write_loop s' = W_Ended"
proof -
  have "is_started s" using assms(1,3) unfolding session_ok_def by force
  then show ?thesis using assms(2,3)
    by (cases i) (auto simp: session_step_def written_def Start_def say_def Stop_def Send_def read_resume_def read_head_def header_read_def
        read_exception_def data_read_def deliver_def handle_error_def Let_def case_prod_beta split: list.splits if_splits read_pc.splits)
qed

lemma written_prefix: "\<exists>r. written i s @ r = backlog s"
  by (cases i) (simp_all add: written_def backlog_def)

lemma session_run_Cons:
  assumes "session_ok s" "session_run big (i # ins) s = Some (acc, wrt, t)"
  obtains s' acc' wrt' where "session_step big i s = Some s'" "session_ok s'" "session_run big ins s' = Some (acc', wrt', t)"
    "acc = accepted i s @ acc'" "wrt = written i s @ wrt'"
  using assms coro_session_step_ok [OF assms(1)] by (auto split: option.splits)

lemma session_run_ok: "session_ok s \<Longrightarrow> session_run big ins s = Some (acc, wrt, t) \<Longrightarrow> session_ok t"
proof (induction ins arbitrary: s acc wrt)
  case (Cons i ins)
  from Cons.prems show ?case by (rule session_run_Cons) (rule Cons.IH)
qed simp

lemma session_run_ended:
  "session_ok s \<Longrightarrow> session_run big ins s = Some (acc, wrt, t) \<Longrightarrow> write_loop s = W_Ended \<Longrightarrow> wrt = [] \<and> write_loop t = W_Ended"
proof (induction ins arbitrary: s acc wrt)
  case (Cons i ins)
  from Cons.prems(1,2) show ?case
    by (rule session_run_Cons) (use Cons.IH session_step_ended [OF Cons.prems(1) _ Cons.prems(3)] in auto)
qed simp

lemma session_run_prefix:
  "session_ok s \<Longrightarrow> session_run big ins s = Some (acc, wrt, t) \<Longrightarrow> \<exists>r. wrt @ r = backlog s @ map (frame big) acc"
proof (induction ins arbitrary: s acc wrt)
  case (Cons i ins)
  from Cons.prems obtain s' acc' wrt' where s': "session_step big i s = Some s'" "session_ok s'" "session_run big ins s' = Some (acc', wrt', t)"
    and aw: "acc = accepted i s @ acc'" "wrt = written i s @ wrt'" by (rule session_run_Cons)
  show ?case
  proof (cases "write_loop s' = W_Ended")
    case True
    then have "wrt' = []" using session_run_ended [OF s'(2,3)] by simp
    then show ?thesis using written_prefix [of i s] aw by (metis append.assoc append_Nil2)
  next
    case False
    then show ?thesis using coro_session_step_frames [OF Cons.prems(1) s'(1)] Cons.IH [OF s'(2,3)] aw by (metis append.assoc map_append)
  qed
qed simp

lemma coro_session_run_frames:
  "session_ok s \<Longrightarrow> session_run big ins s = Some (acc, wrt, t) \<Longrightarrow> write_loop t \<noteq> W_Ended \<Longrightarrow>
    wrt @ backlog t = backlog s @ map (frame big) acc"
proof (induction ins arbitrary: s acc wrt)
  case (Cons i ins)
  from Cons.prems(1,2) obtain s' acc' wrt' where s': "session_step big i s = Some s'" "session_ok s'"
      "session_run big ins s' = Some (acc', wrt', t)"
    and aw: "acc = accepted i s @ acc'" "wrt = written i s @ wrt'" by (rule session_run_Cons)
  have "write_loop s' \<noteq> W_Ended" using session_run_ended [OF s'(2,3)] Cons.prems(3) by blast
  then show ?case using coro_session_step_frames [OF Cons.prems(1) s'(1)] Cons.IH [OF s'(2,3) Cons.prems(3)] aw
    by (metis append.assoc map_append)
qed simp

section \<open>Draining\<close>

definition running :: "session \<Rightarrow> bool" where
  "running s \<longleftrightarrow> session_ok s \<and> is_started s \<and> \<not> is_closed s"

text \<open>A resumption of the write loop of a running session takes the next frame of the queue.\<close>

lemma write_resume_running:
  assumes "running s"
  shows "session_step big (In_Write Ok) s = Some (write_resume Ok s)" "running (write_resume Ok s)"
    "in_flight s @ backlog (write_resume Ok s) = backlog s" "posted (write_resume Ok s) = posted s"
    "in_flight (write_resume Ok s) = [] \<longrightarrow> write_queue (write_resume Ok s) = []"
proof -
  have ok: "session_ok s" and st: "is_started s" "\<not> is_closed s" using assms by (simp_all add: running_def)
  have wl: "write_loop s \<noteq> W_None" "write_loop s \<noteq> W_Ended" using ok st unfolding session_ok_def by blast+
  show "session_step big (In_Write Ok) s = Some (write_resume Ok s)" using wl by (simp add: session_step_def)
  have eq: "\<exists>r. write_resume Ok s = poll_queue r s" using wl st
    by (cases "write_loop s") (auto simp: write_resume_def wait_over_def write_done_def write_head_def)
  have ns: "\<not> is_closed (write_resume Ok s)" "is_started (write_resume Ok s)" "posted (write_resume Ok s) = posted s"
    "write_loop (write_resume Ok s) \<noteq> W_Ended" "in_flight (write_resume Ok s) = [] \<longrightarrow> write_queue (write_resume Ok s) = []"
    using eq st by (cases "write_queue s"; auto simp: poll_queue_def in_flight_def)+
  show "running (write_resume Ok s)" using session_ok_write_resume [OF ok st(1)] ns by (simp add: running_def)
  show "posted (write_resume Ok s) = posted s" by (rule ns)
  show "in_flight (write_resume Ok s) = [] \<longrightarrow> write_queue (write_resume Ok s) = []" by (rule ns)
  show "in_flight s @ backlog (write_resume Ok s) = backlog s" using backlog_write_resume [OF ns(4)] by simp
qed

lemma accepted_written_write [simp]: "accepted (In_Write Ok) s = []" "written (In_Write Ok) s = in_flight s"
  "accepted In_Posted s = []" "written In_Posted s = []"
  by (simp_all add: accepted_def written_def)

lemma drain_settled:
  assumes "running s" "posted s = []" "in_flight s = [] \<longrightarrow> write_queue s = []"
  shows "\<exists>k u. session_run big (replicate k (In_Write Ok)) s = Some ([], backlog s, u) \<and> running u \<and> backlog u = []"
  using assms
proof (induction "length (backlog s)" arbitrary: s rule: less_induct)
  case less
  show ?case
  proof (cases "in_flight s = []")
    case True
    then show ?thesis using less.prems by (intro exI [of _ 0] exI [of _ s]) (simp add: backlog_def)
  next
    case False
    note w = write_resume_running [OF less.prems(1)]
    have len: "length (backlog (write_resume Ok s)) < length (backlog s)" using w(3) False by (metis length_append length_greater_0_conv less_add_same_cancel2)
    obtain k u where k: "session_run big (replicate k (In_Write Ok)) (write_resume Ok s) = Some ([], backlog (write_resume Ok s), u)"
        "running u" "backlog u = []"
      using less.hyps [OF len w(2)] w(4,5) less.prems(2) by auto
    then have "session_run big (replicate (Suc k) (In_Write Ok)) s = Some ([], backlog s, u)" using w(1) [of big] w(3) by simp
    then show ?thesis using k by blast
  qed
qed

lemma coro_drain_posted:
  assumes "running s" "posted s = ps"
  shows "\<exists>t. session_run big (replicate (length ps) In_Posted) s = Some ([], [], t) \<and> running t \<and> posted t = [] \<and> backlog t = backlog s"
  using assms
proof (induction ps arbitrary: s)
  case (Cons b bs)
  let ?t = "s\<lparr>posted := bs, write_queue := write_queue s @ [b]\<rparr>"
  have st: "session_step big In_Posted s = Some ?t" using Cons.prems(2) by (simp add: session_step_def)
  have "running ?t" "posted ?t = bs" "backlog ?t = backlog s"
    using Cons.prems session_ok_posted [of s] by (simp_all add: running_def backlog_def in_flight_def)
  then show ?case using Cons.IH [of ?t] st by auto
qed simp

lemma coro_session_run_append:
  "session_run big (a @ b) s = (case session_run big a s of None \<Rightarrow> None | Some (acc, wrt, t) \<Rightarrow>
     (case session_run big b t of None \<Rightarrow> None | Some (acc', wrt', u) \<Rightarrow> Some (acc @ acc', wrt @ wrt', u)))"
  by (induction a arbitrary: s) (auto split: option.splits)

lemma coro_drain_session:
  assumes "running s"
  shows "\<exists>more u. session_run big more s = Some ([], backlog s, u) \<and> running u \<and> backlog u = []"
proof -
  obtain t where t: "session_run big (replicate (length (posted s)) In_Posted) s = Some ([], [], t)" "running t" "posted t = []"
      "backlog t = backlog s"
    using coro_drain_posted [OF assms refl] by blast
  note w = write_resume_running [OF t(2)]
  obtain k u where u: "session_run big (replicate k (In_Write Ok)) (write_resume Ok t) = Some ([], backlog (write_resume Ok t), u)"
      "running u" "backlog u = []"
    using drain_settled [OF w(2), of big] w(4,5) t(3) by auto
  have "session_run big (replicate (length (posted s)) In_Posted @ replicate (Suc k) (In_Write Ok)) s = Some ([], backlog s, u)"
    using t u w(1) [of big] w(3) by (simp add: coro_session_run_append)
  then show ?thesis using u by blast
qed

section \<open>Properties\<close>

definition open_session :: "u64 \<Rightarrow> bool \<Rightarrow> bool \<Rightarrow> bool \<Rightarrow> session" where
  "open_session n m d e = SetInitSocket True (SetCallbacks m d e (TCPSession n))"

lemma open_session_ok: "session_ok (open_session n m d e)" "backlog (open_session n m d e) = []"
  by (simp_all add: open_session_def SetInitSocket_def SetCallbacks_def TCPSession_def session_ok_def backlog_def in_flight_def)

lemma coro_run_open_session:
  assumes "session_run big ins (open_session n m d e) = Some (acc, wrt, t)"
  shows "wrt = map (frame big) (take (length wrt) acc)"
  using session_run_prefix [OF open_session_ok(1) assms] by (metis append_eq_conv_conj append_Nil open_session_ok(2) take_map)

text \<open>C18. The coroutine session too writes the frames of the accepted messages in the order of the calls of
  \<^verbatim>\<open>Send\<close>, none twice and none skipped, and a started session that is not closed writes all of them when its loops are
  resumed, although the write loop only polls its queue.
\<close>

theorem coro_session_send_order:
  assumes "session_run big ins (open_session n m d e) = Some (acc, wrt, t)"
  shows "wrt = map (frame big) (take (length wrt) acc)
    \<and> (is_started t \<and> \<not> is_closed t \<longrightarrow>
        (\<exists>more u. session_run big more t = Some ([], map (frame big) (drop (length wrt) acc), u) \<and> \<not> is_closed u \<and> backlog u = []))"
proof (intro conjI impI)
  show "wrt = map (frame big) (take (length wrt) acc)" by (rule coro_run_open_session [OF assms])
  assume t: "is_started t \<and> \<not> is_closed t"
  have ok: "session_ok t" by (rule session_run_ok [OF open_session_ok(1) assms])
  then have "write_loop t \<noteq> W_Ended" using t unfolding session_ok_def by blast
  then have "wrt @ backlog t = map (frame big) acc" using coro_session_run_frames [OF open_session_ok(1) assms] by (simp add: open_session_ok)
  then have "backlog t = map (frame big) (drop (length wrt) acc)" by (metis append_eq_conv_conj drop_map)
  then show "\<exists>more u. session_run big more t = Some ([], map (frame big) (drop (length wrt) acc), u) \<and> \<not> is_closed u \<and> backlog u = []"
    using coro_drain_session [of t big] ok t by (auto simp: running_def)
qed

definition sample_inputs :: "input list" where
  "sample_inputs = [In_Start, In_Write Ok, In_Send [7, 8], In_Send [], In_Posted, In_Write Ok, In_Write Ok, In_Posted]"

definition sample_session :: session where
  "sample_session = (open_session 1 True True True)\<lparr>is_started := True, write_queue := [frame False []],
     read_loop := R_Spawned, write_loop := W_Wait 0\<rparr>"

lemmas session_operations = Start_def Stop_def Send_def say_def handle_error_def read_resume_def read_head_def deliver_def
  write_resume_def write_head_def wait_over_def write_done_def poll_queue_def in_flight_def accepted_def written_def
  open_session_def SetInitSocket_def SetCallbacks_def TCPSession_def

lemma coro_sample_run:
  "session_run False sample_inputs (open_session 1 True True True) = Some ([[7, 8], []], [frame False [7, 8]], sample_session)"
  by (simp add: sample_inputs_def sample_session_def session_step_def session_operations)

theorem coro_session_send_order_witness:
  "session_run False sample_inputs (open_session 1 True True True) = Some ([[7, 8], []], [frame False [7, 8]], sample_session)
   \<and> (\<exists>more u. session_run False more sample_session = Some ([], [frame False []], u) \<and> backlog u = [])"
proof -
  have "is_started sample_session \<and> \<not> is_closed sample_session" by (simp add: sample_session_def session_operations)
  then show ?thesis using coro_session_send_order [OF coro_sample_run] coro_sample_run by auto
qed

text \<open>C19. Sender, network and receiver of the coroutine implementation: the same delivery as with callbacks.
\<close>

theorem coro_session_delivers:
  assumes "session_run big ins (open_session n m d e) = Some (acc, wrt, t)"
    and "list_all (\<lambda>x. length x < 2 ^ 32) acc"
    and "ready r" and "concat segs = concat wrt"
  shows "\<exists>r'. feed_segments want (recv big) r [] segs = (r', []) \<and> ready r'
     \<and> messages r' = messages r @ filter (\<lambda>x. x \<noteq> []) (take (length wrt) acc)"
proof -
  have wrt: "wrt = map (frame big) (take (length wrt) acc)" by (rule coro_run_open_session [OF assms(1)])
  have "list_all (\<lambda>x. length x < 2 ^ 32) (take (length wrt) acc)"
    using assms(2) by (auto simp: list_all_iff dest: in_set_takeD)
  then show ?thesis using v2.feed_segments_frames [OF assms(3), of "take (length wrt) acc" segs big] wrt assms(4) by metis
qed

theorem coro_session_delivers_witness:
  "\<exists>segs r'. length segs = 2 \<and> feed_segments want (recv False) (read_head (Start (open_session 2 True False False))) [] segs = (r', [])
     \<and> messages r' = [[7, 8]]"
proof -
  let ?segs = "[take 5 (frame False [7, 8]), drop 5 (frame False [7, 8])]"
  let ?r = "read_head (Start (open_session 2 True False False))"
  have "ready ?r" "messages ?r = []" by (simp_all add: ready_def messages_def messages_of_def session_operations)
  moreover have "concat ?segs = concat [frame False [7, 8]]" by simp
  ultimately obtain r' where "feed_segments want (recv False) ?r [] ?segs = (r', [])" "messages r' = [[7, 8]]"
    using coro_session_delivers [OF coro_sample_run, of ?r ?segs] by auto
  then show ?thesis by (intro exI [of _ ?segs] exI [of _ r']) simp
qed

section \<open>Options, and the other forms of \<^verbatim>\<open>Send\<close>\<close>

datatype socket_option = Keep_Alive bool | No_Delay bool | Receive_Buffer int | Send_Buffer int

text \<open>The options that are set on the socket, in order; errors of the calls are dropped.\<close>

definition SetOptions :: "bool \<Rightarrow> bool \<Rightarrow> int \<Rightarrow> session \<Rightarrow> socket_option list" where
  "SetOptions keep_alive no_delay buffer_size s =
     (if is_closed s then []
      else [Keep_Alive keep_alive, No_Delay no_delay] @ (if 0 < buffer_size then [Receive_Buffer buffer_size, Send_Buffer buffer_size] else []))"

definition Send_string :: "bool \<Rightarrow> string \<Rightarrow> session \<Rightarrow> session" where
  "Send_string big data s = Send big (map byte_of_char data) s"

text \<open>A shared pointer is dereferenced unchecked.\<close>

definition Send_shared :: "bool \<Rightarrow> byte list option \<Rightarrow> session \<Rightarrow> session cpp_result" where
  "Send_shared big data s = (case data of None \<Rightarrow> UB | Some d \<Rightarrow> Ret (Send big d s))"

text \<open>The destructor stops the session.\<close>

definition TCPSession_destroy :: "session \<Rightarrow> session" where
  "TCPSession_destroy s = Stop s"

definition generate_session_id :: "u64 \<Rightarrow> u64 \<times> u64" where
  "generate_session_id counter = (counter, counter + 1)"

end
