(* ===== verification/Tcp_Interop.thy ===== *)
theory Tcp_Interop
  imports Tcp_Session Tcp_Session_V2
begin

text \<open>
  The two implementations of \<^verbatim>\<open>TCPSession\<close> on one connection: which of them a program has is chosen by a macro in \<^verbatim>\<open>src/breutil/net/tcp/tcp_session.hpp\<close>, so that the peers of a connection may differ.
  Both senders write the frames of \<open>Tcp_Framing\<close>, and both receivers are instances of \<open>message_receiver\<close>.
\<close>

section \<open>What the senders write\<close>

lemma callback_written:
  assumes "Tcp_Session.session_run big ins (Tcp_Session.open_session n m d e) = Some (acc, wrt, t)"
  shows "wrt = map (frame big) (take (length wrt) acc)"
proof -
  have "map (frame big) acc = wrt @ Tcp_Session.write_queue t @ Tcp_Session.posted t" using run_open_session [OF assms] by blast
  then show ?thesis by (metis append_eq_conv_conj take_map)
qed

lemma coroutine_written:
  "Tcp_Session_V2.session_run big ins (Tcp_Session_V2.open_session n m d e) = Some (acc, wrt, t) \<Longrightarrow> wrt = map (frame big) (take (length wrt) acc)"
  by (rule coro_run_open_session)

lemma short_prefix: "list_all (\<lambda>x. length x < 2 ^ 32) acc \<Longrightarrow> list_all (\<lambda>x. length x < 2 ^ 32) (take n acc)"
  by (auto simp: list_all_iff dest: in_set_takeD)

section \<open>Both directions\<close>

text \<open>C33. A session with callbacks and a session with coroutines understand each other: whatever either of them has been
  made to send, and however the network cuts the two streams, the other one delivers exactly the nonempty messages that
  were written, in order, with nothing left over, and waits for the next header.
\<close>

theorem sessions_interoperate:
  assumes callbacks: "Tcp_Session.session_run big ins1 (Tcp_Session.open_session n1 m1 d1 e1) = Some (acc1, wrt1, t1)"
    and coroutines: "Tcp_Session_V2.session_run big ins2 (Tcp_Session_V2.open_session n2 m2 d2 e2) = Some (acc2, wrt2, t2)"
    and sizes: "list_all (\<lambda>x. length x < 2 ^ 32) acc1" "list_all (\<lambda>x. length x < 2 ^ 32) acc2"
    and receivers: "Tcp_Session.ready r1" "Tcp_Session_V2.ready r2"
    and network: "concat segs1 = concat wrt1" "concat segs2 = concat wrt2"
  shows "(\<exists>r. feed_segments Tcp_Session_V2.want (Tcp_Session_V2.recv big) r2 [] segs1 = (r, []) \<and> Tcp_Session_V2.ready r
      \<and> Tcp_Session_V2.messages r = Tcp_Session_V2.messages r2 @ filter (\<lambda>x. x \<noteq> []) (take (length wrt1) acc1))
    \<and> (\<exists>r. feed_segments Tcp_Session.want (Tcp_Session.recv big) r1 [] segs2 = (r, []) \<and> Tcp_Session.ready r
      \<and> Tcp_Session.messages r = Tcp_Session.messages r1 @ filter (\<lambda>x. x \<noteq> []) (take (length wrt2) acc2))"
proof
  have "concat segs1 = concat (map (frame big) (take (length wrt1) acc1))" using callback_written [OF callbacks] network(1) by simp
  then show "\<exists>r. feed_segments Tcp_Session_V2.want (Tcp_Session_V2.recv big) r2 [] segs1 = (r, []) \<and> Tcp_Session_V2.ready r
      \<and> Tcp_Session_V2.messages r = Tcp_Session_V2.messages r2 @ filter (\<lambda>x. x \<noteq> []) (take (length wrt1) acc1)"
    by (rule v2.feed_segments_frames [OF receivers(2) short_prefix [OF sizes(1)]])
next
  have "concat segs2 = concat (map (frame big) (take (length wrt2) acc2))" using coroutine_written [OF coroutines] network(2) by simp
  then show "\<exists>r. feed_segments Tcp_Session.want (Tcp_Session.recv big) r1 [] segs2 = (r, []) \<and> Tcp_Session.ready r
      \<and> Tcp_Session.messages r = Tcp_Session.messages r1 @ filter (\<lambda>x. x \<noteq> []) (take (length wrt2) acc2)"
    by (rule v1.feed_segments_frames [OF receivers(1) short_prefix [OF sizes(2)]])
qed

text \<open>One message each way, with a stream that is cut inside the header.\<close>

theorem sessions_interoperate_witness:
  "\<exists>segs ra rb. length segs = 2
     \<and> feed_segments Tcp_Session_V2.want (Tcp_Session_V2.recv False) (read_head (Tcp_Session_V2.Start (Tcp_Session_V2.open_session 2 True False False))) [] segs = (ra, [])
     \<and> Tcp_Session_V2.messages ra = [[7, 8]]
     \<and> feed_segments Tcp_Session.want (Tcp_Session.recv False) (Tcp_Session.Start (Tcp_Session.open_session 2 True False False)) [] segs = (rb, [])
     \<and> Tcp_Session.messages rb = [[7, 8]]"
proof -
  let ?segs = "[take 5 (frame False [7, 8]), drop 5 (frame False [7, 8])]"
  let ?ra = "read_head (Tcp_Session_V2.Start (Tcp_Session_V2.open_session 2 True False False))"
  let ?rb = "Tcp_Session.Start (Tcp_Session.open_session 2 True False False)"
  have a: "Tcp_Session_V2.ready ?ra" "Tcp_Session_V2.messages ?ra = []"
    by (simp_all add: Tcp_Session_V2.ready_def Tcp_Session_V2.messages_def messages_of_def Tcp_Session_V2.session_operations)
  have b: "Tcp_Session.ready ?rb" "Tcp_Session.messages ?rb = []"
    by (simp_all add: Tcp_Session.ready_def Tcp_Session.messages_def messages_of_def Tcp_Session.session_operations)
  have l: "list_all (\<lambda>x. length x < 2 ^ 32) [[7, 8], [] :: byte list]" "concat ?segs = concat [frame False [7, 8]]" by simp_all
  from sessions_interoperate [OF sample_run coro_sample_run l(1) l(1) b(1) a(1) l(2) l(2)] a(2) b(2)
  obtain ra rb where "feed_segments Tcp_Session_V2.want (Tcp_Session_V2.recv False) ?ra [] ?segs = (ra, [])" "Tcp_Session_V2.messages ra = [[7, 8]]"
      "feed_segments Tcp_Session.want (Tcp_Session.recv False) ?rb [] ?segs = (rb, [])" "Tcp_Session.messages rb = [[7, 8]]"
    by auto
  then show ?thesis by (intro exI [of _ ?segs] exI [of _ ra] exI [of _ rb]) simp
qed

end
