(* ===== verification/Io_Context_Pool.thy ===== *)
theory Io_Context_Pool
  imports Cpp_Prelude "HOL-Library.Multiset"
begin

text \<open>
  \<^verbatim>\<open>src/breutil/net/asio_io_context_pool.hpp\<close>: the pool of event loops. Of an \<^verbatim>\<open>io_context\<close> the model keeps
  whether it was stopped; \<open>works\<close> tells which loops have a guard that keeps \<^verbatim>\<open>run()\<close> from returning when there is nothing to
  do; \<open>threads\<close> tells which threads still have to be joined. The conversion of the size to the \<^verbatim>\<open>int\<close> member is exact below 2147483648.
\<close>

section \<open>The pool\<close>

record io_pool =
  pool_size :: nat
  stopped :: "bool list"
  works :: "bool list"
  threads :: "bool list"
  next_io_context :: nat

text \<open>\<open>started i\<close>: the thread for context \<open>i\<close> could be created; otherwise the constructor only reports the error.\<close>

definition AsioIOContextPool :: "(nat \<Rightarrow> bool) \<Rightarrow> nat \<Rightarrow> io_pool" where
  "AsioIOContextPool started size0 =
     (let n = (if size0 < 2 then 2 else size0)
      in \<lparr>pool_size = n, stopped = replicate n False, works = map (\<lambda>i. i < size0) [0..<n],
          threads = map (\<lambda>_. True) (filter started [0..<n]), next_io_context = 0\<rparr>)"

definition GetIOContext :: "io_pool \<Rightarrow> nat \<times> io_pool" where
  "GetIOContext p =
     (let n = length (stopped p); context = next_io_context p mod n; next' = next_io_context p + 1
      in (context, p\<lparr>next_io_context := (if n \<le> next' then 0 else next')\<rparr>))"

definition Stop :: "io_pool \<Rightarrow> io_pool" where
  "Stop p = p\<lparr>stopped := map (\<lambda>_. True) (stopped p), threads := map (\<lambda>_. False) (threads p), works := map (\<lambda>_. False) (works p)\<rparr>"

fun GetIOContexts :: "nat \<Rightarrow> io_pool \<Rightarrow> nat list \<times> io_pool" where
  "GetIOContexts 0 p = ([], p)"
| "GetIOContexts (Suc k) p = (let (i, q) = GetIOContext p; (is, r) = GetIOContexts k q in (i # is, r))"

section \<open>Invariant\<close>

definition pool_ok :: "io_pool \<Rightarrow> bool" where
  "pool_ok p \<longleftrightarrow> 2 \<le> pool_size p \<and> length (stopped p) = pool_size p \<and> length (works p) = pool_size p
     \<and> length (threads p) \<le> pool_size p \<and> next_io_context p < pool_size p"

lemma pool_ok_new: "pool_ok (AsioIOContextPool started n)"
proof -
  have "length (filter started [0..<m]) \<le> m" for m using length_filter_le [of started "[0..<m]"] by simp
  then show ?thesis by (simp add: pool_ok_def AsioIOContextPool_def Let_def)
qed

lemma pool_ok_GetIOContext:
  assumes "pool_ok p"
  shows "pool_ok (snd (GetIOContext p))" "fst (GetIOContext p) = next_io_context p"
    "next_io_context (snd (GetIOContext p)) = (next_io_context p + 1) mod pool_size p" "pool_size (snd (GetIOContext p)) = pool_size p"
  using assms by (auto simp: pool_ok_def GetIOContext_def Let_def mod_if)

lemma pool_ok_Stop: "pool_ok p \<Longrightarrow> pool_ok (Stop p)"
  by (simp add: pool_ok_def Stop_def)

lemma GetIOContexts_round:
  "pool_ok p \<Longrightarrow> fst (GetIOContexts k p) = map (\<lambda>j. (next_io_context p + j) mod pool_size p) [0..<k]"
proof (induction k arbitrary: p)
  case (Suc k)
  note g = pool_ok_GetIOContext [OF Suc.prems]
  have "map (\<lambda>j. (next_io_context p + j) mod pool_size p) [0..<Suc k]
      = next_io_context p mod pool_size p # map (\<lambda>j. (next_io_context p + Suc j) mod pool_size p) [0..<k]"
    by (simp add: upt_conv_Cons map_Suc_upt [symmetric] del: upt_Suc)
  then show ?case using Suc.IH [OF g(1)] g Suc.prems
    by (simp add: case_prod_beta Let_def mod_add_left_eq pool_ok_def)
qed simp

lemma rotate_upt: "rotate a [0..<n] = map (\<lambda>j. (a + j) mod n) [0..<n]"
  by (rule nth_equalityI) (simp_all add: nth_rotate)

lemma mset_rotated: "mset (rotate a xs) = mset xs"
proof -
  have "mset (drop k xs) + mset (take k xs) = mset xs" for k
    by (metis append_take_drop_id mset_append union_commute)
  then show ?thesis by (simp add: rotate_drop_take)
qed

section \<open>Properties\<close>

text \<open>C21. The pool hands out its event loops round robin: the index is always in range, and any
  \<open>pool_size\<close> consecutive calls return every loop exactly once.
\<close>

theorem pool_round_robin:
  assumes "pool_ok p"
  shows "list_all (\<lambda>i. i < pool_size p) (fst (GetIOContexts k p))
    \<and> mset (fst (GetIOContexts (pool_size p) p)) = mset [0..<pool_size p]"
  using assms GetIOContexts_round [OF assms] mset_rotated [of "next_io_context p" "[0..<pool_size p]"]
  by (auto simp: list_all_iff rotate_upt pool_ok_def)

theorem pool_round_robin_witness:
  "list_all (\<lambda>i. i < 3) (fst (GetIOContexts 5 (AsioIOContextPool (\<lambda>_. True) 3))) 
   \<and> mset (fst (GetIOContexts 3 (AsioIOContextPool (\<lambda>_. True) 3))) = {#0, 1, 2#}"
proof -
  have "pool_size (AsioIOContextPool (\<lambda>_. True) 3) = 3" by (simp add: AsioIOContextPool_def)
  moreover have "[0..<3] = [0, 1, 2 :: nat]" by (simp add: upt_rec)
  ultimately show ?thesis using pool_round_robin [OF pool_ok_new [of "\<lambda>_. True" 3], of 5] by simp
qed

text \<open>
  A loop has a work guard exactly if its index is below the requested size: on a machine that reports
  fewer than two hardware threads the pool has two loops, and at least one of them runs out of work and returns at once.
\<close>

theorem pool_unguarded_loop:
  "i < pool_size (AsioIOContextPool started n) \<Longrightarrow> works (AsioIOContextPool started n) ! i = (i < n)"
  by (simp add: AsioIOContextPool_def Let_def split: if_splits)

theorem pool_unguarded_loop_witness: "\<not> works (AsioIOContextPool (\<lambda>_. True) 1) ! 1"
  using pool_unguarded_loop [of 1 "\<lambda>_. True" 1] by (simp add: AsioIOContextPool_def)

section \<open>Destruction\<close>

text \<open>The pool and what is written.\<close>

definition AsioIOContextPool_destroy :: "io_pool \<Rightarrow> io_pool \<times> string" where
  "AsioIOContextPool_destroy p = (Stop p, ''AsioIOContextPool destruct'' @ [CHR 0x0A])"

end
