(* ===== verification/Signal_Manager.thy ===== *)
theory Signal_Manager
  imports Cpp_Prelude
begin

text \<open>
  \<^verbatim>\<open>src/breutil/os/signal.hpp\<close>: the registry of signal handlers. The two hash maps are partial functions, since nothing
  depends on their iteration order but the order in which the callbacks of one signal run. Of the operating system the
  state keeps the blocked signals and the dispositions, and of the background thread the set it waits for. The second part
  is the protocol between a caller that restarts the thread and the thread itself, as a step relation.
\<close>

section \<open>Signals\<close>

datatype signal = SIGINT | SIGTERM | SIGKILL | SIGHUP | SIGQUIT | SIGUSR1 | SIGUSR2 | SIGPIPE | SIGALRM | SIGCHLD

definition SignalName :: "signal \<Rightarrow> string" where
  "SignalName sig =
     (case sig of SIGINT \<Rightarrow> ''INT'' | SIGTERM \<Rightarrow> ''TERM'' | SIGKILL \<Rightarrow> ''KILL'' | SIGHUP \<Rightarrow> ''HUP'' | SIGQUIT \<Rightarrow> ''QUIT''
      | SIGUSR1 \<Rightarrow> ''USR1'' | SIGUSR2 \<Rightarrow> ''USR2'' | SIGPIPE \<Rightarrow> ''PIPE'' | SIGALRM \<Rightarrow> ''ALRM'' | SIGCHLD \<Rightarrow> ''CHLD'')"

lemma SignalName_inj: "inj SignalName"
  by (rule injI) (auto simp: SignalName_def split: signal.splits)

text \<open>The numbers that a thread can wait for: the signals above, and the real-time signal that wakes the thread.\<close>

datatype signo = Sig signal | Wakeup

datatype disposition = Default | Ignored

section \<open>State\<close>

record handler_info =
  callback :: nat
  signals :: "signal list"

record signal_manager =
  handlers :: "int \<Rightarrow> handler_info option"
  sigToHandlers :: "signal \<Rightarrow> int set option"
  nextId :: int
  blocked :: "signo set"
  dispositions :: "signal \<Rightarrow> disposition"
  thread :: "signo set option"

definition SignalManager :: signal_manager where
  "SignalManager = \<lparr>handlers = (\<lambda>_. None), sigToHandlers = (\<lambda>_. None), nextId = 1, blocked = {}, dispositions = (\<lambda>_. Default), thread = None\<rparr>"

text \<open>The set of a signal, empty when there is no entry.\<close>

definition ids_of :: "(signal \<Rightarrow> int set option) \<Rightarrow> signal \<Rightarrow> int set" where
  "ids_of s2h sig = (case s2h sig of None \<Rightarrow> {} | Some ids \<Rightarrow> ids)"

lemma ids_of_upd [simp]:
  "ids_of (s2h(sig \<mapsto> x)) k = (if k = sig then x else ids_of s2h k)"
  "ids_of (s2h(sig := None)) k = (if k = sig then {} else ids_of s2h k)"
  "ids_of (\<lambda>_. None) k = {}"
  by (simp_all add: ids_of_def)

section \<open>Operations\<close>

definition activeSignals :: "signal_manager \<Rightarrow> signo set" where
  "activeSignals m = insert Wakeup (Sig ` dom (sigToHandlers m))"

definition restartThreadLocked :: "signo set \<Rightarrow> signal_manager \<Rightarrow> signal_manager" where
  "restartThreadLocked active m = m\<lparr>thread := (if active = {} then None else Some active)\<rparr>"

definition reconfigureLocked :: "signal_manager \<Rightarrow> signal_manager" where
  "reconfigureLocked m = restartThreadLocked (activeSignals m) (m\<lparr>blocked := blocked m \<union> activeSignals m\<rparr>)"

fun insert_handler :: "int \<Rightarrow> signal list \<Rightarrow> (signal \<Rightarrow> int set option) \<Rightarrow> (signal \<Rightarrow> int set option)" where
  "insert_handler hid [] s2h = s2h"
| "insert_handler hid (sig # sigs) s2h =
     insert_handler hid sigs (s2h(sig \<mapsto> insert hid (ids_of s2h sig)))"

text \<open>\<open>None\<close>: the exception for an empty function object.\<close>

definition notify :: "nat option \<Rightarrow> signal list \<Rightarrow> signal_manager \<Rightarrow> (int \<times> signal_manager) option" where
  "notify handler sigs m =
     (case handler of
        None \<Rightarrow> None
      | Some cb \<Rightarrow>
          let hid = nextId m
          in Some (hid, reconfigureLocked (m\<lparr>nextId := hid + 1, handlers := (handlers m)(hid \<mapsto> \<lparr>callback = cb, signals = sigs\<rparr>),
                                           sigToHandlers := insert_handler hid sigs (sigToHandlers m)\<rparr>)))"

fun erase_handler :: "int \<Rightarrow> signal list \<Rightarrow> (signal \<Rightarrow> int set option) \<Rightarrow> (signal \<Rightarrow> int set option)" where
  "erase_handler hid [] s2h = s2h"
| "erase_handler hid (sig # sigs) s2h =
     (let ids = ids_of s2h sig - {hid}
      in erase_handler hid sigs (s2h(sig := if ids = {} then None else Some ids)))"

definition stop :: "int \<Rightarrow> signal_manager \<Rightarrow> signal_manager" where
  "stop hid m =
     (case handlers m hid of
        None \<Rightarrow> m
      | Some h \<Rightarrow> reconfigureLocked (m\<lparr>sigToHandlers := erase_handler hid (signals h) (sigToHandlers m), handlers := (handlers m)(hid := None)\<rparr>))"

definition stopAll :: "signal_manager \<Rightarrow> signal_manager" where
  "stopAll m = reconfigureLocked (m\<lparr>handlers := (\<lambda>_. None), sigToHandlers := (\<lambda>_. None)\<rparr>)"

text \<open>The loop that \<^verbatim>\<open>reset\<close> and \<^verbatim>\<open>ignore\<close> share; the handlers of the signal forget it.\<close>

definition forget_signal :: "signal \<Rightarrow> signal_manager \<Rightarrow> signal_manager" where
  "forget_signal sig m =
     (case sigToHandlers m sig of
        None \<Rightarrow> m
      | Some ids \<Rightarrow>
          m\<lparr>handlers := (\<lambda>hid. if hid \<in> ids then Some (case handlers m hid of
                 Some h \<Rightarrow> h\<lparr>signals := filter (\<lambda>x. x \<noteq> sig) (signals h)\<rparr>
               | None \<Rightarrow> \<lparr>callback = 0, signals = []\<rparr>) else handlers m hid),
            sigToHandlers := (sigToHandlers m)(sig := None)\<rparr>)"

definition dispose_signal :: "disposition \<Rightarrow> signal \<Rightarrow> signal_manager \<Rightarrow> signal_manager" where
  "dispose_signal d sig m =
     (let m1 = forget_signal sig m in m1\<lparr>dispositions := (dispositions m1)(sig := d), blocked := blocked m1 - {Sig sig}\<rparr>)"

definition reset :: "signal list \<Rightarrow> signal_manager \<Rightarrow> signal_manager" where
  "reset sigs m = reconfigureLocked (fold (dispose_signal Default) sigs m)"

definition ignore :: "signal list \<Rightarrow> signal_manager \<Rightarrow> signal_manager" where
  "ignore sigs m = reconfigureLocked (fold (dispose_signal Ignored) sigs m)"

text \<open>The handlers that the thread calls for a signal, as identifiers with their callbacks.\<close>

definition dispatch :: "signal \<Rightarrow> signal_manager \<Rightarrow> (int \<times> nat) set" where
  "dispatch sig m =
     (if (case thread m of None \<Rightarrow> True | Some active \<Rightarrow> Sig sig \<notin> active) then {}
      else {(hid, callback h) | hid h. hid \<in> ids_of (sigToHandlers m) sig \<and> handlers m hid = Some h})"

section \<open>Invariant\<close>

text \<open>The two maps agree, no entry is empty, identifiers are fresh, and the thread waits for what is registered, all of it blocked.\<close>

definition manager_ok :: "signal_manager \<Rightarrow> bool" where
  "manager_ok m \<longleftrightarrow>
     (\<forall>sig. ids_of (sigToHandlers m) sig = {hid. \<exists>h. handlers m hid = Some h \<and> sig \<in> set (signals h)})
     \<and> (\<forall>sig. sigToHandlers m sig \<noteq> Some {})
     \<and> (\<forall>hid h. handlers m hid = Some h \<longrightarrow> hid < nextId m)"

definition configured :: "signal_manager \<Rightarrow> bool" where
  "configured m \<longleftrightarrow> thread m = Some (activeSignals m) \<and> activeSignals m \<subseteq> blocked m"

lemma reconfigure_keeps [simp]:
  "handlers (reconfigureLocked m) = handlers m" "sigToHandlers (reconfigureLocked m) = sigToHandlers m" "nextId (reconfigureLocked m) = nextId m"
  "activeSignals (reconfigureLocked m) = activeSignals m"
  "manager_ok (reconfigureLocked m) = manager_ok m" "configured (reconfigureLocked m)"
  by (auto simp: reconfigureLocked_def restartThreadLocked_def manager_ok_def configured_def activeSignals_def)

lemma insert_handler_ids:
  "ids_of (insert_handler hid sigs s2h) sig = (if sig \<in> set sigs then insert hid (ids_of s2h sig) else ids_of s2h sig)"
  by (induction sigs arbitrary: s2h) simp_all

lemma insert_handler_nonempty: "(\<forall>sig. s2h sig \<noteq> Some {}) \<Longrightarrow> insert_handler hid sigs s2h sig \<noteq> Some {}"
  by (induction hid sigs s2h rule: insert_handler.induct) auto

lemma erase_handler_ids: "ids_of (erase_handler hid sigs s2h) sig = (if sig \<in> set sigs then ids_of s2h sig - {hid} else ids_of s2h sig)"
  by (induction sigs arbitrary: s2h) (simp_all add: Let_def)

lemma erase_handler_nonempty: "(\<forall>sig. s2h sig \<noteq> Some {}) \<Longrightarrow> erase_handler hid sigs s2h sig \<noteq> Some {}"
  by (induction hid sigs s2h rule: erase_handler.induct) (auto simp: Let_def)

lemma manager_ok_new: "manager_ok SignalManager"
  by (simp add: manager_ok_def SignalManager_def)

lemma manager_ok_notify:
  assumes ok: "manager_ok m" and n: "notify cb sigs m = Some (hid, m')"
  shows "manager_ok m'"
proof -
  obtain c where m': "m' = reconfigureLocked (m\<lparr>nextId := nextId m + 1, handlers := (handlers m)(nextId m \<mapsto> \<lparr>callback = c, signals = sigs\<rparr>),
      sigToHandlers := insert_handler (nextId m) sigs (sigToHandlers m)\<rparr>)"
    using n by (auto simp: notify_def Let_def split: option.splits)
  have fresh: "handlers m (nextId m) = None" using ok by (cases "handlers m (nextId m)") (auto simp: manager_ok_def)
  have "insert_handler (nextId m) sigs (sigToHandlers m) sig \<noteq> Some {}" for sig
    by (rule insert_handler_nonempty) (use ok in \<open>auto simp: manager_ok_def\<close>)
  then show ?thesis using ok fresh unfolding m' reconfigure_keeps
    by (auto simp: manager_ok_def insert_handler_ids split: if_splits)
qed

lemma manager_ok_stop:
  assumes ok: "manager_ok m"
  shows "manager_ok (stop hid m)"
proof (cases "handlers m hid")
  case (Some h)
  have "erase_handler hid (signals h) (sigToHandlers m) sig \<noteq> Some {}" for sig
    by (rule erase_handler_nonempty) (use ok in \<open>auto simp: manager_ok_def\<close>)
  then show ?thesis using ok Some by (auto simp: stop_def manager_ok_def erase_handler_ids split: if_splits)
qed (simp add: stop_def ok)

lemma manager_ok_stopAll: "manager_ok (stopAll m)"
  by (simp add: stopAll_def manager_ok_def)

lemma forget_signal_ok:
  assumes "manager_ok m"
  shows "manager_ok (forget_signal sig m)" "sigToHandlers (forget_signal sig m) = (sigToHandlers m)(sig := None)"
proof -
  show "sigToHandlers (forget_signal sig m) = (sigToHandlers m)(sig := None)" by (auto simp: forget_signal_def split: option.split)
  have ids: "hid \<in> ids_of (sigToHandlers m) s \<longleftrightarrow> (\<exists>h. handlers m hid = Some h \<and> s \<in> set (signals h))" for hid s
    using assms by (auto simp: manager_ok_def)
  show "manager_ok (forget_signal sig m)"
  proof (cases "sigToHandlers m sig")
    case None
    then show ?thesis using assms by (simp add: forget_signal_def)
  next
    case (Some S)
    have S: "hid \<in> S \<longleftrightarrow> (\<exists>h. handlers m hid = Some h \<and> sig \<in> set (signals h))" for hid using ids [of hid sig] Some by (simp add: ids_of_def)
    have "\<And>hid h. handlers m hid = Some h \<Longrightarrow> hid < nextId m" "\<And>s. sigToHandlers m s \<noteq> Some {}" using assms by (auto simp: manager_ok_def)
    then show ?thesis using Some S ids
      by (auto simp: manager_ok_def forget_signal_def set_eq_iff split: option.splits if_splits)
  qed
qed

lemma dispose_signals_ok:
  "manager_ok m \<Longrightarrow> manager_ok (fold (dispose_signal d) sigs m)
     \<and> sigToHandlers (fold (dispose_signal d) sigs m) = (\<lambda>s. if s \<in> set sigs then None else sigToHandlers m s)"
proof (induction sigs arbitrary: m)
  case (Cons sig sigs)
  have "manager_ok (dispose_signal d sig m)" "sigToHandlers (dispose_signal d sig m) = (sigToHandlers m)(sig := None)"
    using forget_signal_ok [OF Cons.prems, of sig] by (simp_all add: dispose_signal_def Let_def manager_ok_def)
  then show ?case using Cons.IH by auto
qed simp

lemma manager_ok_reset: "manager_ok m \<Longrightarrow> manager_ok (reset sigs m)" "manager_ok m \<Longrightarrow> manager_ok (ignore sigs m)"
  by (simp_all add: reset_def ignore_def dispose_signals_ok)

section \<open>Abstract registry\<close>

text \<open>What the class promises: a table of registrations, each with its callback and its set of signals.\<close>

type_synonym registry = "int \<times> (int \<Rightarrow> (nat \<times> signal set) option)"

datatype manager_request = Op_Notify nat "signal list" | Op_Stop int | Op_StopAll | Op_Reset "signal list" | Op_Ignore "signal list"

fun manager_op :: "manager_request \<Rightarrow> signal_manager \<Rightarrow> signal_manager" where
  "manager_op (Op_Notify cb sigs) m = (case notify (Some cb) sigs m of Some (_, m') \<Rightarrow> m' | None \<Rightarrow> m)"
| "manager_op (Op_Stop hid) m = stop hid m"
| "manager_op Op_StopAll m = stopAll m"
| "manager_op (Op_Reset sigs) m = reset sigs m"
| "manager_op (Op_Ignore sigs) m = ignore sigs m"

fun registry_op :: "manager_request \<Rightarrow> registry \<Rightarrow> registry" where
  "registry_op (Op_Notify cb sigs) (n, R) = (n + 1, R(n \<mapsto> (cb, set sigs)))"
| "registry_op (Op_Stop hid) (n, R) = (n, R(hid := None))"
| "registry_op Op_StopAll (n, R) = (n, \<lambda>_. None)"
| "registry_op (Op_Reset sigs) (n, R) = (n, \<lambda>hid. map_option (\<lambda>(cb, S). (cb, S - set sigs)) (R hid))"
| "registry_op (Op_Ignore sigs) (n, R) = (n, \<lambda>hid. map_option (\<lambda>(cb, S). (cb, S - set sigs)) (R hid))"

definition registry_of :: "signal_manager \<Rightarrow> registry" where
  "registry_of m = (nextId m, \<lambda>hid. map_option (\<lambda>h. (callback h, set (signals h))) (handlers m hid))"

definition registry_dispatch :: "signal \<Rightarrow> registry \<Rightarrow> (int \<times> nat) set" where
  "registry_dispatch sig R = {(hid, cb) | hid cb S. snd R hid = Some (cb, S) \<and> sig \<in> S}"

lemma registry_reconfigure [simp]: "registry_of (reconfigureLocked m) = registry_of m"
  by (simp add: registry_of_def)

lemma registry_forget:
  assumes "manager_ok m"
  shows "snd (registry_of (forget_signal sig m)) = (\<lambda>hid. map_option (\<lambda>(cb, S). (cb, S - {sig})) (snd (registry_of m) hid))"
    and "nextId (forget_signal sig m) = nextId m"
proof -
  show "nextId (forget_signal sig m) = nextId m" by (simp add: forget_signal_def split: option.split)
  have "hid \<in> ids_of (sigToHandlers m) sig \<longleftrightarrow> (\<exists>h. handlers m hid = Some h \<and> sig \<in> set (signals h))" for hid
    using assms by (auto simp: manager_ok_def)
  then show "snd (registry_of (forget_signal sig m)) = (\<lambda>hid. map_option (\<lambda>(cb, S). (cb, S - {sig})) (snd (registry_of m) hid))"
    by (intro ext, cases "sigToHandlers m sig")
      (auto simp: registry_of_def forget_signal_def ids_of_def split: option.splits intro!: option.map_cong simp: option.map_comp)
qed

lemma registry_dispose:
  "manager_ok m \<Longrightarrow> registry_of (fold (dispose_signal d) sigs m)
     = (nextId m, \<lambda>hid. map_option (\<lambda>(cb, S). (cb, S - set sigs)) (snd (registry_of m) hid))"
proof (induction sigs arbitrary: m)
  case Nil
  show ?case by (simp add: registry_of_def fun_eq_iff option.map_comp o_def case_prod_beta option.map_ident)
next
  case (Cons sig sigs)
  let ?m = "dispose_signal d sig m"
  note F = registry_forget [OF Cons.prems, of sig]
  have "manager_ok ?m" using forget_signal_ok(1) [OF Cons.prems, of sig] by (simp add: dispose_signal_def Let_def manager_ok_def)
  moreover have "nextId ?m = nextId m" "registry_of ?m = registry_of (forget_signal sig m)"
    using F(2) by (simp_all add: dispose_signal_def Let_def registry_of_def)
  ultimately have "registry_of (fold (dispose_signal d) sigs ?m)
      = (nextId m, \<lambda>hid. map_option (\<lambda>(cb, S). (cb, S - set sigs)) (map_option (\<lambda>(cb, S). (cb, S - {sig})) (snd (registry_of m) hid)))"
    using Cons.IH [of ?m] F(1) by simp
  also have "\<dots> = (nextId m, \<lambda>hid. map_option (\<lambda>(cb, S). (cb, S - set (sig # sigs))) (snd (registry_of m) hid))"
    by (auto simp: fun_eq_iff option.map_comp intro!: option.map_cong)
  finally show ?case by simp
qed

lemma manager_op_refines:
  assumes "manager_ok m"
  shows "registry_of (manager_op op m) = registry_op op (registry_of m)"
proof (cases op)
  case (Op_Stop hid)
  then show ?thesis by (auto simp: stop_def registry_of_def fun_eq_iff split: option.split)
qed (use registry_dispose [OF assms] in \<open>auto simp: registry_of_def notify_def Let_def stopAll_def reset_def ignore_def fun_eq_iff\<close>)

lemma manager_op_ok: "manager_ok m \<Longrightarrow> manager_ok (manager_op op m)"
  by (cases op) (auto simp: manager_ok_stop manager_ok_stopAll manager_ok_reset dest: manager_ok_notify split: option.split)

text \<open>Before the first registration there is no thread, and nothing to dispatch.\<close>

definition dispatching :: "signal_manager \<Rightarrow> bool" where
  "dispatching m \<longleftrightarrow> configured m \<or> sigToHandlers m = (\<lambda>_. None)"

lemma manager_op_dispatching: "dispatching m \<Longrightarrow> dispatching (manager_op op m)"
  by (cases op) (auto simp: dispatching_def notify_def Let_def stop_def stopAll_def reset_def ignore_def split: option.split)

lemma dispatch_registry:
  assumes "manager_ok m" "dispatching m"
  shows "dispatch sig m = registry_dispatch sig (registry_of m)"
proof -
  have ids: "hid \<in> ids_of (sigToHandlers m) sig \<longleftrightarrow> (\<exists>h. handlers m hid = Some h \<and> sig \<in> set (signals h))" for hid
    using assms(1) by (auto simp: manager_ok_def)
  have "dispatch sig m = {(hid, callback h) | hid h. hid \<in> ids_of (sigToHandlers m) sig \<and> handlers m hid = Some h}"
  proof (cases "thread m = Some (activeSignals m)")
    case True
    then show ?thesis by (cases "sigToHandlers m sig") (auto simp: dispatch_def activeSignals_def ids_of_def)
  next
    case False
    then have "ids_of (sigToHandlers m) sig = {}" using assms(2) by (auto simp: dispatching_def configured_def ids_of_def)
    then show ?thesis by (simp add: dispatch_def)
  qed
  also have "\<dots> = registry_dispatch sig (registry_of m)" using ids by (auto simp: registry_dispatch_def registry_of_def)
  finally show ?thesis .
qed

lemma manager_run:
  "manager_ok m \<Longrightarrow> dispatching m \<Longrightarrow> manager_ok (fold manager_op ops m) \<and> dispatching (fold manager_op ops m)
     \<and> registry_of (fold manager_op ops m) = fold registry_op ops (registry_of m)"
  by (induction ops arbitrary: m) (simp_all add: manager_op_ok manager_op_dispatching manager_op_refines)

section \<open>Restarting the thread\<close>

text \<open>
  The thread waits in \<^verbatim>\<open>sigwait\<close>, is about to take the mutex for a signal it received, or runs the callbacks; a caller
  that reconfigures holds the mutex, sets the stop flag, sends the wake-up signal and joins.
\<close>

datatype thread_pc = T_Wait | T_Lock | T_Call | T_Exited

record protocol =
  pc :: thread_pc
  joining :: bool
  stopFlag :: bool
  wakeup :: bool

definition thread_started :: protocol where
  "thread_started = \<lparr>pc = T_Wait, joining = False, stopFlag = False, wakeup = False\<rparr>"

inductive protocol_step :: "protocol \<Rightarrow> protocol \<Rightarrow> bool" where
  deliver: "pc s = T_Wait \<Longrightarrow> protocol_step s (s\<lparr>pc := T_Lock\<rparr>)"
| lock: "pc s = T_Lock \<Longrightarrow> \<not> joining s \<Longrightarrow> protocol_step s (s\<lparr>pc := T_Call\<rparr>)"
| call: "pc s = T_Call \<Longrightarrow> protocol_step s (s\<lparr>pc := (if stopFlag s then T_Exited else T_Wait)\<rparr>)"
| restart: "\<not> joining s \<Longrightarrow> protocol_step s (s\<lparr>joining := True, stopFlag := True, wakeup := True\<rparr>)"
| wake: "pc s = T_Wait \<Longrightarrow> wakeup s \<Longrightarrow> protocol_step s (s\<lparr>pc := (if stopFlag s then T_Exited else T_Wait), wakeup := False\<rparr>)"
| joined: "pc s = T_Exited \<Longrightarrow> joining s \<Longrightarrow> protocol_step s thread_started"

inductive_simps protocol_step_iff: "protocol_step s t"

text \<open>A restart that finds the thread waiting or in a callback completes.\<close>

lemma restart_completes:
  assumes "pc s = T_Wait \<or> pc s = T_Call" "joining s" "stopFlag s" "wakeup s"
  shows "protocol_step\<^sup>*\<^sup>* s thread_started"
proof -
  obtain t where t: "protocol_step s t" "pc t = T_Exited" "joining t"
    using assms protocol_step.wake [of s] protocol_step.call [of s] by (auto intro: that)
  show ?thesis using t protocol_step.joined [of t] by (meson rtranclp.rtrancl_into_rtrancl r_into_rtranclp)
qed

lemma restart_deadlock:
  assumes "joining s" "pc s = T_Lock"
  shows "\<not> protocol_step s t"
  using assms by (simp add: protocol_step_iff)

section \<open>Properties\<close>

text \<open>C14. Whatever handlers are registered, stopped, reset and ignored, a signal is dispatched to exactly the
  handlers whose registration still contains it: the manager with its two maps and its thread refines the table of registrations.
\<close>

theorem signal_dispatch_refines:
  "dispatch sig (fold manager_op ops SignalManager) = registry_dispatch sig (fold registry_op ops (1, \<lambda>_. None))"
proof -
  have "registry_of SignalManager = (1, \<lambda>_. None)" by (simp add: registry_of_def SignalManager_def)
  moreover have "dispatching SignalManager" by (simp add: dispatching_def SignalManager_def)
  ultimately show ?thesis using manager_run [OF manager_ok_new, of ops] dispatch_registry by simp
qed

text \<open>A restart joins the thread while it holds the mutex that the thread takes to dispatch. If the thread
  has already received a signal, neither can continue.
\<close>

theorem signal_restart_deadlock:
  "\<exists>s. protocol_step\<^sup>*\<^sup>* thread_started s \<and> joining s \<and> pc s = T_Lock \<and> (\<nexists>t. protocol_step s t)"
proof -
  let ?s = "\<lparr>pc = T_Lock, joining = False, stopFlag = False, wakeup = False\<rparr>"
  let ?t = "\<lparr>pc = T_Lock, joining = True, stopFlag = True, wakeup = True\<rparr>"
  have "protocol_step thread_started ?s" using deliver [of thread_started] by (simp add: thread_started_def)
  moreover have "protocol_step ?s ?t" using restart [of ?s] by simp
  ultimately have "protocol_step\<^sup>*\<^sup>* thread_started ?t" by (meson r_into_rtranclp rtranclp.rtrancl_into_rtrancl)
  then show ?thesis using restart_deadlock [of ?t] by (intro exI [of _ ?t]) simp
qed

text \<open>
  Stopping a handler leaves its signals blocked although no thread waits for them any more.
\<close>

theorem stop_leaves_blocked:
  "notify (Some cb) [sig] SignalManager = Some (hid, m) \<Longrightarrow> Sig sig \<in> blocked (stop hid m) \<and> thread (stop hid m) = Some {Wakeup}"
  by (auto simp: notify_def SignalManager_def Let_def stop_def reconfigureLocked_def restartThreadLocked_def activeSignals_def ids_of_def
      split: if_splits)

theorem stop_leaves_blocked_witness:
  "\<exists>hid m. notify (Some 0) [SIGINT] SignalManager = Some (hid, m) \<and> Sig SIGINT \<in> blocked (stop hid m)"
  using stop_leaves_blocked [of 0 SIGINT] by (simp add: notify_def Let_def)

end
