(* ===== verification/Signal_Wait.thy ===== *)
theory Signal_Wait
  imports Signal_Manager
begin

text \<open>
  \<^verbatim>\<open>SignalManager::wait\<close> of \<^verbatim>\<open>src/breutil/os/signal.hpp\<close>: a temporary handler that fulfils a promise. The signals that arrive while the caller waits, up to
  its call of \<^verbatim>\<open>stop\<close>, are an argument; the caller is woken by the first one that fulfils the promise. A second one before the handler is removed fulfils the promise again, which
  throws in the thread of the manager and ends the program.
\<close>

datatype wait_state = Blocked | Fulfilled signal | Ended_Program

text \<open>The thread dispatches a signal: the handler of the waiting call is called if it is among those of the signal.\<close>

definition deliver :: "int \<Rightarrow> signal_manager \<Rightarrow> signal \<Rightarrow> wait_state \<Rightarrow> wait_state" where
  "deliver hid m sig w =
     (if hid \<in> fst ` dispatch sig m then
        (case w of Blocked \<Rightarrow> Fulfilled sig | Fulfilled _ \<Rightarrow> Ended_Program | Ended_Program \<Rightarrow> Ended_Program)
      else w)"

datatype wait_outcome = Waits signal_manager | Received signal signal_manager | Terminates

definition wait :: "nat \<Rightarrow> signal list \<Rightarrow> signal list \<Rightarrow> signal_manager \<Rightarrow> wait_outcome" where
  "wait cb sigs arrivals m =
     (case notify (Some cb) sigs m of
        None \<Rightarrow> Terminates
      | Some (hid, m1) \<Rightarrow>
          (case fold (deliver hid m1) arrivals Blocked of
             Blocked \<Rightarrow> Waits m1
           | Fulfilled sig \<Rightarrow> Received sig (stop hid m1)
           | Ended_Program \<Rightarrow> Terminates))"

section \<open>What it returns\<close>

definition after :: "signal list \<Rightarrow> wait_state \<Rightarrow> wait_state" where
  "after hits w = (case hits of [] \<Rightarrow> w | s # ss \<Rightarrow> (if w = Blocked \<and> ss = [] then Fulfilled s else Ended_Program))"

lemma after_Cons: "after (s # ss) w = after ss (case w of Blocked \<Rightarrow> Fulfilled s | _ \<Rightarrow> Ended_Program)"
  by (cases w) (auto simp: after_def split: list.split)

lemma deliver_after:
  assumes "\<And>s. hid \<in> fst ` dispatch s m \<longleftrightarrow> s \<in> set sigs"
  shows "fold (deliver hid m) arrivals w = after (filter (\<lambda>s. s \<in> set sigs) arrivals) w"
proof (induction arrivals arbitrary: w)
  case (Cons s ss)
  then show ?case by (cases w) (simp_all add: deliver_def assms after_Cons)
qed (simp add: after_def)

lemma notify_registry:
  assumes "notify (Some cb) sigs m = Some (hid, m1)"
  shows "hid = nextId m" "registry_of m1 = registry_op (Op_Notify cb sigs) (registry_of m)" "configured m1"
  using assms by (auto simp: notify_def Let_def registry_of_def fun_eq_iff)

text \<open>
  While a call of \<^verbatim>\<open>wait\<close> is the only change of the manager: it waits as long as none of its signals arrives, whatever else does; when exactly one of them arrives it returns
  this one and leaves the table of registrations as it was; and two of its signals end the program.
\<close>

theorem signal_wait:
  assumes "manager_ok m" "dispatching m"
  shows "case filter (\<lambda>s. s \<in> set sigs) arrivals of
           [] \<Rightarrow> \<exists>m1. wait cb sigs arrivals m = Waits m1
         | s # ss \<Rightarrow>
             if ss = [] then \<exists>m2. wait cb sigs arrivals m = Received s m2 \<and> manager_ok m2 \<and> snd (registry_of m2) = snd (registry_of m)
             else wait cb sigs arrivals m = Terminates"
proof -
  obtain m1 where n: "notify (Some cb) sigs m = Some (nextId m, m1)" by (simp add: notify_def Let_def)
  note r = notify_registry [OF n]
  have ok: "manager_ok m1" by (rule manager_ok_notify [OF assms(1) n])
  have fresh: "handlers m (nextId m) = None"
    using assms(1) by (cases "handlers m (nextId m)") (auto simp: manager_ok_def)
  have "dispatch s m1 = registry_dispatch s (registry_of m1)" for s
    using r(3) by (intro dispatch_registry [OF ok]) (simp add: dispatching_def)
  moreover have R: "snd (registry_of m1) = (snd (registry_of m))(nextId m \<mapsto> (cb, set sigs))"
    unfolding r(2) by (simp add: registry_of_def [of m])
  ultimately have "nextId m \<in> fst ` dispatch s m1 \<longleftrightarrow> s \<in> set sigs" for s
    by (auto simp: registry_dispatch_def image_iff)
  then have f: "fold (deliver (nextId m) m1) arrivals Blocked = after (filter (\<lambda>s. s \<in> set sigs) arrivals) Blocked"
    by (rule deliver_after)
  have "registry_of (stop (nextId m) m1) = registry_op (Op_Stop (nextId m)) (registry_of m1)"
    using manager_op_refines [OF ok, of "Op_Stop (nextId m)"] by simp
  then have "snd (registry_of (stop (nextId m) m1)) = (snd (registry_of m1))(nextId m := None)"
    by (cases "registry_of m1") simp
  moreover have "snd (registry_of m) (nextId m) = None" using fresh by (simp add: registry_of_def)
  ultimately have "snd (registry_of (stop (nextId m) m1)) = snd (registry_of m)" unfolding R by (simp add: fun_upd_idem)
  with manager_ok_stop [OF ok, of "nextId m"] show ?thesis
    by (simp add: wait_def n f after_def split: list.split)
qed

theorem signal_wait_witness:
  "\<exists>m2. wait 7 [SIGINT, SIGTERM] [SIGCHLD, SIGTERM] SignalManager = Received SIGTERM m2 \<and> manager_ok m2"
proof -
  have "dispatching SignalManager" by (simp add: dispatching_def SignalManager_def)
  from signal_wait [OF manager_ok_new this, where sigs = "[SIGINT, SIGTERM]" and arrivals = "[SIGCHLD, SIGTERM]" and cb = 7] show ?thesis by auto
qed

end
