(* ===== verification/Task_Timer.thy ===== *)
theory Task_Timer
  imports Cpp_Prelude "HOL-Library.Multiset"
begin

text \<open>
  \<^verbatim>\<open>src/breutil/timer.hpp\<close>: \<^verbatim>\<open>MultiTaskTimer\<close> and the single \<^verbatim>\<open>Timer\<close>, as step relations in which the clock advances between steps.
  The priority queue is a multiset of which \<^verbatim>\<open>top\<close> is any task with the smallest due time, as the standard leaves open which of equal ones
  comes first. Times are milliseconds; a callback is a number.
\<close>

section \<open>Tasks\<close>

record timer_task =
  due_time :: int
  callback :: nat

datatype run_pc = Looking | Firing timer_task | Finished

record task_timer =
  now :: int
  tasks :: "timer_task multiset"
  runner :: run_pc
  fired :: "(int \<times> timer_task) list"
  added :: "timer_task multiset"

definition MultiTaskTimer :: "int \<Rightarrow> task_timer" where
  "MultiTaskTimer t0 = \<lparr>now = t0, tasks = {#}, runner = Looking, fired = [], added = {#}\<rparr>"

definition Add :: "int \<Rightarrow> nat \<Rightarrow> task_timer \<Rightarrow> nat \<times> task_timer" where
  "Add delay cb s =
     (let t = \<lparr>due_time = now s + delay, callback = cb\<rparr>
      in (size (tasks s) + 1, s\<lparr>tasks := add_mset t (tasks s), added := add_mset t (added s)\<rparr>))"

definition is_top :: "timer_task \<Rightarrow> task_timer \<Rightarrow> bool" where
  "is_top t s \<longleftrightarrow> t \<in># tasks s \<and> (\<forall>u\<in>#tasks s. due_time t \<le> due_time u)"

section \<open>The loop of Run\<close>

text \<open>
  While the runner looks for a task it either takes the top one, when that is due, or sleeps until the clock or a new task
  wakes it. After the callback the loop ends if no task is left.
\<close>

inductive timer_step :: "task_timer \<Rightarrow> task_timer \<Rightarrow> bool" where
  tick: "now s \<le> t \<Longrightarrow> timer_step s (s\<lparr>now := t\<rparr>)"
| add: "timer_step s (snd (Add delay cb s))"
| take: "runner s = Looking \<Longrightarrow> is_top t s \<Longrightarrow> due_time t \<le> now s \<Longrightarrow>
    timer_step s (s\<lparr>tasks := tasks s - {#t#}, runner := Firing t\<rparr>)"
| fire: "runner s = Firing t \<Longrightarrow>
    timer_step s (s\<lparr>fired := fired s @ [(now s, t)], runner := (if tasks s = {#} then Finished else Looking)\<rparr>)"

definition in_hand :: "task_timer \<Rightarrow> timer_task multiset" where
  "in_hand s = (case runner s of Firing t \<Rightarrow> {#t#} | _ \<Rightarrow> {#})"

text \<open>No task is lost or run twice, and none runs before its time.\<close>

definition timer_ok :: "task_timer \<Rightarrow> bool" where
  "timer_ok s \<longleftrightarrow>
     added s = mset (map snd (fired s)) + in_hand s + tasks s
     \<and> list_all (\<lambda>(at, t). due_time t \<le> at \<and> at \<le> now s) (fired s)
     \<and> (\<forall>t. runner s = Firing t \<longrightarrow> due_time t \<le> now s)"

lemma timer_ok_new: "timer_ok (MultiTaskTimer t0)"
  by (simp add: timer_ok_def MultiTaskTimer_def in_hand_def)

lemma timer_step_ok: "timer_step s s' \<Longrightarrow> timer_ok s \<Longrightarrow> timer_ok s'"
proof (induction rule: timer_step.induct)
  case (take s t)
  then show ?case by (auto simp: timer_ok_def in_hand_def is_top_def)
qed (auto simp: timer_ok_def in_hand_def Add_def Let_def list_all_iff split: run_pc.splits)

lemma timer_run_ok: "timer_step\<^sup>*\<^sup>* s s' \<Longrightarrow> timer_ok s \<Longrightarrow> timer_ok s'"
  by (induction rule: rtranclp_induct) (auto intro: timer_step_ok)

section \<open>Order\<close>

text \<open>
  While no task is added, the callbacks run in the order of their due times: what is in hand or queued
  is due no earlier than what has run; and the loop has ended only if nothing is left.
\<close>

definition ordered :: "task_timer \<Rightarrow> bool" where
  "ordered s \<longleftrightarrow>
     sorted (map (due_time \<circ> snd) (fired s))
     \<and> (\<forall>x\<in>set (fired s). \<forall>u\<in>#in_hand s + tasks s. due_time (snd x) \<le> due_time u)
     \<and> (\<forall>t. runner s = Firing t \<longrightarrow> (\<forall>u\<in>#tasks s. due_time t \<le> due_time u))
     \<and> (runner s = Finished \<longrightarrow> tasks s = {#})"

lemma ordered_step:
  assumes "timer_step s s'" "ordered s" "added s' = added s"
  shows "ordered s'"
  using assms
proof (induction rule: timer_step.induct)
  case (take s t)
  then show ?case by (auto simp: ordered_def in_hand_def is_top_def dest: in_diffD)
next
  case (fire s t)
  then have "\<forall>x\<in>set (fired s). due_time (snd x) \<le> due_time t" by (auto simp: ordered_def in_hand_def)
  then show ?case using fire by (auto simp: ordered_def in_hand_def sorted_append)
qed (auto simp: ordered_def in_hand_def Add_def Let_def)

lemma added_mono: "timer_step s s' \<Longrightarrow> added s \<subseteq># added s'"
  by (induction rule: timer_step.induct) (auto simp: Add_def Let_def)

lemma added_run_mono: "timer_step\<^sup>*\<^sup>* s s' \<Longrightarrow> added s \<subseteq># added s'"
  by (induction rule: rtranclp_induct) (auto dest: added_mono intro: subset_mset.order_trans)

lemma ordered_run: "timer_step\<^sup>*\<^sup>* s s' \<Longrightarrow> ordered s \<Longrightarrow> added s' = added s \<Longrightarrow> ordered s'"
proof (induction rule: rtranclp_induct)
  case (step t u)
  have "added s \<subseteq># added t" "added t \<subseteq># added u" using added_run_mono [OF step.hyps(1)] added_mono [OF step.hyps(2)] .
  then have "added t = added s" "added u = added t" using step.prems(2) by (auto intro: subset_mset.antisym)
  then show ?case using step ordered_step by auto
qed

section \<open>Termination of Run\<close>

text \<open>Every task of a timer that nobody adds to is run: the runner reaches the end of its loop.\<close>

lemma run_all:
  assumes "runner s = Looking" "tasks s \<noteq> {#}"
  shows "\<exists>s'. timer_step\<^sup>*\<^sup>* s s' \<and> runner s' = Finished \<and> tasks s' = {#} \<and> added s' = added s"
  using assms
proof (induction "size (tasks s)" arbitrary: s rule: less_induct)
  case less
  obtain t where t: "is_top t s"
  proof -
    let ?D = "due_time ` set_mset (tasks s)"
    have "Min ?D \<in> ?D" using less.prems(2) by (intro Min_in) auto
    then obtain t where "t \<in># tasks s" "due_time t = Min ?D" by auto
    then show ?thesis using that [of t] by (simp add: is_top_def)
  qed
  define T where "T = max (now s) (due_time t)"
  let ?s1 = "s\<lparr>now := T\<rparr>"
  let ?s2 = "?s1\<lparr>tasks := tasks ?s1 - {#t#}, runner := Firing t\<rparr>"
  let ?s3 = "?s2\<lparr>fired := fired ?s2 @ [(now ?s2, t)], runner := (if tasks ?s2 = {#} then Finished else Looking)\<rparr>"
  have "timer_step s ?s1" by (rule timer_step.tick) (simp add: T_def)
  moreover have "timer_step ?s1 ?s2" by (rule timer_step.take) (use less.prems t in \<open>auto simp: T_def is_top_def\<close>)
  moreover have "timer_step ?s2 ?s3" by (rule timer_step.fire) simp
  ultimately have st: "timer_step\<^sup>*\<^sup>* s ?s3" by (meson r_into_rtranclp rtranclp.rtrancl_into_rtrancl)
  have sz: "size (tasks ?s3) < size (tasks s)" using t by (simp add: is_top_def size_Diff1_less)
  show ?case
  proof (cases "tasks ?s2 = {#}")
    case True
    then show ?thesis using st by (intro exI [of _ ?s3]) simp
  next
    case False
    then have "runner ?s3 = Looking" "tasks ?s3 \<noteq> {#}" by simp_all
    then obtain s' where "timer_step\<^sup>*\<^sup>* ?s3 s'" "runner s' = Finished" "tasks s' = {#}" "added s' = added ?s3" using less.hyps [OF sz] by blast
    then show ?thesis using rtranclp_trans [OF st] by (intro exI [of _ s']) simp
  qed
qed

section \<open>Properties\<close>

text \<open>C15. When \<^verbatim>\<open>Run\<close> is called on a timer with tasks and nobody adds more, it can always finish, and whenever it
  has finished it has called every callback exactly once, in the order of the due times and none before its time.
\<close>

theorem multi_timer_runs:
  assumes "timer_step\<^sup>*\<^sup>* (MultiTaskTimer t0) s" and "runner s = Looking" and "fired s = []" and "tasks s \<noteq> {#}"
  shows "(\<exists>s'. timer_step\<^sup>*\<^sup>* s s' \<and> runner s' = Finished \<and> added s' = added s)
    \<and> (\<forall>s'. timer_step\<^sup>*\<^sup>* s s' \<and> runner s' = Finished \<and> added s' = added s \<longrightarrow>
         mset (map snd (fired s')) = tasks s \<and> sorted (map (due_time \<circ> snd) (fired s'))
         \<and> list_all (\<lambda>(at, t). due_time t \<le> at) (fired s'))"
proof (intro conjI allI impI)
  show "\<exists>s'. timer_step\<^sup>*\<^sup>* s s' \<and> runner s' = Finished \<and> added s' = added s" using run_all [OF assms(2,4)] by blast
  have ok: "timer_ok s" by (rule timer_run_ok [OF assms(1) timer_ok_new])
  then have ad: "added s = tasks s" using assms(2,3) by (simp add: timer_ok_def in_hand_def)
  fix s' assume r: "timer_step\<^sup>*\<^sup>* s s' \<and> runner s' = Finished \<and> added s' = added s"
  have ok': "timer_ok s'" using timer_run_ok ok r by blast
  have "ordered s" using assms(2,3) by (simp add: ordered_def in_hand_def)
  then have ord: "ordered s'" using ordered_run r by blast
  then show "sorted (map (due_time \<circ> snd) (fired s'))" by (simp add: ordered_def)
  have "tasks s' = {#}" using ord r by (simp add: ordered_def)
  then show "mset (map snd (fired s')) = tasks s" using ok' r ad by (simp add: timer_ok_def in_hand_def)
  show "list_all (\<lambda>(at, t). due_time t \<le> at) (fired s')" using ok' by (auto simp: timer_ok_def list_all_iff)
qed

theorem multi_timer_runs_witness:
  "\<exists>s. timer_step\<^sup>*\<^sup>* (MultiTaskTimer 0) s \<and> size (tasks s) = 1 \<and> (\<exists>s'. timer_step\<^sup>*\<^sup>* s s' \<and> runner s' = Finished \<and> added s' = added s)"
proof -
  let ?s = "snd (Add 5 1 (MultiTaskTimer 0))"
  have run: "timer_step\<^sup>*\<^sup>* (MultiTaskTimer 0) ?s" by (rule r_into_rtranclp) (rule timer_step.add)
  have "runner ?s = Looking" "fired ?s = []" "tasks ?s \<noteq> {#}" "size (tasks ?s) = 1" by (simp_all add: Add_def MultiTaskTimer_def Let_def)
  then show ?thesis using multi_timer_runs [OF run] run by blast
qed

end
