(* ===== verification/Single_Timer.thy ===== *)
theory Single_Timer
  imports Cpp_Prelude
begin

text \<open>
  The class \<^verbatim>\<open>Timer\<close> of \<^verbatim>\<open>src/breutil/timer.hpp\<close>: one callback, called once or repeatedly by a thread of its own. The thread and the owner take turns; the clock
  advances in between, in milliseconds. \<^verbatim>\<open>CountTimer\<close> reads the same clock.
\<close>

section \<open>State\<close>

text \<open>Where the thread is: at the test of the loop, in the timed wait, in the callback, or at its end.\<close>

datatype phase = No_Thread | At_Test | Waiting int | Calling | Ended

record timer =
  interval :: u32
  stop_flag :: bool
  worker :: phase
  looping :: bool
  clock :: int
  started :: int
  fired :: "int list"
  sleeping :: "int option"
  waited :: "int list"
  terminated :: bool
  destroyed :: bool

definition Timer :: "int \<Rightarrow> int \<Rightarrow> timer" where
  "Timer interval_ms now =
     \<lparr>interval = word_of_int interval_ms, stop_flag = True, worker = No_Thread, looping = False, clock = now, started = now,
      fired = [], sleeping = None, waited = [], terminated = False, destroyed = False\<rparr>"

definition period :: "timer \<Rightarrow> int" where
  "period t = uint (interval t)"

text \<open>The thread object is joinable from its start until it is joined, also when its function has returned.\<close>

definition joinable :: "timer \<Rightarrow> bool" where
  "joinable t \<longleftrightarrow> worker t \<noteq> No_Thread"

section \<open>Operations of the owner\<close>

text \<open>Assigning a thread to a joinable thread object is \<^verbatim>\<open>std::terminate\<close>.\<close>

definition AsyncWait :: "bool \<Rightarrow> timer \<Rightarrow> timer" where
  "AsyncWait is_loop t0 =
     (let t = t0 \<lparr>stop_flag := False\<rparr> in
      if joinable t then t \<lparr>terminated := True\<rparr> else t \<lparr>worker := At_Test, looping := is_loop, started := clock t\<rparr>)"

text \<open>\<^verbatim>\<open>Wait\<close> sleeps, calls the callback in the owner's thread and sets the flag.\<close>

definition Wait_begin :: "timer \<Rightarrow> timer" where
  "Wait_begin t = t \<lparr>sleeping := Some (clock t + period t)\<rparr>"

definition Wait_end :: "timer \<Rightarrow> timer option" where
  "Wait_end t =
     (case sleeping t of
        Some w \<Rightarrow> if w \<le> clock t then Some (t \<lparr>sleeping := None, waited := waited t @ [clock t], stop_flag := True\<rparr>) else None
      | None \<Rightarrow> None)"

definition Cancel :: "timer \<Rightarrow> timer" where
  "Cancel t = t \<lparr>stop_flag := True\<rparr>"

text \<open>The destructor is \<^verbatim>\<open>Cancel\<close> and then a join, which waits for the end of the thread.\<close>

definition Timer_join :: "timer \<Rightarrow> timer option" where
  "Timer_join t = (if worker t \<in> {No_Thread, Ended} then Some (t \<lparr>worker := No_Thread, destroyed := True\<rparr>) else None)"

section \<open>Steps of the thread\<close>

definition thread_test :: "timer \<Rightarrow> timer" where
  "thread_test t = (if stop_flag t then t \<lparr>worker := Ended\<rparr> else t \<lparr>worker := Waiting (clock t + period t)\<rparr>)"

text \<open>The wait returns when the flag is set, or at its time; the flag is looked at first.\<close>

definition thread_wake :: "int \<Rightarrow> timer \<Rightarrow> timer option" where
  "thread_wake next_wake t =
     (if stop_flag t then Some (t \<lparr>worker := Ended\<rparr>)
      else if next_wake \<le> clock t then Some (t \<lparr>worker := Calling, fired := fired t @ [clock t]\<rparr>)
      else None)"

definition thread_called :: "timer \<Rightarrow> timer" where
  "thread_called t = (if \<not> looping t then t \<lparr>worker := Ended\<rparr> else t \<lparr>worker := At_Test\<rparr>)"

inductive timer_step :: "timer \<Rightarrow> timer \<Rightarrow> bool" where
  test: "worker t = At_Test \<Longrightarrow> timer_step t (thread_test t)"
| wake: "worker t = Waiting w \<Longrightarrow> thread_wake w t = Some t' \<Longrightarrow> timer_step t t'"
| called: "worker t = Calling \<Longrightarrow> timer_step t (thread_called t)"
| tick: "clock t \<le> c \<Longrightarrow> timer_step t (t \<lparr>clock := c\<rparr>)"

text \<open>The owner acts while the timer exists and it is not asleep.\<close>

inductive owner_step :: "timer \<Rightarrow> timer \<Rightarrow> bool" where
  async: "\<not> destroyed t \<Longrightarrow> sleeping t = None \<Longrightarrow> owner_step t (AsyncWait l t)"
| sleep: "\<not> destroyed t \<Longrightarrow> sleeping t = None \<Longrightarrow> owner_step t (Wait_begin t)"
| wake_up: "Wait_end t = Some t' \<Longrightarrow> owner_step t t'"
| cancel: "\<not> destroyed t \<Longrightarrow> sleeping t = None \<Longrightarrow> owner_step t (Cancel t)"
| destroy: "\<not> destroyed t \<Longrightarrow> sleeping t = None \<Longrightarrow> Timer_join (Cancel t) = Some t' \<Longrightarrow> owner_step t t'"

inductive timer_reach :: "int \<Rightarrow> timer \<Rightarrow> bool" for p where
  new: "timer_reach p (Timer p now)"
| internal: "timer_reach p t \<Longrightarrow> \<not> terminated t \<Longrightarrow> timer_step t t' \<Longrightarrow> timer_reach p t'"
| owner: "timer_reach p t \<Longrightarrow> \<not> terminated t \<Longrightarrow> owner_step t t' \<Longrightarrow> timer_reach p t'"

inductive_cases timer_stepE: "timer_step t t'"
inductive_cases owner_stepE: "owner_step t t'"

section \<open>Calls are a period apart\<close>

text \<open>\<open>spaced p s xs\<close>: the first call is at least \<open>p\<close> after \<open>s\<close>, and every other one at least \<open>p\<close> after the one before.\<close>

fun spaced :: "int \<Rightarrow> int \<Rightarrow> int list \<Rightarrow> bool" where
  "spaced p s [] = True"
| "spaced p s (x # xs) = (s + p \<le> x \<and> spaced p x xs)"

definition last_event :: "timer \<Rightarrow> int" where
  "last_event t = (if fired t = [] then started t else last (fired t))"

lemma spaced_snoc: "spaced p s (xs @ [x]) \<longleftrightarrow> spaced p s xs \<and> (if xs = [] then s else last xs) + p \<le> x"
  by (induction p s xs rule: spaced.induct) auto

definition timer_ok :: "int \<Rightarrow> timer \<Rightarrow> bool" where
  "timer_ok p t \<longleftrightarrow> interval t = word_of_int p \<and> (terminated t \<or>
     spaced (period t) (started t) (fired t) \<and> last_event t \<le> clock t
     \<and> (\<forall>w. worker t = Waiting w \<longrightarrow> last_event t + period t \<le> w)
     \<and> (worker t = No_Thread \<longrightarrow> fired t = [] \<or> destroyed t)
     \<and> (destroyed t \<longrightarrow> worker t = No_Thread)
     \<and> (\<not> looping t \<longrightarrow> length (fired t) \<le> (if worker t \<in> {Calling, Ended, No_Thread} then 1 else 0)))"

lemma period_nonneg [simp]: "0 \<le> period t"
  by (simp add: period_def)

lemma single_timer_ok_new: "timer_ok p (Timer p now)"
  by (simp add: timer_ok_def Timer_def last_event_def)

lemma timer_ok_step: "timer_step t t' \<Longrightarrow> \<not> terminated t \<Longrightarrow> timer_ok p t \<Longrightarrow> timer_ok p t'"
proof (erule timer_stepE)
  fix w assume "timer_ok p t" "worker t = Waiting w" "thread_wake w t = Some t'" "\<not> terminated t"
  then show "timer_ok p t'"
    by (auto simp: thread_wake_def timer_ok_def last_event_def period_def spaced_snoc split: if_splits)
qed (auto simp: thread_test_def thread_called_def timer_ok_def last_event_def period_def split: if_splits)

lemma timer_ok_async:
  assumes "timer_ok p t" "\<not> destroyed t" "\<not> terminated t"
  shows "timer_ok p (AsyncWait l t)"
proof (cases "worker t = No_Thread")
  case True
  with assms have "fired t = []" by (simp add: timer_ok_def)
  with True assms show ?thesis by (simp add: AsyncWait_def joinable_def timer_ok_def last_event_def)
next
  case False
  with assms show ?thesis by (simp add: AsyncWait_def joinable_def timer_ok_def)
qed

text \<open>The invariant does not look at these fields.\<close>

lemma timer_ok_fields:
  "timer_ok p (t \<lparr>stop_flag := x\<rparr>) = timer_ok p t" "timer_ok p (t \<lparr>sleeping := y\<rparr>) = timer_ok p t" "timer_ok p (t \<lparr>waited := z\<rparr>) = timer_ok p t"
  by (simp_all add: timer_ok_def last_event_def period_def)

lemma timer_ok_Cancel: "timer_ok p t \<Longrightarrow> timer_ok p (Cancel t)"
  by (simp only: Cancel_def timer_ok_fields)

lemma timer_ok_sleep: "timer_ok p t \<Longrightarrow> timer_ok p (Wait_begin t)"
  by (simp only: Wait_begin_def timer_ok_fields)

lemma timer_ok_join:
  assumes "Timer_join t = Some t'" "timer_ok p t"
  shows "timer_ok p t'"
proof -
  have w: "worker t \<in> {No_Thread, Ended}" "t' = t \<lparr>worker := No_Thread, destroyed := True\<rparr>"
    using assms(1) by (auto simp: Timer_join_def split: if_splits)
  show ?thesis
  proof (cases "terminated t")
    case False
    with assms(2) w show ?thesis by (simp add: timer_ok_def last_event_def period_def) auto
  qed (use assms(2) w in \<open>simp add: timer_ok_def\<close>)
qed

lemma timer_ok_wake_up: "Wait_end t = Some t' \<Longrightarrow> timer_ok p t \<Longrightarrow> timer_ok p t'"
proof -
  assume t: "Wait_end t = Some t'" "timer_ok p t"
  from t(1) have "t' = t \<lparr>sleeping := None, waited := waited t @ [clock t], stop_flag := True\<rparr>"
    unfolding Wait_end_def by (simp split: option.splits if_splits)
  with t(2) show "timer_ok p t'" by (simp only: timer_ok_fields)
qed

lemma timer_ok_owner: "owner_step t t' \<Longrightarrow> \<not> terminated t \<Longrightarrow> timer_ok p t \<Longrightarrow> timer_ok p t'"
  by (erule owner_stepE) (simp_all add: timer_ok_async timer_ok_Cancel timer_ok_sleep timer_ok_join timer_ok_wake_up)

lemma timer_reach_ok: "timer_reach p t \<Longrightarrow> timer_ok p t"
  by (induction rule: timer_reach.induct) (auto intro: single_timer_ok_new timer_ok_step timer_ok_owner)

text \<open>C28. In every run of a \<^verbatim>\<open>Timer\<close>, the callback is called for the first time not before a period has passed since \<^verbatim>\<open>AsyncWait\<close>, and then not before a period has
  passed since the previous call; without repetition it is called at most once.
\<close>

theorem timer_calls_spaced:
  assumes "timer_reach p t" "\<not> terminated t"
  shows "spaced (uint (word_of_int p :: u32)) (started t) (fired t) \<and> (\<not> looping t \<longrightarrow> length (fired t) \<le> 1)"
proof -
  have ok: "timer_ok p t" by (rule timer_reach_ok [OF assms(1)])
  then have "\<not> looping t \<longrightarrow> length (fired t) \<le> 1" using assms(2) by (auto simp: timer_ok_def split: if_splits)
  moreover have "interval t = word_of_int p" "spaced (uint (interval t)) (started t) (fired t)"
    using ok assms(2) by (auto simp: timer_ok_def period_def)
  ultimately show ?thesis by simp
qed

definition demo_timer :: timer where
  "demo_timer = (Timer 20 100)\<lparr>stop_flag := False, worker := Calling, clock := 125, fired := [125]\<rparr>"

theorem timer_calls_spaced_witness: "spaced 20 100 [125 :: int]"
proof -
  have 1: "timer_reach 20 (AsyncWait False (Timer 20 100))"
    by (rule timer_reach.owner [OF timer_reach.new [of 20 100] _ owner_step.async]) (simp_all add: Timer_def)
  have 2: "timer_reach 20 (thread_test (AsyncWait False (Timer 20 100)))"
    by (rule timer_reach.internal [OF 1 _ timer_step.test]) (simp_all add: Timer_def AsyncWait_def joinable_def)
  have 3: "timer_reach 20 (thread_test (AsyncWait False (Timer 20 100))\<lparr>clock := 125\<rparr>)"
    by (rule timer_reach.internal [OF 2 _ timer_step.tick]) (simp_all add: Timer_def AsyncWait_def joinable_def thread_test_def)
  have w: "thread_wake 120 (thread_test (AsyncWait False (Timer 20 100))\<lparr>clock := 125\<rparr>) = Some demo_timer"
    by (simp add: Timer_def AsyncWait_def joinable_def thread_test_def thread_wake_def demo_timer_def period_def)
  have "timer_reach 20 demo_timer"
    by (rule timer_reach.internal [OF 3 _ timer_step.wake [OF _ w]]) (simp_all add: Timer_def AsyncWait_def joinable_def thread_test_def period_def)
  from timer_calls_spaced [OF this] show ?thesis by (simp add: demo_timer_def Timer_def)
qed

section \<open>Cancelling\<close>

text \<open>After \<^verbatim>\<open>Cancel\<close>, no call begins; the thread ends after at most two of its steps, so that the destructor returns.\<close>

lemma cancelled_step: "timer_step t t' \<Longrightarrow> stop_flag t \<Longrightarrow> stop_flag t' \<and> fired t' = fired t"
  by (erule timer_stepE) (auto simp: thread_test_def thread_wake_def thread_called_def)

lemma cancelled_run: "timer_step\<^sup>*\<^sup>* t t' \<Longrightarrow> stop_flag t \<Longrightarrow> stop_flag t' \<and> fired t' = fired t"
  by (induction rule: rtranclp_induct) (auto dest: cancelled_step)

lemma cancelled_ends:
  assumes "stop_flag t" "worker t \<noteq> No_Thread"
  shows "\<exists>t'. timer_step\<^sup>*\<^sup>* t t' \<and> worker t' = Ended"
proof -
  have test: "\<exists>t'. timer_step\<^sup>*\<^sup>* s t' \<and> worker t' = Ended" if "stop_flag s" "worker s = At_Test" for s
    using timer_step.test [OF that(2)] that(1) by (intro exI [of _ "thread_test s"]) (auto simp: thread_test_def)
  show ?thesis
  proof (cases "worker t")
    case (Waiting w)
    have "timer_step t (t \<lparr>worker := Ended\<rparr>)" using assms(1) by (intro timer_step.wake [OF Waiting]) (simp add: thread_wake_def)
    then show ?thesis by (intro exI [of _ "t \<lparr>worker := Ended\<rparr>"]) auto
  next
    case Calling
    note c = timer_step.called [OF Calling]
    show ?thesis
    proof (cases "looping t")
      case True
      then obtain t' where "timer_step\<^sup>*\<^sup>* (thread_called t) t'" "worker t' = Ended"
        using test [of "thread_called t"] assms(1) by (auto simp: thread_called_def)
      with c show ?thesis by (meson converse_rtranclp_into_rtranclp)
    next
      case False
      with c show ?thesis by (intro exI [of _ "thread_called t"]) (auto simp: thread_called_def)
    qed
  qed (use assms test in auto)
qed

text \<open>
  After \<^verbatim>\<open>Cancel\<close> no further call begins, whatever the thread and the clock do, and the thread can always reach its end, at which the destructor's join
  returns.
\<close>

theorem cancel_stops:
  assumes "timer_step\<^sup>*\<^sup>* (Cancel t) t'"
  shows "fired t' = fired t \<and> (\<exists>t'' s. timer_step\<^sup>*\<^sup>* t' t'' \<and> Timer_join t'' = Some s \<and> fired s = fired t)"
proof -
  have c: "stop_flag t' \<and> fired t' = fired t" using cancelled_run [OF assms] by (simp add: Cancel_def)
  obtain t'' where e: "timer_step\<^sup>*\<^sup>* t' t''" "worker t'' \<in> {No_Thread, Ended}"
  proof (cases "worker t' = No_Thread")
    case False
    then show ?thesis using cancelled_ends [of t'] c that by blast
  qed (use that in blast)
  with cancelled_run [OF e(1)] c show ?thesis by (auto simp: Timer_join_def)
qed

theorem cancel_stops_witness:
  "fired (thread_called (Cancel demo_timer)) = [125]"
proof -
  have "timer_step\<^sup>*\<^sup>* (Cancel demo_timer) (thread_called (Cancel demo_timer))"
    by (intro r_into_rtranclp timer_step.called) (simp add: Cancel_def demo_timer_def)
  from cancel_stops [OF this] show ?thesis by (simp add: demo_timer_def)
qed

text \<open>
  A timer is used once: a second \<^verbatim>\<open>AsyncWait\<close> ends the program, also after the first wait is over or was cancelled, because the thread was not joined. A negative interval
  is one of more than 49 days.
\<close>

lemma second_wait_terminates: "worker t = Ended \<Longrightarrow> terminated (AsyncWait l t)"
  by (simp add: AsyncWait_def joinable_def)

lemma negative_interval: "period (Timer (- 1) now) = 4294967295"
  by (simp add: period_def Timer_def uint_word_ariths)

section \<open>\<^verbatim>\<open>CountTimer\<close>\<close>

text \<open>The start time; \<^verbatim>\<open>Elapsed\<close> is the difference of the clock to it, converted to seconds by the caller of the model.\<close>

definition Restart :: "int \<Rightarrow> int" where
  "Restart now = now"

definition Elapsed :: "int \<Rightarrow> int \<Rightarrow> int" where
  "Elapsed start_time now = now - start_time"

lemma Elapsed_Restart: "Elapsed (Restart a) a = 0" "a \<le> b \<Longrightarrow> 0 \<le> Elapsed (Restart a) b"
  by (simp_all add: Elapsed_def Restart_def)

end
