(* ===== verification/Execute_Command.thy ===== *)
theory Execute_Command
  imports Cpp_Charconv
begin

text \<open>
  \<^verbatim>\<open>src/breutil/execute_command.hpp\<close> with its two platforms, \<^verbatim>\<open>sys_lin/execute_command_lin.hpp\<close> and \<^verbatim>\<open>sys_win/execute_command_win.hpp\<close>. The operating
  system is the environment: for every round of a loop it tells whether the child has ended and what can be read from the pipe. The loops need not end,
  so they are partial functions, \<open>None\<close> being a call that does not return; a signed overflow of the waiting time is a result of its own. The calls that change
  the descriptors, the handles or the child are recorded in the order of the code.
\<close>

section \<open>Reading to the end\<close>

text \<open>Reads are appended until one fails or returns nothing; the \<open>i\<close>-th read gives \<open>rs i\<close>, \<open>None\<close> if it fails.\<close>

partial_function (option) read_loop :: "(nat \<Rightarrow> string option) \<Rightarrow> nat \<Rightarrow> string \<Rightarrow> string option" where
  "read_loop rs i out =
     (case rs i of
        None \<Rightarrow> Some out
      | Some d \<Rightarrow> if d = [] then Some out else read_loop rs (i + 1) (out @ d))"

definition gives_data :: "string option \<Rightarrow> bool" where
  "gives_data r = (case r of None \<Rightarrow> False | Some d \<Rightarrow> d \<noteq> [])"

section \<open>Linux\<close>

datatype child_state = Running | Exited nat | Signaled

text \<open>One round: what \<^verbatim>\<open>waitpid\<close> says and what the round reads, if the pipe becomes readable in time and the read succeeds.\<close>

record poll_round =
  child :: child_state
  chunk :: "string option"

text \<open>
  \<open>leftover\<close> is what the reads return once the child has ended; they fail when the pipe is empty, and return nothing when all its writers are gone. \<open>grace\<close> tells whether the child is found
  ended by the two waits that follow \<^verbatim>\<open>SIGTERM\<close>.
\<close>

record command_env =
  pipe_error :: "string option"
  fork_error :: "string option"
  rounds :: "nat \<Rightarrow> poll_round"
  leftover :: "nat \<Rightarrow> string option"
  grace :: "nat \<Rightarrow> bool"

datatype syscall = Pipe | Fork | Close_Read | Close_Write | Set_Nonblock | Reap | Kill_Term | Usleep nat | Kill_Kill | Wait_Child

datatype command_result = Returned int string "string list" "syscall list" | Overflow

definition newline :: string where
  "newline = [CHR 0x0A]"

definition drain_loop :: "(nat \<Rightarrow> string option) \<Rightarrow> string \<Rightarrow> string option" where
  "drain_loop rs out = read_loop rs 0 out"

definition child_ended :: "child_state \<Rightarrow> string \<Rightarrow> syscall list \<Rightarrow> command_result" where
  "child_ended st out calls =
     (case st of
        Exited exit_code \<Rightarrow>
          if exit_code \<noteq> 0 then
            Returned (int exit_code) out [''Command failed with exit code: '' @ to_string_int (int exit_code) @ newline] (calls @ [Reap, Close_Read])
          else Returned (int exit_code) out [] (calls @ [Reap, Close_Read])
      | _ \<Rightarrow> Returned (- 1) out [''Command terminated by signal'' @ newline] (calls @ [Reap, Close_Read]))"

text \<open>The grace period after \<^verbatim>\<open>SIGTERM\<close>: at most two waits of 50 ms, ended early by the child.\<close>

fun grace_loop :: "(nat \<Rightarrow> bool) \<Rightarrow> nat list \<Rightarrow> syscall list" where
  "grace_loop g [] = []"
| "grace_loop g (i # is) = (if g i then [Usleep 50000, Reap] else Usleep 50000 # grace_loop g is)"

definition timed_out :: "command_env \<Rightarrow> string \<Rightarrow> int \<Rightarrow> string \<Rightarrow> syscall list \<Rightarrow> command_result" where
  "timed_out env cmd timeout_mili out calls =
     Returned (- 1) out [''Command timed out after '' @ to_string_int timeout_mili @ '' ms: '' @ cmd @ newline]
       (calls @ [Kill_Term] @ grace_loop (grace env) [0, 1] @ [Kill_Kill, Wait_Child, Close_Read])"

abbreviation poll_interval_ms :: int where "poll_interval_ms \<equiv> 50"

partial_function (option) poll_loop ::
  "command_env \<Rightarrow> string \<Rightarrow> int \<Rightarrow> syscall list \<Rightarrow> nat \<Rightarrow> int \<Rightarrow> string \<Rightarrow> command_result option" where
  "poll_loop env cmd timeout_mili calls i total_wait out =
     (if child (rounds env i) \<noteq> Running then map_option (\<lambda>all. child_ended (child (rounds env i)) all calls) (drain_loop (leftover env) out)
      else if 0 < timeout_mili \<and> timeout_mili \<le> total_wait then Some (timed_out env cmd timeout_mili out calls)
      else if INT_MAX < total_wait + poll_interval_ms then Some Overflow
      else poll_loop env cmd timeout_mili calls (i + 1) (total_wait + poll_interval_ms)
             (out @ (case chunk (rounds env i) of None \<Rightarrow> [] | Some d \<Rightarrow> d)))"

text \<open>The output parameter is untouched when the child could not be started.\<close>

definition execute_command :: "command_env \<Rightarrow> string \<Rightarrow> string \<Rightarrow> int \<Rightarrow> command_result option" where
  "execute_command env cmd out0 timeout_mili =
     (if cmd = [] then Some (Returned (- 1) out0 [''Empty command'' @ newline] [])
      else case pipe_error env of
        Some e \<Rightarrow> Some (Returned (- 1) out0 [''pipe() failed: '' @ e @ newline] [])
      | None \<Rightarrow>
          (case fork_error env of
             Some e \<Rightarrow> Some (Returned (- 1) out0 [''fork() failed: '' @ e @ newline] [Pipe, Close_Read, Close_Write])
           | None \<Rightarrow> poll_loop env cmd timeout_mili [Pipe, Fork, Close_Write, Set_Nonblock] 0 0 []))"

text \<open>The overload without output, and the two functions of the facade.\<close>

definition result_code :: "command_result \<Rightarrow> int option" where
  "result_code r = (case r of Returned c _ _ _ \<Rightarrow> Some c | Overflow \<Rightarrow> None)"

definition execute_command_code :: "command_env \<Rightarrow> string \<Rightarrow> int \<Rightarrow> int option option" where
  "execute_command_code env cmd timeout_mili = map_option result_code (execute_command env cmd [] timeout_mili)"

definition ExecuteCommand :: "command_env \<Rightarrow> string \<Rightarrow> string \<Rightarrow> int \<Rightarrow> command_result option" where
  "ExecuteCommand env cmd out0 timeout_mili = execute_command env cmd out0 timeout_mili"

definition ExecuteCommand_code :: "command_env \<Rightarrow> string \<Rightarrow> int \<Rightarrow> int option option" where
  "ExecuteCommand_code env cmd timeout_mili = execute_command_code env cmd timeout_mili"

section \<open>Windows\<close>

datatype wait_result = Wait_Object | Wait_Timeout | Wait_Failed nat

datatype wincall = Create_Pipe | Create_Process string | Close_hThread | Close_hRead | Close_hWrite | Close_hProcess | Terminate

text \<open>
  \<open>reads i\<close> is the data of the \<open>i\<close>-th \<^verbatim>\<open>ReadFile\<close>, \<open>None\<close> if it fails. \<open>waits\<close> gives the result of waiting for the child with a time limit,
  \<open>exit_status\<close> its exit code if it can be asked.
\<close>

record windows_env =
  create_pipe_error :: "nat option"
  handle_error :: "nat option"
  create_process_error :: "string \<Rightarrow> nat option"
  reads :: "nat \<Rightarrow> string option"
  waits :: "u32 \<Rightarrow> wait_result"
  exit_status :: "u32 option"

definition endl :: "string \<Rightarrow> string" where
  "endl s = s @ newline"

record windows_result =
  w_output :: string
  w_exit_code :: "u32 option"
  w_messages :: "string list"
  w_calls :: "wincall list"

definition after_reads :: "windows_env \<Rightarrow> u32 \<Rightarrow> wincall list \<Rightarrow> string \<Rightarrow> windows_result" where
  "after_reads env timeoutMs calls out =
     (case waits env timeoutMs of
        Wait_Timeout \<Rightarrow>
          \<lparr>w_output = [], w_exit_code = None,
           w_messages = [endl (''Command execution timeout after '' @ to_string_int (uint timeoutMs) @ ''ms'')],
           w_calls = calls @ [Terminate, Close_hRead, Close_hProcess]\<rparr>
      | w \<Rightarrow>
          let failed = (case w of Wait_Failed e \<Rightarrow> [endl (''WaitForSingleObject failed, error: '' @ to_string_int (int e))] | _ \<Rightarrow> []);
              exited = (case exit_status env of
                          Some c \<Rightarrow> if c \<noteq> 0 then [endl (''Command exited with code: '' @ to_string_int (uint c))] else []
                        | None \<Rightarrow> [])
          in \<lparr>w_output = out, w_exit_code = exit_status env, w_messages = failed @ exited, w_calls = calls @ [Close_hRead, Close_hProcess]\<rparr>)"

definition command_line :: "string \<Rightarrow> string" where
  "command_line cmd = ''cmd.exe /c '' @ [CHR 0x22] @ cmd @ [CHR 0x22]"

definition win_failed :: "string \<Rightarrow> nat \<Rightarrow> wincall list \<Rightarrow> windows_result" where
  "win_failed what e calls = \<lparr>w_output = [], w_exit_code = None, w_messages = [endl (what @ '' failed, error: '' @ to_string_int (int e))], w_calls = calls\<rparr>"

definition execute_command_impl :: "windows_env \<Rightarrow> string \<Rightarrow> u32 \<Rightarrow> windows_result option" where
  "execute_command_impl env cmd timeoutMs =
     (case create_pipe_error env of
        Some e \<Rightarrow> Some (win_failed ''CreatePipe'' e [])
      | None \<Rightarrow>
     (case handle_error env of
        Some e \<Rightarrow> Some (win_failed ''SetHandleInformation'' e [Create_Pipe, Close_hRead, Close_hWrite])
      | None \<Rightarrow>
     (case create_process_error env (command_line cmd) of
        Some e \<Rightarrow> Some (win_failed ''CreateProcessA'' e [Create_Pipe, Close_hRead, Close_hWrite])
      | None \<Rightarrow>
          map_option (after_reads env timeoutMs [Create_Pipe, Create_Process (command_line cmd), Close_hThread, Close_hWrite])
            (read_loop (reads env) 0 []))))"

text \<open>Both overloads start from the exit code 0, which stays when \<^verbatim>\<open>execute_command_impl\<close> does not set it.\<close>

definition execute_command_win :: "windows_env \<Rightarrow> string \<Rightarrow> int \<Rightarrow> (int \<times> string) option" where
  "execute_command_win env cmd timeout_ms =
     map_option (\<lambda>r. (sint (case w_exit_code r of None \<Rightarrow> 0 | Some c \<Rightarrow> c), w_output r)) (execute_command_impl env cmd (word_of_int timeout_ms))"

definition execute_command_win_code :: "windows_env \<Rightarrow> string \<Rightarrow> int \<Rightarrow> int option" where
  "execute_command_win_code env cmd timeout_ms =
     map_option (\<lambda>r. sint (case w_exit_code r of None \<Rightarrow> 0 | Some c \<Rightarrow> c)) (execute_command_impl env cmd (word_of_int timeout_ms))"

section \<open>The polling loop\<close>

text \<open>What the first \<open>k\<close> rounds read.\<close>

definition chunks :: "command_env \<Rightarrow> nat \<Rightarrow> string" where
  "chunks env k = concat (map (\<lambda>i. case chunk (rounds env i) of None \<Rightarrow> [] | Some d \<Rightarrow> d) [0..<k])"

lemma chunks_Suc: "chunks env (Suc k) = chunks env k @ (case chunk (rounds env k) of None \<Rightarrow> [] | Some d \<Rightarrow> d)"
  by (simp add: chunks_def)

lemma poll_exit:
  "child (rounds env k) \<noteq> Running \<Longrightarrow>
    poll_loop env cmd t calls k w out
      = map_option (\<lambda>all. child_ended (child (rounds env k)) all calls) (drain_loop (leftover env) out)"
  by (subst poll_loop.simps) simp

lemma poll_timeout:
  "child (rounds env k) = Running \<Longrightarrow> 0 < t \<Longrightarrow> t \<le> w \<Longrightarrow> poll_loop env cmd t calls k w out = Some (timed_out env cmd t out calls)"
  by (subst poll_loop.simps) simp

lemma poll_overflow:
  "child (rounds env k) = Running \<Longrightarrow> \<not> (0 < t \<and> t \<le> w) \<Longrightarrow> INT_MAX < w + 50 \<Longrightarrow> poll_loop env cmd t calls k w out = Some Overflow"
  by (subst poll_loop.simps) auto

lemma poll_next:
  "child (rounds env k) = Running \<Longrightarrow> \<not> (0 < t \<and> t \<le> w) \<Longrightarrow> w + 50 \<le> INT_MAX \<Longrightarrow>
    poll_loop env cmd t calls k w out =
    poll_loop env cmd t calls (Suc k) (w + 50) (out @ (case chunk (rounds env k) of None \<Rightarrow> [] | Some d \<Rightarrow> d))"
  by (subst poll_loop.simps) auto

text \<open>The loop passes over the first \<open>k\<close> rounds if the child runs in each and neither the time limit nor the range of \<^verbatim>\<open>int\<close> is reached.\<close>

lemma poll_rounds:
  assumes "\<And>i. i < k \<Longrightarrow> child (rounds env i) = Running"
    and "\<And>i. i < k \<Longrightarrow> \<not> (0 < t \<and> t \<le> 50 * int i)" and "50 * int k \<le> INT_MAX"
  shows "poll_loop env cmd t calls 0 0 [] = poll_loop env cmd t calls k (50 * int k) (chunks env k)"
  using assms
proof (induction k)
  case (Suc k)
  have "poll_loop env cmd t calls 0 0 [] = poll_loop env cmd t calls k (50 * int k) (chunks env k)"
    using Suc.prems by (intro Suc.IH) auto
  also have "\<dots> = poll_loop env cmd t calls (Suc k) (50 * int k + 50) (chunks env (Suc k))"
    unfolding chunks_Suc using Suc.prems(1,2) [of k] Suc.prems(3) by (intro poll_next) auto
  finally show ?case by (simp add: algebra_simps)
qed (simp add: chunks_def)

text \<open>The number of rounds before the time limit.\<close>

definition limit :: "int \<Rightarrow> nat" where
  "limit t = nat ((t + 49) div 50)"

lemma limit_rounds:
  assumes "0 < t"
  shows "t \<le> 50 * int (limit t)" "i < limit t \<Longrightarrow> 50 * int i < t" "50 * int (limit t) \<le> t + 49"
proof -
  have l: "int (limit t) = (t + 49) div 50" using assms by (simp add: limit_def)
  show "t \<le> 50 * int (limit t)" "50 * int (limit t) \<le> t + 49" unfolding l by linarith+
  assume "i < limit t"
  then have "int i < (t + 49) div 50" using l by linarith
  then show "50 * int i < t" by linarith
qed

text \<open>The child ends at the round \<open>k\<close>, before the limit.\<close>

lemma loop_exit:
  assumes "child (rounds env k) \<noteq> Running" "\<And>i. i < k \<Longrightarrow> child (rounds env i) = Running" "0 < t" "k \<le> limit t" "t \<le> INT_MAX - 49"
  shows "poll_loop env cmd t calls 0 0 [] 
    = map_option (\<lambda>all. child_ended (child (rounds env k)) all calls) (drain_loop (leftover env) (chunks env k))"
proof -
  have "\<not> (0 < t \<and> t \<le> 50 * int i)" if "i < k" for i
    using limit_rounds(2) [of t i] that assms(3,4) by linarith
  moreover have "50 * int k \<le> INT_MAX" using limit_rounds(3) [of t] assms(3-5) by linarith
  ultimately show ?thesis using assms(2) by (simp add: poll_rounds [where k = k] poll_exit [OF assms(1)])
qed

lemma loop_timeout:
  assumes "\<And>i. i \<le> limit t \<Longrightarrow> child (rounds env i) = Running" "0 < t" "t \<le> INT_MAX - 49"
  shows "poll_loop env cmd t calls 0 0 [] = Some (timed_out env cmd t (chunks env (limit t)) calls)"
proof -
  have "\<not> (0 < t \<and> t \<le> 50 * int i)" if "i < limit t" for i
    using limit_rounds(2) [of t i] that assms(2) by linarith
  moreover have "50 * int (limit t) \<le> INT_MAX" using limit_rounds(3) [of t] assms by linarith
  ultimately show ?thesis
    using assms(1) limit_rounds(1) [of t] assms(2) by (simp add: poll_rounds [where k = "limit t"] poll_timeout)
qed

section \<open>What a call does\<close>

lemma read_loop_all:
  assumes "\<And>i. i < length ds \<Longrightarrow> rs (k + i) = Some (ds ! i)" "[] \<notin> set ds" "rs (k + length ds) \<in> {None, Some []}"
  shows "read_loop rs k out = Some (out @ concat ds)"
  using assms
proof (induction ds arbitrary: k out)
  case Nil
  then show ?case by (subst read_loop.simps) (auto split: option.splits)
next
  case (Cons d ds)
  have "rs k = Some d" using Cons.prems(1) [of 0] by simp
  then have "read_loop rs k out = read_loop rs (k + 1) (out @ d)"
    using Cons.prems(2) by (subst read_loop.simps) auto
  also have "\<dots> = Some ((out @ d) @ concat ds)"
    using Cons.prems(1) [of "Suc _"] Cons.prems(2,3) by (intro Cons.IH) auto
  finally show ?case by simp
qed

text \<open>The loop ends only at a read that fails or returns nothing.\<close>

lemma read_loop_forever: "read_loop rs k out = Some r \<Longrightarrow> \<exists>i \<ge> k. rs i \<in> {None, Some []}"
proof (erule read_loop.raw_induct [where P = "\<lambda>rs k out r. \<exists>i \<ge> k. rs i \<in> {None, Some []}", rotated])
  fix loop :: "(nat \<Rightarrow> string option) \<Rightarrow> nat \<Rightarrow> string \<Rightarrow> string option" and rs k out r
  assume IH: "\<And>rs k out r. loop rs k out = Some r \<Longrightarrow> \<exists>i \<ge> k. rs i \<in> {None, Some []}"
    and "(case rs k of None \<Rightarrow> Some out | Some d \<Rightarrow> if d = [] then Some out else loop rs (k + 1) (out @ d)) = Some r"
  then show "\<exists>i \<ge> k. rs i \<in> {None, Some []}"
    by (cases "rs k \<in> {None, Some []}") (auto split: option.splits if_splits dest!: IH dest: Suc_leD)
qed

lemma find_first: "find P [0..<n] = Some k \<Longrightarrow> k < n \<and> P k \<and> (\<forall>i < k. \<not> P i)"
  by (auto simp: find_Some_iff)

lemma find_none: "find P [0..<n] = None \<Longrightarrow> i < n \<Longrightarrow> \<not> P i"
  by (auto simp: find_None_iff)

text \<open>The first round at which the child is found ended, among those that the limit allows.\<close>

definition ending_round :: "command_env \<Rightarrow> int \<Rightarrow> nat option" where
  "ending_round env t = find (\<lambda>i. child (rounds env i) \<noteq> Running) [0..<Suc (limit t)]"

text \<open>Status and output of a call that returned.\<close>

definition code_and_output :: "command_result \<Rightarrow> (int \<times> string) option" where
  "code_and_output res = (case res of Returned c out _ _ \<Rightarrow> Some (c, out) | Overflow \<Rightarrow> None)"

definition calls_of :: "command_result \<Rightarrow> syscall list" where
  "calls_of res = (case res of Returned _ _ _ calls \<Rightarrow> calls | Overflow \<Rightarrow> [])"

definition demo_env :: command_env where
  "demo_env = \<lparr>pipe_error = None, fork_error = None,
     rounds = (\<lambda>i. if i < 2 then \<lparr>child = Running, chunk = Some ''ab''\<rparr> else \<lparr>child = Exited 3, chunk = None\<rparr>),
     leftover = (\<lambda>i. if i = 0 then Some ''c'' else None), grace = (\<lambda>_. True)\<rparr>"



text \<open>
  The reads after the end of the child are not bounded by the time limit: if processes that it left behind keep the pipe open and always have something written, the
  call does not return.
\<close>

lemma drained_forever:
  assumes "cmd \<noteq> []" "pipe_error env = None" "fork_error env = None" "child (rounds env 0) \<noteq> Running"
    and "\<And>i. gives_data (leftover env i)"
  shows "execute_command env cmd out0 t = None"
proof -
  have "read_loop (leftover env) 0 [] = None"
  proof (rule ccontr)
    assume "read_loop (leftover env) 0 [] \<noteq> None"
    then obtain i where "leftover env i \<in> {None, Some []}" using read_loop_forever by blast
    with assms(5) [of i] show False by (auto simp: gives_data_def)
  qed
  with assms(1-4) show ?thesis by (simp add: execute_command_def poll_exit drain_loop_def)
qed

text \<open>The descriptors of the pipe: however the call returns, each end that was opened is closed once, and a child that was forked has been waited for.\<close>

definition reaped :: "syscall list \<Rightarrow> bool" where
  "reaped calls = (Fork \<in> set calls \<longrightarrow> Reap \<in> set calls \<or> Wait_Child \<in> set calls)"

lemma grace_calls: "set (grace_loop g is) \<subseteq> {Usleep 50000, Reap}"
  by (induction "is") auto

lemma grace_count: "x \<notin> {Usleep 50000, Reap} \<Longrightarrow> count_list (grace_loop g is) x = 0"
  using grace_calls [of g "is"] by (intro count_notin) auto

definition balanced :: "command_result \<Rightarrow> bool" where
  "balanced r = (case r of
     Overflow \<Rightarrow> True
   | Returned _ _ _ calls \<Rightarrow>
       count_list calls Close_Read = count_list calls Pipe \<and> count_list calls Close_Write = count_list calls Pipe \<and> reaped calls)"

lemma balanced_ended: "balanced (child_ended st out [Pipe, Fork, Close_Write, Set_Nonblock])"
  by (auto simp: balanced_def child_ended_def reaped_def split: child_state.splits)

lemma balanced_timed_out: "balanced (timed_out env cmd t out [Pipe, Fork, Close_Write, Set_Nonblock])"
  by (simp add: balanced_def timed_out_def reaped_def)

lemma balanced_loop:
  "poll_loop env cmd t calls i w out = Some r \<Longrightarrow> calls = [Pipe, Fork, Close_Write, Set_Nonblock] \<longrightarrow> balanced r"
proof (erule poll_loop.raw_induct [where P = "\<lambda>env cmd t calls i w out r. calls = [Pipe, Fork, Close_Write, Set_Nonblock] \<longrightarrow> balanced r", rotated])
qed (auto simp: balanced_ended balanced_timed_out balanced_def [of Overflow] split: if_splits)

text \<open>C23. However a call returns, each end of the pipe that it opened is closed exactly once and a child that it forked has been waited for: no descriptor and no
  process is leaked on any path.
\<close>

theorem execute_command_balanced: "execute_command env cmd out0 t = Some r \<Longrightarrow> balanced r"
  using balanced_loop [where calls = "[Pipe, Fork, Close_Write, Set_Nonblock]"]
  by (auto simp: execute_command_def balanced_def [of "Returned _ _ _ _"] reaped_def split: if_splits option.splits)

theorem execute_command_balanced_witness:
  "balanced (Returned 3 ''ababc'' [''Command failed with exit code: 3'' @ newline] [Pipe, Fork, Close_Write, Set_Nonblock, Reap, Close_Read])"
proof -
  have "poll_loop demo_env ''ls'' 120 calls 0 0 [] =
      map_option (\<lambda>all. child_ended (child (rounds demo_env 2)) all calls) (drain_loop (leftover demo_env) (chunks demo_env 2))" for calls
    by (rule loop_exit) (simp_all add: demo_env_def limit_def)
  moreover have "drain_loop (leftover demo_env) (chunks demo_env 2) = Some ''ababc''"
    using read_loop_all [of "[''c'']" "leftover demo_env" 0 "chunks demo_env 2"]
    by (simp add: drain_loop_def demo_env_def chunks_def numeral_eq_Suc)
  ultimately have "execute_command demo_env ''ls'' [] 120 =
      Some (child_ended (child (rounds demo_env 2)) ''ababc'' [Pipe, Fork, Close_Write, Set_Nonblock])"
    by (simp add: execute_command_def demo_env_def)
  also have "child_ended (child (rounds demo_env 2)) ''ababc'' [Pipe, Fork, Close_Write, Set_Nonblock] =
      Returned 3 ''ababc'' [''Command failed with exit code: 3'' @ newline] [Pipe, Fork, Close_Write, Set_Nonblock, Reap, Close_Read]"
    by code_simp
  finally show ?thesis by (rule execute_command_balanced)
qed

section \<open>Limits of the time limit\<close>

text \<open>
  The waiting time counts 50 ms for every round, also for a round whose \<^verbatim>\<open>select\<close> returns at once because the child has written: a child that writes in every round
  is ended after \<open>limit t\<close> reads, however little time has passed.
\<close>

lemma chatty_child_killed:
  assumes "cmd \<noteq> []" "pipe_error env = None" "fork_error env = None" "0 < t" "t \<le> INT_MAX - 49"
    and "\<And>i. i \<le> limit t \<Longrightarrow> rounds env i = \<lparr>child = Running, chunk = Some d\<rparr>"
  shows "execute_command env cmd out0 t =
           Some (timed_out env cmd t (concat (replicate (limit t) d)) [Pipe, Fork, Close_Write, Set_Nonblock])"
proof -
  have "chunks env n = concat (replicate n d)" if "n \<le> limit t" for n
    using that assms(6)
  proof (induction n)
    case (Suc n)
    then show ?case by (simp add: chunks_Suc concat_replicate_trivial flip: replicate_append_same)
  qed (simp add: chunks_def)
  with assms show ?thesis by (simp add: execute_command_def loop_timeout)
qed

text \<open>Without a time limit, the counter overflows after 42949672 rounds.\<close>

lemma unlimited_wait_overflows:
  assumes "cmd \<noteq> []" "pipe_error env = None" "fork_error env = None" "t \<le> 0"
    and "\<And>i. i \<le> 42949672 \<Longrightarrow> child (rounds env i) = Running"
  shows "execute_command env cmd out0 t = Some Overflow"
proof -
  have "poll_loop env cmd t calls 0 0 [] = poll_loop env cmd t calls 42949672 (50 * int 42949672) (chunks env 42949672)" for calls
    using assms(4,5) by (intro poll_rounds) auto
  with assms show ?thesis by (simp add: execute_command_def poll_overflow)
qed

text \<open>After a timeout the child may have been reaped in the grace period; \<^verbatim>\<open>SIGKILL\<close> is sent all the same, to a process id that is free by then.\<close>

lemma killed_after_reaped:
  "grace env 0 \<Longrightarrow> timed_out env cmd t out calls =
     Returned (- 1) out [''Command timed out after '' @ to_string_int t @ '' ms: '' @ cmd @ newline]
       (calls @ [Kill_Term, Usleep 50000, Reap, Kill_Kill, Wait_Child, Close_Read])"
  by (simp add: timed_out_def)

section \<open>The Windows command\<close>

text \<open>
  On Windows the time limit does not bound the call: while the child keeps the pipe open and writes, the call does not return, for any limit.
\<close>

lemma windows_limit_not_applied:
  assumes "create_pipe_error env = None" "handle_error env = None" "create_process_error env (command_line cmd) = None"
    and "\<And>i. \<exists>d. reads env i = Some d \<and> d \<noteq> []"
  shows "execute_command_win env cmd t = None"
proof -
  have "read_loop (reads env) 0 [] = None"
  proof (rule ccontr)
    assume "read_loop (reads env) 0 [] \<noteq> None"
    then obtain i where "reads env i \<in> {None, Some []}" using read_loop_forever by blast
    with assms(4) [of i] show False by auto
  qed
  with assms show ?thesis by (simp add: execute_command_win_def execute_command_impl_def)
qed

text \<open>A child that closed its output and runs past the limit is terminated, and the call reports success with no output.\<close>

lemma windows_timeout_is_success:
  assumes "execute_command_impl env cmd (word_of_int t) = Some r" "w_exit_code r = None"
  shows "execute_command_win env cmd t = Some (0, w_output r)" "execute_command_win_code env cmd t = Some 0"
  using assms by (simp_all add: execute_command_win_def execute_command_win_code_def)

text \<open>A child that ends in time: its output and its exit code.\<close>

lemma windows_exit:
  assumes "create_pipe_error env = None" "handle_error env = None" "create_process_error env (command_line cmd) = None"
    and "\<And>i. i < length ds \<Longrightarrow> reads env i = Some (ds ! i)" "[] \<notin> set ds" "reads env (length ds) \<in> {None, Some []}"
    and "waits env (word_of_int t) = Wait_Object" "exit_status env = Some c"
  shows "execute_command_win env cmd t = Some (sint c, concat ds)"
proof -
  have "read_loop (reads env) 0 [] = Some (concat ds)"
    using read_loop_all [of ds "reads env" 0 "[]"] assms(4-6) by simp
  with assms show ?thesis by (simp add: execute_command_win_def execute_command_impl_def after_reads_def)
qed

end
