(* ===== verification/Os_Hardware.thy ===== *)
theory Os_Hardware
  imports Os_Environment Ini_File
begin

text \<open>
  The hardware part of \<^verbatim>\<open>src/breutil/os.hpp\<close>: what the functions read from \<^verbatim>\<open>/proc/cpuinfo\<close>, the PCI database and the output of \<^verbatim>\<open>lspci\<close> and the
  vendor tools. The machine is a record: the contents of its files (\<open>None\<close>: the file cannot be opened) and the output of commands (\<open>None\<close>: \<^verbatim>\<open>popen\<close> fails).
\<close>

record machine =
  files :: "string \<Rightarrow> string option"
  commands :: "string \<Rightarrow> string option"
  hardware_concurrency :: u32
  online_processors :: int

section \<open>Fields of text files\<close>

definition blanks :: string where
  "blanks = [CHR '' '', CHR 0x09]"

text \<open>The two \<^verbatim>\<open>erase\<close> calls; \<^verbatim>\<open>npos\<close> erases everything in both.\<close>

definition erase_edges :: "string \<Rightarrow> string" where
  "erase_edges s =
     (let s1 = (case find_first_not_of s blanks of None \<Rightarrow> [] | Some i \<Rightarrow> drop i s)
      in case find_last_not_of s1 blanks of None \<Rightarrow> [] | Some i \<Rightarrow> take (i + 1) s1)"

definition field_value :: "string \<Rightarrow> string option" where
  "field_value line = map_option (\<lambda>i. erase_edges (drop (i + 1) line)) (find_index (\<lambda>c. c = CHR '':'') line)"

definition begins :: "string \<Rightarrow> string \<Rightarrow> bool" where
  "begins pre line = (find_sub pre line = Some 0)"

text \<open>The first line with one of the prefixes that has a colon.\<close>

fun find_field :: "(string \<Rightarrow> bool) \<Rightarrow> string list \<Rightarrow> string \<Rightarrow> string" where
  "find_field P [] dflt = dflt"
| "find_field P (line # ls) dflt =
     (if P line then (case field_value line of Some v \<Rightarrow> v | None \<Rightarrow> find_field P ls dflt)
      else find_field P ls dflt)"

section \<open>The processor\<close>

definition cpuinfo :: "machine \<Rightarrow> string list option" where
  "cpuinfo m = map_option getlines (files m ''/proc/cpuinfo'')"

definition GetCpuVendor :: "machine \<Rightarrow> string" where
  "GetCpuVendor m =
     (case cpuinfo m of None \<Rightarrow> ''Unknown''
      | Some ls \<Rightarrow> find_field (\<lambda>line. begins ''vendor_id'' line \<or> begins ''vendor'' line) ls ''Unknown'')"

definition GetCpuModel :: "machine \<Rightarrow> string" where
  "GetCpuModel m =
     (case cpuinfo m of None \<Rightarrow> ''Unknown'' | Some ls \<Rightarrow> find_field (begins ''model name'') ls ''Unknown'')"

text \<open>The first pass collects the packages; a text that is not a number throws.\<close>

fun physical_ids :: "string list \<Rightarrow> int set \<Rightarrow> std_exn + int set" where
  "physical_ids [] S = Inr S"
| "physical_ids (line # ls) S =
     (if begins ''physical id'' line then
        (case field_value line of
           None \<Rightarrow> physical_ids ls S
         | Some id_str \<Rightarrow> bind_sum (stoi 10 id_str) (\<lambda>i. physical_ids ls (insert i S)))
      else physical_ids ls S)"

definition cores_at :: "int \<Rightarrow> (int, int) std_map \<Rightarrow> int" where
  "cores_at p m = (case map_of m p of Some n \<Rightarrow> n | None \<Rightarrow> 0)"

text \<open>The second pass; adding 1 to the largest \<^verbatim>\<open>int\<close> is undefined.\<close>

fun core_loop :: "string list \<Rightarrow> int \<Rightarrow> int \<Rightarrow> (int, int) std_map \<Rightarrow> (std_exn + (int, int) std_map) cpp_result" where
  "core_loop [] p c m = Ret (Inr m)"
| "core_loop (line # ls) p c m =
     (if begins ''physical id'' line then
        (case field_value line of
           None \<Rightarrow> core_loop ls p c m
         | Some id_str \<Rightarrow> (case stoi 10 id_str of Inl e \<Rightarrow> Ret (Inl e) | Inr i \<Rightarrow> core_loop ls i c m))
      else if begins ''core id'' line then
        (case field_value line of
           None \<Rightarrow> core_loop ls p c m
         | Some id_str \<Rightarrow>
             (case stoi 10 id_str of
                Inl e \<Rightarrow> Ret (Inl e)
              | Inr i \<Rightarrow>
                  if 0 \<le> p \<and> 0 \<le> i then
                    if i = INT_MAX then UB else core_loop ls p i (map_set p (max (cores_at p m) (i + 1)) m)
                  else core_loop ls p i m))
      else core_loop ls p c m)"

fun sum_cores :: "(int, int) std_map \<Rightarrow> int \<Rightarrow> int cpp_result" where
  "sum_cores [] n = Ret n"
| "sum_cores ((p, k) # m) n = (if INT_MAX < n + k then UB else sum_cores m (n + k))"

definition count_cores :: "string list \<Rightarrow> (std_exn + int) cpp_result" where
  "count_cores ls =
     bind_ub (core_loop ls (- 1) (- 1) []) (\<lambda>r.
       case r of Inl e \<Rightarrow> Ret (Inl e) | Inr m \<Rightarrow> bind_ub (sum_cores m 0) (\<lambda>n. Ret (Inr n)))"

definition GetCpuCores :: "machine \<Rightarrow> (std_exn + int) cpp_result" where
  "GetCpuCores m =
     (let cores = sint (hardware_concurrency m) in
      if 0 < cores then Ret (Inr cores)
      else
        bind_ub
          (case cpuinfo m of
             None \<Rightarrow> Ret (Inr cores)
           | Some ls \<Rightarrow>
               (case physical_ids ls {} of
                  Inl e \<Rightarrow> Ret (Inl e)
                | Inr ids \<Rightarrow> if ids = {} then Ret (Inr cores) else count_cores ls))
          (\<lambda>r. Ret (case r of Inl e \<Rightarrow> Inl e | Inr n \<Rightarrow> Inr (if n \<le> 0 then 1 else n))))"

definition GetCpuThreads :: "machine \<Rightarrow> int" where
  "GetCpuThreads m =
     (let threads = online_processors m;
          threads1 = (if threads \<le> 0 then
                        (case cpuinfo m of None \<Rightarrow> threads | Some ls \<Rightarrow> threads + int (length (filter (begins ''processor'') ls)))
                      else threads)
      in if threads1 \<le> 0 then sint (hardware_concurrency m) else threads1)"

section \<open>The graphics adapter\<close>

text \<open>\<^verbatim>\<open>fgets\<close> with a buffer of size \<open>n\<close>, then the construction of a string from the buffer.\<close>

definition fgets :: "nat \<Rightarrow> string \<Rightarrow> string option" where
  "fgets n s =
     (if s = [] then None
      else Some (take (n - 1) (case find_index (\<lambda>c. c = newline) s of None \<Rightarrow> s | Some i \<Rightarrow> take (i + 1) s)))"

definition first_output :: "machine \<Rightarrow> nat \<Rightarrow> string \<Rightarrow> string option" where
  "first_output m n cmd = (case commands m cmd of None \<Rightarrow> None | Some out \<Rightarrow> map_option c_str (fgets n out))"

definition lspci_cmd :: string where
  "lspci_cmd = ''lspci 2>/dev/null | grep -i vga 2>/dev/null | head -1''"

text \<open>The match of \<^verbatim>\<open>^\s*([0-9a-fA-F]{4})\s+(.+)$\<close>: the first group, if the line matches. A period matches neither line feed nor carriage return.\<close>

definition pci_vendor_id :: "string \<Rightarrow> string option" where
  "pci_vendor_id line =
     (let s = dropWhile isspace line; r = drop 4 s
      in if 4 \<le> length s \<and> list_all isxdigit (take 4 s)
            \<and> list_ex (\<lambda>i. list_all isspace (take i r) \<and> list_all (\<lambda>c. c \<noteq> newline \<and> c \<noteq> CHR 0x0D) (drop i r)) [1..<length r]
         then Some (take 4 s) else None)"

fun pci_loop :: "string list \<Rightarrow> string" where
  "pci_loop [] = ''Unknown''"
| "pci_loop (line # ls) =
     (if pci_vendor_id line = Some ''10de'' then ''NVIDIA''
      else if pci_vendor_id line = Some ''1002'' then ''AMD''
      else if pci_vendor_id line = Some ''8086'' then ''Intel''
      else pci_loop ls)"

definition pci_ids :: "machine \<Rightarrow> string option" where
  "pci_ids m = (case files m ''/usr/share/misc/pci.ids'' of Some t \<Rightarrow> Some t | None \<Rightarrow> files m ''/usr/share/pci.ids'')"

definition has_text :: "string \<Rightarrow> string \<Rightarrow> bool" where
  "has_text sub s = (find_sub sub s \<noteq> None)"

definition GetGpuVendor :: "machine \<Rightarrow> string" where
  "GetGpuVendor m =
     (let vendor = (if files m ''/proc/driver/nvidia/version'' \<noteq> None then ''NVIDIA''
                    else case pci_ids m of None \<Rightarrow> ''Unknown'' | Some t \<Rightarrow> pci_loop (getlines t))
      in if vendor = ''Unknown'' then
           (case first_output m 128 lspci_cmd of
              None \<Rightarrow> vendor
            | Some out \<Rightarrow>
                if has_text ''NVIDIA'' out then ''NVIDIA''
                else if has_text ''AMD'' out \<or> has_text ''ATI'' out then ''AMD''
                else if has_text ''Intel'' out then ''Intel''
                else vendor)
         else vendor)"

definition drop_newline :: "string \<Rightarrow> string" where
  "drop_newline s = (if s \<noteq> [] \<and> last s = newline then butlast s else s)"

definition GetGpuModel :: "machine \<Rightarrow> string" where
  "GetGpuModel m =
     (let model = (case first_output m 256 lspci_cmd of
                     None \<Rightarrow> ''Unknown''
                   | Some out \<Rightarrow>
                       (case find_index (\<lambda>c. c = CHR '':'') out of
                          None \<Rightarrow> ''Unknown''
                        | Some colon \<Rightarrow> erase_edges (drop_newline (drop (colon + 1) out))))
      in if model = ''Unknown'' \<or> model = [] then
           (case files m ''/proc/driver/nvidia/gpus/0/information'' of
              None \<Rightarrow> model
            | Some t \<Rightarrow> find_field (has_text ''Model:'') (getlines t) model)
         else model)"

text \<open>Integer division truncates.\<close>

definition trunc_div :: "int \<Rightarrow> int \<Rightarrow> int" where
  "trunc_div a b = (if 0 \<le> a then a div b else - (- a div b))"

text \<open>\<^verbatim>\<open>iss >> total_mem\<close>: a text that is no number gives 0, one out of range the nearest \<^verbatim>\<open>int\<close>.\<close>

definition extract_clamped :: "string \<Rightarrow> int" where
  "extract_clamped s =
     (let (neg, t) = strip_sign (dropWhile isspace s);
          n = int (digits_value 10 (takeWhile isdigit t));
          v = (if neg then - n else n)
      in if v < INT_MIN then INT_MIN else if INT_MAX < v then INT_MAX else v)"

fun mem_total :: "string list \<Rightarrow> int" where
  "mem_total [] = 0"
| "mem_total (line # ls) = (if begins ''MemTotal:'' line then extract_clamped (drop 9 line) else mem_total ls)"

definition nvidia_smi_cmd :: string where
  "nvidia_smi_cmd = ''nvidia-smi --query-gpu=memory.total --format=csv,noheader,nounits 2>/dev/null''"

definition rocm_smi_cmd :: string where
  "rocm_smi_cmd = ''rocm-smi --showmeminfo vram 2>/dev/null | grep '' @ [CHR 0x27] @ ''Total Memory'' @ [CHR 0x27] @ '' | awk '' @ [CHR 0x27] @ ''{print $3}'' @ [CHR 0x27]"

definition GetGpuMemoryMB :: "machine \<Rightarrow> std_exn + int" where
  "GetGpuMemoryMB m =
     bind_sum
       (let vendor = GetGpuVendor m in
        if vendor = ''NVIDIA'' then
          (case first_output m 32 nvidia_smi_cmd of None \<Rightarrow> Inr 0 | Some out \<Rightarrow> stoi 10 out)
        else if vendor = ''AMD'' then
          (case first_output m 32 rocm_smi_cmd of None \<Rightarrow> Inr 0 | Some out \<Rightarrow> bind_sum (stoi 10 out) (\<lambda>v. Inr (trunc_div v 1024)))
        else Inr 0)
       (\<lambda>memory_mb.
          if memory_mb \<le> 0 then
            (case files m ''/proc/meminfo'' of
               None \<Rightarrow> Inr memory_mb
             | Some t \<Rightarrow> Inr (trunc_div (trunc_div (mem_total (getlines t)) 4) 1024))
          else Inr memory_mb)"

section \<open>The collected information\<close>

text \<open>The constructor leaves the numbers without a value: \<open>None\<close> is an indeterminate number.\<close>

record HWInfo =
  cpu_vendor :: string
  cpu_model :: string
  cpu_cores :: "int option"
  cpu_threads :: "int option"
  gpu_vendor :: string
  gpu_model :: string
  gpu_memory_mb :: "int option"

definition HWInfo_new :: HWInfo where
  "HWInfo_new = \<lparr>cpu_vendor = [], cpu_model = [], cpu_cores = None, cpu_threads = None, gpu_vendor = [], gpu_model = [], gpu_memory_mb = None\<rparr>"

definition HWInfo_detect :: "machine \<Rightarrow> HWInfo \<Rightarrow> (std_exn + HWInfo) cpp_result" where
  "HWInfo_detect m h =
     bind_ub (GetCpuCores m) (\<lambda>r. Ret (bind_sum r (\<lambda>cores. bind_sum (GetGpuMemoryMB m) (\<lambda>mem. Inr
       (h \<lparr>cpu_vendor := GetCpuVendor m, cpu_model := GetCpuModel m, cpu_cores := Some cores, cpu_threads := Some (GetCpuThreads m),
           gpu_vendor := GetGpuVendor m, gpu_model := GetGpuModel m, gpu_memory_mb := Some mem\<rparr>)))))"

section \<open>Fields\<close>

lemma erase_edges_strip: "erase_edges s = strip (\<lambda>c. c \<in> set blanks) s"
proof (cases "find_first_not_of s blanks")
  case None
  then have "\<forall>c\<in>set s. c \<in> set blanks" by (simp add: find_first_not_of_def)
  then show ?thesis using None by (simp add: erase_edges_def find_last_not_of_def strip_all_blank)
next
  case (Some i)
  then have d: "drop i s = dropWhile (\<lambda>c. c \<in> set blanks) s"
    using drop_find_index [of "\<lambda>x. x \<notin> set blanks"] by (simp add: find_first_not_of_def)
  show ?thesis
  proof (cases "find_last_not_of (drop i s) blanks")
    case None
    then have "\<forall>c\<in>set (drop i s). c \<in> set blanks" by (auto simp: find_last_not_of_def)
    then have "strip_right (\<lambda>c. c \<in> set blanks) (drop i s) = []"
      by (auto simp: strip_right_def dropWhile_eq_Nil_conv)
    with None Some d show ?thesis by (simp add: erase_edges_def strip_def)
  next
    case (Some k)
    from take_find_last_not_of(2) [OF this] Some \<open>find_first_not_of s blanks = Some i\<close> d
    show ?thesis by (simp add: erase_edges_def strip_def)
  qed
qed

lemma begins_iff: "begins pre line \<longleftrightarrow> (\<exists>t. line = pre @ t)"
  by (cases line) (auto simp: begins_def starts_with_iff)

text \<open>A line as the kernel writes it: a name, blanks, a colon, a blank and a number.\<close>

lemma field_value_line:
  assumes "CHR '':'' \<notin> set n"
  shows "field_value (n @ CHR '':'' # CHR '' '' # to_string_int v) = Some (to_string_int v)"
proof -
  have "find_index (\<lambda>c. c = CHR '':'') (n @ CHR '':'' # CHR '' '' # to_string_int v) = Some (length n)"
    using assms by (intro find_index_append_first) auto
  moreover have "erase_edges (CHR '' '' # to_string_int v) = to_string_int v"
  proof -
    have "c \<notin> set blanks" if "c \<in> set (to_string_int v)" for c
    proof -
      have "isdigit c \<or> c = CHR ''-''"
        using that list_all_to_digits [of 10] by (auto simp: to_chars_int_def list_all_iff split: if_splits)
      then show ?thesis by (auto simp: blanks_def isdigit_def)
    qed
    moreover have "to_string_int v \<noteq> []" by (simp add: to_chars_int_def)
    ultimately have "strip (\<lambda>c. c \<in> set blanks) (to_string_int v) = to_string_int v"
      by (intro strip_id) simp_all
    then show ?thesis by (simp add: erase_edges_strip strip_def blanks_def)
  qed
  ultimately show ?thesis by (simp add: field_value_def)
qed

section \<open>Counting the cores\<close>

text \<open>The description of one logical processor: the lines of its package and of its core, and any other lines before, between and after them.\<close>

definition physical_line :: "int \<Rightarrow> string" where
  "physical_line p = ''physical id'' @ CHR 0x09 # CHR '':'' # CHR '' '' # to_string_int p"

definition core_line :: "int \<Rightarrow> string" where
  "core_line c = ''core id'' @ CHR 0x09 # CHR 0x09 # CHR '':'' # CHR '' '' # to_string_int c"

definition plain_line :: "string \<Rightarrow> bool" where
  "plain_line l \<longleftrightarrow> \<not> begins ''physical id'' l \<and> \<not> begins ''core id'' l"

record processor =
  lines_above :: "string list"
  package :: int
  lines_between :: "string list"
  core :: int
  lines_below :: "string list"

definition cpu_lines :: "processor \<Rightarrow> string list" where
  "cpu_lines q = lines_above q @ physical_line (package q) # lines_between q @ core_line (core q) # lines_below q"

definition place :: "processor \<Rightarrow> int \<times> int" where
  "place q = (package q, core q)"

definition plain_processor :: "processor \<Rightarrow> bool" where
  "plain_processor q \<longleftrightarrow> list_all plain_line (lines_above q @ lines_between q @ lines_below q)"

definition add_core :: "(int, int) std_map \<Rightarrow> int \<times> int \<Rightarrow> (int, int) std_map" where
  "add_core m pc = map_set (fst pc) (max (cores_at (fst pc) m) (snd pc + 1)) m"

definition id_ok :: "int \<times> int \<Rightarrow> bool" where
  "id_ok pc \<longleftrightarrow> 0 \<le> fst pc \<and> fst pc \<le> INT_MAX \<and> 0 \<le> snd pc \<and> snd pc < INT_MAX"

lemma cores_at_Nil [simp]: "cores_at p [] = 0"
  by (simp add: cores_at_def)

lemma field_lines [simp]:
  "field_value (physical_line v) = Some (to_string_int v)" "field_value (core_line v) = Some (to_string_int v)"
  using field_value_line [of "''physical id'' @ [CHR 0x09]" v] field_value_line [of "''core id'' @ [CHR 0x09, CHR 0x09]" v]
  by (simp_all add: physical_line_def core_line_def)

lemma begins_lines [simp]:
  "begins ''physical id'' (physical_line v)" "begins ''core id'' (core_line v)" "\<not> begins ''physical id'' (core_line v)"
  by (simp_all add: begins_iff physical_line_def core_line_def)

lemma stoi_ids:
  assumes "id_ok pc"
  shows "stoi 10 (to_string_int (fst pc)) = Inr (fst pc)" "stoi 10 (to_string_int (snd pc)) = Inr (snd pc)"
  using assms by (auto simp: id_ok_def intro!: stoi_to_string)

lemma plain_lines [simp]:
  assumes "list_all plain_line xs"
  shows "core_loop (xs @ ls) p c m = core_loop ls p c m" "physical_ids (xs @ ls) S = physical_ids ls S"
  using assms by (induction xs) (simp_all add: plain_line_def)

lemma core_loop_lines:
  "list_all id_ok (map place procs) \<Longrightarrow> list_all plain_processor procs
    \<Longrightarrow> core_loop (concat (map cpu_lines procs)) p c m = Ret (Inr (foldl add_core m (map place procs)))"
proof (induction procs arbitrary: p c m)
  case (Cons q procs)
  then show ?case using stoi_ids [of "place q"] by (simp add: cpu_lines_def add_core_def id_ok_def place_def plain_processor_def)
qed simp

lemma physical_ids_lines:
  "list_all id_ok (map place procs) \<Longrightarrow> list_all plain_processor procs
    \<Longrightarrow> physical_ids (concat (map cpu_lines procs)) S = Inr (S \<union> package ` set procs)"
proof (induction procs arbitrary: S)
  case (Cons q procs)
  then show ?case using stoi_ids [of "place q"] by (simp add: cpu_lines_def place_def plain_processor_def)
qed simp

text \<open>After the second pass, the map holds for every package the largest core number plus 1.\<close>

lemma add_core_result:
  "map_ok m \<Longrightarrow> map_ok (foldl add_core m procs)
     \<and> dom (map_of (foldl add_core m procs)) = dom (map_of m) \<union> fst ` set procs
     \<and> (\<forall>(p, c) \<in> set procs. c + 1 \<le> cores_at p (foldl add_core m procs))
     \<and> (\<forall>p. cores_at p (foldl add_core m procs) = cores_at p m \<or> (\<exists>c. (p, c) \<in> set procs \<and> cores_at p (foldl add_core m procs) = c + 1))
     \<and> (\<forall>p. cores_at p m \<le> cores_at p (foldl add_core m procs))"
proof (induction procs arbitrary: m)
  case (Cons pc procs)
  obtain q d where pc: "pc = (q, d)" by fastforce
  have c: "cores_at p (add_core m pc) = (if p = q then max (cores_at q m) (d + 1) else cores_at p m)" for p
    by (simp add: cores_at_def add_core_def pc)
  have d: "dom (map_of (add_core m pc)) = insert q (dom (map_of m))" by (simp add: add_core_def pc)
  have "map_ok (add_core m pc)" using Cons.prems by (simp add: add_core_def)
  note IH = Cons.IH [OF this]
  let ?r = "foldl add_core (add_core m pc) procs"
  have ge: "cores_at p (add_core m pc) \<le> cores_at p ?r" for p using IH by simp
  have "d + 1 \<le> cores_at q ?r" using ge [of q] c by simp
  moreover have "cores_at p m \<le> cores_at p ?r" for p using ge [of p] c by (simp split: if_splits)
  moreover have "cores_at p ?r = cores_at p m \<or> (\<exists>c. (p, c) \<in> set (pc # procs) \<and> cores_at p ?r = c + 1)" for p
  proof -
    from IH consider "cores_at p ?r = cores_at p (add_core m pc)" | c where "(p, c) \<in> set procs" "cores_at p ?r = c + 1" by blast
    then show ?thesis
    proof cases
      case 1
      then show ?thesis using c [of p] by (cases "p = q") (auto simp: pc max_def)
    qed auto
  qed
  ultimately show ?case using IH d by (auto simp: pc)
qed simp

lemma sum_cores_list:
  "list_all (\<lambda>e. 0 \<le> snd e) m \<Longrightarrow> 0 \<le> n \<Longrightarrow> n + sum_list (map snd m) \<le> INT_MAX \<Longrightarrow> sum_cores m n = Ret (n + sum_list (map snd m))"
proof (induction m n rule: sum_cores.induct)
  case (2 p k m n)
  then have "0 \<le> sum_list (map snd m)" by (auto simp: list_all_iff intro!: sum_list_nonneg)
  with 2 show ?case by simp
qed simp

lemma map_sum: "map_ok m \<Longrightarrow> sum_list (map snd m) = (\<Sum>p \<in> dom (map_of m). cores_at p m)"
proof -
  assume ok: "map_ok m"
  note e = assoc_from_map [OF map_ok_distinct [OF ok]]
  have "map snd m = map (\<lambda>k. the (map_of m k)) (map fst m)" using arg_cong [OF e, of "map snd"] by (simp add: o_def)
  then have "sum_list (map snd m) = (\<Sum>p \<in> set (map fst m). the (map_of m p))"
    using sum_list_distinct_conv_sum_set [OF map_ok_distinct [OF ok], of "\<lambda>k. the (map_of m k)"] by (simp only:)
  also have "\<dots> = (\<Sum>p \<in> dom (map_of m). cores_at p m)"
    by (intro sum.cong) (auto simp: dom_map_of_conv_image_fst cores_at_def map_of_eq_None_iff split: option.split)
  finally show ?thesis .
qed

text \<open>The cores of every package are numbered from 0 without gaps.\<close>

definition contiguous :: "(int \<times> int) list \<Rightarrow> bool" where
  "contiguous procs \<longleftrightarrow> (\<forall>(p, c) \<in> set procs. \<forall>d \<in> {0..c}. (p, d) \<in> set procs)"

lemma contiguous_cores:
  assumes "contiguous procs" "list_all id_ok procs" "p \<in> fst ` set procs"
  shows "{c. (p, c) \<in> set procs} = {0..<cores_at p (foldl add_core [] procs)}"
proof -
  note r = add_core_result [of "[]" procs, simplified]
  let ?n = "cores_at p (foldl add_core [] procs)"
  have nn: "0 \<le> d" if "(p, d) \<in> set procs" for d using assms(2) that by (auto simp: list_all_iff id_ok_def)
  have le: "d + 1 \<le> ?n" if "(p, d) \<in> set procs" for d using r that by auto
  obtain c where c: "(p, c) \<in> set procs" using assms(3) by auto
  have "?n \<noteq> 0" using nn [OF c] le [OF c] by linarith
  then obtain d where d: "(p, d) \<in> set procs" "?n = d + 1" using r by blast
  have "(p, e) \<in> set procs" if "0 \<le> e" "e \<le> d" for e
    using assms(1) d(1) that unfolding contiguous_def by fastforce
  then show ?thesis using nn le d(2) by fastforce
qed

lemma contiguous_card:
  assumes "contiguous procs" "list_all id_ok procs"
  shows "(\<Sum>p \<in> fst ` set procs. cores_at p (foldl add_core [] procs)) = int (card (set procs))"
proof -
  have nn: "0 \<le> cores_at p (foldl add_core [] procs)" for p using add_core_result [of "[]" procs] by simp
  have "(\<Sum>p \<in> fst ` set procs. cores_at p (foldl add_core [] procs)) = (\<Sum>p \<in> fst ` set procs. int (card {c. (p, c) \<in> set procs}))"
    by (rule sum.cong [OF refl]) (simp add: contiguous_cores [OF assms] nn)
  also have "\<dots> = int (card (Sigma (fst ` set procs) (\<lambda>p. {c. (p, c) \<in> set procs})))"
  proof -
    have "finite {c. (p, c) \<in> set procs}" for p
      by (rule finite_subset [of _ "snd ` set procs"]) force+
    then show ?thesis by simp
  qed
  also have "Sigma (fst ` set procs) (\<lambda>p. {c. (p, c) \<in> set procs}) = set procs" by force
  finally show ?thesis .
qed

text \<open>C25. Where the system does not tell the number of processors, \<^verbatim>\<open>GetCpuCores\<close> counts the distinct cores that \<^verbatim>\<open>/proc/cpuinfo\<close> lists, the
  processors that share a core (hyper-threading) counting once, whatever other lines describe a processor, provided that each names its package before its core and that
  the cores of every package are numbered from 0 without gaps.
\<close>

theorem GetCpuCores_counts:
  assumes "sint (hardware_concurrency m) \<le> 0" "cpuinfo m = Some (concat (map cpu_lines procs))" "list_all plain_processor procs"
    and "procs \<noteq> []" "list_all id_ok (map place procs)" "contiguous (map place procs)" "int (card (place ` set procs)) \<le> INT_MAX"
  shows "GetCpuCores m = Ret (Inr (int (card (place ` set procs))))"
proof -
  let ?m = "foldl add_core [] (map place procs)"
  note r = add_core_result [of "[]" "map place procs", simplified]
  have s: "sum_list (map snd ?m) = int (card (place ` set procs))"
    using map_sum [of ?m] r contiguous_card [OF assms(6,5)] by simp
  have "0 \<le> v" if "(p, v) \<in> set ?m" for p v
  proof -
    have "cores_at p ?m = v" using that map_ok_distinct [of ?m] r by (simp add: cores_at_def)
    moreover have "0 \<le> cores_at p ?m" using r by simp
    ultimately show ?thesis by simp
  qed
  then have "list_all (\<lambda>e. 0 \<le> snd e) ?m" by (auto simp: list_all_iff)
  then have "sum_cores ?m 0 = Ret (int (card (place ` set procs)))"
    using sum_cores_list [of ?m 0] s assms(7) by simp
  moreover have "0 < int (card (place ` set procs))" using assms(4) by (simp add: card_gt_0_iff)
  ultimately show ?thesis
    using assms by (simp add: GetCpuCores_def count_cores_def core_loop_lines physical_ids_lines)
qed

text \<open>Two packages, the first with two cores of two threads each, in the layout of the kernel.\<close>

definition demo_processor :: "int \<Rightarrow> int \<Rightarrow> int \<Rightarrow> processor" where
  "demo_processor n p c =
     \<lparr>lines_above = [''processor : '' @ to_string_int n, ''vendor_id : GenuineIntel'', ''model name : Example''], package = p,
      lines_between = [''siblings : 4''], core = c, lines_below = [''cpu cores : 2'', ''flags : fpu'', []]\<rparr>"

definition demo_processors :: "processor list" where
  "demo_processors = [demo_processor 0 0 0, demo_processor 1 0 1, demo_processor 2 0 0, demo_processor 3 0 1, demo_processor 4 1 0]"

definition demo_cpuinfo :: machine where
  "demo_cpuinfo =
     \<lparr>files = (\<lambda>f. if f = ''/proc/cpuinfo'' then Some (concat (map (\<lambda>l. l @ [newline]) (concat (map cpu_lines demo_processors)))) else None),
      commands = (\<lambda>_. None), hardware_concurrency = 0, online_processors = 0\<rparr>"

theorem GetCpuCores_counts_witness: "GetCpuCores demo_cpuinfo = Ret (Inr 3)"
proof -
  have "cpuinfo demo_cpuinfo = Some (concat (map cpu_lines demo_processors))"
    by (simp add: cpuinfo_def demo_cpuinfo_def) code_simp
  moreover have "list_all plain_processor demo_processors" by code_simp
  moreover have "card (place ` set demo_processors) = 3" by code_simp
  moreover have "contiguous (map place demo_processors)" by code_simp
  moreover have "list_all id_ok (map place demo_processors)" by code_simp
  moreover have "sint (hardware_concurrency demo_cpuinfo) \<le> 0" by (simp add: demo_cpuinfo_def)
  moreover have "demo_processors \<noteq> []" by (simp add: demo_processors_def)
  ultimately show ?thesis using GetCpuCores_counts [of demo_cpuinfo demo_processors] by simp
qed

text \<open>A machine that tells its number of logical processors has that many cores, whatever \<^verbatim>\<open>/proc/cpuinfo\<close> says of the cores.\<close>

lemma GetCpuCores_logical: "0 < sint (hardware_concurrency m) \<Longrightarrow> GetCpuCores m = Ret (Inr (sint (hardware_concurrency m)))"
  by (simp add: GetCpuCores_def)

section \<open>The vendor of the graphics adapter\<close>

lemma pci_loop_first:
  "list_all (\<lambda>l. pci_vendor_id l \<notin> Some ` {''10de'', ''1002'', ''8086''}) pre \<Longrightarrow> pci_loop (pre @ ls) = pci_loop ls"
  by (induction pre) auto

text \<open>
  The PCI database lists all known vendors, not the adapters of the machine: without the NVIDIA driver the answer is the vendor whose line comes
  first there, AMD for the database's order, and neither the machine's adapters nor the output of \<^verbatim>\<open>lspci\<close> matter.
\<close>

theorem GetGpuVendor_from_database:
  assumes "files m ''/proc/driver/nvidia/version'' = None" "pci_ids m = Some t" "getlines t = pre @ l # post"
    and "list_all (\<lambda>l. pci_vendor_id l \<notin> Some ` {''10de'', ''1002'', ''8086''}) pre" "pci_vendor_id l = Some ''1002''"
  shows "GetGpuVendor m = ''AMD''"
proof -
  have "pci_loop (getlines t) = ''AMD''" using assms(3-5) by (simp add: pci_loop_first)
  then show ?thesis using assms(1,2) by (simp add: GetGpuVendor_def)
qed

definition intel_machine :: machine where
  "intel_machine =
     \<lparr>files = (\<lambda>f. if f = ''/usr/share/misc/pci.ids''
               then Some (''0010  Allied Telesis'' @ newline # ''1002  Advanced Micro Devices'' @ newline # ''8086  Intel Corporation'' @ [newline]) else None),
      commands = (\<lambda>_. Some ''00:02.0 VGA compatible controller: Intel HD Graphics''), hardware_concurrency = 8, online_processors = 8\<rparr>"

theorem GetGpuVendor_from_database_witness: "GetGpuVendor intel_machine = ''AMD''"
proof -
  have "pci_ids intel_machine = Some (''0010  Allied Telesis'' @ newline # ''1002  Advanced Micro Devices'' @ newline # ''8086  Intel Corporation'' @ [newline])"
    by (simp add: pci_ids_def intel_machine_def)
  moreover have "getlines (''0010  Allied Telesis'' @ newline # ''1002  Advanced Micro Devices'' @ newline # ''8086  Intel Corporation'' @ [newline])
      = [''0010  Allied Telesis''] @ ''1002  Advanced Micro Devices'' # [''8086  Intel Corporation'']"
    by code_simp
  moreover have "pci_vendor_id ''0010  Allied Telesis'' = Some ''0010''" "pci_vendor_id ''1002  Advanced Micro Devices'' = Some ''1002''"
    by code_simp+
  moreover have "files intel_machine ''/proc/driver/nvidia/version'' = None" by (simp add: intel_machine_def)
  ultimately show ?thesis
    using GetGpuVendor_from_database [where pre = "[''0010  Allied Telesis'']" and m = intel_machine] by simp
qed

text \<open>The memory is asked of the vendor's tool; an answer that is no number is an exception, on NVIDIA and on AMD.\<close>

lemma GetGpuMemoryMB_throws:
  "GetGpuVendor m = ''NVIDIA'' \<Longrightarrow> first_output m 32 nvidia_smi_cmd = Some out \<Longrightarrow> strto 10 out = None \<Longrightarrow>
    GetGpuMemoryMB m = Inl (InvalidArgument ''stoi'')"
  by (simp add: GetGpuMemoryMB_def sto_range_def)

text \<open>A constructed \<^verbatim>\<open>HWInfo\<close> has no values: \<^verbatim>\<open>detect\<close> is private and nothing calls it.\<close>

lemma HWInfo_new_empty: "cpu_cores HWInfo_new = None" "gpu_memory_mb HWInfo_new = None"
  by (simp_all add: HWInfo_new_def)

lemma GetCpuCores_pos: "GetCpuCores m = Ret (Inr n) \<Longrightarrow> 1 \<le> n"
  by (auto simp: GetCpuCores_def Let_def split: if_splits sum.splits elim!: bind_ub.elims)

lemma HWInfo_detect_fields:
  "HWInfo_detect m h = Ret (Inr h') \<Longrightarrow> cpu_threads h' = Some (GetCpuThreads m) \<and> (\<exists>n. GetCpuCores m = Ret (Inr n) \<and> cpu_cores h' = Some n \<and> 1 \<le> n)"
  using GetCpuCores_pos [of m] by (cases "GetCpuCores m") (auto simp: HWInfo_detect_def bind_sum_Inr_iff)

end
