(* ===== verification/Os_Windows.thy ===== *)
theory Os_Windows
  imports Os_Environment
begin

text \<open>
  The branches for Windows of \<^verbatim>\<open>src/breutil/os.hpp\<close> that are not with the environment array: the block of the environment as \<^verbatim>\<open>Environ\<close> walks over it, and the paths. A wide
  string is a list of 16-bit units. What the system answers, and its conversions between wide and narrow strings, are arguments.
\<close>

type_synonym wide = "16 word list"

record win_conversions =
  wide_to_utf8 :: "wide \<Rightarrow> string"
  utf8_to_wide :: "string \<Rightarrow> wide"

definition WStringToUTF8 :: "win_conversions \<Rightarrow> wide \<Rightarrow> string" where
  "WStringToUTF8 conv w = (if w = [] then [] else wide_to_utf8 conv w)"

definition UTF8ToWString :: "win_conversions \<Rightarrow> string \<Rightarrow> wide" where
  "UTF8ToWString conv s = (if s = [] then [] else utf8_to_wide conv s)"

section \<open>The environment block\<close>

text \<open>The body of the loop: an entry \<^verbatim>\<open>name=value\<close> goes into the map.\<close>

definition add_wide_entry :: "win_conversions \<Rightarrow> (string, string) std_map \<Rightarrow> wide \<Rightarrow> (string, string) std_map" where
  "add_wide_entry conv m entry =
     (case find_index (\<lambda>c. c = 61) entry of
        Some eq \<Rightarrow> map_set (WStringToUTF8 conv (take eq entry)) (WStringToUTF8 conv (drop (eq + 1) entry)) m
      | None \<Rightarrow> m)"

text \<open>The pointer is the memory from there on; running past the end of the memory is undefined.\<close>

function environ_loop :: "win_conversions \<Rightarrow> wide \<Rightarrow> (string, string) std_map \<Rightarrow> (string, string) std_map cpp_result" where
  "environ_loop conv p m =
     (case p of
        [] \<Rightarrow> UB
      | c # _ \<Rightarrow>
          if c = 0 then Ret m
          else let entry = takeWhile (\<lambda>c. c \<noteq> 0) p
               in if length p \<le> length entry then UB
                  else environ_loop conv (drop (length entry + 1) p) (add_wide_entry conv m entry))"
  by pat_completeness auto
termination by (relation "measure (\<lambda>(conv, p, m). length p)") auto

declare environ_loop.simps [simp del]

text \<open>The system's block, none if the call fails.\<close>

definition Environ_win :: "win_conversions \<Rightarrow> wide option \<Rightarrow> (string, string) std_map cpp_result" where
  "Environ_win conv envstrings = (case envstrings of None \<Rightarrow> Ret [] | Some p \<Rightarrow> environ_loop conv p [])"

text \<open>A block as the system lays it out: entries that are not empty, each ended by a zero, and one more zero.\<close>

definition env_block :: "wide list \<Rightarrow> wide" where
  "env_block entries = concat (map (\<lambda>e. e @ [0]) entries) @ [0]"

lemma environ_loop_block:
  assumes "list_all (\<lambda>e. e \<noteq> [] \<and> 0 \<notin> set e) entries"
  shows "environ_loop conv (env_block entries @ rest) m = Ret (foldl (add_wide_entry conv) m entries)"
  using assms
proof (induction entries arbitrary: m)
  case Nil
  then show ?case by (simp add: env_block_def environ_loop.simps)
next
  case (Cons e entries)
  then obtain c cs where e: "e = c # cs" "c \<noteq> 0" "0 \<notin> set cs" by (cases e) auto
  then have t: "takeWhile (\<lambda>c. c \<noteq> 0) cs = cs" by (auto simp: takeWhile_eq_all_conv)
  have "takeWhile (\<lambda>c. c \<noteq> 0) (cs @ 0 # env_block entries @ rest) = cs"
    using e(3) by (subst takeWhile_append2) auto
  then show ?case using Cons e by (subst environ_loop.simps) (simp add: env_block_def)
qed

text \<open>\<^verbatim>\<open>Environ\<close> reads every entry of the block, in order, and nothing that lies behind it.\<close>

theorem Environ_win_block:
  "list_all (\<lambda>e. e \<noteq> [] \<and> 0 \<notin> set e) entries \<Longrightarrow>
    Environ_win conv (Some (env_block entries @ rest)) = Ret (foldl (add_wide_entry conv) [] entries)"
  by (simp add: Environ_win_def environ_loop_block)

text \<open>
  The system keeps the current directory of each drive in entries such as \<^verbatim>\<open>=C:=C:\dir\<close>. Their first equals sign is at the start, so that they all go under the empty name.
\<close>

lemma Environ_win_hidden_entries:
  assumes "0 \<notin> set v"
  shows "Environ_win conv (Some (env_block [61 # v])) = Ret [([], WStringToUTF8 conv v)]"
  using assms Environ_win_block [of "[61 # v]" conv "[]"]
  by (simp add: add_wide_entry_def WStringToUTF8_def)

section \<open>Paths\<close>

abbreviation MAX_PATH :: nat where "MAX_PATH \<equiv> 260"

text \<open>
  What the system answers: the directories are none when the call fails. \<^verbatim>\<open>GetCurrentDirectoryW\<close> and \<^verbatim>\<open>GetTempPathW\<close> leave the buffer as it is when the path and its zero do not
  fit, and return the size they need, which is not the zero that the code looks for.
\<close>

record win_process =
  win_cwd :: "wide option"
  win_temp :: "wide option"
  win_module :: "wide option"
  win_computer :: "wide option"
  win_page :: "32 word"

definition fill_buffer :: "win_conversions \<Rightarrow> string \<Rightarrow> wide option \<Rightarrow> (std_exn + string) cpp_result" where
  "fill_buffer conv msg path =
     (case path of
        None \<Rightarrow> Ret (Inl (RuntimeError msg))
      | Some d \<Rightarrow> if length d + 1 \<le> MAX_PATH then Ret (Inr (WStringToUTF8 conv d)) else UB)"

definition Getwd_win :: "win_conversions \<Rightarrow> win_process \<Rightarrow> (std_exn + string) cpp_result" where
  "Getwd_win conv p = fill_buffer conv ''Getwd: GetCurrentDirectory failed'' (win_cwd p)"

definition with_separator :: "string \<Rightarrow> string" where
  "with_separator path = (if path \<noteq> [] \<and> last path \<noteq> CHR 0x5C \<and> last path \<noteq> CHR ''/'' then path @ [CHR 0x5C] else path)"

definition TempDir_win :: "win_conversions \<Rightarrow> win_process \<Rightarrow> (std_exn + string) cpp_result" where
  "TempDir_win conv p =
     (case fill_buffer conv ''TempDir: GetTempPath failed'' (win_temp p) of
        Ret (Inr path) \<Rightarrow> Ret (Inr (with_separator path))
      | r \<Rightarrow> r)"

text \<open>\<^verbatim>\<open>GetModuleFileNameW\<close> cuts a path that is too long and reports the size of the buffer.\<close>

definition Executable_win :: "win_conversions \<Rightarrow> win_process \<Rightarrow> std_exn + string" where
  "Executable_win conv p =
     (case win_module p of
        None \<Rightarrow> Inl (RuntimeError ''Executable: GetModuleFileName failed'')
      | Some d \<Rightarrow> Inr (WStringToUTF8 conv (take (MAX_PATH - 1) d)))"

definition Hostname_win :: "win_conversions \<Rightarrow> win_process \<Rightarrow> std_exn + string" where
  "Hostname_win conv p =
     (case win_computer p of
        None \<Rightarrow> Inl (RuntimeError ''Hostname: GetComputerName failed'')
      | Some n \<Rightarrow> Inr (WStringToUTF8 conv n))"

definition Getpagesize_win :: "win_process \<Rightarrow> int" where
  "Getpagesize_win p = sint (win_page p)"

text \<open>A current directory of 260 units or more makes \<^verbatim>\<open>Getwd\<close> read a buffer that nothing was written to.\<close>

lemma Getwd_win_long:
  "win_cwd p = Some d \<Longrightarrow> MAX_PATH \<le> length d \<Longrightarrow> Getwd_win conv p = UB"
  by (simp add: Getwd_win_def fill_buffer_def)

lemma with_separator_idem: "with_separator (with_separator path) = with_separator path"
  by (simp add: with_separator_def)

text \<open>A file name can be put behind what \<^verbatim>\<open>TempDir\<close> returns: a path that is not empty ends with a separator.\<close>

lemma TempDir_win_separator:
  "TempDir_win conv p = Ret (Inr path) \<Longrightarrow> path \<noteq> [] \<Longrightarrow> last path = CHR 0x5C \<or> last path = CHR ''/''"
  by (auto simp: TempDir_win_def with_separator_def split: cpp_result.splits sum.splits if_splits)

section \<open>Names of the platform\<close>

text \<open>\<^verbatim>\<open>OS\<close> and \<^verbatim>\<open>ARCH\<close> of \<^verbatim>\<open>src/breutil/runtime.hpp\<close>, by the macros that the compiler defines.\<close>

definition OS :: "string set \<Rightarrow> string" where
  "OS macros =
     (if ''_WIN32'' \<in> macros then ''windows''
      else if ''__linux__'' \<in> macros then ''linux''
      else if ''__APPLE__'' \<in> macros then ''darwin''
      else if ''__FreeBSD__'' \<in> macros then ''freebsd''
      else ''unknown'')"

definition ARCH :: "string set \<Rightarrow> string" where
  "ARCH macros =
     (if ''__x86_64__'' \<in> macros \<or> ''_M_X64'' \<in> macros then ''amd64''
      else if ''__i386__'' \<in> macros \<or> ''_M_IX86'' \<in> macros then ''386''
      else if ''__aarch64__'' \<in> macros \<or> ''_M_ARM64'' \<in> macros then ''arm64''
      else if ''__arm__'' \<in> macros then ''arm''
      else ''unknown'')"

section \<open>Names of processes\<close>

text \<open>
  \<^verbatim>\<open>GetProcessName\<close> and \<^verbatim>\<open>GetProcessPath\<close> of \<^verbatim>\<open>src/breutil/sys_win/utils.hpp\<close>: \<open>opened\<close> tells whether the process could be opened, \<open>answer\<close> is the text that the system
  puts into the buffer, if any.
\<close>

definition GetProcessName :: "bool \<Rightarrow> string option \<Rightarrow> string" where
  "GetProcessName opened answer =
     (if \<not> opened then [] else case answer of Some name \<Rightarrow> c_str (take (MAX_PATH - 1) name) | None \<Rightarrow> [])"

definition GetProcessPath :: "bool \<Rightarrow> string option \<Rightarrow> string" where
  "GetProcessPath opened answer =
     (if \<not> opened then [] else case answer of Some path \<Rightarrow> c_str (take (MAX_PATH - 1) path) | None \<Rightarrow> [])"

end
