(* ===== verification/Os_User.thy ===== *)
theory Os_User
  imports Os_Environment
begin

text \<open>
  \<^verbatim>\<open>src/breutil/os/user.hpp\<close> on POSIX systems: users and groups. The databases are lists of entries, in the order in which the C library searches them.
  A lookup gives no result when the entry is missing or when its texts do not fit into the buffer.
\<close>

section \<open>The databases\<close>

record passwd =
  pw_name :: string
  pw_uid :: u32
  pw_gid :: u32
  pw_gecos :: string
  pw_dir :: string
  pw_size :: nat

record "group" =
  gr_name :: string
  gr_gid :: u32
  gr_size :: nat

text \<open>\<open>GETPW_R_SIZE_MAX\<close> and \<open>GETGR_R_SIZE_MAX\<close> are what \<^verbatim>\<open>sysconf\<close> gives, -1 if it has no limit to give.\<close>

record user_system =
  passwds :: "passwd list"
  groups :: "group list"
  pw_max :: int
  gr_max :: int
  own_uid :: u32

definition bufsize :: "int \<Rightarrow> nat" where
  "bufsize n = (if n = - 1 then 16384 else nat n)"

definition getpw :: "user_system \<Rightarrow> nat \<Rightarrow> (passwd \<Rightarrow> bool) \<Rightarrow> passwd option" where
  "getpw sys n P = (case find P (passwds sys) of Some p \<Rightarrow> if pw_size p \<le> n then Some p else None | None \<Rightarrow> None)"

definition getgr :: "user_system \<Rightarrow> nat \<Rightarrow> (group \<Rightarrow> bool) \<Rightarrow> group option" where
  "getgr sys n P = (case find P (groups sys) of Some g \<Rightarrow> if gr_size g \<le> n then Some g else None | None \<Rightarrow> None)"

text \<open>\<^verbatim>\<open>std::stoul\<close>: a minus sign negates modulo \<open>2 ^ 64\<close>.\<close>

definition stoul :: "string \<Rightarrow> std_exn + u64" where
  "stoul s =
     (let (neg, t) = strip_sign (dropWhile isspace s); ds = takeWhile isdigit t; n = digits_value 10 ds
      in if ds = [] then Inl (InvalidArgument ''stoul'')
         else if 2 ^ 64 \<le> n then Inl (OutOfRange ''stoul'')
         else Inr (if neg then - word_of_nat n else word_of_nat n))"

section \<open>The functions\<close>

record Info =
  Uid :: string
  Gid :: string
  Username :: string
  Name :: string
  HomeDir :: string

record Group =
  Group_Gid :: string
  Group_Name :: string

definition fillInfoFromPasswd :: "passwd \<Rightarrow> Info" where
  "fillInfoFromPasswd pwd =
     \<lparr>Uid = to_string_int (uint (pw_uid pwd)), Gid = to_string_int (uint (pw_gid pwd)), Username = pw_name pwd, Name = pw_gecos pwd, HomeDir = pw_dir pwd\<rparr>"

definition Current :: "user_system \<Rightarrow> std_exn + Info" where
  "Current sys =
     (case getpw sys (bufsize (pw_max sys)) (\<lambda>p. pw_uid p = own_uid sys) of
        None \<Rightarrow> Inl (RuntimeError ''getpwuid_r failed: user not found'')
      | Some pwd \<Rightarrow> Inr (fillInfoFromPasswd pwd))"

definition LookupId :: "user_system \<Rightarrow> string \<Rightarrow> std_exn + Info" where
  "LookupId sys uid =
     bind_sum (stoul uid) (\<lambda>n. let uid_num = ucast n :: u32 in
       case getpw sys (bufsize (pw_max sys)) (\<lambda>p. pw_uid p = uid_num) of
         None \<Rightarrow> Inl (RuntimeError ''getpwuid_r failed: user not found'')
       | Some pwd \<Rightarrow> Inr (fillInfoFromPasswd pwd))"

definition Lookup :: "user_system \<Rightarrow> string \<Rightarrow> std_exn + Info" where
  "Lookup sys username =
     (case getpw sys (bufsize (pw_max sys)) (\<lambda>p. pw_name p = c_str username) of
        None \<Rightarrow> Inl (RuntimeError ''getpwnam_r failed: user not found'')
      | Some pwd \<Rightarrow> Inr (fillInfoFromPasswd pwd))"

definition fillGroupFromGrp :: "group \<Rightarrow> Group" where
  "fillGroupFromGrp grp = \<lparr>Group_Gid = to_string_int (uint (gr_gid grp)), Group_Name = gr_name grp\<rparr>"

definition LookupGroup :: "user_system \<Rightarrow> string \<Rightarrow> std_exn + Group" where
  "LookupGroup sys gid =
     bind_sum (stoul gid) (\<lambda>n. let gid_num = ucast n :: u32 in
       case getgr sys (bufsize (gr_max sys)) (\<lambda>g. gr_gid g = gid_num) of
         None \<Rightarrow> Inl (RuntimeError ''getgrgid_r failed: group not found'')
       | Some grp \<Rightarrow> Inr (fillGroupFromGrp grp))"

definition LookupGroupName :: "user_system \<Rightarrow> string \<Rightarrow> std_exn + Group" where
  "LookupGroupName sys name =
     (case getgr sys (bufsize (gr_max sys)) (\<lambda>g. gr_name g = c_str name) of
        None \<Rightarrow> Inl (RuntimeError ''getgrnam_r failed: group not found'')
      | Some grp \<Rightarrow> Inr (fillGroupFromGrp grp))"

section \<open>Round trips\<close>

lemma stoul_to_string:
  assumes "n < 2 ^ 64"
  shows "stoul (to_string_int (int n)) = Inr (word_of_nat n)"
proof -
  have all: "list_all (is_base_digit 10) (to_digits 10 n)" by (rule list_all_to_digits) auto
  obtain c t where ct: "to_digits 10 n = c # t" by (cases "to_digits 10 n") auto
  have d: "isdigit c" "takeWhile isdigit t = t" using all ct by (auto simp: list_all_iff takeWhile_eq_all_conv)
  then have "strip_sign (c # t) = (False, c # t)" by (intro strip_sign_digit [of 10]) simp
  moreover have "digits_value 10 (c # t) = n" using digits_value_to_digits [of 10 n] ct by simp
  ultimately show ?thesis
    using assms d(1) isdigit_not_isspace [of c] by (simp add: stoul_def to_chars_int_def ct d(2) Let_def)
qed

lemma ucast_of_nat_u32: "(ucast (word_of_nat n :: u64) :: u32) = word_of_nat n"
  by (rule bit_word_eqI) (auto simp: bit_simps)

lemma stoul_uid: "stoul (to_string_int (uint (u :: u32))) = Inr (ucast u)"
proof -
  have "unat u < 2 ^ 32" using unsigned_less [of u, where 'a = nat] by simp
  then have "stoul (to_string_int (int (unat u))) = Inr (word_of_nat (unat u))" by (intro stoul_to_string) simp
  then show ?thesis by simp
qed

lemma ucast_ucast_u32: "(ucast (ucast u :: u64) :: u32) = u"
  by (rule bit_word_eqI) (auto simp: bit_simps)

lemma LookupId_number:
  assumes "n < 2 ^ 64"
  shows "LookupId sys (to_string_int (int n)) =
           (case getpw sys (bufsize (pw_max sys)) (\<lambda>p. pw_uid p = word_of_nat n) of
              None \<Rightarrow> Inl (RuntimeError ''getpwuid_r failed: user not found'') | Some pwd \<Rightarrow> Inr (fillInfoFromPasswd pwd))"
  by (simp add: LookupId_def stoul_to_string [OF assms] ucast_of_nat_u32 Let_def)

lemma LookupId_uid:
  "LookupId sys (to_string_int (uint (u :: u32))) =
     (case getpw sys (bufsize (pw_max sys)) (\<lambda>p. pw_uid p = u) of
        None \<Rightarrow> Inl (RuntimeError ''getpwuid_r failed: user not found'') | Some pwd \<Rightarrow> Inr (fillInfoFromPasswd pwd))"
  by (simp add: LookupId_def stoul_uid ucast_ucast_u32)

text \<open>
  The current user is found again under the identifier and, where names are unique and are C strings, under the name that the record gives.
\<close>

theorem user_round_trip:
  assumes "Current sys = Inr info" "distinct (map pw_name (passwds sys))" "CHR 0x00 \<notin> set (Username info)"
  shows "LookupId sys (Uid info) = Inr info \<and> Lookup sys (Username info) = Inr info"
proof -
  obtain p where p: "getpw sys (bufsize (pw_max sys)) (\<lambda>p. pw_uid p = own_uid sys) = Some p" "info = fillInfoFromPasswd p"
    using assms(1) by (auto simp: Current_def split: option.splits)
  then have f: "find (\<lambda>p. pw_uid p = own_uid sys) (passwds sys) = Some p" "pw_size p \<le> bufsize (pw_max sys)"
    by (auto simp: getpw_def split: option.splits if_splits)
  then have u: "pw_uid p = own_uid sys" "p \<in> set (passwds sys)" by (auto simp: find_Some_iff)
  have "LookupId sys (Uid info) = Inr info"
    using p u(1) by (simp add: fillInfoFromPasswd_def LookupId_uid)
  moreover have "find (\<lambda>q. pw_name q = pw_name p) (passwds sys) = Some p"
  proof -
    have "find (\<lambda>q. pw_name q = pw_name p) (passwds sys) \<noteq> None" using u(2) by (auto simp: find_None_iff)
    then obtain q where q: "find (\<lambda>q. pw_name q = pw_name p) (passwds sys) = Some q" by blast
    then have "q \<in> set (passwds sys)" "pw_name q = pw_name p" by (auto simp: find_Some_iff)
    with u(2) assms(2) have "q = p" by (auto simp: distinct_map dest: inj_onD)
    with q show ?thesis by simp
  qed
  then have "Lookup sys (Username info) = Inr info"
    using assms(3) f(2) p(2) by (simp add: Lookup_def getpw_def fillInfoFromPasswd_def)
  ultimately show ?thesis ..
qed

definition demo_users :: user_system where
  "demo_users =
     \<lparr>passwds = [\<lparr>pw_name = ''root'', pw_uid = 0, pw_gid = 0, pw_gecos = ''root'', pw_dir = ''/root'', pw_size = 40\<rparr>,
                 \<lparr>pw_name = ''ann'', pw_uid = 1000, pw_gid = 100, pw_gecos = ''Ann'', pw_dir = ''/home/ann'', pw_size = 40\<rparr>],
      groups = [], pw_max = - 1, gr_max = - 1, own_uid = 1000\<rparr>"

theorem user_round_trip_witness:
  "case Current demo_users of Inl _ \<Rightarrow> False
     | Inr info \<Rightarrow> LookupId demo_users (Uid info) = Inr info \<and> Lookup demo_users (Username info) = Inr info"
proof -
  obtain info where i: "Current demo_users = Inr info" "Username info = ''ann''"
    by (simp add: Current_def demo_users_def getpw_def bufsize_def fillInfoFromPasswd_def)
  with user_round_trip [OF i(1)] show ?thesis by (simp add: demo_users_def)
qed

text \<open>
  The number is cut to 32 bits: two identifiers that differ by \<open>2 ^ 32\<close> name the same user, so that \<^verbatim>\<open>4294967296\<close> is the superuser.
\<close>

lemma LookupId_wraps:
  assumes "n + 2 ^ 32 < 2 ^ 64"
  shows "LookupId sys (to_string_int (int (n + 2 ^ 32))) = LookupId sys (to_string_int (int n))"
proof -
  have "(2 :: u32) ^ 32 = 0" by (simp only: exp_eq_zero_iff) simp
  then have "(word_of_nat (n + 2 ^ 32) :: u32) = word_of_nat n" by (simp only: of_nat_add of_nat_power of_nat_numeral add_0_right)
  with assms show ?thesis using LookupId_number [of "n + 2 ^ 32" sys] LookupId_number [of n sys] by (simp only:)
qed

lemma LookupId_superuser: "LookupId sys ''4294967296'' = LookupId sys ''0''"
proof -
  have "to_string_int (int (0 + 2 ^ 32)) = ''4294967296''" "to_string_int (int 0) = ''0''"
    by (simp_all add: to_chars_int_def to_digits.simps digit_char_def char_of_def bit_0)
  moreover have "(0 :: nat) + 2 ^ 32 < 2 ^ 64" by simp
  ultimately show ?thesis using LookupId_wraps [of 0 sys] by metis
qed

lemma LookupGroup_gid:
  "gr_size g \<le> bufsize (gr_max sys) \<Longrightarrow> find (\<lambda>h. gr_gid h = gr_gid g) (groups sys) = Some g \<Longrightarrow>
    LookupGroup sys (to_string_int (uint (gr_gid g))) = Inr (fillGroupFromGrp g)"
  by (simp add: LookupGroup_def stoul_uid ucast_ucast_u32 getgr_def)

end
