(* ===== verification/Network_Interface.thy ===== *)
theory Network_Interface
  imports Std_Map Ip_Address Mac_Address Os_Environment
begin

text \<open>
  \<^verbatim>\<open>src/breutil/net/network_interface.hpp\<close>: the cached list of the local network interfaces, on Linux, macOS and Windows, with the classes \<^verbatim>\<open>Ip\<close> and
  \<^verbatim>\<open>Mac\<close>. What the operating system lists is an argument, and \<^verbatim>\<open>inet_ntop\<close> is a parameter.
\<close>

section \<open>Data\<close>

datatype InterfaceType = ANY | UNKNOWN | ETHERNET | WIFI | LOOPBACK | OTHER

datatype AddressType = ANY_ADDRESS | IPV4 | IPV6

record network_interface =
  iface_ip :: ip
  iface_mac :: mac
  iface_name :: string
  iface_message :: string
  iface_addr_type :: AddressType
  iface_type :: InterfaceType

definition NetworkInterface :: "ip \<Rightarrow> mac \<Rightarrow> string \<Rightarrow> AddressType \<Rightarrow> InterfaceType \<Rightarrow> network_interface" where
  "NetworkInterface ip mac if_name addr_type if_type =
     \<lparr>iface_ip = ip, iface_mac = mac, iface_name = if_name, iface_message = [], iface_addr_type = addr_type, iface_type = if_type\<rparr>"

definition SetMessage :: "string \<Rightarrow> network_interface \<Rightarrow> network_interface" where
  "SetMessage msg n = n \<lparr>iface_message := msg\<rparr>"

definition DetermineInterfaceType :: "string \<Rightarrow> bool \<Rightarrow> InterfaceType" where
  "DetermineInterfaceType if_name is_loopback =
     (if is_loopback then LOOPBACK
      else if find_sub ''eth'' if_name = Some 0 \<or> find_sub ''en'' if_name = Some 0 then ETHERNET
      else if find_sub ''wlan'' if_name = Some 0 \<or> find_sub ''wifi'' if_name = Some 0 \<or> find_sub ''wl'' if_name = Some 0 then WIFI
      else OTHER)"

section \<open>Linux and macOS\<close>

text \<open>An address of the list that \<^verbatim>\<open>getifaddrs\<close> gives.\<close>

datatype sockaddr = Inet "byte list" | Inet6 "byte list" | Link "byte list" | Other_Family

record ifaddr =
  ifa_name :: string
  ifa_addr :: "sockaddr option"
  ifa_up :: bool
  ifa_loopback :: bool

type_synonym ntop = "byte list \<Rightarrow> string"

text \<open>The text of an address and its type; no text for other families.\<close>

definition address_text :: "ntop \<Rightarrow> sockaddr \<Rightarrow> string \<times> AddressType" where
  "address_text ntop sa =
     (case sa of Inet b \<Rightarrow> (ntop b, IPV4) | Inet6 b \<Rightarrow> (ntop b, IPV6) | _ \<Rightarrow> ([], ANY_ADDRESS))"

text \<open>\<^verbatim>\<open>SIOCGIFHWADDR\<close> for the name, cut to the size of the request; \<open>None\<close> if the socket or the request fails.\<close>

definition linux_mac :: "(string \<Rightarrow> byte list option) \<Rightarrow> string \<Rightarrow> mac" where
  "linux_mac hwaddr name = (case hwaddr (take 15 name) of Some b \<Rightarrow> Mac_array (take 6 b) | None \<Rightarrow> Mac_default)"

definition macos_macs :: "ifaddr list \<Rightarrow> (string, mac) std_map" where
  "macos_macs addrs =
     foldl (\<lambda>m p. case ifa_addr p of Some (Link b) \<Rightarrow> if length b = 6 then map_set (ifa_name p) (Mac_array b) m else m | _ \<Rightarrow> m) [] addrs"

definition macos_mac :: "ifaddr list \<Rightarrow> string \<Rightarrow> mac" where
  "macos_mac addrs name = (case map_of (macos_macs addrs) name of Some a \<Rightarrow> a | None \<Rightarrow> Mac_default)"

text \<open>One turn of the loop: what an entry adds to the cache.\<close>

definition collect_entry :: "ntop \<Rightarrow> (string \<Rightarrow> mac) \<Rightarrow> ifaddr \<Rightarrow> network_interface list" where
  "collect_entry ntop mac_of p =
     (case ifa_addr p of
        None \<Rightarrow> []
      | Some sa \<Rightarrow>
          if (case sa of Inet _ \<Rightarrow> False | Inet6 _ \<Rightarrow> False | _ \<Rightarrow> True) then []
          else if \<not> ifa_up p then []
          else
            (case address_text ntop sa of (ip_str, addr_type) \<Rightarrow>
               if ip_str = [] then []
               else [NetworkInterface (Ip_string ip_str) (mac_of (ifa_name p)) (ifa_name p) addr_type
                       (DetermineInterfaceType (ifa_name p) (ifa_loopback p))]))"

definition CollectInterfaceInfo_lin :: "ntop \<Rightarrow> (string \<Rightarrow> byte list option) \<Rightarrow> ifaddr list option \<Rightarrow> network_interface list" where
  "CollectInterfaceInfo_lin ntop hwaddr ifaddrs =
     (case ifaddrs of None \<Rightarrow> [] | Some addrs \<Rightarrow> concat (map (collect_entry ntop (linux_mac hwaddr)) addrs))"

definition CollectInterfaceInfo_mac :: "ntop \<Rightarrow> ifaddr list option \<Rightarrow> network_interface list" where
  "CollectInterfaceInfo_mac ntop ifaddrs =
     (case ifaddrs of None \<Rightarrow> [] | Some addrs \<Rightarrow> concat (map (collect_entry ntop (macos_mac addrs)) addrs))"

section \<open>Windows\<close>

record adapter =
  adapter_up :: bool
  friendly_name :: "string option"
  physical_address :: "byte list"
  software_loopback :: bool
  unicast :: "sockaddr list"

text \<open>What \<^verbatim>\<open>GetAdaptersAddresses\<close> answers at each attempt, \<open>None\<close> when there is no memory.\<close>

datatype adapters_result = Adapters "adapter list" | Buffer_Overflow | Failed

fun adapter_attempts :: "(nat \<Rightarrow> adapters_result option) \<Rightarrow> nat list \<Rightarrow> adapter list option" where
  "adapter_attempts ask [] = None"
| "adapter_attempts ask (i # is) =
     (case ask i of
        None \<Rightarrow> None
      | Some (Adapters as) \<Rightarrow> Some as
      | Some Buffer_Overflow \<Rightarrow> adapter_attempts ask is
      | Some Failed \<Rightarrow> None)"

definition collect_adapter :: "ntop \<Rightarrow> adapter \<Rightarrow> network_interface list" where
  "collect_adapter ntop a =
     (if \<not> adapter_up a then []
      else
        let if_name = (case friendly_name a of Some n \<Rightarrow> n | None \<Rightarrow> []);
            mac_addr = (if length (physical_address a) = 6 then Mac_array (physical_address a) else Mac_default);
            if_type = DetermineInterfaceType if_name (software_loopback a)
        in concat (map (\<lambda>sa. case address_text ntop sa of (ip_str, addr_type) \<Rightarrow>
                            if ip_str \<noteq> [] then [NetworkInterface (Ip_string ip_str) mac_addr if_name addr_type if_type] else [])
                     (unicast a)))"

definition CollectInterfaceInfo_win :: "ntop \<Rightarrow> (nat \<Rightarrow> adapters_result option) \<Rightarrow> network_interface list" where
  "CollectInterfaceInfo_win ntop ask =
     (case adapter_attempts ask [0, 1, 2] of None \<Rightarrow> [] | Some as \<Rightarrow> concat (map (collect_adapter ntop) as))"

section \<open>The cache\<close>

text \<open>\<open>collected\<close> is what \<^verbatim>\<open>CollectInterfaceInfo\<close> leaves in the cache if it is called. The result is the answer and the new cache.\<close>

definition matches :: "AddressType \<Rightarrow> InterfaceType \<Rightarrow> network_interface \<Rightarrow> bool" where
  "matches addr_type_filter if_type_filter iface \<longleftrightarrow>
     (addr_type_filter = ANY_ADDRESS \<or> iface_addr_type iface = addr_type_filter) \<and>
     (if_type_filter = ANY \<or> iface_type iface = if_type_filter)"

definition Get :: "network_interface list \<Rightarrow> AddressType \<Rightarrow> InterfaceType \<Rightarrow> bool \<Rightarrow> network_interface list
    \<Rightarrow> network_interface list \<times> network_interface list" where
  "Get collected addr_type_filter if_type_filter refresh cache =
     (let cached = (if refresh \<or> cache = [] then collected else cache)
      in if addr_type_filter = ANY_ADDRESS \<and> if_type_filter = ANY then (cached, cached)
         else (filter (matches addr_type_filter if_type_filter) cached, cached))"

definition GetHostName :: "string option \<Rightarrow> string" where
  "GetHostName hostname = (case hostname of Some h \<Rightarrow> if length h + 1 \<le> 256 then h else [] | None \<Rightarrow> [])"

section \<open>What is listed\<close>

lemma Get_filter: "Get collected a t r cache =
    (filter (matches a t) (if r \<or> cache = [] then collected else cache), if r \<or> cache = [] then collected else cache)"
  by (auto simp: Get_def Let_def matches_def [abs_def])

text \<open>Without \<^verbatim>\<open>refresh\<close>, the answers come from the first list that was not empty.\<close>

lemma Get_cached: "cache \<noteq> [] \<Longrightarrow> Get collected a t False cache = Get collected' a t False cache"
  by (simp add: Get_def)

lemma Get_narrow: "Get c2 a t False (snd (Get c1 ANY_ADDRESS ANY True cache)) =
    (filter (matches a t) (if c1 = [] then c2 else c1), if c1 = [] then c2 else c1)"
  by (simp add: Get_filter)

lemma DetermineInterfaceType_cases:
  "DetermineInterfaceType n l \<in> {LOOPBACK, ETHERNET, WIFI, OTHER}"
  by (simp add: DetermineInterfaceType_def)

text \<open>The names that Windows gives: neither is recognised.\<close>

lemma windows_names: "DetermineInterfaceType ''Ethernet'' False = OTHER" "DetermineInterfaceType ''Wi-Fi'' False = OTHER"
  by (simp_all add: DetermineInterfaceType_def starts_with_def)

text \<open>The addresses of the active interfaces, in the order of the system's list.\<close>

definition up_addresses :: "ifaddr list \<Rightarrow> (string \<times> byte list) list" where
  "up_addresses addrs =
     concat (map (\<lambda>p. case ifa_addr p of
                        Some (Inet b) \<Rightarrow> if ifa_up p then [(ifa_name p, b)] else []
                      | Some (Inet6 b) \<Rightarrow> if ifa_up p then [(ifa_name p, b)] else []
                      | _ \<Rightarrow> []) addrs)"

text \<open>
  What \<^verbatim>\<open>inet_ntop\<close> is documented to give. An IPv4 address is written as four decimal numbers. An IPv6 address is written as its groups in hexadecimal,
  where one run of zero groups may be left out; an IPv4-mapped or IPv4-compatible address may have its last four bytes written like an IPv4 address.
\<close>

definition dotted :: "byte list \<Rightarrow> string" where
  "dotted b = to_string_int (uint (b ! 0)) @ ''.'' @ to_string_int (uint (b ! 1)) @ ''.'' @ to_string_int (uint (b ! 2)) @ ''.'' @ to_string_int (uint (b ! 3))"

definition inet6_text :: "byte list \<Rightarrow> string \<Rightarrow> bool" where
  "inet6_text b s \<longleftrightarrow>
     (let gs = map (group_at b) [0..<8] in
      s = colon_join gs
      \<or> (\<exists>i n. 0 < n \<and> i + n \<le> 8 \<and> take n (drop i gs) = replicate n 0 \<and> s = colon_join (take i gs) @ ''::'' @ colon_join (drop (i + n) gs)))"

definition mixed_text :: "byte list \<Rightarrow> string \<Rightarrow> bool" where
  "mixed_text b s \<longleftrightarrow> (s = ''::ffff:'' @ dotted (drop 12 b) \<and> take 12 b = replicate 10 0 @ [255, 255])
     \<or> (s = ''::'' @ dotted (drop 12 b) \<and> take 12 b = replicate 12 0)"

definition inet_ntop_ok :: "ntop \<Rightarrow> bool" where
  "inet_ntop_ok ntop \<longleftrightarrow>
     (\<forall>b. length b = 4 \<longrightarrow> ntop b = dotted b) \<and> (\<forall>b. length b = 16 \<longrightarrow> inet6_text b (ntop b) \<or> mixed_text b (ntop b))"

text \<open>The system gives four bytes for an IPv4 address and sixteen for an IPv6 address.\<close>

definition addrs_ok :: "ifaddr list \<Rightarrow> bool" where
  "addrs_ok addrs \<longleftrightarrow> list_all (\<lambda>p. case ifa_addr p of
     Some (Inet b) \<Rightarrow> length b = 4 | Some (Inet6 b) \<Rightarrow> length b = 16 | _ \<Rightarrow> True) addrs"

lemma dotted_ToString: "length b = 4 \<Longrightarrow> dotted b = ip_ToString b"
  by (simp add: dotted_def ip_ToString_def)

lemma inet6_text_bytes:
  assumes "length b = 16" "inet6_text b s"
  shows "ip_ToBytes s = b"
proof -
  define gs where "gs = map (group_at b) [0..<8]"
  have len: "length gs = 8" and b: "concat (map group_bytes gs) = b" using groups_of_bytes [OF assms(1)] by (simp_all add: gs_def)
  consider "s = colon_join gs"
    | i n where "0 < n" "i + n \<le> 8" "take n (drop i gs) = replicate n 0" "s = colon_join (take i gs) @ ''::'' @ colon_join (drop (i + n) gs)"
    using assms(2) unfolding inet6_text_def gs_def Let_def by blast
  then show ?thesis
  proof cases
    case 1
    then show ?thesis using toBytesV6_plain [OF len] colon_in_join [of gs] len b by (auto simp: ip_ToBytes_def find_char_from_def)
  next
    case (2 i n)
    have "gs = take i gs @ take n (drop i gs) @ drop (i + n) gs" by (metis append_take_drop_id drop_drop add.commute)
    then have "take i gs @ replicate (8 - length (take i gs) - length (drop (i + n) gs)) 0 @ drop (i + n) gs = gs"
      using 2(2,3) len by simp
    moreover have "length (take i gs) + length (drop (i + n) gs) < 8" using 2(1,2) len by simp
    ultimately have "toBytesV6 s = b" unfolding 2(4) using toBytesV6_compressed [of "take i gs" "drop (i + n) gs"] b by simp
    moreover have "CHR '':'' \<in> set s" by (simp add: 2(4))
    ultimately show ?thesis using 2(4) by (auto simp: ip_ToBytes_def find_char_from_def)
  qed
qed

text \<open>The mixed notation has a dot in a group, so the class does not understand it.\<close>

lemma dotted_length: "4 < length (dotted b)"
proof -
  have "1 \<le> length (to_string_int (uint x))" for x :: byte by (cases "to_string_int (uint x)") (simp_all add: to_chars_int_def)
  from this [of "b ! 0"] this [of "b ! 1"] this [of "b ! 2"] this [of "b ! 3"] show ?thesis by (simp add: dotted_def del: length_greater_0_conv)
qed

lemma no_colon_dotted: "CHR '':'' \<notin> set (dotted b)"
  by (simp add: dotted_def no_colon_in_number)

lemma groups_loop_dotted: "groups_loop (pre @ dotted b) limit (length pre) = None"
  using dotted_length [of b] next_colon_at(2) [OF no_colon_dotted, of pre b]
  by (subst groups_loop.simps) (auto simp: substr_def parseIPv6Group_def)

lemma no_double_colon_dotted: "find_sub ''::'' (dotted b) = None"
  using dc_skip_list [OF no_colon_dotted, of b "[]"] by simp

lemma mixed_text_invalid:
  assumes "mixed_text b s"
  shows "ip_ToBytes s = []"
proof -
  have g: "groups_loop (''ffff:'' @ dotted d) None 0 = None" for d
  proof -
    have "next_colon (''ffff:'' @ dotted d) 0 = 4" using next_colon_at(1) [of "''ffff''" "[]" "dotted d"] by simp
    then have "groups_loop (''ffff:'' @ dotted d) None 0 = map_option (Cons 0xffff) (groups_loop (''ffff:'' @ dotted d) None 5)"
      by (subst groups_loop.simps) (simp add: substr_def parseIPv6Group_def less_eq_char_def)
    moreover have "length ''ffff:'' = 5" by simp
    ultimately show ?thesis using groups_loop_dotted [of "''ffff:''" d None] by (simp only: option.map)
  qed
  have n: "find_sub ''::'' (''ffff:'' @ dotted d) = None" for d
  proof -
    obtain c t where "dotted d = c # t" "c \<noteq> CHR '':''" using dotted_length [of d] no_colon_dotted [of d] by (cases "dotted d") auto
    then have "find_sub ''::'' (CHR '':'' # dotted d) = None"
      using dc_skip_colon [of c t] no_double_colon_dotted [of d] by (simp del: find_sub.simps)
    then show ?thesis using dc_skip_list [of "''ffff''" "CHR '':'' # dotted d"] by (simp del: find_sub.simps)
  qed
  have "toBytesV6 (''::'' @ x) = []" if "find_sub ''::'' x = None" "x \<noteq> []" "groups_loop x None 0 = None" for x
  proof -
    have "find_sub_from (''::'' @ x) ''::'' 0 = Some 0" by (simp add: find_sub_from_def starts_with_def)
    moreover have "find_sub_from (''::'' @ x) ''::'' 2 = None" using that(1) by (simp add: find_sub_from_def)
    ultimately show ?thesis using that(2,3) by (simp add: toBytesV6_def substr_def groups_loop_end del: find_sub.simps)
  qed
  moreover have "dotted d \<noteq> []" for d using dotted_length [of d] by auto
  ultimately have "toBytesV6 (''::'' @ ''ffff:'' @ dotted d) = []" "toBytesV6 (''::'' @ dotted d) = []" for d
    using n [of d] g [of d] no_double_colon_dotted [of d] groups_loop_dotted [of "[]" d None]
    by (simp_all only: append_Nil list.size) simp_all
  then have "toBytesV6 s = []" using assms by (auto simp: mixed_text_def)
  moreover have "find_char_from s (CHR '':'') 0 \<noteq> None" using assms by (auto simp: mixed_text_def find_char_from_def)
  ultimately show ?thesis by (auto simp: ip_ToBytes_def)
qed

text \<open>What the class makes of an address of the system.\<close>

definition understood :: "ntop \<Rightarrow> byte list \<Rightarrow> byte list" where
  "understood ntop b = (if length b = 16 \<and> mixed_text b (ntop b) then [] else b)"

lemma ntop_understood:
  assumes "inet_ntop_ok ntop" "length b = 4 \<or> length b = 16"
  shows "ip_ToBytes (ntop b) = understood ntop b" "ntop b \<noteq> []"
proof -
  have four: "ntop b = ip_ToString b" if "length b = 4" using assms(1) that dotted_ToString by (simp add: inet_ntop_ok_def)
  show *: "ip_ToBytes (ntop b) = understood ntop b"
  proof (cases "length b = 4")
    case True
    then show ?thesis using four ToBytes_ToString_eq [of b] by (simp add: understood_def)
  next
    case False
    then show ?thesis using assms inet6_text_bytes [of b "ntop b"] mixed_text_invalid [of b "ntop b"] by (auto simp: inet_ntop_ok_def understood_def)
  qed
  show "ntop b \<noteq> []"
  proof
    assume e: "ntop b = []"
    then have "\<not> mixed_text b (ntop b)" by (simp add: mixed_text_def)
    then have "b = []" using * e by (simp add: understood_def ip_ToBytes_def)
    then show False using assms(2) by simp
  qed
qed

lemma collect_entry_cases:
  assumes "inet_ntop_ok ntop" "addrs_ok [p]"
  shows "map (\<lambda>n. (iface_name n, ip_bytes (iface_ip n))) (collect_entry ntop mac_of p) = map (\<lambda>(n, b). (n, understood ntop b)) (up_addresses [p])
     \<and> map iface_addr_type (collect_entry ntop mac_of p) = map (\<lambda>(n, b). if length b = 16 then IPV6 else IPV4) (up_addresses [p])
     \<and> list_all (\<lambda>n. is_ipv6 (iface_ip n) = (iface_addr_type n = IPV6 \<and> IsValid (iface_ip n))
          \<and> iface_mac n = mac_of (iface_name n) \<and> iface_type n \<in> {LOOPBACK, ETHERNET, WIFI, OTHER}) (collect_entry ntop mac_of p)"
  using assms(2) ntop_understood [OF assms(1)] DetermineInterfaceType_cases
  by (auto simp: collect_entry_def up_addresses_def addrs_ok_def address_text_def NetworkInterface_def Ip_string_def IsValid_def Let_def understood_def
      split: option.splits sockaddr.splits)

lemma collect_entries:
  assumes "inet_ntop_ok ntop"
  shows "addrs_ok addrs \<Longrightarrow>
    map (\<lambda>n. (iface_name n, ip_bytes (iface_ip n))) (concat (map (collect_entry ntop mac_of) addrs))
      = map (\<lambda>(n, b). (n, understood ntop b)) (up_addresses addrs)
    \<and> map iface_addr_type (concat (map (collect_entry ntop mac_of) addrs))
      = map (\<lambda>(n, b). if length b = 16 then IPV6 else IPV4) (up_addresses addrs)
    \<and> list_all (\<lambda>n. is_ipv6 (iface_ip n) = (iface_addr_type n = IPV6 \<and> IsValid (iface_ip n))
          \<and> iface_mac n = mac_of (iface_name n) \<and> iface_type n \<in> {LOOPBACK, ETHERNET, WIFI, OTHER}) (concat (map (collect_entry ntop mac_of) addrs))"
proof (induction addrs)
  case (Cons p addrs)
  have "addrs_ok [p]" "addrs_ok addrs" using Cons.prems by (simp_all add: addrs_ok_def)
  moreover have "up_addresses (p # addrs) = up_addresses [p] @ up_addresses addrs" by (simp add: up_addresses_def)
  ultimately show ?case using collect_entry_cases [OF assms, of p mac_of] Cons.IH by simp
qed (simp add: up_addresses_def)


text \<open>An \<^verbatim>\<open>inet_ntop\<close> that writes every IPv6 address in full, but a mapped one in the mixed notation.\<close>

definition demo_ntop :: ntop where
  "demo_ntop b =
     (if length b = 4 then dotted b
      else if take 12 b = replicate 10 0 @ [255, 255] then ''::ffff:'' @ dotted (drop 12 b)
      else colon_join (map (group_at b) [0..<8]))"

definition mapped_address :: "byte list" where
  "mapped_address = replicate 10 0 @ [255, 255, 1, 2, 3, 4]"

definition demo_addrs :: "ifaddr list" where
  "demo_addrs =
     [\<lparr>ifa_name = ''lo'', ifa_addr = Some (Inet [127, 0, 0, 1]), ifa_up = True, ifa_loopback = True\<rparr>,
      \<lparr>ifa_name = ''eth0'', ifa_addr = None, ifa_up = True, ifa_loopback = False\<rparr>,
      \<lparr>ifa_name = ''eth0'', ifa_addr = Some (Inet6 (254 # 128 # replicate 13 0 @ [7])), ifa_up = True, ifa_loopback = False\<rparr>,
      \<lparr>ifa_name = ''eth1'', ifa_addr = Some (Inet6 mapped_address), ifa_up = True, ifa_loopback = False\<rparr>,
      \<lparr>ifa_name = ''wlan0'', ifa_addr = Some (Inet [10, 0, 0, 8]), ifa_up = False, ifa_loopback = False\<rparr>]"


text \<open>The text of an IPv4-mapped address, as \<^verbatim>\<open>inet_ntop\<close> writes it: the interface is listed with an invalid address.\<close>

lemma mapped_address_invalid:
  assumes "ntop b = ''::ffff:1.2.3.4''"
  shows "map (\<lambda>n. IsValid (iface_ip n)) (collect_entry ntop mac_of \<lparr>ifa_name = n, ifa_addr = Some (Inet6 b), ifa_up = True, ifa_loopback = False\<rparr>) = [False]"
proof -
  have "ip_ToBytes ''::ffff:1.2.3.4'' = []" by code_simp
  with assms show ?thesis by (simp add: collect_entry_def address_text_def NetworkInterface_def Ip_string_def IsValid_def)
qed

text \<open>On Windows: at most three attempts, and only a buffer that was too small is a reason for another one.\<close>

lemma adapter_attempts_Some:
  "adapter_attempts ask is = Some as \<Longrightarrow> \<exists>i \<in> set is. ask i = Some (Adapters as)"
  by (induction "is") (auto split: option.splits adapters_result.splits)

lemma windows_down_skipped: "\<not> adapter_up a \<Longrightarrow> collect_adapter ntop a = []"
  by (simp add: collect_adapter_def)

end
