(* ===== verification/Udp.thy ===== *)
theory Udp
  imports Cpp_Charconv
begin

text \<open>
  \<^verbatim>\<open>src/breutil/net/udp/udp_server.hpp\<close> and \<^verbatim>\<open>udp_client.hpp\<close>. The datagram operations of asio are steps: an operation that was started is
  pending until its handler runs, and closing the socket makes the pending ones complete with \<^verbatim>\<open>operation_aborted\<close>. \<^verbatim>\<open>std::regex\<close> is a parameter, since the
  expressions are the user's: it tells whether an expression matches a whole text, \<open>None\<close> if the expression is malformed (the constructor throws).
\<close>

section \<open>The server\<close>

record endpoint =
  address :: string
  port :: nat

datatype error_code = Success | Aborted | Error string

type_synonym regex_match = "string \<Rightarrow> string \<Rightarrow> bool option"

record 'cb callback_regex_info =
  host_regex :: string
  port_regex :: string
  cb :: 'cb

text \<open>
  \<open>receives\<close> counts the receive operations that are pending; \<open>calls\<close> is what the callbacks have been called with, \<open>printed\<close> what was written to \<^verbatim>\<open>std::cout\<close>,
  \<open>sent\<close> the datagrams handed to the socket. \<open>escaped\<close>: an exception left a handler.
\<close>

record 'cb udp_server =
  socket_open :: bool
  recv_buffer :: "byte list"
  callback_regexs :: "'cb callback_regex_info list"
  receives :: nat
  calls :: "('cb \<times> byte list \<times> endpoint) list"
  sent :: "(byte list \<times> endpoint) list"
  printed :: "string list"
  escaped :: bool

definition UDPServer :: "'cb udp_server" where
  "UDPServer = \<lparr>socket_open = True, recv_buffer = replicate 65536 0, callback_regexs = [], receives = 0, calls = [], sent = [], printed = [], escaped = False\<rparr>"

definition AddMessageCallback :: "'cb \<Rightarrow> string \<Rightarrow> string \<Rightarrow> 'cb udp_server \<Rightarrow> 'cb udp_server" where
  "AddMessageCallback callback h p s =
     s \<lparr>callback_regexs := callback_regexs s @ [\<lparr>host_regex = h, port_regex = p, cb = callback\<rparr>]\<rparr>"

definition do_receive :: "'cb udp_server \<Rightarrow> 'cb udp_server" where
  "do_receive s = s \<lparr>receives := receives s + 1\<rparr>"

definition udp_Start :: "'cb udp_server \<Rightarrow> 'cb udp_server" where
  "udp_Start s = do_receive s"

definition udp_Stop :: "'cb udp_server \<Rightarrow> 'cb udp_server" where
  "udp_Stop s = s \<lparr>socket_open := False\<rparr>"

definition SendTo :: "byte list \<Rightarrow> endpoint \<Rightarrow> 'cb udp_server \<Rightarrow> 'cb udp_server" where
  "SendTo data ep s = s \<lparr>sent := sent s @ [(data, ep)]\<rparr>"

definition SendTo_string :: "string \<Rightarrow> endpoint \<Rightarrow> 'cb udp_server \<Rightarrow> 'cb udp_server" where
  "SendTo_string data ep s = SendTo (map byte_of_char data) ep s"

definition on_sent :: "error_code \<Rightarrow> 'cb udp_server \<Rightarrow> 'cb udp_server" where
  "on_sent ec s = (case ec of Success \<Rightarrow> s
     | Aborted \<Rightarrow> s \<lparr>printed := printed s @ [''UDPServer reply failed: Operation canceled'']\<rparr>
     | Error e \<Rightarrow> s \<lparr>printed := printed s @ [''UDPServer reply failed: '' @ e]\<rparr>)"

text \<open>The loop over the callbacks: the calls, and whether a malformed expression ended it.\<close>

fun dispatch :: "regex_match \<Rightarrow> byte list \<Rightarrow> endpoint \<Rightarrow> 'cb callback_regex_info list \<Rightarrow> ('cb \<times> byte list \<times> endpoint) list \<times> bool" where
  "dispatch rm data ep [] = ([], False)"
| "dispatch rm data ep (i # is) =
     (case rm (host_regex i) (address ep) of
        None \<Rightarrow> ([], True)
      | Some False \<Rightarrow> dispatch rm data ep is
      | Some True \<Rightarrow>
          (case rm (port_regex i) (to_string_int (int (port ep))) of
             None \<Rightarrow> ([], True)
           | Some False \<Rightarrow> dispatch rm data ep is
           | Some True \<Rightarrow> (case dispatch rm data ep is of (cs, e) \<Rightarrow> ((cb i, data, ep) # cs, e))))"

text \<open>The handler. The system has written the datagram, as much as fits, to the start of the buffer.\<close>

definition message :: "error_code \<Rightarrow> string" where
  "message ec = (case ec of Success \<Rightarrow> ''Success'' | Aborted \<Rightarrow> ''Operation canceled'' | Error e \<Rightarrow> e)"

definition on_receive :: "regex_match \<Rightarrow> error_code \<Rightarrow> byte list \<Rightarrow> endpoint \<Rightarrow> 'cb udp_server \<Rightarrow> 'cb udp_server" where
  "on_receive rm ec datagram ep s0 =
     (let bytes_recvd = min (length datagram) (length (recv_buffer s0));
          s = s0 \<lparr>receives := receives s0 - 1, recv_buffer := take bytes_recvd datagram @ drop bytes_recvd (recv_buffer s0)\<rparr>
      in if ec = Success \<and> 0 < bytes_recvd then
           (case dispatch rm (take bytes_recvd (recv_buffer s)) ep (callback_regexs s) of
              (cs, e) \<Rightarrow>
                let s1 = s \<lparr>calls := calls s @ cs\<rparr> in if e then s1 \<lparr>escaped := True\<rparr> else do_receive s1)
         else if ec \<noteq> Aborted then
           let s1 = s \<lparr>printed := printed s @ [''UDP receive error: '' @ message ec]\<rparr>
           in if socket_open s1 then do_receive s1 else s1
         else s)"

section \<open>The client\<close>

record udp_client =
  remote_endpoint :: endpoint
  client_sent :: "(byte list \<times> endpoint) list"

text \<open>The constructor throws a string, not a standard exception; \<open>resolved\<close> is what the resolver gives.\<close>

definition UDPClient :: "string + endpoint list \<Rightarrow> string + udp_client" where
  "UDPClient resolved =
     (case resolved of
        Inr (e # _) \<Rightarrow> Inr \<lparr>remote_endpoint = e, client_sent = []\<rparr>
      | Inr [] \<Rightarrow> Inl (''UDP resolve failed: '' @ message Success)
      | Inl err \<Rightarrow> Inl (''UDP resolve failed: '' @ err))"

definition udp_Send :: "byte list \<Rightarrow> udp_client \<Rightarrow> udp_client" where
  "udp_Send data c = c \<lparr>client_sent := client_sent c @ [(data, remote_endpoint c)]\<rparr>"

definition udp_Send_string :: "string \<Rightarrow> udp_client \<Rightarrow> udp_client" where
  "udp_Send_string data c = udp_Send (map byte_of_char data) c"

text \<open>The handler of a send: an error leaves it as a thrown string.\<close>

definition on_client_sent :: "error_code \<Rightarrow> string option" where
  "on_client_sent ec = (if ec \<noteq> Success then Some (''UDP send failed: '' @ message ec) else None)"

section \<open>Runs of the server\<close>

text \<open>
  The system delivers the completion of a pending receive: a datagram of at most 65507 bytes or an error while the socket is open, and \<^verbatim>\<open>operation_aborted\<close> once it is
  closed; a completion that was already queued when the socket was closed is delivered as it is.
\<close>

inductive udp_step :: "regex_match \<Rightarrow> 'cb udp_server \<Rightarrow> 'cb udp_server \<Rightarrow> bool" for rm where
  receive: "0 < receives s \<Longrightarrow> \<not> escaped s \<Longrightarrow> length d \<le> 65507 \<Longrightarrow> ec \<noteq> Aborted \<Longrightarrow> udp_step rm s (on_receive rm ec d ep s)"
| abort: "0 < receives s \<Longrightarrow> \<not> escaped s \<Longrightarrow> \<not> socket_open s \<Longrightarrow> udp_step rm s (on_receive rm Aborted [] ep s)"
| stop: "udp_step rm s (udp_Stop s)"
| add: "udp_step rm s (AddMessageCallback f h p s)"
| reply: "udp_step rm s (SendTo d ep s)"
| sent: "udp_step rm s (on_sent ec s)"

inductive udp_reach :: "regex_match \<Rightarrow> 'cb udp_server \<Rightarrow> bool" for rm where
  start: "udp_reach rm (udp_Start UDPServer)"
| step: "udp_reach rm s \<Longrightarrow> udp_step rm s t \<Longrightarrow> udp_reach rm t"

lemma dispatch_filter:
  assumes "\<And>i. i \<in> set is \<Longrightarrow> rm (host_regex i) (address ep) = Some (mh i) \<and> rm (port_regex i) (to_string_int (int (port ep))) = Some (mp i)"
  shows "dispatch rm data ep is = (map (\<lambda>i. (cb i, data, ep)) (filter (\<lambda>i. mh i \<and> mp i) is), False)"
  using assms
proof (induction "is")
  case (Cons i "is")
  then have "rm (host_regex i) (address ep) = Some (mh i)" "rm (port_regex i) (to_string_int (int (port ep))) = Some (mp i)" by auto
  with Cons show ?case by (simp split: bool.splits)
qed simp

text \<open>
  A datagram that is not empty is given to exactly those callbacks whose expressions match the sender's address and port, in the order of their registration and
  byte for byte, and the next receive is started.
\<close>

theorem udp_datagram_dispatched:
  assumes "length d \<le> 65507" "d \<noteq> []" "length (recv_buffer s) = 65536" "0 < receives s"
    and "\<And>i. i \<in> set (callback_regexs s) \<Longrightarrow> rm (host_regex i) (address ep) = Some (mh i) \<and> rm (port_regex i) (to_string_int (int (port ep))) = Some (mp i)"
  shows "let t = on_receive rm Success d ep s
         in calls t = calls s @ map (\<lambda>i. (cb i, d, ep)) (filter (\<lambda>i. mh i \<and> mp i) (callback_regexs s)) \<and> receives t = receives s \<and> printed t = printed s"
proof -
  have "min (length d) (length (recv_buffer s)) = length d" using assms(1,3) by simp
  moreover have "dispatch rm d ep (callback_regexs s) = (map (\<lambda>i. (cb i, d, ep)) (filter (\<lambda>i. mh i \<and> mp i) (callback_regexs s)), False)"
    by (rule dispatch_filter) (rule assms(5))
  ultimately show ?thesis using assms(2,4) by (simp add: on_receive_def Let_def do_receive_def)
qed

definition equal_texts :: regex_match where
  "equal_texts e s = Some (e = ''.*'' \<or> e = s)"

definition demo_server :: "nat udp_server" where
  "demo_server = udp_Start (AddMessageCallback 2 ''10.0.0.9'' ''.*'' (AddMessageCallback 1 ''10.0.0.7'' ''.*'' UDPServer))"

theorem udp_datagram_dispatched_witness:
  "calls (on_receive equal_texts Success [1, 2] \<lparr>address = ''10.0.0.7'', port = 53\<rparr> demo_server) = [(1, [1, 2], \<lparr>address = ''10.0.0.7'', port = 53\<rparr>)]"
proof -
  let ?ep = "\<lparr>address = ''10.0.0.7'', port = 53\<rparr>"
  have cb: "callback_regexs demo_server = [\<lparr>host_regex = ''10.0.0.7'', port_regex = ''.*'', cb = 1\<rparr>, \<lparr>host_regex = ''10.0.0.9'', port_regex = ''.*'', cb = 2\<rparr>]"
    "calls demo_server = []" "length (recv_buffer demo_server) = 65536" "0 < receives demo_server"
    by (simp_all add: demo_server_def udp_Start_def do_receive_def AddMessageCallback_def UDPServer_def)
  have "let t = on_receive equal_texts Success [1, 2] ?ep demo_server
      in calls t = calls demo_server @ map (\<lambda>i. (cb i, [1, 2], ?ep)) (filter (\<lambda>i. host_regex i = ''10.0.0.7'' \<and> True) (callback_regexs demo_server))
        \<and> receives t = receives demo_server \<and> printed t = printed demo_server"
    by (rule udp_datagram_dispatched) (auto simp: cb equal_texts_def)
  then show ?thesis by (simp add: cb Let_def)
qed

text \<open>The server listens as long as the socket is open and no malformed expression was used, with a single receive operation on the buffer.\<close>

definition udp_ok :: "'cb udp_server \<Rightarrow> bool" where
  "udp_ok s \<longleftrightarrow> receives s \<le> 1 \<and> (socket_open s \<and> \<not> escaped s \<longrightarrow> receives s = 1) \<and> length (recv_buffer s) = 65536"

lemma udp_ok_receive:
  assumes "udp_ok s" "0 < receives s" "ec \<noteq> Aborted \<or> \<not> socket_open s"
  shows "udp_ok (on_receive rm ec d ep s)"
  using assms
  by (auto simp: udp_ok_def on_receive_def do_receive_def Let_def min_def split: prod.splits)

lemma udp_ok_others: "udp_ok s \<Longrightarrow> udp_ok (udp_Stop s)" "udp_ok s \<Longrightarrow> udp_ok (AddMessageCallback f h p s)"
    "udp_ok s \<Longrightarrow> udp_ok (SendTo d ep s)" "udp_ok s \<Longrightarrow> udp_ok (on_sent ec s)"
  by (simp_all add: udp_ok_def udp_Stop_def AddMessageCallback_def SendTo_def on_sent_def split: error_code.split)

lemma udp_ok_step: "udp_step rm s t \<Longrightarrow> udp_ok s \<Longrightarrow> udp_ok t"
  by (induction rule: udp_step.induct) (simp_all add: udp_ok_others udp_ok_receive)

lemma udp_reach_ok: "udp_reach rm s \<Longrightarrow> udp_ok s"
proof (induction rule: udp_reach.induct)
  case start
  show ?case by (simp add: udp_ok_def udp_Start_def do_receive_def UDPServer_def)
qed (rule udp_ok_step)

text \<open>C27. In every run after one \<^verbatim>\<open>Start\<close>, the server never has two receive operations on its buffer, and it has one as long as its socket is open and no handler
  was left by an exception: it stops listening only when it is stopped.
\<close>

theorem udp_keeps_listening: "udp_reach rm s \<Longrightarrow> receives s \<le> 1 \<and> (socket_open s \<and> \<not> escaped s \<longrightarrow> receives s = 1)"
  using udp_reach_ok by (auto simp: udp_ok_def)

theorem udp_keeps_listening_witness: "receives (on_receive equal_texts (Error ''refused'') [] \<lparr>address = [], port = 0\<rparr> (udp_Start UDPServer) :: nat udp_server) = 1"
proof -
  let ?t = "on_receive equal_texts (Error ''refused'') [] \<lparr>address = [], port = 0\<rparr> (udp_Start UDPServer) :: nat udp_server"
  have "udp_step equal_texts (udp_Start UDPServer :: nat udp_server) ?t"
    by (rule udp_step.receive) (simp_all add: udp_Start_def do_receive_def UDPServer_def)
  then have "udp_reach equal_texts ?t" by (rule udp_reach.step [OF udp_reach.start])
  from udp_keeps_listening [OF this] show ?thesis
    by (simp add: on_receive_def udp_Start_def do_receive_def UDPServer_def Let_def)
qed

text \<open>An empty datagram is reported as an error, with the message of success. Starting twice puts two operations on the one buffer.\<close>

lemma empty_datagram_reported: "printed (on_receive rm Success [] ep s) = printed s @ [''UDP receive error: Success'']"
  by (simp add: on_receive_def Let_def do_receive_def message_def)

lemma start_twice: "receives (udp_Start (udp_Start UDPServer)) = 2"
  by (simp add: udp_Start_def do_receive_def UDPServer_def)

text \<open>After a malformed expression, the server is open and does not listen.\<close>

lemma malformed_expression_stops:
  assumes "rm h (address ep) = None" "d \<noteq> []"
  shows "let t = on_receive rm Success d ep (udp_Start (AddMessageCallback f h p UDPServer)) in receives t = 0 \<and> socket_open t \<and> escaped t"
  using assms by (simp add: on_receive_def udp_Start_def do_receive_def AddMessageCallback_def UDPServer_def Let_def)

lemma client_sends_to_first: "UDPClient (Inr (e # es)) = Inr c \<Longrightarrow> client_sent (udp_Send_string m c) = [(map byte_of_char m, e)]"
  by (auto simp: UDPClient_def udp_Send_def udp_Send_string_def)

section \<open>Destruction\<close>

definition UDPServer_destroy :: "'cb udp_server \<Rightarrow> 'cb udp_server" where
  "UDPServer_destroy s = udp_Stop s"

end
