(* ===== verification/Easy_Test.thy ===== *)
theory Easy_Test
  imports Cpp_Charconv
begin

text \<open>
  \<^verbatim>\<open>src/breutil/easy_test.hpp\<close> with the colours of \<^verbatim>\<open>enum.hpp\<close>: the registry of test cases, the assertions, the run and the report. A test function is an
  element of a type of its own; what it does to the framework is the argument \<open>run\<close>. The texts written to \<^verbatim>\<open>std::cout\<close> and \<^verbatim>\<open>std::cerr\<close> are lists of lines.
\<close>

section \<open>Colours\<close>

datatype Color = BLACK | BLUE | CYAN | GREEN | PURPLE | RED | WHITE | YELLOW | RESET

definition ansi :: "string \<Rightarrow> string" where
  "ansi n = CHR 0x1B # ''['' @ n @ ''m''"

fun ColorToAnsi :: "Color \<Rightarrow> string" where
  "ColorToAnsi BLACK = ansi ''1;30''"
| "ColorToAnsi RED = ansi ''1;31''"
| "ColorToAnsi GREEN = ansi ''1;32''"
| "ColorToAnsi YELLOW = ansi ''1;33''"
| "ColorToAnsi BLUE = ansi ''1;34''"
| "ColorToAnsi PURPLE = ansi ''1;35''"
| "ColorToAnsi CYAN = ansi ''1;36''"
| "ColorToAnsi WHITE = ansi ''1;37''"
| "ColorToAnsi RESET = ansi ''0''"

lemma ColorToAnsi_inj: "ColorToAnsi a = ColorToAnsi b \<longleftrightarrow> a = b"
  by (cases a; cases b) (simp_all add: ansi_def)

section \<open>State\<close>

record 'f test_case =
  tc_name :: string
  tc_func :: "'f option"
  tc_file :: string
  tc_line :: int

record 'f easy_test =
  tests_run :: int
  test_cases :: "'f test_case list"
  failed_tests :: "'f test_case list"
  current_test_name :: string
  cout :: "string list"
  cerr :: "string list"

definition EasyTest :: "'f easy_test" where
  "EasyTest = \<lparr>tests_run = 0, test_cases = [], failed_tests = [], current_test_name = [], cout = [], cerr = []\<rparr>"

definition registerTest :: "string \<Rightarrow> 'f \<Rightarrow> string \<Rightarrow> int \<Rightarrow> 'f easy_test \<Rightarrow> 'f easy_test" where
  "registerTest name f file line t =
     t \<lparr>test_cases := test_cases t @ [\<lparr>tc_name = name, tc_func = Some f, tc_file = file, tc_line = line\<rparr>]\<rparr>"

definition RESET_counters :: "'f easy_test \<Rightarrow> 'f easy_test" where
  "RESET_counters t = t \<lparr>tests_run := 0, failed_tests := [], test_cases := [], current_test_name := []\<rparr>"

section \<open>Texts of values\<close>

definition toString_string :: "string \<Rightarrow> string" where
  "toString_string s = [CHR 0x22] @ s @ [CHR 0x22]"

definition toString_bool :: "bool \<Rightarrow> string" where
  "toString_bool b = (if b then ''true'' else ''false'')"

fun vec_items :: "('a \<Rightarrow> string) \<Rightarrow> nat \<Rightarrow> nat \<Rightarrow> 'a list \<Rightarrow> string" where
  "vec_items str i m [] = []"
| "vec_items str i m (x # xs) =
     (if i < m then str x @ (if i \<noteq> m - 1 then '', '' else []) @ vec_items str (i + 1) m xs else [])"

definition toString_vector :: "('a \<Rightarrow> string) \<Rightarrow> 'a list \<Rightarrow> string" where
  "toString_vector str vec =
     ''['' @ vec_items str 0 (min (length vec) 8) vec @ (if 8 < length vec then '', ...'' else []) @ '']''"

section \<open>Assertions\<close>

text \<open>A failed assertion records the current test with no function and writes its lines.\<close>

definition failed :: "string \<Rightarrow> int \<Rightarrow> string list \<Rightarrow> 'f easy_test \<Rightarrow> 'f easy_test" where
  "failed file line msgs t =
     t \<lparr>failed_tests := failed_tests t @ [\<lparr>tc_name = current_test_name t, tc_func = None, tc_file = file, tc_line = line\<rparr>],
        cerr := cerr t @ (ColorToAnsi RED @ ''[  FAILED  ] '' @ ColorToAnsi RESET @ file @ '':'' @ to_string_int line) # msgs\<rparr>"

definition check :: "bool \<Rightarrow> string \<Rightarrow> int \<Rightarrow> string list \<Rightarrow> 'f easy_test \<Rightarrow> 'f easy_test" where
  "check ok file line msgs t =
     (let t1 = t \<lparr>tests_run := tests_run t + 1\<rparr> in if ok then t1 else failed file line msgs t1)"

definition assertTrue :: "bool \<Rightarrow> string \<Rightarrow> string \<Rightarrow> int \<Rightarrow> 'f easy_test \<Rightarrow> 'f easy_test" where
  "assertTrue expression expr_str file line =
     check expression file line [''  Expected: '' @ expr_str @ '' is true'', ''  Actual: false'']"

definition assertFalse :: "bool \<Rightarrow> string \<Rightarrow> string \<Rightarrow> int \<Rightarrow> 'f easy_test \<Rightarrow> 'f easy_test" where
  "assertFalse expression expr_str file line =
     check (\<not> expression) file line [''  Expected: '' @ expr_str @ '' is false'', ''  Actual: true'']"

text \<open>The comparisons take the operator of the types and their \<^verbatim>\<open>toString\<close>.\<close>

definition assertEqual :: "('a \<Rightarrow> 'b \<Rightarrow> bool) \<Rightarrow> ('a \<Rightarrow> string) \<Rightarrow> ('b \<Rightarrow> string) \<Rightarrow> 'a \<Rightarrow> 'b \<Rightarrow> string \<Rightarrow> string \<Rightarrow> int \<Rightarrow> 'f easy_test \<Rightarrow> 'f easy_test" where
  "assertEqual eq s1 s2 expected actual expr_str file line =
     check (eq expected actual) file line
       [''  Expression: '' @ expr_str, ''  Expected: '' @ s1 expected, ''  Actual: '' @ s2 actual]"

definition assertNotEqual :: "('a \<Rightarrow> 'b \<Rightarrow> bool) \<Rightarrow> ('a \<Rightarrow> string) \<Rightarrow> ('b \<Rightarrow> string) \<Rightarrow> 'a \<Rightarrow> 'b \<Rightarrow> string \<Rightarrow> string \<Rightarrow> int \<Rightarrow> 'f easy_test \<Rightarrow> 'f easy_test" where
  "assertNotEqual eq s1 s2 expected actual expr_str file line =
     check (\<not> eq expected actual) file line
       [''  Expression: '' @ expr_str, ''  Expected: not equal to '' @ s1 expected, ''  Actual: '' @ s2 actual]"

definition compare_lines :: "string \<Rightarrow> string \<Rightarrow> string \<Rightarrow> string \<Rightarrow> string \<Rightarrow> string list" where
  "compare_lines expr_str l r op not_op =
     [''  Expression: '' @ expr_str, ''  Expected: '' @ l @ op @ r, ''  Actual: '' @ l @ not_op @ r]"

definition assertLess :: "('a \<Rightarrow> 'b \<Rightarrow> bool) \<Rightarrow> ('a \<Rightarrow> string) \<Rightarrow> ('b \<Rightarrow> string) \<Rightarrow> 'a \<Rightarrow> 'b \<Rightarrow> string \<Rightarrow> string \<Rightarrow> int \<Rightarrow> 'f easy_test \<Rightarrow> 'f easy_test" where
  "assertLess lt s1 s2 l r expr_str file line = check (lt l r) file line (compare_lines expr_str (s1 l) (s2 r) '' < '' '' >= '')"

definition assertLessEqual :: "('a \<Rightarrow> 'b \<Rightarrow> bool) \<Rightarrow> ('a \<Rightarrow> string) \<Rightarrow> ('b \<Rightarrow> string) \<Rightarrow> 'a \<Rightarrow> 'b \<Rightarrow> string \<Rightarrow> string \<Rightarrow> int \<Rightarrow> 'f easy_test \<Rightarrow> 'f easy_test" where
  "assertLessEqual le s1 s2 l r expr_str file line = check (le l r) file line (compare_lines expr_str (s1 l) (s2 r) '' <= '' '' > '')"

definition assertGreater :: "('a \<Rightarrow> 'b \<Rightarrow> bool) \<Rightarrow> ('a \<Rightarrow> string) \<Rightarrow> ('b \<Rightarrow> string) \<Rightarrow> 'a \<Rightarrow> 'b \<Rightarrow> string \<Rightarrow> string \<Rightarrow> int \<Rightarrow> 'f easy_test \<Rightarrow> 'f easy_test" where
  "assertGreater gt s1 s2 l r expr_str file line = check (gt l r) file line (compare_lines expr_str (s1 l) (s2 r) '' > '' '' <= '')"

definition assertGreaterEqual :: "('a \<Rightarrow> 'b \<Rightarrow> bool) \<Rightarrow> ('a \<Rightarrow> string) \<Rightarrow> ('b \<Rightarrow> string) \<Rightarrow> 'a \<Rightarrow> 'b \<Rightarrow> string \<Rightarrow> string \<Rightarrow> int \<Rightarrow> 'f easy_test \<Rightarrow> 'f easy_test" where
  "assertGreaterEqual ge s1 s2 l r expr_str file line = check (ge l r) file line (compare_lines expr_str (s1 l) (s2 r) '' >= '' '' < '')"

text \<open>Floating point: \<open>gt\<close> is the operator \<^verbatim>\<open>>\<close>, \<open>dist\<close> the absolute difference.\<close>

definition assertNear :: "('d \<Rightarrow> 'd \<Rightarrow> bool) \<Rightarrow> ('d \<Rightarrow> 'd \<Rightarrow> 'd) \<Rightarrow> ('d \<Rightarrow> string) \<Rightarrow> 'd \<Rightarrow> 'd \<Rightarrow> 'd \<Rightarrow> string \<Rightarrow> string \<Rightarrow> int \<Rightarrow> 'f easy_test \<Rightarrow> 'f easy_test" where
  "assertNear gt dist str expected actual epsilon expr_str file line =
     check (\<not> gt (dist expected actual) epsilon) file line
       [''  Expression: '' @ expr_str,
        ''  Expected: '' @ str expected @ '' ('' @ [CHR 0xC2, CHR 0xB1] @ str epsilon @ '')'',
        ''  Actual: '' @ str actual, ''  Diff: '' @ str (dist expected actual)]"

definition assertNull :: "('p \<Rightarrow> string) \<Rightarrow> 'p option \<Rightarrow> string \<Rightarrow> string \<Rightarrow> int \<Rightarrow> 'f easy_test \<Rightarrow> 'f easy_test" where
  "assertNull str ptr expr_str file line =
     check (ptr = None) file line [''  Expected: '' @ expr_str @ '' is nullptr'', ''  Actual: '' @ (case ptr of Some p \<Rightarrow> str p | None \<Rightarrow> [])]"

definition assertNotNull :: "'p option \<Rightarrow> string \<Rightarrow> string \<Rightarrow> int \<Rightarrow> 'f easy_test \<Rightarrow> 'f easy_test" where
  "assertNotNull ptr expr_str file line =
     check (ptr \<noteq> None) file line [''  Expected: '' @ expr_str @ '' is not nullptr'', ''  Actual: nullptr'']"

text \<open>How a function ends; \<open>Throws_std\<close> is an exception derived from \<^verbatim>\<open>std::exception\<close> with its text.\<close>

datatype ending = Returns | Throws_std string | Throws_other

text \<open>The function under test changes the framework's state and ends; \<open>expected\<close> tells whether the exception is of the expected type.\<close>

definition assertThrows :: "(ending \<Rightarrow> bool) \<Rightarrow> ('f easy_test \<Rightarrow> 'f easy_test \<times> ending) \<Rightarrow> string \<Rightarrow> string \<Rightarrow> int \<Rightarrow> 'f easy_test \<Rightarrow> 'f easy_test" where
  "assertThrows expected test_func expr_str file line t =
     (case test_func (t \<lparr>tests_run := tests_run t + 1\<rparr>) of (t1, e) \<Rightarrow>
        if e = Returns then failed file line [''  Expected: '' @ expr_str @ '' throws exception'', ''  Actual: no exception thrown''] t1
        else if expected e then t1
        else failed file line [''  Expected: '' @ expr_str @ '' throws specific exception'', ''  Actual: different exception thrown''] t1)"

definition assertNoThrow :: "('f easy_test \<Rightarrow> 'f easy_test \<times> ending) \<Rightarrow> string \<Rightarrow> string \<Rightarrow> int \<Rightarrow> 'f easy_test \<Rightarrow> 'f easy_test" where
  "assertNoThrow test_func expr_str file line t =
     (case test_func (t \<lparr>tests_run := tests_run t + 1\<rparr>) of (t1, e) \<Rightarrow>
        (case e of
           Returns \<Rightarrow> t1
         | Throws_std w \<Rightarrow> failed file line [''  Expected: '' @ expr_str @ '' does not throw'', ''  Actual: exception thrown: '' @ w] t1
         | Throws_other \<Rightarrow> failed file line [''  Expected: '' @ expr_str @ '' does not throw'', ''  Actual: unknown exception thrown''] t1))"

section \<open>Running and reporting\<close>

definition say :: "string list \<Rightarrow> 'f easy_test \<Rightarrow> 'f easy_test" where
  "say ls t = t \<lparr>cout := cout t @ ls\<rparr>"

definition coloured :: "Color \<Rightarrow> string \<Rightarrow> string" where
  "coloured c s = ColorToAnsi c @ s @ ColorToAnsi RESET"

definition nl :: char where
  "nl = CHR 0x0A"

text \<open>The number of passed tests is a difference of \<^verbatim>\<open>size_t\<close>.\<close>

definition tests_passed :: "'f easy_test \<Rightarrow> u64" where
  "tests_passed t = word_of_int (tests_run t) - word_of_nat (length (failed_tests t))"

definition showResults :: "int \<Rightarrow> 'f easy_test \<Rightarrow> 'f easy_test" where
  "showResults duration_ms t =
     say ([coloured CYAN ''======================================================='',
           ''Total tests: '' @ to_string_int (tests_run t),
           coloured GREEN (''Passed: '' @ to_string_int (uint (tests_passed t)))]
          @ (if failed_tests t \<noteq> [] then [coloured RED (''Failed: '' @ to_string_int (int (length (failed_tests t))))] else [])
          @ (if 0 < duration_ms then [''Time: '' @ to_string_int duration_ms @ '' ms''] else [])
          @ (if failed_tests t = [] then [coloured GREEN (nl # ''All tests passed!'')]
             else [coloured RED (nl # ''Some tests failed.''), coloured RED (nl # ''Failed Tests:'')]
                  @ map (\<lambda>c. '' - '' @ tc_name c @ '' ('' @ tc_file c @ '':'' @ to_string_int (tc_line c) @ '')'') (failed_tests t))
          @ [coloured CYAN ''=======================================================''])
       t"

text \<open>
  One test: the exception of another kind leaves \<^verbatim>\<open>runAllTests\<close> (second component). A call of an empty function throws \<^verbatim>\<open>std::bad_function_call\<close>.
\<close>

definition run_test :: "('f \<Rightarrow> 'f easy_test \<Rightarrow> 'f easy_test \<times> ending) \<Rightarrow> int \<Rightarrow> 'f test_case \<Rightarrow> 'f easy_test \<Rightarrow> 'f easy_test \<times> bool" where
  "run_test run duration test t =
     (let t1 = say [coloured BLUE ''[ RUN      ] '' @ tc_name test] (t \<lparr>current_test_name := tc_name test\<rparr>)
      in case (case tc_func test of Some f \<Rightarrow> run f t1 | None \<Rightarrow> (t1, Throws_std ''bad_function_call'')) of
           (t2, Returns) \<Rightarrow> (say [coloured GREEN ''[       OK ] '' @ tc_name test @ '' ('' @ to_string_int duration @ '' ms)''] t2, False)
         | (t2, Throws_std w) \<Rightarrow>
             (say [coloured RED ''[  FAILED  ] '' @ tc_name test @ '' ('' @ to_string_int duration @ '' ms)'', coloured RED (''Exception: '' @ w)]
                (t2 \<lparr>failed_tests := failed_tests t2 @ [test]\<rparr>), False)
         | (t2, Throws_other) \<Rightarrow> (t2, True))"

text \<open>The loop, over the registered tests with their measured durations; a test must not register others.\<close>

fun run_loop :: "('f \<Rightarrow> 'f easy_test \<Rightarrow> 'f easy_test \<times> ending) \<Rightarrow> (nat \<Rightarrow> int) \<Rightarrow> nat \<Rightarrow> 'f test_case list \<Rightarrow> 'f easy_test \<Rightarrow> 'f easy_test \<times> bool" where
  "run_loop run durations i [] t = (t, False)"
| "run_loop run durations i (c # cs) t =
     (case run_test run (durations i) c t of (t1, escaped) \<Rightarrow> if escaped then (t1, True) else run_loop run durations (i + 1) cs t1)"

text \<open>\<open>None\<close>: an exception leaves the function.\<close>

definition runAllTests :: "('f \<Rightarrow> 'f easy_test \<Rightarrow> 'f easy_test \<times> ending) \<Rightarrow> (nat \<Rightarrow> int) \<Rightarrow> int \<Rightarrow> 'f easy_test \<Rightarrow> 'f easy_test \<times> int option" where
  "runAllTests run durations total_ms t =
     (case run_loop run durations 0 (test_cases t) (say [coloured CYAN ''==================== Running Tests ====================''] t) of
        (t1, True) \<Rightarrow> (t1, None)
      | (t1, False) \<Rightarrow> (showResults total_ms t1, Some (if failed_tests t1 \<noteq> [] then 1 else 0)))"

section \<open>Scripts\<close>

text \<open>Test functions that consist of assertions: the result of each assertion and the line it stands on, and how the function ends.\<close>

type_synonym script = "(bool \<times> int) list \<times> ending"

definition run_script :: "string \<Rightarrow> script \<Rightarrow> script easy_test \<Rightarrow> script easy_test \<times> ending" where
  "run_script fname s t = (fold (\<lambda>(ok, line). assertTrue ok ''e'' fname line) (fst s) t, snd s)"

definition script_passes :: "script \<Rightarrow> bool" where
  "script_passes s \<longleftrightarrow> list_all fst (fst s) \<and> snd s = Returns"

definition script_failures :: "script \<Rightarrow> nat" where
  "script_failures s = length (filter (\<lambda>a. \<not> fst a) (fst s)) + (if snd s = Returns then 0 else 1)"

lemma check_state [simp]:
  "tests_run (check ok fname line msgs t) = tests_run t + 1"
  "test_cases (check ok fname line msgs t) = test_cases t"
  "length (failed_tests (check ok fname line msgs t)) = length (failed_tests t) + (if ok then 0 else 1)"
  by (simp_all add: check_def failed_def Let_def)

lemma script_asserts:
  "tests_run (fold (\<lambda>(ok, line). assertTrue ok e fname line) xs t) = tests_run t + int (length xs)"
  "length (failed_tests (fold (\<lambda>(ok, line). assertTrue ok e fname line) xs t)) = length (failed_tests t) + length (filter (\<lambda>a. \<not> fst a) xs)"
  by (induction xs arbitrary: t) (auto simp: assertTrue_def)

lemma run_test_script:
  assumes "tc_func c = Some s" "snd s \<noteq> Throws_other"
  shows "\<exists>t'. run_test (run_script fname) d c t = (t', False) \<and> tests_run t' = tests_run t + int (length (fst s))
           \<and> length (failed_tests t') = length (failed_tests t) + script_failures s"
  using assms by (auto simp: script_asserts run_test_def run_script_def say_def script_failures_def Let_def split: ending.splits)

lemma run_loop_scripts:
  assumes "list_all (\<lambda>c. \<exists>s. tc_func c = Some s \<and> snd s \<noteq> Throws_other) cs"
  shows "\<exists>t'. run_loop (run_script fname) ds i cs t = (t', False)
           \<and> tests_run t' = tests_run t + int (sum_list (map (\<lambda>c. length (fst (the (tc_func c)))) cs))
           \<and> length (failed_tests t') = length (failed_tests t) + sum_list (map (\<lambda>c. script_failures (the (tc_func c))) cs)"
  using assms
proof (induction cs arbitrary: i t)
  case (Cons c cs)
  then obtain s where s: "tc_func c = Some s" "snd s \<noteq> Throws_other" by auto
  obtain t1 where t1: "run_test (run_script fname) (ds i) c t = (t1, False)" "tests_run t1 = tests_run t + int (length (fst s))"
      "length (failed_tests t1) = length (failed_tests t) + script_failures s"
    using run_test_script [OF s] by blast
  from Cons.IH [of "Suc i" t1] Cons.prems t1 s show ?case by auto
qed simp

lemma script_failures_zero: "script_failures s = 0 \<longleftrightarrow> script_passes s"
  by (auto simp: script_failures_def script_passes_def list_all_iff filter_empty_conv)

text \<open>
  A run of tests that do not throw foreign objects returns 0 exactly when every assertion held and no test threw, and counts the assertions and the failures.
\<close>

theorem runAllTests_result:
  assumes "list_all (\<lambda>c. \<exists>s. tc_func c = Some s \<and> snd s \<noteq> Throws_other) (test_cases t)" "failed_tests t = []" "tests_run t = 0"
  shows "\<exists>t'. runAllTests (run_script fname) ds total_ms t = (t', Some (if list_all (\<lambda>c. script_passes (the (tc_func c))) (test_cases t) then 0 else 1))
           \<and> tests_run t' = int (sum_list (map (\<lambda>c. length (fst (the (tc_func c)))) (test_cases t)))
           \<and> length (failed_tests t') = sum_list (map (\<lambda>c. script_failures (the (tc_func c))) (test_cases t))"
proof -
  let ?t0 = "say [coloured CYAN ''==================== Running Tests ====================''] t"
  obtain t1 where t1: "run_loop (run_script fname) ds 0 (test_cases t) ?t0 = (t1, False)"
      "tests_run t1 = int (sum_list (map (\<lambda>c. length (fst (the (tc_func c)))) (test_cases t)))"
      "length (failed_tests t1) = sum_list (map (\<lambda>c. script_failures (the (tc_func c))) (test_cases t))"
    using run_loop_scripts [OF assms(1), where fname = fname and ds = ds and i = 0 and t = ?t0] assms(2,3) by (auto simp: say_def)
  have "failed_tests t1 = [] \<longleftrightarrow> list_all (\<lambda>c. script_passes (the (tc_func c))) (test_cases t)"
    using t1(3) by (simp add: list_all_iff script_failures_zero flip: length_0_conv)
  with t1 show ?thesis by (auto simp: runAllTests_def showResults_def say_def)
qed

definition demo_tests :: "script easy_test" where
  "demo_tests = registerTest ''b'' ([(True, 9), (False, 10)], Returns) ''t.cpp'' 8 (registerTest ''a'' ([(True, 3)], Returns) ''t.cpp'' 2 EasyTest)"

theorem runAllTests_result_witness: "snd (runAllTests (run_script ''t.cpp'') (\<lambda>_. 0) 0 demo_tests) = Some 1"
proof -
  have "list_all (\<lambda>c. \<exists>s. tc_func c = Some s \<and> snd s \<noteq> Throws_other) (test_cases demo_tests)" "failed_tests demo_tests = []" "tests_run demo_tests = 0"
    by (simp_all add: demo_tests_def registerTest_def EasyTest_def)
  from runAllTests_result [OF this, where fname = "''t.cpp''" and ds = "\<lambda>_. 0" and total_ms = 0] show ?thesis
    by (auto simp: demo_tests_def registerTest_def EasyTest_def script_passes_def)
qed

section \<open>What the report gets wrong\<close>

text \<open>A test that throws counts as failed and not as run: with more throws than assertions, the number of passed tests wraps below zero.\<close>

lemma passed_wraps: "tests_passed (fst (runAllTests (run_script f) ds total_ms (registerTest ''a'' ([], Throws_std w) f l EasyTest))) = - 1"
  by (simp add: runAllTests_def registerTest_def EasyTest_def run_test_def run_script_def say_def tests_passed_def showResults_def Let_def)

text \<open>A test whose assertion failed is announced as passed.\<close>

lemma failed_assertion_ok:
  "\<exists>t'. run_test (run_script f) d \<lparr>tc_name = n, tc_func = Some ([(False, l)], Returns), tc_file = f, tc_line = k\<rparr> t = (t', False)
     \<and> last (cout t') = coloured GREEN ''[       OK ] '' @ n @ '' ('' @ to_string_int d @ '' ms)''"
  by (simp add: run_test_def run_script_def say_def Let_def)

text \<open>An exception that is not derived from \<^verbatim>\<open>std::exception\<close> ends the run without a report.\<close>

lemma foreign_exception_escapes: "snd (runAllTests (run_script f) ds total_ms (registerTest n (xs, Throws_other) f l EasyTest)) = None"
  by (simp add: runAllTests_def registerTest_def EasyTest_def run_test_def run_script_def say_def Let_def)

text \<open>A second run starts with the failures of the first.\<close>

lemma second_run_fails:
  assumes "failed_tests t \<noteq> []" "test_cases t = []"
  shows "snd (runAllTests run ds total_ms t) = Some 1"
  using assms by (simp add: runAllTests_def say_def)

text \<open>With a comparison that is false for a value that is no number, \<^verbatim>\<open>assertNear\<close> accepts it.\<close>

lemma assertNear_unordered:
  "(\<And>x. \<not> gt nan x) \<Longrightarrow> dist e a = nan \<Longrightarrow> failed_tests (assertNear gt dist str e a eps ex fname line t) = failed_tests t"
  by (simp add: assertNear_def check_def)

section \<open>Texts of other values\<close>

text \<open>An enumerator, with the global \<^verbatim>\<open>ToString\<close> if there is one for its type, else by its number.\<close>

definition toString_enum :: "('e \<Rightarrow> string) option \<Rightarrow> ('e \<Rightarrow> int) \<Rightarrow> 'e \<Rightarrow> string" where
  "toString_enum global_ToString underlying v =
     (case global_ToString of Some f \<Rightarrow> f v | None \<Rightarrow> to_string_int (underlying v))"

text \<open>Any other value, by the first of three ways that its type has.\<close>

definition toString_other :: "('a \<Rightarrow> string) option \<Rightarrow> ('a \<Rightarrow> string) option \<Rightarrow> ('a \<Rightarrow> string) option \<Rightarrow> string \<Rightarrow> 'a \<Rightarrow> string" where
  "toString_other global_ToString member_ToString stream type_name v =
     (case global_ToString of
        Some f \<Rightarrow> f v
      | None \<Rightarrow> (case member_ToString of
                  Some f \<Rightarrow> f v
                | None \<Rightarrow> (case stream of Some f \<Rightarrow> f v | None \<Rightarrow> ''<unprintable type: '' @ type_name @ ''>'')))"

end
