(* ===== verification/Time_Test.thy ===== *)
theory Time_Test
  imports Std_Map Cpp_Charconv
begin

text \<open>
  \<^verbatim>\<open>src/breutil/time_test.hpp\<close>: the stop watch \<^verbatim>\<open>TimeTest\<close>. Time points are integers, read from the clock by the caller of a model function; the text of a
  duration in a unit is the parameter \<open>show_time\<close>.
\<close>

section \<open>State\<close>

record hit_info =
  hit_msg :: string
  time_vec :: "int list"
  hit_index :: int

text \<open>The stream that \<^verbatim>\<open>m_file\<close> points to: the constructor does not initialise the pointer.\<close>

datatype file_pointer = Indeterminate | Stream string "string list"

record time_test =
  intevalMap :: "(string, int) std_map"
  hitMap :: "(string, hit_info) std_map"
  hitList :: "string list"
  m_file :: file_pointer
  is_write_file :: bool
  time_unit :: string
  hit_count :: u64
  console :: "string list"

definition TimeTest :: time_test where
  "TimeTest = \<lparr>intevalMap = [], hitMap = [], hitList = [], m_file = Indeterminate, is_write_file = False, time_unit = ''ms'', hit_count = 0, console = []\<rparr>"

definition TimeTest_destroy :: "time_test \<Rightarrow> unit cpp_result" where
  "TimeTest_destroy t = (case m_file t of Indeterminate \<Rightarrow> UB | Stream _ _ \<Rightarrow> Ret ())"

record source_location =
  loc_file :: string
  loc_function :: string
  loc_line :: nat
  loc_column :: nat

definition location_key :: "source_location \<Rightarrow> string \<Rightarrow> string" where
  "location_key loc msg =
     loc_file loc @ loc_function loc @ to_string_int (int (loc_line loc)) @ to_string_int (int (loc_column loc)) @ msg"

section \<open>Operations\<close>

type_synonym show_time = "string \<Rightarrow> int \<Rightarrow> string"

definition unit_name :: "string \<Rightarrow> string" where
  "unit_name u = (if u = ''ms'' then ''ms'' else if u = ''s'' then ''s'' else ''us'')"

definition spend_text :: "show_time \<Rightarrow> string \<Rightarrow> int \<Rightarrow> string" where
  "spend_text show u d = show (unit_name u) d @ '' '' @ unit_name u @ [CHR 0x0A]"

definition Interval :: "show_time \<Rightarrow> source_location \<Rightarrow> string \<Rightarrow> bool \<Rightarrow> int \<Rightarrow> time_test \<Rightarrow> time_test" where
  "Interval show loc msg is_print cur_time t =
     (let key = location_key loc msg in
      case map_of (intevalMap t) key of
        None \<Rightarrow> t \<lparr>intevalMap := map_set key cur_time (intevalMap t)\<rparr>
      | Some pre_time \<Rightarrow>
          t \<lparr>intevalMap := map_set key cur_time (intevalMap t),
             console := (if is_print then console t @ [''Interval: '' @ msg @ '' Spend: '' @ spend_text show (time_unit t) (cur_time - pre_time)]
                         else console t)\<rparr>)"

text \<open>The position of the key in the list, and the one before it, cyclically.\<close>

fun index_of :: "string \<Rightarrow> string list \<Rightarrow> int \<Rightarrow> int" where
  "index_of key [] i = i"
| "index_of key (k # ks) i = (if k = key then i else index_of key ks (i + 1))"

definition compare_index :: "string \<Rightarrow> string list \<Rightarrow> int" where
  "compare_index key ks =
     (let compare = index_of key ks 0 - 1 in if compare < 0 then int (length ks) - 1 else compare)"

text \<open>\<^verbatim>\<open>operator[]\<close> of a vector: undefined outside its range.\<close>

definition vec_at :: "'a list \<Rightarrow> int \<Rightarrow> 'a cpp_result" where
  "vec_at xs i = (if 0 \<le> i \<and> i < int (length xs) then Ret (xs ! nat i) else UB)"

definition empty_info :: hit_info where
  "empty_info = \<lparr>hit_msg = [], time_vec = [], hit_index = 0\<rparr>"

definition info_at :: "string \<Rightarrow> (string, hit_info) std_map \<Rightarrow> hit_info" where
  "info_at key m = (case map_of m key of Some h \<Rightarrow> h | None \<Rightarrow> empty_info)"

definition add_hit :: "string \<Rightarrow> string \<Rightarrow> int \<Rightarrow> time_test \<Rightarrow> time_test" where
  "add_hit key msg now t =
     (case map_of (hitMap t) key of
        None \<Rightarrow> t \<lparr>hit_count := hit_count t + 1,
                   hitMap := map_set key \<lparr>hit_msg = msg, time_vec = [now], hit_index = 0\<rparr> (hitMap t),
                   hitList := hitList t @ [key]\<rparr>
      | Some h \<Rightarrow> t \<lparr>hit_count := hit_count t + 1,
                     hitMap := map_set key (h \<lparr>time_vec := time_vec h @ [now], hit_index := hit_index h + 1\<rparr>) (hitMap t)\<rparr>)"

text \<open>The file is flushed at every hundredth hit; what is written to it is kept in order either way.\<close>

definition write_out :: "bool \<Rightarrow> string \<Rightarrow> time_test \<Rightarrow> time_test cpp_result" where
  "write_out is_print out_msg t =
     (let t1 = (if is_print then t \<lparr>console := console t @ [out_msg]\<rparr> else t)
      in if is_write_file t1 then
           (case m_file t1 of Indeterminate \<Rightarrow> UB | Stream n ls \<Rightarrow> Ret (t1 \<lparr>m_file := Stream n (ls @ [out_msg])\<rparr>))
         else Ret t1)"

definition Hit :: "show_time \<Rightarrow> source_location \<Rightarrow> string \<Rightarrow> bool \<Rightarrow> int \<Rightarrow> time_test \<Rightarrow> time_test cpp_result" where
  "Hit show loc msg is_print now t0 =
     (let key = location_key loc msg; t = add_hit key msg now t0 in
      if length (hitList t) < 2 then Ret t
      else
        let cur_hitinfo = info_at key (hitMap t); need_count = hit_index cur_hitinfo
        in bind_ub (vec_at (hitList t) (compare_index key (hitList t))) (\<lambda>other.
           let compare_hitinfo = info_at other (hitMap t)
           in bind_ub (vec_at (time_vec cur_hitinfo) need_count) (\<lambda>a.
              bind_ub (vec_at (time_vec compare_hitinfo) (hit_index compare_hitinfo)) (\<lambda>b.
              write_out is_print
                (''Hit: from '' @ hit_msg compare_hitinfo @ '' to '' @ hit_msg cur_hitinfo @ '' in Count: '' @ to_string_int need_count @ '' Spend: ''
                 @ spend_text show (time_unit t) (a - b)) t))))"

definition HitSetTimeUnit :: "string \<Rightarrow> time_test \<Rightarrow> time_test" where
  "HitSetTimeUnit u t = t \<lparr>time_unit := u\<rparr>"

definition HitSetWriteFile :: "string \<Rightarrow> time_test \<Rightarrow> time_test" where
  "HitSetWriteFile name t = t \<lparr>m_file := Stream name [], is_write_file := True\<rparr>"

definition HitClear :: "time_test \<Rightarrow> time_test" where
  "HitClear t = t \<lparr>hitMap := [], hitList := []\<rparr>"

section \<open>Invariant\<close>

definition hit_ok :: "time_test \<Rightarrow> bool" where
  "hit_ok t \<longleftrightarrow> map_ok (hitMap t) \<and> distinct (hitList t) \<and> set (hitList t) = dom (map_of (hitMap t))
     \<and> (\<forall>k h. map_of (hitMap t) k = Some h \<longrightarrow> time_vec h \<noteq> [] \<and> hit_index h + 1 = int (length (time_vec h)))
     \<and> (is_write_file t \<longrightarrow> m_file t \<noteq> Indeterminate)"

lemma hit_ok_new: "hit_ok TimeTest"
  by (simp add: hit_ok_def TimeTest_def)

lemma hit_ok_add:
  assumes "hit_ok t"
  shows "hit_ok (add_hit key msg now t)" "key \<in> set (hitList (add_hit key msg now t))"
    "last (time_vec (info_at key (hitMap (add_hit key msg now t)))) = now"
  using assms
  by (auto simp: hit_ok_def add_hit_def info_at_def split: option.splits)

lemma index_of_range: "key \<in> set ks \<Longrightarrow> i \<le> index_of key ks i \<and> index_of key ks i < i + int (length ks)"
proof (induction ks arbitrary: i)
  case (Cons k ks)
  show ?case
  proof (cases "k = key")
    case False
    with Cons have "i + 1 \<le> index_of key ks (i + 1) \<and> index_of key ks (i + 1) < i + 1 + int (length ks)" by auto
    then show ?thesis using False by auto
  qed simp
qed simp

lemma compare_index_range:
  assumes "key \<in> set ks" "2 \<le> length ks"
  shows "0 \<le> compare_index key ks" "compare_index key ks < int (length ks)"
  using index_of_range [OF assms(1), of 0] assms(2) by (auto simp: compare_index_def Let_def)

lemma last_time:
  assumes "hit_ok t" "map_of (hitMap t) k = Some h"
  shows "vec_at (time_vec h) (hit_index h) = Ret (last (time_vec h))"
proof -
  have h: "hit_index h + 1 = int (length (time_vec h))" "time_vec h \<noteq> []" using assms by (auto simp: hit_ok_def)
  then have "hit_index h = int (length (time_vec h) - 1)" by (cases "time_vec h") auto
  with h(2) show ?thesis by (simp add: vec_at_def last_conv_nth)
qed

lemma write_out_ok:
  assumes "hit_ok t"
  shows "\<exists>t'. write_out is_print m t = Ret t' \<and> hit_ok t'"
  using assms by (auto simp: write_out_def Let_def hit_ok_def split: file_pointer.splits)

text \<open>The text that a hit prints: the time since the last hit of the location before it in the list.\<close>

definition hit_text :: "show_time \<Rightarrow> string \<Rightarrow> time_test \<Rightarrow> string" where
  "hit_text show key t =
     (let cur = info_at key (hitMap t); other = info_at (hitList t ! nat (compare_index key (hitList t))) (hitMap t)
      in ''Hit: from '' @ hit_msg other @ '' to '' @ hit_msg cur @ '' in Count: '' @ to_string_int (hit_index cur) @ '' Spend: ''
         @ spend_text show (time_unit t) (last (time_vec cur) - last (time_vec other)))"

lemma Hit_ok:
  assumes "hit_ok t0" "t = add_hit (location_key loc msg) msg now t0"
  shows "Hit show loc msg is_print now t0 = (if length (hitList t) < 2 then Ret t else write_out is_print (hit_text show (location_key loc msg) t) t)"
proof (cases "length (hitList t) < 2")
  case False
  let ?key = "location_key loc msg"
  have ok: "hit_ok t" and m: "?key \<in> set (hitList t)" using hit_ok_add [OF assms(1)] assms(2) by auto
  note r = compare_index_range [OF m] False
  let ?other = "hitList t ! nat (compare_index ?key (hitList t))"
  have "?other \<in> set (hitList t)" using r by (intro nth_mem) linarith
  with m ok obtain h g where "map_of (hitMap t) ?key = Some h" "map_of (hitMap t) ?other = Some g"
    unfolding hit_ok_def by blast
  moreover note last_time [OF ok this(1)] last_time [OF ok this(2)]
  moreover have "vec_at (hitList t) (compare_index ?key (hitList t)) = Ret ?other" using r by (simp add: vec_at_def)
  ultimately show ?thesis using False by (simp add: Hit_def hit_text_def info_at_def Let_def flip: assms(2))
qed (simp add: Hit_def Let_def flip: assms(2))

text \<open>A use of the stop watch.\<close>

datatype time_op = Op_Hit source_location string bool int | Op_Interval source_location string bool int | Op_Unit string | Op_File string | Op_Clear

definition time_op :: "show_time \<Rightarrow> time_op \<Rightarrow> time_test \<Rightarrow> time_test cpp_result" where
  "time_op show op t =
     (case op of
        Op_Hit loc msg p now \<Rightarrow> Hit show loc msg p now t
      | Op_Interval loc msg p now \<Rightarrow> Ret (Interval show loc msg p now t)
      | Op_Unit u \<Rightarrow> Ret (HitSetTimeUnit u t)
      | Op_File f \<Rightarrow> Ret (HitSetWriteFile f t)
      | Op_Clear \<Rightarrow> Ret (HitClear t))"

fun time_run :: "show_time \<Rightarrow> time_op list \<Rightarrow> time_test \<Rightarrow> time_test cpp_result" where
  "time_run show [] t = Ret t"
| "time_run show (op # ops) t = bind_ub (time_op show op t) (time_run show ops)"

lemma time_op_ok:
  assumes "hit_ok t"
  shows "\<exists>t'. time_op show op t = Ret t' \<and> hit_ok t'"
proof (cases op)
  case (Op_Hit loc msg p now)
  let ?t = "add_hit (location_key loc msg) msg now t"
  have "hit_ok ?t" by (rule hit_ok_add [OF assms])
  from write_out_ok [OF this] show ?thesis using Op_Hit Hit_ok [OF assms refl] \<open>hit_ok ?t\<close> by (simp add: time_op_def)
qed (use assms in \<open>auto simp: time_op_def Interval_def HitSetTimeUnit_def HitSetWriteFile_def HitClear_def hit_ok_def Let_def split: option.splits\<close>)


text \<open>The pointer to the file is deleted though it is only initialised by \<^verbatim>\<open>HitSetWriteFile\<close>.\<close>

lemma destroy_unwritten: "TimeTest_destroy TimeTest = UB"
  by (simp add: TimeTest_destroy_def TimeTest_def)

lemma bind_ub_Ret_iff: "bind_ub m f = Ret y \<longleftrightarrow> (\<exists>x. m = Ret x \<and> f x = Ret y)"
  by (cases m) auto

lemma Hit_no_file:
  assumes "Hit show loc msg p now s = Ret s'" "m_file s = Indeterminate" "\<not> is_write_file s"
  shows "m_file s' = Indeterminate \<and> \<not> is_write_file s'"
proof -
  have a: "m_file (add_hit k msg now s) = Indeterminate" "\<not> is_write_file (add_hit k msg now s)" for k
    using assms(2,3) by (simp_all add: add_hit_def split: option.split)
  then show ?thesis
    using assms(1) by (auto simp: Hit_def Let_def bind_ub_Ret_iff write_out_def split: if_splits)
qed

lemma destroy_hits:
  assumes "time_run show ops t = Ret t'" "list_all (\<lambda>op. \<forall>f. op \<noteq> Op_File f) ops" "m_file t = Indeterminate" "\<not> is_write_file t"
  shows "TimeTest_destroy t' = UB"
proof -
  have step: "m_file s' = Indeterminate \<and> \<not> is_write_file s'"
    if "time_op show op s = Ret s'" "\<forall>f. op \<noteq> Op_File f" "m_file s = Indeterminate" "\<not> is_write_file s" for op s s'
    using that
    by (cases op) (auto simp: time_op_def Let_def Interval_def HitSetTimeUnit_def HitClear_def dest: Hit_no_file split: if_splits option.splits)
  have "m_file t' = Indeterminate"
    using assms
  proof (induction ops arbitrary: t)
    case (Cons op ops)
    then obtain s where s: "time_op show op t = Ret s" "time_run show ops s = Ret t'" by (auto simp: bind_ub_Ret_iff)
    from Cons.IH [OF s(2)] step [OF s(1)] Cons.prems show ?case by simp
  qed simp
  then show ?thesis by (simp add: TimeTest_destroy_def)
qed

section \<open>Measuring a call\<close>

text \<open>The call runs between two readings of the clock, which are made only if the duration is to be printed; the text is what is written.\<close>

definition Measure :: "show_time \<Rightarrow> ('s \<Rightarrow> 's) \<Rightarrow> bool \<Rightarrow> string \<Rightarrow> int \<Rightarrow> int \<Rightarrow> 's \<Rightarrow> 's \<times> string" where
  "Measure show func print sv s e state =
     (func state, if print then sv @ ''Spend: '' @ show ''ms'' (e - s) @ '' ms'' @ [CHR 0x0A] else [])"

end
