(* ===== verification/Small_Helpers.thy ===== *)
theory Small_Helpers
  imports Cpp_Charconv
begin

text \<open>
  Small parts of \<^verbatim>\<open>src/breutil\<close> with some logic of their own: the console logger of \<^verbatim>\<open>spdlog.hpp\<close> (used without the spdlog package), \<^verbatim>\<open>file_writer.hpp\<close>,
  the build time of \<^verbatim>\<open>generate_build_info.hpp\<close>, \<^verbatim>\<open>defer.hpp\<close> and \<^verbatim>\<open>runtime.hpp\<close>.
\<close>

section \<open>Logging\<close>

datatype LogLevel = trace | debug | info | warn | error | fatal

fun level_number :: "LogLevel \<Rightarrow> nat" where
  "level_number trace = 0"
| "level_number debug = 1"
| "level_number info = 2"
| "level_number warn = 3"
| "level_number error = 4"
| "level_number fatal = 5"

fun level_str :: "LogLevel \<Rightarrow> string" where
  "level_str trace = ''TRACE''"
| "level_str debug = ''DEBUG''"
| "level_str info = ''INFO''"
| "level_str warn = ''WARN''"
| "level_str error = ''ERROR''"
| "level_str fatal = ''FATAL''"

definition escape :: "string \<Rightarrow> string" where
  "escape n = CHR 0x1B # ''['' @ n @ ''m''"

fun level_color :: "LogLevel \<Rightarrow> string" where
  "level_color trace = escape ''1;30''"
| "level_color debug = escape ''1;33''"
| "level_color info = escape ''1;32''"
| "level_color warn = escape ''1;34''"
| "level_color error = escape ''1;31''"
| "level_color fatal = escape ''1;30''"

text \<open>The last component of a POSIX path.\<close>

definition filename :: "string \<Rightarrow> string" where
  "filename p = rev (takeWhile (\<lambda>c. c \<noteq> CHR ''/'') (rev p))"

text \<open>The state is the level and the console; \<open>message\<close> is the formatted text.\<close>

record logger =
  log_level :: LogLevel
  log_console :: "string list"

definition logger_init :: logger where
  "logger_init = \<lparr>log_level = debug, log_console = []\<rparr>"

definition log_message :: "LogLevel \<Rightarrow> string \<Rightarrow> int \<Rightarrow> string \<Rightarrow> logger \<Rightarrow> logger" where
  "log_message level file_path line message l =
     (if level_number level < level_number (log_level l) then l
      else l \<lparr>log_console := log_console l @
        [level_color level @ ''['' @ level_str level @ ''] '' @ filename file_path @ '':'' @ to_string_int line @ '': '' @ escape ''0'' @ message @ [CHR 0x0A]]\<rparr>)"

definition set_log_level :: "LogLevel \<Rightarrow> logger \<Rightarrow> logger" where
  "set_log_level level l = l \<lparr>log_level := level\<rparr>"

definition log_all :: "(LogLevel \<times> string \<times> int \<times> string) list \<Rightarrow> logger \<Rightarrow> logger" where
  "log_all ms l = foldl (\<lambda>l (v, f, n, m). log_message v f n m l) l ms"

lemma log_level_kept [simp]: "log_level (log_message v f n m l) = log_level l"
  by (simp add: log_message_def)

text \<open>The console shows exactly the messages whose level is at least the one that is set, in their order.\<close>

lemma log_all_filter:
  "length (log_console (log_all ms l)) = length (log_console l) + length (filter (\<lambda>(v, _). level_number (log_level l) \<le> level_number v) ms)"
  by (induction ms arbitrary: l) (auto simp: log_all_def log_message_def)

lemma log_suppressed: "level_number v < level_number v' \<Longrightarrow> log_message v f n m (set_log_level v' l) = set_log_level v' l"
  by (simp add: log_message_def set_log_level_def)

lemma level_str_inj: "level_str a = level_str b \<longleftrightarrow> a = b"
  by (cases a; cases b) simp_all

text \<open>Two levels share a colour.\<close>

lemma trace_fatal_colour: "level_color trace = level_color fatal"
  by simp

section \<open>\<^verbatim>\<open>FileWriter\<close>\<close>

text \<open>The output stream: what it has accepted, and whether it is still good. \<open>accept\<close> tells whether the system takes the next write.\<close>

record file_writer =
  is_write :: bool
  stream_open :: bool
  stream_good :: bool
  written :: string

definition FileWriter :: "bool \<Rightarrow> string \<Rightarrow> bool \<Rightarrow> std_exn + file_writer" where
  "FileWriter can_open name write =
     (if \<not> write then Inr \<lparr>is_write = False, stream_open = False, stream_good = True, written = []\<rparr>
      else if can_open then Inr \<lparr>is_write = True, stream_open = True, stream_good = True, written = []\<rparr>
      else Inl (RuntimeError (''Failed to open file: '' @ name)))"

text \<open>\<open>data\<close> is \<open>None\<close> for a null pointer; reading \<open>size\<close> bytes past its end is undefined. A write to a stream that is not good does nothing.\<close>

definition WriteData :: "bool \<Rightarrow> string option \<Rightarrow> int \<Rightarrow> file_writer \<Rightarrow> (bool \<times> file_writer) cpp_result" where
  "WriteData accept data n w =
     (if \<not> is_write w then Ret (False, w)
      else if data = None \<or> n \<le> 0 then Ret (False, w)
      else if int (length (the data)) < n then UB
      else if stream_good w \<and> accept then Ret (True, w \<lparr>written := written w @ take (nat n) (the data)\<rparr>)
      else Ret (False, w \<lparr>stream_good := False\<rparr>))"

fun write_all :: "(bool \<times> string) list \<Rightarrow> file_writer \<Rightarrow> (bool list \<times> file_writer) cpp_result" where
  "write_all [] w = Ret ([], w)"
| "write_all ((accept, d) # ds) w =
     bind_ub (WriteData accept (Some d) (int (length d)) w) (\<lambda>(r, w1).
     bind_ub (write_all ds w1) (\<lambda>(rs, w2). Ret (r # rs, w2)))"

text \<open>The file holds the chunks that were accepted, in order; after a failure nothing more is written.\<close>

lemma write_all_written:
  assumes "is_write w" "stream_good w" "list_all (\<lambda>(_, d). d \<noteq> []) ds"
  shows "\<exists>w'. write_all ds w = Ret (map (\<lambda>i. i < length (takeWhile fst ds)) [0..<length ds], w')
     \<and> written w' = written w @ concat (map snd (takeWhile fst ds))"
proof -
  have failing: "\<exists>w'. write_all ds w = Ret (replicate (length ds) False, w') \<and> written w' = written w"
    if "is_write w" "\<not> stream_good w" "list_all (\<lambda>(_, d). d \<noteq> []) ds" for w ds
    using that
  proof (induction ds arbitrary: w)
    case (Cons x ds)
    obtain a d where x: "x = (a, d)" by fastforce
    with Cons.prems have "WriteData a (Some d) (int (length d)) w = Ret (False, w \<lparr>stream_good := False\<rparr>)"
      by (simp add: WriteData_def)
    with Cons.IH [of "w \<lparr>stream_good := False\<rparr>"] Cons.prems x show ?case by auto
  qed simp
  show ?thesis
    using assms
  proof (induction ds arbitrary: w)
    case (Cons x ds)
    obtain a d where x: "x = (a, d)" by fastforce
    show ?case
    proof (cases a)
      case True
      let ?w = "w \<lparr>written := written w @ d\<rparr>"
      have step: "WriteData a (Some d) (int (length d)) w = Ret (True, ?w)"
        using Cons.prems x True by (simp add: WriteData_def)
      obtain w' where w': "write_all ds ?w = Ret (map (\<lambda>i. i < length (takeWhile fst ds)) [0..<length ds], w')"
          "written w' = written ?w @ concat (map snd (takeWhile fst ds))"
        using Cons.IH [of ?w] Cons.prems by auto
      have "map (\<lambda>i. i < length (takeWhile fst (x # ds))) [0..<length (x # ds)]
          = True # map (\<lambda>i. i < length (takeWhile fst ds)) [0..<length ds]"
        using x True by (simp add: upt_rec [of 0] map_Suc_upt [symmetric] del: upt_Suc)
      with step w' x True show ?thesis by simp
    next
      case False
      let ?w = "w \<lparr>stream_good := False\<rparr>"
      have step: "WriteData a (Some d) (int (length d)) w = Ret (False, ?w)"
        using Cons.prems x False by (simp add: WriteData_def)
      obtain w' where w': "write_all ds ?w = Ret (replicate (length ds) False, w')" "written w' = written ?w"
        using failing [of ?w ds] Cons.prems by auto
      have "map (\<lambda>i. i < length (takeWhile fst (x # ds))) [0..<length (x # ds)] = replicate (Suc (length ds)) False"
        using x False by (simp add: map_replicate_const del: upt_Suc)
      with step w' x False show ?thesis by simp
    qed
  qed simp
qed

section \<open>The build time\<close>

definition get_month :: "string \<Rightarrow> nat" where
  "get_month date =
     (let m = take 3 date in
      if m = ''Jan'' then 1 else if m = ''Feb'' then 2 else if m = ''Mar'' then 3 else if m = ''Apr'' then 4
      else if m = ''May'' then 5 else if m = ''Jun'' then 6 else if m = ''Jul'' then 7 else if m = ''Aug'' then 8
      else if m = ''Sep'' then 9 else if m = ''Oct'' then 10 else if m = ''Nov'' then 11 else if m = ''Dec'' then 12 else 0)"

definition digit_of :: "char \<Rightarrow> int" where
  "digit_of c = int (of_char c) - 48"

text \<open>\<^verbatim>\<open>snprintf\<close> with \<open>%0nd\<close>.\<close>

definition padded :: "nat \<Rightarrow> int \<Rightarrow> string" where
  "padded n v = (let s = to_string_int v in replicate (n - length s) (CHR ''0'') @ s)"

text \<open>The arguments are the texts of the macros \<^verbatim>\<open>__DATE__\<close> and \<^verbatim>\<open>__TIME__\<close>; the result fits into the buffer of 32 characters.\<close>

definition GetBuildTime :: "string \<Rightarrow> string \<Rightarrow> string" where
  "GetBuildTime date_str time_str =
     (let hour = digit_of (time_str ! 0) * 10 + digit_of (time_str ! 1);
          minute = digit_of (time_str ! 3) * 10 + digit_of (time_str ! 4);
          sec = digit_of (time_str ! 6) * 10 + digit_of (time_str ! 7);
          month = int (get_month date_str);
          day1 = (if date_str ! 4 = CHR '' '' then 0 else digit_of (date_str ! 4));
          day = day1 * 10 + digit_of (date_str ! 5);
          year = digit_of (date_str ! 7) * 1000 + digit_of (date_str ! 8) * 100 + digit_of (date_str ! 9) * 10 + digit_of (date_str ! 10)
      in padded 4 year @ ''.'' @ padded 2 month @ ''.'' @ padded 2 day @ '' '' @ padded 2 hour @ '':'' @ padded 2 minute @ '':'' @ padded 2 sec)"

text \<open>How a compiler writes the two macros.\<close>

definition month_name :: "nat \<Rightarrow> string" where
  "month_name m = [''Jan'', ''Feb'', ''Mar'', ''Apr'', ''May'', ''Jun'', ''Jul'', ''Aug'', ''Sep'', ''Oct'', ''Nov'', ''Dec''] ! (m - 1)"

definition two_digits :: "nat \<Rightarrow> string" where
  "two_digits n = [char_of (48 + n div 10), char_of (48 + n mod 10)]"

definition date_macro :: "nat \<Rightarrow> nat \<Rightarrow> nat \<Rightarrow> string" where
  "date_macro y m d =
     month_name m @ '' '' @ (if d < 10 then [CHR '' '', char_of (48 + d)] else two_digits d) @ '' '' @ two_digits (y div 100) @ two_digits (y mod 100)"

definition time_macro :: "nat \<Rightarrow> nat \<Rightarrow> nat \<Rightarrow> string" where
  "time_macro h mi s = two_digits h @ '':'' @ two_digits mi @ '':'' @ two_digits s"

lemma digit_of_char [simp]: "n < 10 \<Longrightarrow> digit_of (char_of (48 + n)) = int n"
  by (simp add: digit_of_def)

lemma two_digits_value: "n < 100 \<Longrightarrow> digit_of (two_digits n ! 0) * 10 + digit_of (two_digits n ! 1) = int n"
  by (simp add: two_digits_def) presburger

lemma length_two_digits [simp]: "length (two_digits n) = 2"
  by (simp add: two_digits_def)

lemma get_month_name: "1 \<le> m \<Longrightarrow> m \<le> 12 \<Longrightarrow> get_month (month_name m @ r) = m \<and> length (month_name m) = 3"
proof -
  assume "1 \<le> m" "m \<le> 12"
  then have "m = 1 \<or> m = 2 \<or> m = 3 \<or> m = 4 \<or> m = 5 \<or> m = 6 \<or> m = 7 \<or> m = 8 \<or> m = 9 \<or> m = 10 \<or> m = 11 \<or> m = 12"
    by presburger
  then show ?thesis by (elim disjE) (simp_all add: month_name_def get_month_def)
qed

text \<open>The text that the compiler gives is turned into the date and the time that it stands for.\<close>

lemma two_digits_text: "n < 100 \<Longrightarrow> \<exists>a b. two_digits n = [a, b] \<and> digit_of a * 10 + digit_of b = int n"
  using two_digits_value [of n] by (simp add: two_digits_def)

lemma day_text: "d < 100 \<Longrightarrow> \<exists>a b. (if d < 10 then [CHR '' '', char_of (48 + d)] else two_digits d) = [a, b]
    \<and> (if a = CHR '' '' then 0 else digit_of a) * 10 + digit_of b = int d"
proof (cases "d < 10")
  case False
  moreover assume "d < 100"
  ultimately have "char_of (48 + d div 10) \<noteq> CHR '' ''"
  proof -
    have "d div 10 < 10" using \<open>d < 100\<close> by (simp add: less_mult_imp_div_less)
    then have "digit_of (char_of (48 + d div 10)) = int (d div 10)" by (rule digit_of_char)
    moreover have "digit_of (CHR '' '') = - 16" by (simp add: digit_of_def)
    ultimately show ?thesis by (metis neg_0_le_iff_le of_nat_0_le_iff not_numeral_le_zero)
  qed
  then show ?thesis using False two_digits_value [OF \<open>d < 100\<close>] by (simp add: two_digits_def)
qed simp

lemma GetBuildTime_macros:
  assumes "1 \<le> m" "m \<le> 12" "d < 100" "y < 10000" "h < 100" "mi < 100" "s < 100"
  shows "GetBuildTime (date_macro y m d) (time_macro h mi s) =
    padded 4 (int y) @ ''.'' @ padded 2 (int m) @ ''.'' @ padded 2 (int d) @ '' '' @ padded 2 (int h) @ '':'' @ padded 2 (int mi) @ '':'' @ padded 2 (int s)"
proof -
  have "length (month_name m) = 3" using get_month_name [OF assms(1,2), of "[]"] by (rule conjunct2)
  then obtain a b c where n: "month_name m = [a, b, c]" by (auto simp: length_Suc_conv numeral_3_eq_3)
  have month: "get_month (date_macro y m d) = m"
    unfolding date_macro_def by (rule conjunct1 [OF get_month_name [OF assms(1,2)]])
  have "y div 100 < 100" "y mod 100 < 100" using assms(4) by (auto simp: less_mult_imp_div_less)
  then obtain y1 y2 y3 y4 where yt: "two_digits (y div 100) = [y1, y2]" "two_digits (y mod 100) = [y3, y4]"
    and yv: "digit_of y1 * 10 + digit_of y2 = int (y div 100)" "digit_of y3 * 10 + digit_of y4 = int (y mod 100)"
    using two_digits_text by metis
  have year: "digit_of y1 * 1000 + digit_of y2 * 100 + digit_of y3 * 10 + digit_of y4 = int y"
  proof -
    have "int (y div 100) * 100 + int (y mod 100) = int y" by presburger
    with yv show ?thesis by (simp flip: yv)
  qed
  obtain d1 d2 where dt: "(if d < 10 then [CHR '' '', char_of (48 + d)] else two_digits d) = [d1, d2]"
    and dv: "(if d1 = CHR '' '' then 0 else digit_of d1) * 10 + digit_of d2 = int d"
    using day_text [OF assms(3)] by blast
  obtain h1 h2 where ht: "two_digits h = [h1, h2]" "digit_of h1 * 10 + digit_of h2 = int h" using two_digits_text [OF assms(5)] by blast
  obtain m1 m2 where mt: "two_digits mi = [m1, m2]" "digit_of m1 * 10 + digit_of m2 = int mi" using two_digits_text [OF assms(6)] by blast
  obtain s1 s2 where st: "two_digits s = [s1, s2]" "digit_of s1 * 10 + digit_of s2 = int s" using two_digits_text [OF assms(7)] by blast
  have dm: "date_macro y m d = [a, b, c, CHR '' '', d1, d2, CHR '' '', y1, y2, y3, y4]"
    unfolding date_macro_def n dt yt by simp
  have tm: "time_macro h mi s = [h1, h2, CHR '':'', m1, m2, CHR '':'', s1, s2]"
    unfolding time_macro_def ht(1) mt(1) st(1) by simp
  show ?thesis
    unfolding GetBuildTime_def month Let_def unfolding dm tm using dv
    by (cases "d1 = CHR '' ''") (simp_all add: year ht(2) mt(2) st(2))
qed

section \<open>\<^verbatim>\<open>Defer\<close>\<close>

text \<open>The functions, and what a run of the destructor does to a state; unlike the statement of the same name in Go, they run in the order in which they were added.\<close>

type_synonym 's deferred = "('s \<Rightarrow> 's) list"

definition Defer :: "('s \<Rightarrow> 's) \<Rightarrow> 's deferred" where
  "Defer f = [f]"

definition Defer_Add :: "('s \<Rightarrow> 's) \<Rightarrow> 's deferred \<Rightarrow> 's deferred" where
  "Defer_Add f d = d @ [f]"

definition Defer_destroy :: "'s deferred \<Rightarrow> 's \<Rightarrow> 's" where
  "Defer_destroy d s = foldl (\<lambda>s f. f s) s d"

lemma Defer_order: "Defer_destroy (Defer_Add g (Defer f)) s = g (f s)"
  by (simp add: Defer_destroy_def Defer_Add_def Defer_def)

section \<open>The process\<close>

text \<open>The names in \<^verbatim>\<open>/proc/self/task\<close>; on Windows the owners of the threads in the snapshot.\<close>

definition NumGoroutine :: "string list option \<Rightarrow> int" where
  "NumGoroutine dir = (case dir of None \<Rightarrow> 1 | Some entries \<Rightarrow> int (length (filter (\<lambda>e. take 1 e \<noteq> ''.'') entries)))"

definition NumGoroutine_win :: "u32 \<Rightarrow> u32 list option \<Rightarrow> int" where
  "NumGoroutine_win pid snapshot = (case snapshot of None \<Rightarrow> 1 | Some owners \<Rightarrow> int (length (filter (\<lambda>q. q = pid) owners)))"

record MemStats =
  Alloc :: u64
  TotalAlloc :: u64
  Sys :: u64
  HeapAlloc :: u64
  HeapSys :: u64
  HeapInuse :: u64

text \<open>
  The first two numbers of \<^verbatim>\<open>/proc/self/statm\<close> are the size and the resident part, in pages; the extractions stop at the first failure, and the products are
  64-bit.
\<close>

text \<open>\<^verbatim>\<open>operator>>\<close> for a \<^verbatim>\<open>long\<close>: the value, and the rest of the text unless the stream has failed; a number out of range gives the nearest one.\<close>

definition extract_long :: "string \<Rightarrow> int \<times> string option" where
  "extract_long s =
     (let (neg, t) = strip_sign (dropWhile isspace s);
          ds = takeWhile isdigit t;
          v = (if neg then - int (digits_value 10 ds) else int (digits_value 10 ds))
      in if ds = [] then (0, None)
         else if v < INT64_MIN then (INT64_MIN, None) else if INT64_MAX < v then (INT64_MAX, None)
         else (v, Some (dropWhile isdigit t)))"

definition mem_stats :: "u64 \<Rightarrow> u64 \<Rightarrow> MemStats" where
  "mem_stats sys resident =
     \<lparr>Alloc = resident, TotalAlloc = resident, Sys = sys, HeapAlloc = resident, HeapSys = sys, HeapInuse = resident\<rparr>"

definition ReadMemStats :: "string option \<Rightarrow> int \<Rightarrow> MemStats" where
  "ReadMemStats statm page_size =
     (case statm of
        None \<Rightarrow> mem_stats 0 0
      | Some s \<Rightarrow>
          (case extract_long s of (pages, rest) \<Rightarrow>
             let resident = (case rest of Some r \<Rightarrow> fst (extract_long r) | None \<Rightarrow> 0)
             in mem_stats (word_of_int pages * word_of_int page_size) (word_of_int resident * word_of_int page_size)))"

lemma ReadMemStats_consistent:
  "HeapAlloc (ReadMemStats s p) = Alloc (ReadMemStats s p)" "HeapSys (ReadMemStats s p) = Sys (ReadMemStats s p)"
  "TotalAlloc (ReadMemStats s p) = Alloc (ReadMemStats s p)"
  by (simp_all add: ReadMemStats_def mem_stats_def Let_def split: option.splits prod.splits)

end
