(* ===== verification/Windows_Version.thy ===== *)
theory Windows_Version
  imports Cpp_Prelude
begin

text \<open>
  \<^verbatim>\<open>src/breutil/sys_win/version.hpp\<close>: the classification of the version numbers of Windows and of its product types. The registry class that the file uses is not
  part of the repository.
\<close>

datatype version_alias =
    VERSION_PRE_XP | VERSION_XP | VERSION_SERVER_2003 | VERSION_VISTA | VERSION_WIN7 | VERSION_WIN8 | VERSION_WIN8_1
  | VERSION_WIN10 | VERSION_WIN10_TH2 | VERSION_WIN10_RS1 | VERSION_WIN10_RS2 | VERSION_WIN10_RS3 | VERSION_WIN10_RS4 | VERSION_WIN10_RS5
  | VERSION_WIN10_19H1 | VERSION_WIN10_19H2 | VERSION_WIN10_20H1 | VERSION_WIN10_20H2 | VERSION_WIN10_21H1 | VERSION_WIN10_21H2
  | VERSION_SERVER_2022 | VERSION_WIN11 | VERSION_WIN_LAST

text \<open>The values of the enumeration.\<close>

fun version_number :: "version_alias \<Rightarrow> nat" where
  "version_number VERSION_PRE_XP = 0"
| "version_number VERSION_XP = 1"
| "version_number VERSION_SERVER_2003 = 2"
| "version_number VERSION_VISTA = 3"
| "version_number VERSION_WIN7 = 4"
| "version_number VERSION_WIN8 = 5"
| "version_number VERSION_WIN8_1 = 6"
| "version_number VERSION_WIN10 = 7"
| "version_number VERSION_WIN10_TH2 = 8"
| "version_number VERSION_WIN10_RS1 = 9"
| "version_number VERSION_WIN10_RS2 = 10"
| "version_number VERSION_WIN10_RS3 = 11"
| "version_number VERSION_WIN10_RS4 = 12"
| "version_number VERSION_WIN10_RS5 = 13"
| "version_number VERSION_WIN10_19H1 = 14"
| "version_number VERSION_WIN10_19H2 = 15"
| "version_number VERSION_WIN10_20H1 = 16"
| "version_number VERSION_WIN10_20H2 = 17"
| "version_number VERSION_WIN10_21H1 = 18"
| "version_number VERSION_WIN10_21H2 = 19"
| "version_number VERSION_SERVER_2022 = 20"
| "version_number VERSION_WIN11 = 21"
| "version_number VERSION_WIN_LAST = 22"

fun version_of :: "nat \<Rightarrow> version_alias" where
  "version_of n = [VERSION_PRE_XP, VERSION_XP, VERSION_SERVER_2003, VERSION_VISTA, VERSION_WIN7, VERSION_WIN8, VERSION_WIN8_1, VERSION_WIN10, VERSION_WIN10_TH2, VERSION_WIN10_RS1, VERSION_WIN10_RS2, VERSION_WIN10_RS3, VERSION_WIN10_RS4, VERSION_WIN10_RS5, VERSION_WIN10_19H1, VERSION_WIN10_19H2, VERSION_WIN10_20H1, VERSION_WIN10_20H2, VERSION_WIN10_21H1, VERSION_WIN10_21H2, VERSION_SERVER_2022, VERSION_WIN11, VERSION_WIN_LAST] ! n"

lemma version_number_inj: "version_number a = version_number b \<Longrightarrow> a = b"
proof -
  have "version_of (version_number v) = v" for v by (cases v) (simp_all add: numeral_nat)
  then show "version_number a = version_number b \<Longrightarrow> a = b" by metis
qed

text \<open>The enumerators compare by their values.\<close>

instantiation version_alias :: linorder
begin

definition less_eq_version_alias :: "version_alias \<Rightarrow> version_alias \<Rightarrow> bool" where
  "less_eq_version_alias a b \<longleftrightarrow> version_number a \<le> version_number b"

definition less_version_alias :: "version_alias \<Rightarrow> version_alias \<Rightarrow> bool" where
  "less_version_alias a b \<longleftrightarrow> version_number a < version_number b"

instance
  by standard (auto simp: less_eq_version_alias_def less_version_alias_def intro: version_number_inj)

end

definition win10_version :: "int \<Rightarrow> version_alias" where
  "win10_version build =
     (if build < 10586 then VERSION_WIN10
      else if build < 14393 then VERSION_WIN10_TH2
      else if build < 15063 then VERSION_WIN10_RS1
      else if build < 16299 then VERSION_WIN10_RS2
      else if build < 17134 then VERSION_WIN10_RS3
      else if build < 17763 then VERSION_WIN10_RS4
      else if build < 18362 then VERSION_WIN10_RS5
      else if build < 18363 then VERSION_WIN10_19H1
      else if build < 19041 then VERSION_WIN10_19H2
      else if build < 19042 then VERSION_WIN10_20H1
      else if build < 19043 then VERSION_WIN10_20H2
      else if build < 19044 then VERSION_WIN10_21H1
      else if build < 20348 then VERSION_WIN10_21H2
      else if build < 22000 then VERSION_SERVER_2022
      else VERSION_WIN11)"

definition major_minor_build_to_version :: "int \<Rightarrow> int \<Rightarrow> int \<Rightarrow> version_alias" where
  "major_minor_build_to_version major minor build =
     (if major = 5 \<and> 0 < minor then if minor = 1 then VERSION_XP else VERSION_SERVER_2003
      else if major = 6 then
        if minor = 0 then VERSION_VISTA else if minor = 1 then VERSION_WIN7 else if minor = 2 then VERSION_WIN8 else VERSION_WIN8_1
      else if major = 10 then win10_version build
      else if major = 11 then VERSION_WIN11
      else if 6 < major then VERSION_WIN_LAST
      else VERSION_PRE_XP)"

section \<open>The product type\<close>

datatype version_type = SUITE_HOME | SUITE_PROFESSIONAL | SUITE_SERVER | SUITE_ENTERPRISE | SUITE_EDUCATION | SUITE_LAST

datatype product = PRODUCT_STANDARD_SERVER | PRODUCT_ULTIMATE | PRODUCT_BUSINESS | PRODUCT_EDUCATION | PRODUCT_OTHER

text \<open>What the constructor of \<^verbatim>\<open>os_info\<close> asks of the system beside the numbers.\<close>

record product_info =
  product :: product
  workstation :: bool
  amd64 :: bool
  suite_home_server :: bool
  suite_personal :: bool

definition os_type :: "int \<Rightarrow> int \<Rightarrow> product_info \<Rightarrow> version_type" where
  "os_type major minor p =
     (if major = 6 \<or> major = 10 then
        (case product p of
           PRODUCT_STANDARD_SERVER \<Rightarrow> SUITE_SERVER
         | PRODUCT_ULTIMATE \<Rightarrow> SUITE_PROFESSIONAL
         | PRODUCT_BUSINESS \<Rightarrow> SUITE_ENTERPRISE
         | PRODUCT_EDUCATION \<Rightarrow> SUITE_EDUCATION
         | PRODUCT_OTHER \<Rightarrow> SUITE_HOME)
      else if major = 5 \<and> minor = 2 then
        if workstation p \<and> amd64 p then SUITE_PROFESSIONAL
        else if suite_home_server p then SUITE_HOME
        else SUITE_SERVER
      else if major = 5 \<and> minor = 1 then if suite_personal p then SUITE_HOME else SUITE_PROFESSIONAL
      else SUITE_HOME)"

section \<open>Facts\<close>

lemma win10_version_mono: "a \<le> b \<Longrightarrow> win10_version a \<le> win10_version b"
  by (simp add: win10_version_def less_eq_version_alias_def)

text \<open>The classification respects the order of the releases; the numbers below XP and the unknown major versions apart.\<close>

lemma version_mono:
  assumes "major_minor_build_to_version a b c \<notin> {VERSION_PRE_XP, VERSION_WIN_LAST}" "major_minor_build_to_version a' b' c' \<notin> {VERSION_PRE_XP, VERSION_WIN_LAST}"
    and "a < a' \<or> a = a' \<and> (b < b' \<and> a \<noteq> 10 \<or> b = b' \<and> c \<le> c')" "0 \<le> b" "0 \<le> b'"
  shows "major_minor_build_to_version a b c \<le> major_minor_build_to_version a' b' c'"
proof -
  have a: "a \<in> {5, 6, 10, 11}" "a' \<in> {5, 6, 10, 11}" "a = 5 \<longrightarrow> 0 < b" "a' = 5 \<longrightarrow> 0 < b'"
    using assms(1,2) by (auto simp: major_minor_build_to_version_def split: if_splits)
  have w: "VERSION_WIN10 \<le> win10_version x \<and> win10_version x \<le> VERSION_WIN11" for x
    by (simp add: win10_version_def less_eq_version_alias_def)
  have low: "v \<in> {VERSION_XP, VERSION_SERVER_2003, VERSION_VISTA, VERSION_WIN7, VERSION_WIN8, VERSION_WIN8_1} \<Longrightarrow> v \<le> VERSION_WIN10 \<and> v \<le> VERSION_WIN11" for v
    by (auto simp: less_eq_version_alias_def)
  have order: "VERSION_XP \<le> VERSION_SERVER_2003" "VERSION_SERVER_2003 \<le> VERSION_VISTA" "VERSION_XP \<le> VERSION_VISTA"
      "VERSION_VISTA \<le> VERSION_WIN7" "VERSION_WIN7 \<le> VERSION_WIN8" "VERSION_WIN8 \<le> VERSION_WIN8_1"
    by (auto simp: less_eq_version_alias_def)
  let ?v = "major_minor_build_to_version a b c" and ?v' = "major_minor_build_to_version a' b' c'"
  consider "a = a'" | "a < 10" "a' \<ge> 10" | "a = 5" "a' = 6" | "a = 10" "a' = 11" using a assms(3) by auto
  then show ?thesis
  proof cases
    case 1
    then show ?thesis using a assms(3,4,5) order
      by (auto simp: major_minor_build_to_version_def win10_version_mono intro: order.trans)
  next
    case 2
    then have "?v \<in> {VERSION_XP, VERSION_SERVER_2003, VERSION_VISTA, VERSION_WIN7, VERSION_WIN8, VERSION_WIN8_1}"
      using a by (auto simp: major_minor_build_to_version_def)
    moreover have "VERSION_WIN10 \<le> VERSION_WIN11" by (simp add: less_eq_version_alias_def)
    then have "VERSION_WIN10 \<le> ?v'" using 2 a w by (auto simp: major_minor_build_to_version_def)
    ultimately show ?thesis using low by (meson order.trans)
  next
    case 3
    then have "?v \<in> {VERSION_XP, VERSION_SERVER_2003}" "?v' \<in> {VERSION_VISTA, VERSION_WIN7, VERSION_WIN8, VERSION_WIN8_1}"
      using a by (auto simp: major_minor_build_to_version_def)
    then show ?thesis by (auto simp: less_eq_version_alias_def)
  next
    case 4
    then show ?thesis using w by (simp add: major_minor_build_to_version_def)
  qed
qed

text \<open>Windows 11 reports the major version 10, so the build number decides.\<close>

lemma windows_11: "22000 \<le> c \<Longrightarrow> major_minor_build_to_version 10 b c = VERSION_WIN11"
  by (simp add: major_minor_build_to_version_def win10_version_def)

lemma windows_2000: "major_minor_build_to_version 5 0 c = VERSION_PRE_XP"
  by (simp add: major_minor_build_to_version_def)

section \<open>The constructor\<close>

datatype win_architecture = X86_ARCHITECTURE | X64_ARCHITECTURE | IA64_ARCHITECTURE | OTHER_ARCHITECTURE

record os_info =
  info_version :: version_alias
  info_number :: "int \<times> int \<times> int \<times> int"
  info_type :: version_type
  info_pack :: "int \<times> int"
  info_pack_str :: string
  info_architecture :: win_architecture
  info_processors :: int
  info_granularity :: nat

text \<open>
  What the system answers: the version record as \<^verbatim>\<open>internal_get_version_numbers\<close> leaves it, the revision in the registry, none if the key cannot be opened or has no such
  value, and the native system information. \<^verbatim>\<open>get_ubr\<close> starts from zero.
\<close>

record win_answers =
  version_info :: "int \<times> int \<times> int"
  service_pack :: "int \<times> int"
  csd_version :: string
  ubr :: "32 word option"
  processor_architecture :: nat
  number_of_processors :: "32 word"
  allocation_granularity :: nat

definition get_ubr :: "win_answers \<Rightarrow> int" where
  "get_ubr a = (case ubr a of None \<Rightarrow> 0 | Some v \<Rightarrow> sint v)"

definition architecture_of :: "nat \<Rightarrow> win_architecture" where
  "architecture_of n =
     (if n = 0 then X86_ARCHITECTURE else if n = 9 then X64_ARCHITECTURE else if n = 6 then IA64_ARCHITECTURE else OTHER_ARCHITECTURE)"

definition make_os_info :: "win_answers \<Rightarrow> product_info \<Rightarrow> os_info" where
  "make_os_info a p =
     (let (major, minor, build) = version_info a
      in \<lparr>info_version = major_minor_build_to_version major minor build, info_number = (major, minor, build, get_ubr a),
          info_type = os_type major minor p, info_pack = service_pack a, info_pack_str = csd_version a,
          info_architecture = architecture_of (processor_architecture a), info_processors = sint (number_of_processors a),
          info_granularity = allocation_granularity a\<rparr>)"

text \<open>The version that is classified is the one that is stored.\<close>

lemma make_os_info_consistent:
  "case info_number (make_os_info a p) of (major, minor, build, _) \<Rightarrow> info_version (make_os_info a p) = major_minor_build_to_version major minor build"
  by (simp add: make_os_info_def case_prod_beta)

end
