(* ===== verification/Platform_Config.thy ===== *)
theory Platform_Config
  imports Cpp_Prelude
begin

text \<open>
  \<^verbatim>\<open>src/breutil/platform.hpp\<close>, \<^verbatim>\<open>lib_export.hpp\<close> and \<^verbatim>\<open>compiler.hpp\<close>: what the preprocessor makes of the macros that the compiler defines. \<open>has\<close> tells which are defined, \<open>val\<close>
  the value of an expression of the headers that the file includes.
\<close>

section \<open>The target system\<close>

definition windows_family :: "(string \<Rightarrow> bool) \<Rightarrow> (string \<Rightarrow> bool) \<Rightarrow> string list" where
  "windows_family has val =
     (if has ''_WIN32_WCE'' then [''BRE_OS_WINDOWS_MOBILE'']
      else if has ''WINAPI_FAMILY'' then
        (if val ''WINAPI_PARTITION_DESKTOP'' then [''BRE_OS_WINDOWS_DESKTOP'']
         else if val ''WINAPI_PARTITION_PHONE_APP'' then [''BRE_OS_WINDOWS_PHONE'']
         else if val ''WINAPI_PARTITION_APP'' then [''BRE_OS_WINDOWS_RT'', ''BRE_OS_WINDOWS_UWP'']
         else if val ''WINAPI_PARTITION_TV_TITLE'' then [''BRE_OS_WINDOWS_PHONE'', ''BRE_OS_WINDOWS_TV_TITLE'']
         else if val ''WINAPI_PARTITION_GAMES'' then [''BRE_OS_WINDOWS_GAMES'']
         else [''BRE_OS_WINDOWS_DESKTOP''])
      else [''BRE_OS_WINDOWS_DESKTOP''])"

definition target_system :: "(string \<Rightarrow> bool) \<Rightarrow> (string \<Rightarrow> bool) \<Rightarrow> string list" where
  "target_system has val =
     (if has ''__CYGWIN__'' then [''BRE_OS_CYGWIN'']
      else if has ''__MINGW__'' \<or> has ''__MINGW32__'' \<or> has ''__MINGW64__'' then [''BRE_OS_WINDOWS_MINGW'', ''BRE_OS_WINDOWS'']
      else if has ''_WIN32'' then ''BRE_OS_WINDOWS'' # windows_family has val
      else if has ''__OS2__'' then [''BRE_OS_OS2'']
      else if has ''__APPLE__'' then
        [''BRE_OS_MAC''] @ (if val ''TARGET_OS_IPHONE'' then [''BRE_OS_IOS''] else []) @ (if val ''TARGET_OS_VISION'' then [''BRE_OS_VISION''] else [])
      else if has ''__DragonFly__'' then [''BRE_OS_DRAGONFLY'']
      else if has ''__FreeBSD__'' then [''BRE_OS_FREEBSD'']
      else if has ''__Fuchsia__'' then [''BRE_OS_FUCHSIA'']
      else if has ''__GNU__'' then [''BRE_OS_GNU_HURD'']
      else if has ''__GLIBC__'' \<and> has ''__FreeBSD_kernel__'' then [''BRE_OS_GNU_KFREEBSD'']
      else if has ''__linux__'' then [''BRE_OS_LINUX''] @ (if has ''__ANDROID__'' then [''BRE_OS_LINUX_ANDROID''] else [])
      else if has ''__MVS__'' then [''BRE_OS_ZOS'']
      else if has ''__sun'' \<and> has ''__SVR4'' then [''BRE_OS_SOLARIS'']
      else if has ''_AIX'' then [''BRE_OS_AIX'']
      else if has ''__hpux'' then [''BRE_OS_HPUX'']
      else if has ''__native_client__'' then [''BRE_OS_NACL'']
      else if has ''__NetBSD__'' then [''BRE_OS_NETBSD'']
      else if has ''__OpenBSD__'' then [''BRE_OS_OPENBSD'']
      else if has ''__QNX__'' then [''BRE_OS_QNX'']
      else if has ''__HAIKU__'' then [''BRE_OS_HAIKU'']
      else if has ''ESP8266'' then [''BRE_OS_ESP8266'']
      else if has ''ESP32'' then [''BRE_OS_ESP32'']
      else if has ''__XTENSA__'' then [''BRE_OS_XTENSA'']
      else if has ''__hexagon__'' then [''BRE_OS_QURT'']
      else if has ''CPU_QN9090'' \<or> has ''CPU_QN9090HN'' then [''BRE_OS_NXP_QN9090'']
      else if has ''NRF52'' then [''BRE_OS_NRF52'']
      else [])"

definition posix_systems :: "string list" where
  "posix_systems =
     [''BRE_OS_LINUX'', ''BRE_OS_MAC'', ''BRE_OS_IOS'', ''BRE_OS_FREEBSD'', ''BRE_OS_OPENBSD'', ''BRE_OS_NETBSD'', ''BRE_OS_DRAGONFLY'', ''BRE_OS_SOLARIS'',
      ''BRE_OS_AIX'', ''BRE_OS_HPUX'', ''BRE_OS_QNX'', ''BRE_OS_GNU_HURD'', ''BRE_OS_GNU_KFREEBSD'', ''BRE_OS_HAIKU'']"

text \<open>The end of the file: the macro for POSIX, and the \<^verbatim>\<open>#error\<close>, which is no result.\<close>

definition checked :: "string list \<Rightarrow> string list option" where
  "checked os0 =
     (let os = (if list_ex (\<lambda>m. m \<in> set os0) posix_systems then os0 @ [''BRE_OS_POSIX''] else os0)
      in if ''BRE_OS_WINDOWS'' \<notin> set os \<and> ''BRE_OS_LINUX'' \<notin> set os \<and> ''BRE_OS_MAC'' \<notin> set os
            \<and> ''BRE_OS_IOS'' \<notin> set os \<and> ''BRE_OS_LINUX_ANDROID'' \<notin> set os
         then None else Some os)"

definition platform :: "(string \<Rightarrow> bool) \<Rightarrow> (string \<Rightarrow> bool) \<Rightarrow> string list option" where
  "platform has val = checked (target_system has val)"

section \<open>Which systems are supported\<close>

text \<open>All that the two chains can yield.\<close>

definition possible_systems :: "string list list" where
  "possible_systems =
     map (Cons ''BRE_OS_WINDOWS'') [[''BRE_OS_WINDOWS_MOBILE''], [''BRE_OS_WINDOWS_DESKTOP''], [''BRE_OS_WINDOWS_PHONE''],
       [''BRE_OS_WINDOWS_RT'', ''BRE_OS_WINDOWS_UWP''], [''BRE_OS_WINDOWS_PHONE'', ''BRE_OS_WINDOWS_TV_TITLE''], [''BRE_OS_WINDOWS_GAMES'']]
     @ map (Cons ''BRE_OS_MAC'') [[], [''BRE_OS_IOS''], [''BRE_OS_VISION''], [''BRE_OS_IOS'', ''BRE_OS_VISION'']]
     @ [[''BRE_OS_LINUX''], [''BRE_OS_LINUX'', ''BRE_OS_LINUX_ANDROID''], [''BRE_OS_WINDOWS_MINGW'', ''BRE_OS_WINDOWS''], []]
     @ map (\<lambda>m. [m]) [''BRE_OS_CYGWIN'', ''BRE_OS_OS2'', ''BRE_OS_DRAGONFLY'', ''BRE_OS_FREEBSD'', ''BRE_OS_FUCHSIA'', ''BRE_OS_GNU_HURD'', ''BRE_OS_GNU_KFREEBSD'',
       ''BRE_OS_ZOS'', ''BRE_OS_SOLARIS'', ''BRE_OS_AIX'', ''BRE_OS_HPUX'', ''BRE_OS_NACL'', ''BRE_OS_NETBSD'', ''BRE_OS_OPENBSD'', ''BRE_OS_QNX'', ''BRE_OS_HAIKU'',
       ''BRE_OS_ESP8266'', ''BRE_OS_ESP32'', ''BRE_OS_XTENSA'', ''BRE_OS_QURT'', ''BRE_OS_NXP_QN9090'', ''BRE_OS_NRF52'']"

lemma if_in: "x \<in> A \<Longrightarrow> y \<in> A \<Longrightarrow> (if b then x else y) \<in> A"
  by simp

lemma target_system_possible: "target_system has val \<in> set possible_systems"
proof -
  have w: "''BRE_OS_WINDOWS'' # windows_family has val \<in> set possible_systems"
    unfolding windows_family_def by (simp add: possible_systems_def)
  show ?thesis
    unfolding target_system_def by (intro if_in w) (auto simp: possible_systems_def)
qed

definition one_system :: "string list \<Rightarrow> bool" where
  "one_system os \<longleftrightarrow>
     length (filter (\<lambda>m. List.member [''BRE_OS_WINDOWS'', ''BRE_OS_LINUX'', ''BRE_OS_MAC''] m) os) = 1
     \<and> (List.member os ''BRE_OS_POSIX'' \<longleftrightarrow> \<not> List.member os ''BRE_OS_WINDOWS'')"

lemma possible_checked: "list_all (\<lambda>os0. case checked os0 of None \<Rightarrow> True | Some os \<Rightarrow> one_system os) possible_systems"
  by code_simp

text \<open>A file that passes has exactly one of the three systems, and is POSIX exactly when it is not Windows.\<close>

theorem platform_accepted: "platform has val = Some os \<Longrightarrow> one_system os"
  using possible_checked target_system_possible [of has val] by (fastforce simp: platform_def list_all_iff)

text \<open>Systems that the table knows, and that count as POSIX, are refused all the same.\<close>

lemma platform_freebsd_refused: "platform (\<lambda>m. m = ''__FreeBSD__'') val = None"
proof -
  have "target_system (\<lambda>m. m = ''__FreeBSD__'') val = [''BRE_OS_FREEBSD'']" by (simp add: target_system_def)
  moreover have "checked [''BRE_OS_FREEBSD''] = None" by code_simp
  ultimately show ?thesis by (simp add: platform_def)
qed

section \<open>Export of the library\<close>

text \<open>\<^verbatim>\<open>BRE_EXPORT\<close>.\<close>

definition BRE_EXPORT :: "(string \<Rightarrow> bool) \<Rightarrow> string" where
  "BRE_EXPORT has =
     (if has ''_WIN32'' then if has ''BRE_IMPORT_DLL'' then ''__declspec(dllexport)'' else ''__declspec(dllimport)''
      else if has ''__GNUC__'' \<or> has ''__clang__'' then ''__attribute__((visibility(\"default\")))''
      else [])"

text \<open>The code that imports the library is compiled as the one that exports it, and the other way round.\<close>

lemma BRE_EXPORT_swapped: "has ''_WIN32'' \<Longrightarrow> has ''BRE_IMPORT_DLL'' \<Longrightarrow> BRE_EXPORT has = ''__declspec(dllexport)''"
  by (simp add: BRE_EXPORT_def)

end
