(* ===== verification/Static_Instances.thy ===== *)
theory Static_Instances
  imports Cpp_Charconv "HOL-Library.Signed_Division"
begin

text \<open>
  \<^verbatim>\<open>src/breutil/singleton.hpp\<close>, \<^verbatim>\<open>time.hpp\<close> and \<^verbatim>\<open>GetBuildInfo\<close> of \<^verbatim>\<open>generate_build_info.hpp\<close>. Threads that ask for the instance of a singleton meet in \<^verbatim>\<open>std::call_once\<close>: one of them runs
  the constructor, the others wait, and a constructor that throws leaves the flag unset.
\<close>

section \<open>The instance of a singleton\<close>

text \<open>Where a thread is in \<^verbatim>\<open>Instance()\<close>. Objects are numbered in the order of their construction.\<close>

datatype once_pc = Outside | Entering | Constructing | Returned "nat option" | Threw

record singleton =
  flag_done :: bool
  active :: "nat option"
  the_instance :: "nat option"
  built :: nat
  s_className :: string
  pcs :: "nat \<Rightarrow> once_pc"

definition singleton_start :: singleton where
  "singleton_start = \<lparr>flag_done = False, active = None, the_instance = None, built = 0, s_className = [], pcs = (\<lambda>_. Outside)\<rparr>"

definition at_pc :: "nat \<Rightarrow> once_pc \<Rightarrow> singleton \<Rightarrow> singleton" where
  "at_pc t pc s = s\<lparr>pcs := (pcs s)(t := pc)\<rparr>"

text \<open>The body of the function that runs once, without and with \<^verbatim>\<open>NDEBUG\<close>. \<open>name\<close> is what \<^verbatim>\<open>getClassName\<close> of the class returns.\<close>

definition construct :: "bool \<Rightarrow> string \<Rightarrow> singleton \<Rightarrow> singleton" where
  "construct ndebug name s =
     s\<lparr>the_instance := Some (built s), built := built s + 1, s_className := (if ndebug then s_className s else name)\<rparr>"

inductive singleton_step :: "bool \<Rightarrow> string \<Rightarrow> singleton \<Rightarrow> singleton \<Rightarrow> bool" for ndebug name where
  Call: "pcs s t \<noteq> Entering \<Longrightarrow> pcs s t \<noteq> Constructing \<Longrightarrow> singleton_step ndebug name s (at_pc t Entering s)"
| Begin: "pcs s t = Entering \<Longrightarrow> \<not> flag_done s \<Longrightarrow> active s = None \<Longrightarrow>
    singleton_step ndebug name s (at_pc t Constructing (s\<lparr>active := Some t\<rparr>))"
| Throw: "pcs s t = Constructing \<Longrightarrow> singleton_step ndebug name s (at_pc t Threw (s\<lparr>active := None\<rparr>))"
| Finish: "pcs s t = Constructing \<Longrightarrow> s' = (construct ndebug name s)\<lparr>flag_done := True, active := None\<rparr> \<Longrightarrow>
    singleton_step ndebug name s (at_pc t (Returned (the_instance s')) s')"
| Pass: "pcs s t = Entering \<Longrightarrow> flag_done s \<Longrightarrow> singleton_step ndebug name s (at_pc t (Returned (the_instance s)) s)"

inductive_cases singleton_stepE: "singleton_step ndebug name s s'"

text \<open>What \<^verbatim>\<open>~Singleton\<close> prints; \<open>type_name\<close> is what \<^verbatim>\<open>typeid\<close> gives.\<close>

definition singleton_destructor :: "bool \<Rightarrow> string \<Rightarrow> singleton \<Rightarrow> string" where
  "singleton_destructor ndebug type_name s =
     (if ndebug then []
      else (if s_className s = [] then type_name else s_className s) @ '' as singleton destruct'' @ [CHR 0x0A])"

section \<open>One object\<close>

definition singleton_ok :: "singleton \<Rightarrow> bool" where
  "singleton_ok s \<longleftrightarrow>
     (\<forall>t. pcs s t = Constructing \<longleftrightarrow> active s = Some t) \<and> (active s \<noteq> None \<longrightarrow> \<not> flag_done s)
     \<and> built s = (if flag_done s then 1 else 0) \<and> the_instance s = (if flag_done s then Some 0 else None)
     \<and> (\<forall>t p. pcs s t = Returned p \<longrightarrow> flag_done s \<and> p = Some 0)"

lemma singleton_ok_step: "singleton_step ndebug name s s' \<Longrightarrow> singleton_ok s \<Longrightarrow> singleton_ok s'"
proof (induction rule: singleton_step.induct)
  case (Call s t)
  then show ?case by (auto simp: singleton_ok_def at_pc_def)
next
  case (Begin s t)
  then show ?case by (auto simp: singleton_ok_def at_pc_def)
next
  case (Throw s t)
  then show ?case by (auto simp: singleton_ok_def at_pc_def)
next
  case (Finish s t s')
  then have "\<not> flag_done s" "active s = Some t" by (auto simp: singleton_ok_def)
  then show ?case using Finish by (auto simp: singleton_ok_def at_pc_def construct_def)
next
  case (Pass s t)
  then show ?case by (auto simp: singleton_ok_def at_pc_def)
qed

lemma singleton_reachable_ok: "(singleton_step ndebug name)\<^sup>*\<^sup>* singleton_start s \<Longrightarrow> singleton_ok s"
proof (induction rule: rtranclp_induct)
  case base
  show ?case by (simp add: singleton_ok_def singleton_start_def)
qed (rule singleton_ok_step)

text \<open>
  However the calls of the threads interleave, and however often the constructor throws, at most one object is built, every call that returns gives a pointer to it, and
  a thread that waits can go on or waits for one that runs the constructor.
\<close>

theorem singleton_instance:
  assumes "(singleton_step ndebug name)\<^sup>*\<^sup>* singleton_start s"
  shows "built s \<le> 1 \<and> (\<forall>t u p q. pcs s t = Returned p \<longrightarrow> pcs s u = Returned q \<longrightarrow> p = q \<and> p \<noteq> None)
    \<and> (\<forall>t. pcs s t = Entering \<longrightarrow> (\<exists>s' pc. singleton_step ndebug name s s' \<and> pcs s' t = pc \<and> pc \<noteq> Entering) \<or> (\<exists>u. active s = Some u \<and> pcs s u = Constructing))"
proof -
  note ok = singleton_reachable_ok [OF assms]
  have "(\<exists>s'. singleton_step ndebug name s s' \<and> pcs s' t \<noteq> Entering) \<or> (\<exists>u. active s = Some u \<and> pcs s u = Constructing)" if "pcs s t = Entering" for t
  proof (cases "flag_done s")
    case True
    then show ?thesis using Pass [OF that True, of ndebug name] by (intro disjI1 exI conjI) (auto simp: at_pc_def)
  next
    case False
    then show ?thesis
    proof (cases "active s")
      case None
      then show ?thesis using Begin [OF that False None, of ndebug name] by (intro disjI1 exI conjI) (auto simp: at_pc_def)
    next
      case (Some u)
      then show ?thesis using ok by (auto simp: singleton_ok_def)
    qed
  qed
  moreover have "built s \<le> 1" "\<And>t p. pcs s t = Returned p \<Longrightarrow> p = Some 0" using ok by (auto simp: singleton_ok_def)
  ultimately show ?thesis by blast
qed

theorem singleton_instance_witness:
  "\<exists>s. (singleton_step False ''A'')\<^sup>*\<^sup>* singleton_start s \<and> pcs s 1 = Returned (Some 0) \<and> built s \<le> 1"
proof -
  define s1 where "s1 = at_pc 1 Entering singleton_start"
  define s2 where "s2 = at_pc 1 Constructing (s1\<lparr>active := Some 1\<rparr>)"
  define s3' where "s3' = (construct False ''A'' s2)\<lparr>flag_done := True, active := None\<rparr>"
  define s3 where "s3 = at_pc 1 (Returned (the_instance s3')) s3'"
  have "singleton_step False ''A'' singleton_start s1" unfolding s1_def by (rule Call) (simp_all add: singleton_start_def)
  moreover have "singleton_step False ''A'' s1 s2"
    unfolding s2_def by (rule Begin) (simp_all add: s1_def singleton_start_def at_pc_def)
  moreover have "singleton_step False ''A'' s2 s3"
    unfolding s3_def by (rule Finish [OF _ s3'_def]) (simp add: s2_def at_pc_def)
  ultimately have r: "(singleton_step False ''A'')\<^sup>*\<^sup>* singleton_start s3" by (blast intro: converse_rtranclp_into_rtranclp)
  have "pcs s3 1 = Returned (Some 0)" by (simp add: s3_def s3'_def s2_def s1_def at_pc_def construct_def singleton_start_def)
  with singleton_instance [OF r, THEN conjunct1] r show ?thesis by (intro exI [of _ s3] conjI)
qed

section \<open>Time stamps\<close>

text \<open>The fields of the local time that the C library gives.\<close>

record tm =
  tm_year :: int
  tm_mon :: int
  tm_mday :: int
  tm_hour :: int
  tm_min :: int
  tm_sec :: int

definition pad_left :: "nat \<Rightarrow> string \<Rightarrow> string" where
  "pad_left w s = replicate (w - length s) (CHR ''0'') @ s"

definition put_time :: "tm \<Rightarrow> string" where
  "put_time t =
     pad_left 4 (to_string_int (tm_year t + 1900)) @ ''-'' @ pad_left 2 (to_string_int (tm_mon t + 1)) @ ''-'' @ pad_left 2 (to_string_int (tm_mday t)) @ '' ''
     @ pad_left 2 (to_string_int (tm_hour t)) @ '':'' @ pad_left 2 (to_string_int (tm_min t)) @ '':'' @ pad_left 2 (to_string_int (tm_sec t))"

text \<open>\<open>now\<close> is the system clock in nanoseconds, \<open>localtime\<close> the C library's conversion of seconds; both divisions of the library truncate.\<close>

definition GetCurrentTimestamp :: "(int \<Rightarrow> tm) \<Rightarrow> int \<Rightarrow> string" where
  "GetCurrentTimestamp localtime now =
     (let time_t = now sdiv 1000000000; ms = (now sdiv 1000000) smod 1000
      in put_time (localtime time_t) @ ''.'' @ pad_left 3 (to_string_int ms))"

definition tm_ok :: "tm \<Rightarrow> bool" where
  "tm_ok t \<longleftrightarrow> 0 \<le> tm_year t + 1900 \<and> tm_year t + 1900 \<le> 9999 \<and> tm_mon t \<in> {0..11} \<and> tm_mday t \<in> {1..31} \<and> tm_hour t \<in> {0..23}
     \<and> tm_min t \<in> {0..59} \<and> tm_sec t \<in> {0..60}"

lemma length_pad_left:
  assumes "0 \<le> v" "v < 10 ^ w" "0 < w"
  shows "length (pad_left w (to_string_int v)) = w"
  using assms length_to_digits [of 10 "nat v" w] by (simp add: pad_left_def to_chars_int_def nat_less_iff)

lemma digits_value_padded: "0 \<le> v \<Longrightarrow> digits_value 10 (pad_left w (to_string_int v)) = nat v"
proof -
  have "dval (CHR ''0'') = 0" by code_simp
  then have "digits_value 10 (replicate n (CHR ''0'') @ s) = digits_value 10 s" for n and s :: string
    by (induction n) (simp_all add: digits_value_def)
  then show "0 \<le> v \<Longrightarrow> ?thesis" by (simp add: pad_left_def to_chars_int_def digits_value_to_digits)
qed

text \<open>From the epoch on, a time stamp has 23 characters, of which the last three are the milliseconds.\<close>

lemma timestamp_shape:
  assumes "0 \<le> now" "tm_ok (localtime (now sdiv 1000000000))"
  shows "length (GetCurrentTimestamp localtime now) = 23"
    and "digits_value 10 (drop 20 (GetCurrentTimestamp localtime now)) = nat (now div 1000000 mod 1000)"
proof -
  let ?t = "localtime (now sdiv 1000000000)" and ?ms = "now div 1000000 mod 1000"
  have "(now sdiv 1000000) smod 1000 = ?ms" using assms(1) by (simp add: signed_divide_int_def signed_modulo_int_def sgn_if)
  then have e: "GetCurrentTimestamp localtime now = (put_time ?t @ ''.'') @ pad_left 3 (to_string_int ?ms)"
    by (simp add: GetCurrentTimestamp_def Let_def)
  have "length (put_time ?t) = 19"
    using assms(2) by (simp add: put_time_def tm_ok_def length_pad_left)
  then have l: "length (put_time ?t @ ''.'') = 20" by simp
  have m: "length (pad_left 3 (to_string_int ?ms)) = 3" by (rule length_pad_left) auto
  show "length (GetCurrentTimestamp localtime now) = 23" unfolding e using l m by simp
  show "digits_value 10 (drop 20 (GetCurrentTimestamp localtime now)) = nat ?ms"
    unfolding e using l by (simp add: digits_value_padded)
qed

section \<open>The build\<close>

text \<open>The macros of the generated header, or what stands for them without it.\<close>

record build_info =
  git_commit :: string
  git_branch :: string
  git_dirty :: bool
  git_tag :: string
  build_type :: string
  compiler_id :: string
  compiler_version :: string
  project_version :: string

definition unknown_build :: build_info where
  "unknown_build = \<lparr>git_commit = ''Unknown'', git_branch = ''Unknown'', git_dirty = False, git_tag = ''Unknown'', build_type = ''Unknown'',
     compiler_id = ''Unknown'', compiler_version = ''Unknown'', project_version = ''Unknown''\<rparr>"

definition GetBuildInfo :: "build_info option \<Rightarrow> string \<Rightarrow> string" where
  "GetBuildInfo header build_time =
     (let b = (case header of Some b \<Rightarrow> b | None \<Rightarrow> unknown_build);
          dirty_str = (if git_dirty b then ''dirty'' else ''clean'')
      in ''Built on: '' @ build_time @ '' ('' @ build_type b @ '')'' @ [CHR 0x0A]
         @ ''Git: '' @ git_branch b @ ''@'' @ git_commit b @ '' ('' @ dirty_str @ '') ['' @ git_tag b @ '']'' @ [CHR 0x0A]
         @ ''Compiler: '' @ compiler_id b @ '' '' @ compiler_version b @ [CHR 0x0A] @ ''Project Version: '' @ project_version b)"

end
