(* ===== verification/Mac_Platform.thy ===== *)
theory Mac_Platform
  imports Os_Environment "HOL-Library.Multiset"
begin

text \<open>
  \<^verbatim>\<open>src/breutil/sys_mac\<close>: the listener for USB devices, the conversion of strings, and two questions about the machine. The system's answers are arguments; the
  base class of the listener, which is not part of the repository, has the callback.
\<close>

section \<open>The USB listener\<close>

datatype usb_event = USB_DEVICE_CONNECTED | USB_DEVICE_DISCONNECTED

text \<open>\<open>calls\<close> has the calls of the callback in order, \<open>printed\<close> what is written to \<^verbatim>\<open>std::cerr\<close>.\<close>

record usb_listener =
  usb_devices :: "string set"
  usb_callback :: bool
  calls :: "(string \<times> usb_event) list"
  printed :: "string list"

definition usb_new :: usb_listener where
  "usb_new = \<lparr>usb_devices = {}, usb_callback = False, calls = [], printed = []\<rparr>"

text \<open>The callback may throw: \<open>throws\<close> gives the text of the exception.\<close>

type_synonym usb_user = "string \<Rightarrow> usb_event \<Rightarrow> string option"

definition call_back :: "usb_user \<Rightarrow> string \<Rightarrow> usb_event \<Rightarrow> usb_listener \<Rightarrow> usb_listener" where
  "call_back throws name e l =
     (if usb_callback l then
        l\<lparr>calls := calls l @ [(name, e)],
          printed := printed l @
            (case throws name e of
               None \<Rightarrow> []
             | Some w \<Rightarrow> [(case e of USB_DEVICE_CONNECTED \<Rightarrow> ''Error in USB device added callback: ''
                            | USB_DEVICE_DISCONNECTED \<Rightarrow> ''Error in USB device removed callback: '') @ w])\<rparr>
      else l)"

text \<open>
  The iterator yields devices with their product names, if they have one. A name that does not fit the buffer leaves it unwritten.
\<close>

fun deviceAdded :: "usb_user \<Rightarrow> string option list \<Rightarrow> usb_listener \<Rightarrow> usb_listener cpp_result" where
  "deviceAdded throws [] l = Ret l"
| "deviceAdded throws (None # devs) l = deviceAdded throws devs l"
| "deviceAdded throws (Some name # devs) l =
     (if 256 < length name + 1 then UB
      else deviceAdded throws devs (call_back throws (c_str name) USB_DEVICE_CONNECTED (l\<lparr>usb_devices := insert (c_str name) (usb_devices l)\<rparr>)))"

fun deviceRemoved :: "usb_user \<Rightarrow> string option list \<Rightarrow> usb_listener \<Rightarrow> usb_listener cpp_result" where
  "deviceRemoved throws [] l = Ret l"
| "deviceRemoved throws (None # devs) l = deviceRemoved throws devs l"
| "deviceRemoved throws (Some name # devs) l =
     (if 256 < length name + 1 then UB
      else deviceRemoved throws devs (call_back throws (c_str name) USB_DEVICE_DISCONNECTED (l\<lparr>usb_devices := usb_devices l - {c_str name}\<rparr>)))"

text \<open>What the calls of the registration give: which of them succeed, and the devices that the two iterators start with.\<close>

record usb_system =
  port_created :: bool
  added_matching :: bool
  added_registered :: bool
  present :: "string option list"
  removed_matching :: bool
  removed_registered :: bool
  gone :: "string option list"

definition complain :: "string \<Rightarrow> usb_listener \<Rightarrow> usb_listener" where
  "complain msg l = l\<lparr>printed := printed l @ [msg]\<rparr>"

definition registerForUsbNotifications :: "usb_user \<Rightarrow> usb_system \<Rightarrow> usb_listener \<Rightarrow> usb_listener cpp_result" where
  "registerForUsbNotifications throws sys l =
     (if \<not> port_created sys then Ret (complain ''Failed to create notification port'' l)
      else if \<not> added_matching sys then Ret (complain ''Failed to create matching dictionary'' l)
      else if \<not> added_registered sys then Ret (complain ''Failed to add matching notification for device added'' l)
      else case deviceAdded throws (present sys) l of
             UB \<Rightarrow> UB
           | Ret l1 \<Rightarrow>
               if \<not> removed_matching sys then Ret (complain ''Failed to create matching dictionary for device removed'' l1)
               else if \<not> removed_registered sys then Ret (complain ''Failed to add matching notification for device removed'' l1)
               else deviceRemoved throws (gone sys) l1)"

definition UsbListenerMac :: "usb_user \<Rightarrow> usb_system \<Rightarrow> usb_listener cpp_result" where
  "UsbListenerMac throws sys = registerForUsbNotifications throws sys usb_new"

text \<open>\<^verbatim>\<open>Run\<close>: the loop of the system delivers notifications, each with an iterator.\<close>

fun Run :: "usb_user \<Rightarrow> (usb_event \<times> string option list) list \<Rightarrow> usb_listener \<Rightarrow> usb_listener cpp_result" where
  "Run throws [] l = Ret l"
| "Run throws ((e, devs) # ns) l =
     (case (case e of USB_DEVICE_CONNECTED \<Rightarrow> deviceAdded throws devs l | USB_DEVICE_DISCONNECTED \<Rightarrow> deviceRemoved throws devs l) of
        UB \<Rightarrow> UB
      | Ret l' \<Rightarrow> Run throws ns l')"

section \<open>The devices that are attached\<close>

text \<open>The multiset of the names of the attached devices, which several may share.\<close>

fun attached :: "(usb_event \<times> string option list) list \<Rightarrow> string multiset \<Rightarrow> string multiset" where
  "attached [] M = M"
| "attached ((USB_DEVICE_CONNECTED, devs) # ns) M = attached ns (M + mset (List.map_filter id devs))"
| "attached ((USB_DEVICE_DISCONNECTED, devs) # ns) M = attached ns (M - mset (List.map_filter id devs))"

definition name_ok :: "string option \<Rightarrow> bool" where
  "name_ok d = (case d of None \<Rightarrow> True | Some name \<Rightarrow> length name < 256 \<and> CHR 0x00 \<notin> set name)"

text \<open>No two devices that are attached at one time have the same name, and only attached devices are removed.\<close>

fun names_unique :: "(usb_event \<times> string option list) list \<Rightarrow> string multiset \<Rightarrow> bool" where
  "names_unique [] M = True"
| "names_unique ((USB_DEVICE_CONNECTED, devs) # ns) M =
     (distinct (List.map_filter id devs) \<and> set (List.map_filter id devs) \<inter> set_mset M = {} \<and> names_unique ns (M + mset (List.map_filter id devs)))"
| "names_unique ((USB_DEVICE_DISCONNECTED, devs) # ns) M =
     (mset (List.map_filter id devs) \<subseteq># M \<and> names_unique ns (M - mset (List.map_filter id devs)))"

lemma usb_devices_call_back [simp]: "usb_devices (call_back throws n e l) = usb_devices l" "usb_callback (call_back throws n e l) = usb_callback l"
  by (simp_all add: call_back_def)

lemma calls_call_back: "calls (call_back throws n e l) = calls l @ (if usb_callback l then [(n, e)] else [])"
  by (simp add: call_back_def)

lemma deviceAdded_ok:
  assumes "list_all name_ok devs"
  shows "\<exists>l'. deviceAdded throws devs l = Ret l' \<and> usb_devices l' = usb_devices l \<union> set (List.map_filter id devs) \<and> usb_callback l' = usb_callback l
    \<and> calls l' = calls l @ (if usb_callback l then map (\<lambda>n. (n, USB_DEVICE_CONNECTED)) (List.map_filter id devs) else [])"
  using assms by (induction throws devs l rule: deviceAdded.induct) (auto simp: name_ok_def map_filter_simps calls_call_back)

lemma deviceRemoved_ok:
  assumes "list_all name_ok devs"
  shows "\<exists>l'. deviceRemoved throws devs l = Ret l' \<and> usb_devices l' = usb_devices l - set (List.map_filter id devs) \<and> usb_callback l' = usb_callback l
    \<and> calls l' = calls l @ (if usb_callback l then map (\<lambda>n. (n, USB_DEVICE_DISCONNECTED)) (List.map_filter id devs) else [])"
  using assms by (induction throws devs l rule: deviceRemoved.induct) (auto simp: name_ok_def map_filter_simps calls_call_back)

definition reported :: "(usb_event \<times> string option list) list \<Rightarrow> (string \<times> usb_event) list" where
  "reported ns = concat (map (\<lambda>(e, devs). map (\<lambda>n. (n, e)) (List.map_filter id devs)) ns)"

lemma set_mset_diff_unique:
  assumes "\<forall>n. count M n \<le> 1"
  shows "set_mset (M - mset xs) = set_mset M - set xs"
proof (rule set_eqI)
  fix n
  have "n \<in># M - mset xs \<longleftrightarrow> count (mset xs) n < count M n" by (simp add: in_diff_count)
  also have "\<dots> \<longleftrightarrow> 0 < count M n \<and> count (mset xs) n = 0" using spec [OF assms, of n] by linarith
  also have "\<dots> \<longleftrightarrow> n \<in> set_mset M - set xs" by (simp add: count_mset_0_iff)
  finally show "n \<in># M - mset xs \<longleftrightarrow> n \<in> set_mset M - set xs" .
qed

text \<open>
  While no two attached devices have the same name, the set of the listener has the names of the attached devices, and the callback has been told of every device that
  came and went, in order.
\<close>

theorem usb_listener_tracks:
  assumes "list_all (\<lambda>(_, devs). list_all name_ok devs) ns" "names_unique ns M" "\<forall>n. count M n \<le> 1" "usb_devices l = set_mset M"
  shows "\<exists>l'. Run throws ns l = Ret l' \<and> usb_devices l' = set_mset (attached ns M) \<and> calls l' = calls l @ (if usb_callback l then reported ns else [])"
  using assms
proof (induction ns M arbitrary: l rule: attached.induct)
  case (1 M)
  then show ?case by (simp add: reported_def)
next
  case (2 devs ns M)
  let ?xs = "List.map_filter id devs"
  obtain l1 where l1: "deviceAdded throws devs l = Ret l1" "usb_devices l1 = usb_devices l \<union> set ?xs" "usb_callback l1 = usb_callback l"
      "calls l1 = calls l @ (if usb_callback l then map (\<lambda>n. (n, USB_DEVICE_CONNECTED)) ?xs else [])"
    using deviceAdded_ok [of devs throws l] 2(2) by auto
  have d: "distinct ?xs" "set ?xs \<inter> set_mset M = {}" "names_unique ns (M + mset ?xs)" using 2(3) by simp_all
  have "count (M + mset ?xs) n \<le> 1" for n
  proof (cases "n \<in> set ?xs")
    case True
    then have "count M n = 0" using d(2) by (auto simp: count_eq_zero_iff)
    then show ?thesis using d(1) True by (simp add: distinct_count_atmost_1)
  next
    case False
    then have "count (mset ?xs) n = 0" by (simp add: count_mset_0_iff)
    with spec [OF 2(4), of n] show ?thesis unfolding count_union by linarith
  qed
  moreover have "usb_devices l1 = set_mset (M + mset ?xs)" using l1(2) 2(5) by auto
  ultimately obtain l' where "Run throws ns l1 = Ret l'" "usb_devices l' = set_mset (attached ns (M + mset ?xs))"
      "calls l' = calls l1 @ (if usb_callback l1 then reported ns else [])"
    using 2(1) [of l1] 2(2) d(3) by auto
  then show ?case using l1 by (simp add: reported_def)
next
  case (3 devs ns M)
  let ?xs = "List.map_filter id devs"
  obtain l1 where l1: "deviceRemoved throws devs l = Ret l1" "usb_devices l1 = usb_devices l - set ?xs" "usb_callback l1 = usb_callback l"
      "calls l1 = calls l @ (if usb_callback l then map (\<lambda>n. (n, USB_DEVICE_DISCONNECTED)) ?xs else [])"
    using deviceRemoved_ok [of devs throws l] 3(2) by auto
  have "\<forall>n. count (M - mset ?xs) n \<le> 1" using 3(4) by (auto intro: le_trans [OF diff_le_self])
  moreover have "usb_devices l1 = set_mset (M - mset ?xs)" using l1(2) 3(5) set_mset_diff_unique [OF 3(4)] by simp
  ultimately obtain l' where "Run throws ns l1 = Ret l'" "usb_devices l' = set_mset (attached ns (M - mset ?xs))"
      "calls l' = calls l1 @ (if usb_callback l1 then reported ns else [])"
    using 3(1) [of l1] 3(2,3) by auto
  then show ?case using l1 by (simp add: reported_def)
qed

text \<open>Two devices of one product: when one of them is unplugged the listener forgets both.\<close>

lemma usb_listener_same_name:
  "\<exists>l'. Run throws [(USB_DEVICE_CONNECTED, [Some ''Disk'', Some ''Disk'']), (USB_DEVICE_DISCONNECTED, [Some ''Disk''])] usb_new = Ret l' \<and> usb_devices l' = {}
    \<and> ''Disk'' \<in># attached [(USB_DEVICE_CONNECTED, [Some ''Disk'', Some ''Disk'']), (USB_DEVICE_DISCONNECTED, [Some ''Disk''])] {#}"
proof -
  have "c_str ''Disk'' = ''Disk''" by (rule c_str_id) simp
  then show ?thesis by (simp add: usb_new_def map_filter_simps)
qed

text \<open>The devices that are there when the listener is created are in its set, but no callback can have been installed to hear of them.\<close>

lemma usb_listener_present_unreported:
  assumes "port_created sys" "added_matching sys" "added_registered sys" "removed_matching sys" "removed_registered sys" "gone sys = []" "list_all name_ok (present sys)"
  shows "\<exists>l. UsbListenerMac throws sys = Ret l \<and> usb_devices l = set (List.map_filter id (present sys)) \<and> calls l = []"
proof -
  obtain l where "deviceAdded throws (present sys) usb_new = Ret l" "usb_devices l = set (List.map_filter id (present sys))" "calls l = []"
    using deviceAdded_ok [OF assms(7), of throws usb_new] by (auto simp: usb_new_def)
  then show ?thesis using assms(1-6) by (simp add: UsbListenerMac_def registerForUsbNotifications_def)
qed

section \<open>Strings of the system\<close>

text \<open>
  A string of the system counts UTF-16 units; \<open>utf8\<close> is its conversion. The buffer has one byte for each unit and one for the NUL, and the conversion fails if that is not
  enough.
\<close>

definition ConvertCFStringToStdString :: "('u list \<Rightarrow> string) \<Rightarrow> 'u list option \<Rightarrow> string" where
  "ConvertCFStringToStdString utf8 cfStr =
     (case cfStr of
        None \<Rightarrow> []
      | Some u \<Rightarrow> if length u = 0 then [] else if length (utf8 u) + 1 \<le> length u + 1 then c_str (utf8 u) else [])"

lemma cf_string_ascii:
  "length (utf8 u) = length u \<Longrightarrow> CHR 0x00 \<notin> set (utf8 u) \<Longrightarrow> ConvertCFStringToStdString utf8 (Some u) = utf8 u"
  by (auto simp: ConvertCFStringToStdString_def)

text \<open>A text with any character beyond ASCII takes more bytes than units, and is converted to the empty string.\<close>

lemma cf_string_lost: "length u < length (utf8 u) \<Longrightarrow> ConvertCFStringToStdString utf8 (Some u) = []"
  by (simp add: ConvertCFStringToStdString_def)

text \<open>The model of the machine, none if the call fails; at most 127 bytes of it are looked at.\<close>

definition isMacBookPro :: "string option \<Rightarrow> bool" where
  "isMacBookPro hw_model = (case hw_model of None \<Rightarrow> False | Some m \<Rightarrow> starts_with ''MacBookPro'' (c_str (take 127 m)))"

text \<open>\<^verbatim>\<open>GetVersion\<close>: the property list of the system, none if it cannot be read, with its entry for the version.\<close>

definition GetVersion :: "string option option \<Rightarrow> string" where
  "GetVersion plist =
     (case plist of
        Some (Some version) \<Rightarrow> if length version + 1 \<le> 256 then c_str version else []
      | _ \<Rightarrow> [])"

end
