(* ===== verification/Spec2Isabelle.thy ===== *)
theory Spec2Isabelle
  imports String_Util Base64_Simd Binary_IO Net_Header Strconv Hex_Codec Byte_Buffer Block_Queue Thread_Pool
    Ip_Address Mac_Address Ini_File Settings_Layer Json_Errors Flag_Parser Config_Tree
    Tcp_System Tcp_Interop Io_Context_Pool Signal_Manager Signal_Wait Task_Timer Single_Timer
    Execute_Command Os_Hardware Os_Windows Os_User Network_Interface Udp Easy_Test Time_Test Small_Helpers Windows_Version
    Platform_Config Static_Instances Mac_Platform
begin

text \<open>
  \<^bold>\<open>breutil\<close>, a header-only C++ utility library (\<^verbatim>\<open>src/breutil\<close>), as a library of theories with one theory per
  component. This theory imports them all.

  \<^bold>\<open>Conventions.\<close> A C++ function is a HOL function of the same name; where two components use one name the theory name tells them apart. A
  member function takes the object last or first and returns it updated. An exception is the left value of a sum, or \<open>None\<close>; a result that the
  standard leaves undefined is a value of its own (\<open>UB\<close>) or a separate constructor. Unsigned integers are words of their width; a signed integer
  whose overflow matters is bounded explicitly. Strings are lists of 8-bit characters. A loop whose recursion is not structural has a termination
  proof, a loop that may run forever is an \<open>option\<close>. Library code outside the repository (floating point conversion, asio, the operating system) is a
  parameter or the environment of a step function.

  \<^bold>\<open>Foundations.\<close>
  \<^item> \<open>Cpp_Prelude\<close>: types, character classes, the members of \<^verbatim>\<open>std::string\<close>, and the interfaces \<open>codec\<close>, \<open>strict_codec\<close> and \<open>fifo\<close>, interpreted on the
    quoting functions, the hexadecimal and base64 codecs, the text of addresses, the byte buffer and the blocking queue.
  \<^item> \<open>Cpp_Charconv\<close>: \<^verbatim>\<open>std::to_string\<close>, \<^verbatim>\<open>from_chars\<close>, \<^verbatim>\<open>stoi\<close> and their relatives.
  \<^item> \<open>Std_Map\<close>: \<^verbatim>\<open>std::map\<close> as a sorted association list, and the interface \<open>kv_store\<close>, interpreted on it and on ini files.

  \<^bold>\<open>Texts and codecs.\<close>
  \<^item> \<open>String_Util\<close> (\<^verbatim>\<open>string_util.hpp\<close>): splitting, joining, replacing, with the divergence on empty patterns.
  \<^item> \<open>Strconv\<close> (\<^verbatim>\<open>strconv.hpp\<close>): parsing and printing of integers in every base and quoting; exactness of \<^verbatim>\<open>ParseUint\<close>, round trips, the overflow of \<^verbatim>\<open>ParseInt\<close>.
  \<^item> \<open>Base64\<close> (\<^verbatim>\<open>encoding/base64.hpp\<close>): both validators; a text decodes exactly if it is an encoding. \<open>Base64_Simd\<close>: the vectorised coder that the file keeps switched off, which agrees with the one in use.
  \<^item> \<open>Hex_Codec\<close>, \<open>Binary_IO\<close> (\<^verbatim>\<open>encoding/hex.hpp\<close>, \<^verbatim>\<open>binary_io.hpp\<close>): round trips.
  \<^item> \<open>Ip_Address\<close>, \<open>Mac_Address\<close> (\<^verbatim>\<open>net/ip.hpp\<close>, \<^verbatim>\<open>net/mac.hpp\<close>): parsing and printing of addresses.

  \<^bold>\<open>Structured data.\<close>
  \<^item> \<open>Json_Value\<close>, \<open>Json_Generator\<close>, \<open>Json_Parser\<close> (\<^verbatim>\<open>json/*.hpp\<close>) and \<open>Json_Round_Trip\<close>: the value type with its mutations and equality, printing,
    and the recursive descent parser with the two cleaning passes of the lenient mode. The parser takes fuel; \<open>2 * length s + 2\<close> is enough for every text, since every call consumes a
    character or goes one production down, and the theorem that parsing is total is proved for that amount.
    \<open>Json_Errors\<close>: the exceptions with the text that a caller reads, which is cut short for an error at the end of the input.
  \<^item> \<open>Ini_File\<close>, \<open>Settings_Layer\<close> (\<^verbatim>\<open>ini.hpp\<close>, \<^verbatim>\<open>settings.hpp\<close>): saving and loading, defaults over stored values.
  \<^item> \<open>Flag_Parser\<close> (\<^verbatim>\<open>flag.hpp\<close>): the command line; \<open>Config_Tree\<close> (\<^verbatim>\<open>config.hpp\<close>): the tree of typed settings with validators, callbacks and
    import and export as JSON, on top of the JSON theories.

  \<^bold>\<open>Concurrency.\<close>
  \<^item> \<open>Byte_Buffer\<close> (\<^verbatim>\<open>buffer.hpp\<close>): indices with wrap-around; refinement of a queue of bytes.
  \<^item> \<open>Block_Queue\<close> (\<^verbatim>\<open>block_queue.hpp\<close>): the operations as atomic steps with their notifications, and a system of threads waiting on two condition variables;
    order of delivery and absence of lost wake-ups.
  \<^item> \<open>Thread_Pool\<close> (\<^verbatim>\<open>thread_pool.hpp\<close>): workers as a step relation; exact counters, draining, \<^verbatim>\<open>WaitAll\<close>.
  \<^item> \<open>Task_Timer\<close> (\<^verbatim>\<open>timer.hpp\<close>): the timer of several tasks as a step relation with a clock.
  \<^item> \<open>Signal_Manager\<close> (\<^verbatim>\<open>os/signal.hpp\<close>): the registry of signal handlers refines a table of registrations; the protocol of restarting its thread, with a deadlock. \<open>Signal_Wait\<close>: the temporary handler of \<^verbatim>\<open>wait\<close>, which a second signal turns into the end of the program.

  \<^bold>\<open>Network.\<close>
  \<^item> \<open>Net_Header\<close> (\<^verbatim>\<open>net/net_header.hpp\<close>): the fixed-size header for both byte orders of the host.
  \<^item> \<open>Tcp_Framing\<close>: the frame that \<^verbatim>\<open>Send\<close> builds, and the interface \<open>message_receiver\<close> with its behaviour on a segmented stream, interpreted on both implementations of \<^verbatim>\<open>TCPSession\<close>:
    \<open>Tcp_Session\<close> (\<^verbatim>\<open>tcp_session_impl_v1.hpp\<close>, completion handlers and timers) and \<open>Tcp_Session_V2\<close> (\<^verbatim>\<open>tcp_session_impl_v2.hpp\<close>, coroutines between their suspension points).
    In both, asio is the environment: an event completes an outstanding operation with any result it may have.
  \<^item> \<open>Tcp_Server\<close>, \<open>Tcp_Client\<close> (\<^verbatim>\<open>tcp_server.hpp\<close>, \<^verbatim>\<open>tcp_client.hpp\<close>, \<^verbatim>\<open>tcp_config.hpp\<close>): the registry of sessions, whose invariant links the map, the session objects and
    the reported events; connecting. the asynchronous connect as a state machine that never works.
    \<open>Tcp_System\<close> puts client and server together, \<open>Tcp_Interop\<close> the two implementations of a session.
  \<^item> \<open>Io_Context_Pool\<close> (\<^verbatim>\<open>asio_io_context_pool.hpp\<close>): round robin over the event loops.

  \<^bold>\<open>System.\<close> The operating system is an argument or the environment of these models: what it answers is unconstrained, except for hypotheses that a theorem names.
  \<^item> \<open>Os_Environment\<close>, \<open>Os_Hardware\<close> (\<^verbatim>\<open>os.hpp\<close>): the environment array of the process as a store of names and values, interpreted as a \<open>kv_store\<close>, and what is
    read from \<^verbatim>\<open>/proc\<close>, the PCI database and the vendor tools; the count of processor cores. \<open>Os_Windows\<close>: the environment block, which \<^verbatim>\<open>Environ\<close> reads to its end, and the paths on Windows.
  \<^item> \<open>Os_User\<close> (\<^verbatim>\<open>os/user.hpp\<close>): lookups in the databases of users and groups.
  \<^item> \<open>Execute_Command\<close> (\<^verbatim>\<open>execute_command.hpp\<close>, \<^verbatim>\<open>sys_lin\<close>, \<^verbatim>\<open>sys_win\<close>): running a child with a time limit. The polling loop is a partial function; with a limit of \<open>t\<close>
    milliseconds it is shown to end after at most \<open>(t + 49) div 50\<close> rounds, equal to a specification that looks for the first round at which the child has ended.
  \<^item> \<open>Network_Interface\<close> (\<^verbatim>\<open>net/network_interface.hpp\<close>): the cached list of interfaces, on the models of addresses.
  \<^item> \<open>Udp\<close> (\<^verbatim>\<open>net/udp\<close>): server and client of datagrams as steps between completions.
  \<^item> \<open>Single_Timer\<close> (\<^verbatim>\<open>timer.hpp\<close>): the timer with one callback and its thread; spacing of the calls, cancelling.
  \<^item> \<open>Easy_Test\<close>, \<open>Time_Test\<close> (\<^verbatim>\<open>easy_test.hpp\<close>, \<^verbatim>\<open>time_test.hpp\<close>): the test registry with its assertions and report, and the stop watch.
  \<^item> \<open>Small_Helpers\<close>, \<open>Windows_Version\<close>: the console logger, \<^verbatim>\<open>FileWriter\<close>, the build time, \<^verbatim>\<open>Defer\<close>, process numbers, and the classification of Windows versions.
  \<^item> \<open>Static_Instances\<close> (\<^verbatim>\<open>singleton.hpp\<close>, \<^verbatim>\<open>time.hpp\<close>, \<^verbatim>\<open>generate_build_info.hpp\<close>): the instance of a singleton under calls of many threads, time stamps, the text of the build.
  \<^item> \<open>Mac_Platform\<close> (\<^verbatim>\<open>sys_mac\<close>): the USB listener against the multiset of attached devices, and strings of the system.
  \<^item> \<open>Platform_Config\<close> (\<^verbatim>\<open>platform.hpp\<close>, \<^verbatim>\<open>lib_export.hpp\<close>): what the preprocessor makes of the macros of the compiler.

  \<^bold>\<open>Not modelled.\<close> \<^verbatim>\<open>os/exec.hpp\<close> has declarations only, \<^verbatim>\<open>system.hpp\<close> makes one call of the platform, \<^verbatim>\<open>compiler.hpp\<close> names pragmas. Four pieces do not compile, so that they have no
  meaning to model: the Windows branch of \<^verbatim>\<open>os/user.hpp\<close>, \<^verbatim>\<open>sys_mac/get_permission.h\<close>, and \<^verbatim>\<open>internal_get_version_numbers\<close> and \<^verbatim>\<open>processor_model_name\<close> of \<^verbatim>\<open>sys_win/version.hpp\<close>.
  Within the modelled components these are parameters: the conversions of floating point numbers, the regular expressions that users give to \<^verbatim>\<open>UDPServer\<close>, and the Windows conversions of
  strings. Left out are the members that only read the clock and print it, and the double overloads of \<^verbatim>\<open>Settings\<close>. The server is modelled on the callback sessions; that sessions with
  coroutines do the same on a connection is \<open>Tcp_Interop\<close>, but the registry of the server is not repeated for them.
\<close>

end
